(* ===== verification/Prelude.thy ===== *)
theory Prelude
  imports Main "HOL-Library.Word" "HOL-Library.Monad_Syntax"
begin

unbundle bit_operations_syntax

text \<open>
  Shared vocabulary of the development: the machine integers of the i386 build, the reading of
  C strings and fixed buffers as lists of bytes, the little-endian encoding of packed struct
  fields, and the list and word lemmas that the component theories use. A result of type
  \<open>'a option\<close> is \<open>None\<close> where the C code has no defined result: signed overflow, an access
  outside an object, a division by zero, or a loop that never ends.
\<close>

section \<open>Machine integers\<close>

type_synonym u8 = "8 word"
type_synonym u16 = "16 word"
type_synonym u32 = "32 word"

text \<open>The result of an \<open>int\<close> computation: undefined outside the range of \<open>int\<close>.\<close>

definition cint :: "int \<Rightarrow> int option" where
  "cint x = (if - (2 ^ 31) \<le> x \<and> x < 2 ^ 31 then Some x else None)"

lemma cint_Some_iff [simp]: "cint x = Some y \<longleftrightarrow> y = x \<and> - 2147483648 \<le> x \<and> x < 2147483648"
  by (auto simp: cint_def)

lemma cint_None_iff [simp]: "cint x = None \<longleftrightarrow> x < - 2147483648 \<or> 2147483648 \<le> x"
  by (auto simp: cint_def)

section \<open>Rules collected for the proofs\<close>

named_theorems disk_simps \<open>evaluation of disk operations on an ideal drive\<close>
named_theorems frame_simps \<open>what an operation leaves unchanged\<close>
named_theorems len_simps \<open>lengths of byte sequences\<close>

section \<open>Buffers as byte lists\<close>

type_synonym bytes = "u8 list"

text \<open>\<open>sub_bytes xs off n\<close> is the \<open>n\<close> bytes at \<open>off\<close>; \<open>put_bytes xs off ys\<close> stores \<open>ys\<close> there.\<close>

definition sub_bytes :: "'a list \<Rightarrow> nat \<Rightarrow> nat \<Rightarrow> 'a list" where
  "sub_bytes xs off n = take n (drop off xs)"

definition put_bytes :: "'a list \<Rightarrow> nat \<Rightarrow> 'a list \<Rightarrow> 'a list" where
  "put_bytes xs off ys = take off xs @ ys @ drop (off + length ys) xs"

lemma length_sub_bytes [simp, len_simps]: "length (sub_bytes xs off n) = min n (length xs - off)"
  by (simp add: sub_bytes_def)

lemma length_put_bytes [simp, len_simps]:
  "off + length ys \<le> length xs \<Longrightarrow> length (put_bytes xs off ys) = length xs"
  by (simp add: put_bytes_def)

lemma sub_bytes_put_bytes_same [simp]: "off \<le> length xs \<Longrightarrow> sub_bytes (put_bytes xs off ys) off (length ys) = ys"
  by (simp add: sub_bytes_def put_bytes_def)

lemma nth_sub_bytes [simp]: "i < n \<Longrightarrow> off + i < length xs \<Longrightarrow> sub_bytes xs off n ! i = xs ! (off + i)"
  by (simp add: sub_bytes_def)

lemma nth_put_bytes:
  assumes "off + length ys \<le> length xs" and "i < length xs"
  shows "put_bytes xs off ys ! i =
    (if off \<le> i \<and> i < off + length ys then ys ! (i - off) else xs ! i)"
  using assms by (auto simp: put_bytes_def nth_append min_def)

lemma sub_bytes_put_bytes_other:
  assumes "off + length ys \<le> length xs" and "off' + n \<le> length xs"
    and "off' + n \<le> off \<or> off + length ys \<le> off'"
  shows "sub_bytes (put_bytes xs off ys) off' n = sub_bytes xs off' n"
proof (rule nth_equalityI)
  show "length (sub_bytes (put_bytes xs off ys) off' n) = length (sub_bytes xs off' n)"
    using assms by simp
next
  fix i assume "i < length (sub_bytes (put_bytes xs off ys) off' n)"
  then show "sub_bytes (put_bytes xs off ys) off' n ! i = sub_bytes xs off' n ! i"
    using assms by (auto simp: nth_put_bytes)
qed

lemma put_bytes_sub_bytes_same [simp]: "off + n \<le> length xs \<Longrightarrow> put_bytes xs off (sub_bytes xs off n) = xs"
  by (rule nth_equalityI) (auto simp: nth_put_bytes)

lemma sub_bytes_full [simp]: "n = length xs \<Longrightarrow> sub_bytes xs 0 n = xs"
  by (simp add: sub_bytes_def)

section \<open>C strings\<close>

text \<open>
  A C string handed to a function is given by its bytes; reading at its length or beyond gives
  the terminating NUL. Plain \<open>char\<close> is signed on the target, but every character test of the
  code compares with ASCII bounds, where the signed and the unsigned reading agree.
\<close>

definition cch :: "bytes \<Rightarrow> nat \<Rightarrow> u8" where
  "cch p i = (if i < length p then p ! i else 0)"

lemma cch_beyond [simp]: "length p \<le> i \<Longrightarrow> cch p i = 0"
  by (simp add: cch_def)

lemma cch_append [simp]: "cch (xs @ ys) (length xs + i) = cch ys i"
  by (simp add: cch_def nth_append)

text \<open>The contents of a buffer up to its first NUL.\<close>

definition cstr :: "bytes \<Rightarrow> bytes" where
  "cstr b = takeWhile (\<lambda>c. c \<noteq> 0) b"

lemma cstr_nonzero: "c \<in> set (cstr b) \<Longrightarrow> c \<noteq> 0"
  unfolding cstr_def by (blast dest: set_takeWhileD)

lemma cstr_append_NUL [simp]: "0 \<notin> set p \<Longrightarrow> cstr (p @ 0 # q) = p"
  unfolding cstr_def by (subst takeWhile_append2) auto

lemma cstr_id [simp]: "0 \<notin> set p \<Longrightarrow> cstr p = p"
  unfolding cstr_def by (subst takeWhile_eq_all_conv) auto

lemma length_cstr_less: "0 \<in> set b \<Longrightarrow> length (cstr b) < length b"
  by (induction b) (auto simp: cstr_def)

lemma nth_cstr: "i < length (cstr b) \<Longrightarrow> cstr b ! i = b ! i"
  by (simp add: cstr_def takeWhile_nth)

lemma nth_cstr_nonzero: "i < length (cstr b) \<Longrightarrow> b ! i \<noteq> 0"
  by (metis cstr_nonzero nth_cstr nth_mem)

lemma nth_length_cstr: "0 \<in> set b \<Longrightarrow> b ! length (cstr b) = 0"
  by (induction b) (auto simp: cstr_def)

lemma put_bytes_Cons:
  "i < length xs \<Longrightarrow> put_bytes (xs[i := c]) (Suc i) ys = put_bytes xs i (c # ys)"
  by (simp add: put_bytes_def take_Suc_conv_app_nth)

lemma put_bytes_Nil [simp]: "put_bytes xs i [] = xs"
  by (simp add: put_bytes_def)

lemma put_bytes_single: "i < length xs \<Longrightarrow> put_bytes xs i [c] = xs[i := c]"
  by (simp add: put_bytes_def upd_conv_take_nth_drop)

lemma put_bytes_snoc:
  "i + length ys < length xs \<Longrightarrow>
     (put_bytes xs i ys)[i + length ys := c] = put_bytes xs i (ys @ [c])"
  by (simp add: put_bytes_def list_update_append upd_conv_take_nth_drop)

text \<open>The characters of a string literal, without the terminator.\<close>

definition chars :: "string \<Rightarrow> bytes" where
  "chars str = map (\<lambda>c. of_nat (of_char c)) str"

lemma length_chars [simp]: "length (chars str) = length str"
  by (simp add: chars_def)

section \<open>Little-endian fields\<close>

lemma bit_u8_beyond [simp]: "8 \<le> n \<Longrightarrow> \<not> bit (a :: u8) n"
  using bit_imp_le_length [of a n] by auto

lemma bit_u8D: "bit (a :: u8) n \<Longrightarrow> n < 8"
  using bit_imp_le_length [of a n] by simp

definition u16_of_le :: "u8 \<Rightarrow> u8 \<Rightarrow> u16" where
  "u16_of_le lo hi = ucast lo OR push_bit 8 (ucast hi)"

definition le_of_u16 :: "u16 \<Rightarrow> bytes" where
  "le_of_u16 w = [ucast w, ucast (drop_bit 8 w)]"

definition u32_of_le :: "u8 \<Rightarrow> u8 \<Rightarrow> u8 \<Rightarrow> u8 \<Rightarrow> u32" where
  "u32_of_le a b c d =
     ucast a OR push_bit 8 (ucast b) OR push_bit 16 (ucast c) OR push_bit 24 (ucast d)"

definition le_of_u32 :: "u32 \<Rightarrow> bytes" where
  "le_of_u32 w = [ucast w, ucast (drop_bit 8 w), ucast (drop_bit 16 w), ucast (drop_bit 24 w)]"

lemma length_le_of [simp, len_simps]: "length (le_of_u16 w) = 2" "length (le_of_u32 v) = 4"
  by (simp_all add: le_of_u16_def le_of_u32_def)

lemma u16_of_le_of_u16 [simp]: "u16_of_le (ucast w) (ucast (drop_bit 8 w)) = w"
  unfolding u16_of_le_def by (rule bit_word_eqI) (auto simp: bit_simps)

lemma le_of_u16_of_le [simp]: "le_of_u16 (u16_of_le a b) = [a, b]"
  unfolding le_of_u16_def u16_of_le_def
  by (auto intro!: bit_word_eqI simp: bit_simps)

lemma u32_of_le_of_u32 [simp]:
  "u32_of_le (ucast w) (ucast (drop_bit 8 w)) (ucast (drop_bit 16 w)) (ucast (drop_bit 24 w)) = w"
  unfolding u32_of_le_def
proof (rule bit_word_eqI)
  fix n assume "n < LENGTH(32)"
  then consider "n < 8" | "8 \<le> n \<and> n < 16" | "16 \<le> n \<and> n < 24" | "24 \<le> n \<and> n < 32"
    by fastforce
  then show "bit (ucast (ucast w :: u8) OR push_bit 8 (ucast (ucast (drop_bit 8 w) :: u8))
      OR push_bit 16 (ucast (ucast (drop_bit 16 w) :: u8))
      OR push_bit 24 (ucast (ucast (drop_bit 24 w) :: u8)) :: u32) n = bit w n"
    by cases (auto simp: bit_simps)
qed

lemma le_of_u32_of_le [simp]: "le_of_u32 (u32_of_le a b c d) = [a, b, c, d]"
  unfolding le_of_u32_def u32_of_le_def
  by (auto intro!: bit_word_eqI simp: bit_simps)

section \<open>Words as natural numbers\<close>

lemma unat_u16_less: "unat (w :: u16) < 65536"
  using unsigned_less [of w, where ?'a = nat] by simp

lemma unat_u8_less: "unat (w :: u8) < 256"
  using unsigned_less [of w, where ?'a = nat] by simp

lemma unat_u32_less: "unat (w :: u32) < 4294967296"
  using unsigned_less [of w, where ?'a = nat] by simp

lemma unat_ucast_u16_u32 [simp]: "unat (ucast (w :: u16) :: u32) = unat w"
  using unat_u16_less [of w] by (simp add: unsigned_ucast_eq take_bit_nat_eq_self)

lemma unat_ucast_u8_u32 [simp]: "unat (ucast (w :: u8) :: u32) = unat w"
  using unat_u8_less [of w] by (simp add: unsigned_ucast_eq take_bit_nat_eq_self)

lemma unat_add_u32: "unat a + unat b < 4294967296 \<Longrightarrow> unat (a + b :: u32) = unat a + unat b"
  by (simp add: unat_word_ariths)

lemma unat_mult_u32: "unat a * unat b < 4294967296 \<Longrightarrow> unat (a * b :: u32) = unat a * unat b"
  by (simp add: unat_word_ariths)

lemma unat_of_nat_u32: "n < 4294967296 \<Longrightarrow> unat (of_nat n :: u32) = n"
  by (simp add: unat_of_nat take_bit_nat_eq_self)

lemma mult_less_u8_u16: "unat (a :: u8) * unat (b :: u16) < 16777216"
proof -
  have "unat a * unat b \<le> 255 * 65535"
    using unat_u8_less [of a] unat_u16_less [of b] by (intro mult_le_mono) linarith+
  then show ?thesis by simp
qed

lemma sint_small: "unat w < 2147483648 \<Longrightarrow> sint (w :: u32) = int (unat w)"
proof -
  assume w: "unat w < 2147483648"
  have u: "uint w = int (unat w)" by simp
  with w have "uint w < 2147483648" "- 2147483648 \<le> uint w" by linarith+
  then show ?thesis
    by (subst sint_uint, subst signed_take_bit_int_eq_self) simp_all
qed

end
