(* ===== verification/Drive.thy ===== *)
theory Drive
  imports Prelude
begin

text \<open>
  The drive layer, \<open>kernel/LineDrive.c\<close>: the drive identifiers and the dispatch of a sector
  access to the floppy driver. The three entry points of the driver (\<open>i386/floppy.c\<close>) are the
  record \<open>floppy_ops\<close>, whose functions act on a state \<open>'d\<close> of driver and device; \<open>None\<close> is a
  call that never returns (the driver panics or waits forever). A read takes the present
  contents of the caller's buffer and gives the new ones, so a failed read leaves the buffer as
  the driver left it. The configuration is the default one: \<open>CONFIG_DRIVE\<close>, \<open>CONFIG_FLOPPY\<close>
  and \<open>CONFIG_FAT12\<close> are set.
\<close>

datatype drivesformat = nodrive | fdrive1

text \<open>The enumerators are ordered as in the source: \<open>nodrive < fdrive1\<close>.\<close>

instantiation drivesformat :: linorder
begin

definition less_eq_drivesformat :: "drivesformat \<Rightarrow> drivesformat \<Rightarrow> bool" where
  "less_eq_drivesformat a b \<longleftrightarrow> a = nodrive \<or> b = fdrive1"

definition less_drivesformat :: "drivesformat \<Rightarrow> drivesformat \<Rightarrow> bool" where
  "less_drivesformat a b \<longleftrightarrow> a = nodrive \<and> b = fdrive1"

instance
  by standard
    (auto simp: less_eq_drivesformat_def less_drivesformat_def intro: drivesformat.exhaust)

end

record 'd floppy_ops =
  floppy_init :: "'d \<Rightarrow> (int \<times> 'd) option"
  floppy_read_sector :: "u32 \<Rightarrow> bytes \<Rightarrow> 'd \<Rightarrow> ((int \<times> bytes) \<times> 'd) option"
  floppy_write_sector :: "u32 \<Rightarrow> bytes \<Rightarrow> 'd \<Rightarrow> (int \<times> 'd) option"

definition drive_init :: "'d floppy_ops \<Rightarrow> drivesformat \<Rightarrow> 'd \<Rightarrow> (int \<times> 'd) option" where
  "drive_init F drv d = (case drv of fdrive1 \<Rightarrow> floppy_init F d | _ \<Rightarrow> Some (-1, d))"

definition read_drive_sector ::
    "'d floppy_ops \<Rightarrow> drivesformat \<Rightarrow> u32 \<Rightarrow> bytes \<Rightarrow> 'd \<Rightarrow> ((int \<times> bytes) \<times> 'd) option" where
  "read_drive_sector F drv lba out_buf d =
     (case drv of
        fdrive1 \<Rightarrow> floppy_read_sector F lba out_buf d
      | _ \<Rightarrow> Some ((-1, out_buf), d))"

definition write_drive_sector ::
    "'d floppy_ops \<Rightarrow> drivesformat \<Rightarrow> u32 \<Rightarrow> bytes \<Rightarrow> 'd \<Rightarrow> (int \<times> 'd) option" where
  "write_drive_sector F drv lba in_buf d =
     (case drv of
        fdrive1 \<Rightarrow> floppy_write_sector F lba in_buf d
      | _ \<Rightarrow> Some (-1, d))"

definition drive_name :: "drivesformat \<Rightarrow> string" where
  "drive_name drv = (case drv of fdrive1 \<Rightarrow> ''fdrive1'' | _ \<Rightarrow> ''(none)'')"

section \<open>The ideal drive\<close>

text \<open>
  A disk image gives the 512 bytes of each sector. The ideal driver works on an image: every
  read delivers the sector, every write stores it. It is the specification against which the
  file system is verified.
\<close>

type_synonym image = "u32 \<Rightarrow> bytes"

definition ideal_floppy :: "image floppy_ops" where
  "ideal_floppy = \<lparr>
     floppy_init = (\<lambda>im. Some (0, im)),
     floppy_read_sector = (\<lambda>lba buf im. Some ((0, im lba), im)),
     floppy_write_sector = (\<lambda>lba buf im. Some (0, im(lba := buf)))\<rparr>"

lemma read_drive_sector_ideal [disk_simps]:
  "read_drive_sector ideal_floppy fdrive1 lba buf im = Some ((0, im lba), im)"
  by (simp add: read_drive_sector_def ideal_floppy_def)

lemma write_drive_sector_ideal [disk_simps]:
  "write_drive_sector ideal_floppy fdrive1 lba buf im = Some (0, im(lba := buf))"
  by (simp add: write_drive_sector_def ideal_floppy_def)

definition wf_image :: "image \<Rightarrow> bool" where
  "wf_image im \<longleftrightarrow> (\<forall>lba. length (im lba) = 512)"

lemma wf_image_length [simp, len_simps]: "wf_image im \<Longrightarrow> length (im lba) = 512"
  by (simp add: wf_image_def)

lemma wf_image_upd [simp]: "wf_image im \<Longrightarrow> length buf = 512 \<Longrightarrow> wf_image (im(lba := buf))"
  by (simp add: wf_image_def)

text \<open>The same contents stored at several sectors.\<close>

definition store_all :: "u32 list \<Rightarrow> bytes \<Rightarrow> image \<Rightarrow> image" where
  "store_all secs buf im = (\<lambda>lba. if lba \<in> set secs then buf else im lba)"

lemma store_all_apply: "store_all secs buf im lba = (if lba \<in> set secs then buf else im lba)"
  by (simp add: store_all_def)

lemma store_all_Nil [simp]: "store_all [] buf im = im"
  by (simp add: store_all_def)

lemma store_all_upd [simp]: "store_all secs buf (im(sec := buf)) = store_all (sec # secs) buf im"
  by (auto simp: store_all_def)

lemma wf_image_store_all [simp]:
  "wf_image im \<Longrightarrow> length buf = 512 \<Longrightarrow> wf_image (store_all secs buf im)"
  by (simp add: wf_image_def store_all_def)

end
