(* ===== verification/Str.thy ===== *)
theory Str
  imports Prelude
begin

text \<open>
  The string and memory routines of \<open>kernel/str.c\<close> and the two BSD routines it includes,
  \<open>strlcpy\<close> and \<open>strcmp\<close>. A pointer argument is the list of the bytes from the pointer to the
  end of its object; a loop that would leave the object gives \<open>None\<close>. The lemmas show that each
  routine stays inside its objects and computes its textbook specification on the C strings
  (\<open>cstr\<close>) the buffers hold.
\<close>

section \<open>strlen\<close>

function strlen_from :: "bytes \<Rightarrow> nat \<Rightarrow> nat option" where
  "strlen_from str len =
     (if length str \<le> len then None
      else if str ! len \<noteq> 0 then strlen_from str (Suc len) else Some len)"
  by pat_completeness auto
termination by (relation "measure (\<lambda>(str, len). length str - len)") auto

declare strlen_from.simps [simp del]

definition strlen :: "bytes \<Rightarrow> nat option" where
  "strlen str = strlen_from str 0"

lemma strlen_from_eq:
  "strlen_from str len =
     (if 0 \<in> set (drop len str) then Some (len + length (cstr (drop len str))) else None)"
proof (induction str len rule: strlen_from.induct)
  case (1 str len)
  show ?case
  proof (cases "length str \<le> len")
    case True
    then show ?thesis by (simp add: strlen_from.simps [of str len])
  next
    case False
    then have split: "drop len str = str ! len # drop (Suc len) str"
      by (simp add: Cons_nth_drop_Suc)
    show ?thesis
    proof (cases "str ! len = 0")
      case True
      with False split show ?thesis by (simp add: strlen_from.simps [of str len] cstr_def)
    next
      case ne: False
      with False 1 have "strlen_from str len = strlen_from str (Suc len)"
        by (simp add: strlen_from.simps [of str len])
      with "1" [OF False ne] split ne show ?thesis by (simp add: cstr_def)
    qed
  qed
qed

text \<open>\<open>strlen\<close> returns the length of the string exactly when the object holds a terminator.\<close>

lemma strlen_eq: "strlen str = (if 0 \<in> set str then Some (length (cstr str)) else None)"
  by (simp add: strlen_def strlen_from_eq)

section \<open>strlcpy and strcmp\<close>

text \<open>
  The copy loop of \<open>strlcpy\<close>: \<open>nleft\<close> counts down, \<open>i\<close> is the common offset of both pointers.
  The result is the destination and the offset reached in the source. Neither pointer may
  leave its object.
\<close>

fun strlcpy_copy :: "bytes \<Rightarrow> bytes \<Rightarrow> nat \<Rightarrow> nat \<Rightarrow> (bytes \<times> nat \<times> nat) option" where
  "strlcpy_copy dst src 0 i = Some (dst, 0, i)"
| "strlcpy_copy dst src (Suc nleft) i =
     (if nleft = 0 then Some (dst, 0, i)
      else if length src \<le> i \<or> length dst \<le> i then None
      else if src ! i = 0 then Some (dst[i := src ! i], nleft, Suc i)
      else strlcpy_copy (dst[i := src ! i]) src nleft (Suc i))"

definition strlcpy :: "bytes \<Rightarrow> bytes \<Rightarrow> nat \<Rightarrow> (bytes \<times> nat) option" where
  "strlcpy dst src dsize = do {
     (dst, nleft, i) \<leftarrow> strlcpy_copy dst src dsize 0;
     if nleft = 0 then
       if dsize \<noteq> 0 \<and> length dst \<le> i then None
       else do {
         let dst = (if dsize \<noteq> 0 then dst[i := 0] else dst);
         n \<leftarrow> strlen_from src i;
         Some (dst, n)
       }
     else Some (dst, i - 1)
   }"

fun strcmp_from :: "bytes \<Rightarrow> bytes \<Rightarrow> int option" where
  "strcmp_from (a # s1) (b # s2) =
     (if a = b then (if a = 0 then Some 0 else strcmp_from s1 s2)
      else Some (uint a - uint b))"
| "strcmp_from _ _ = None"

definition strcmp :: "bytes \<Rightarrow> bytes \<Rightarrow> int option" where
  "strcmp s1 s2 = strcmp_from s1 s2"

text \<open>What the file system code sees of the two: the contents \<open>strlcpy\<close> leaves in a buffer
  of \<open>n\<close> bytes, and whether \<open>strcmp\<close> returned zero.\<close>

definition strlcpy_str :: "bytes \<Rightarrow> nat \<Rightarrow> bytes" where
  "strlcpy_str src n = take (n - 1) (cstr src)"

lemma strlcpy_str_short [simp]: "0 \<notin> set p \<Longrightarrow> length p < n \<Longrightarrow> strlcpy_str p n = p"
  by (simp add: strlcpy_str_def)

lemma length_strlcpy_str [len_simps]: "0 < n \<Longrightarrow> length (strlcpy_str p n) < n"
  by (auto simp: strlcpy_str_def min_def)

lemma strcmp_from_zero_iff:
  "0 \<in> set s1 \<Longrightarrow> 0 \<in> set s2 \<Longrightarrow> strcmp_from s1 s2 = Some 0 \<longleftrightarrow> cstr s1 = cstr s2"
  by (induction s1 s2 rule: strcmp_from.induct) (auto simp: cstr_def uint_0_iff simp flip: word_uint_eq_iff)

lemma strcmp_zero_iff:
  "0 \<in> set s1 \<Longrightarrow> 0 \<in> set s2 \<Longrightarrow> strcmp s1 s2 = Some 0 \<longleftrightarrow> cstr s1 = cstr s2"
  by (simp add: strcmp_def strcmp_from_zero_iff)

lemma strcmp_from_defined:
  "0 \<in> set s1 \<Longrightarrow> 0 \<in> set s2 \<Longrightarrow> \<exists>r. strcmp_from s1 s2 = Some r"
  by (induction s1 s2 rule: strcmp_from.induct) auto

lemma strlcpy_copy_fits:
  assumes "0 \<in> set src" and "i \<le> length (cstr src)" and "i + n \<le> length dst"
    and "length (cstr src) < i + (n - 1)"
  shows "strlcpy_copy dst src n i =
    Some (put_bytes dst i (drop i (cstr src) @ [0]), i + n - 1 - length (cstr src),
      Suc (length (cstr src)))"
  using assms
proof (induction n arbitrary: dst i)
  case 0
  then show ?case by simp
next
  case (Suc n)
  have i: "i < length src" "i < length dst" "n \<noteq> 0"
    using Suc.prems length_cstr_less [of src] by auto
  show ?case
  proof (cases "i = length (cstr src)")
    case True
    then have "src ! i = 0" using Suc.prems nth_length_cstr by simp
    with i True show ?thesis by (simp add: put_bytes_single)
  next
    case False
    with Suc.prems have less: "i < length (cstr src)" by simp
    then have c: "src ! i \<noteq> 0" by (rule nth_cstr_nonzero)
    have "drop i (cstr src) = src ! i # drop (Suc i) (cstr src)"
      using less by (simp add: Cons_nth_drop_Suc [symmetric] nth_cstr)
    with i c less Suc.prems show ?thesis
      by (simp add: Suc.IH put_bytes_Cons)
  qed
qed

lemma strlcpy_copy_trunc:
  assumes "0 \<in> set src" and "0 < n" and "i + (n - 1) \<le> length dst"
    and "i + (n - 1) \<le> length (cstr src)"
  shows "strlcpy_copy dst src n i =
    Some (put_bytes dst i (take (n - 1) (drop i (cstr src))), 0, i + (n - 1))"
  using assms
proof (induction n arbitrary: dst i)
  case 0
  then show ?case by simp
next
  case (Suc n)
  show ?case
  proof (cases n)
    case 0
    then show ?thesis by simp
  next
    case (Suc m)
    with Suc.prems have less: "i < length (cstr src)" by simp
    then have c: "src ! i \<noteq> 0" by (rule nth_cstr_nonzero)
    have i: "i < length src" "i < length dst"
      using less Suc Suc.prems length_cstr_less [of src] by auto
    have "drop i (cstr src) = src ! i # drop (Suc i) (cstr src)"
      using less by (simp add: Cons_nth_drop_Suc [symmetric] nth_cstr)
    moreover have n: "0 < n" "strlcpy_copy dst src (Suc n) i =
        strlcpy_copy (dst[i := src ! i]) src n (Suc i)"
      using i c Suc by simp_all
    moreover have "take n (drop i (cstr src)) =
        src ! i # take (n - 1) (drop (Suc i) (cstr src))"
      using n(1) calculation(1) by (simp add: take_Cons')
    ultimately show ?thesis
      using Suc.prems i(2) Suc.IH [of "Suc i" "dst[i := src ! i]"]
      by (simp add: put_bytes_Cons)
  qed
qed

text \<open>
  \<open>strlcpy\<close> on a destination of at least \<open>dsize\<close> bytes: it stores the source truncated to
  \<open>dsize - 1\<close> bytes and a terminator, touches nothing else, and returns the length of the source.
\<close>

lemma strlcpy_eq:
  assumes "0 \<in> set src" and "0 < dsize" and "dsize \<le> length dst"
  shows "strlcpy dst src dsize =
    Some (put_bytes dst 0 (strlcpy_str src dsize @ [0]), length (cstr src))"
proof (cases "length (cstr src) < dsize - 1")
  case True
  then have "Suc (length (cstr src)) < dsize" by simp
  with assms show ?thesis
    by (simp add: strlcpy_def strlcpy_copy_fits strlcpy_str_def)
next
  case False
  with assms have trunc: "strlcpy_copy dst src dsize 0 =
      Some (put_bytes dst 0 (take (dsize - 1) (cstr src)), 0, dsize - 1)"
    by (subst strlcpy_copy_trunc) auto
  have "0 \<in> set (drop (dsize - 1) src)"
    using False assms(1) length_cstr_less [of src] nth_length_cstr [of src]
    by (auto simp: in_set_conv_nth intro!: exI [of _ "length (cstr src) - (dsize - 1)"])
  moreover have "length (cstr (drop (dsize - 1) src)) = length (cstr src) - (dsize - 1)"
    using False
  proof (induction src arbitrary: dsize)
    case Nil
    then show ?case by (simp add: cstr_def)
  next
    case (Cons a src)
    show ?case
    proof (cases "dsize - 1")
      case (Suc m)
      with Cons.prems have "a \<noteq> 0" by (auto simp: cstr_def split: if_splits)
      with Cons.IH [of "Suc m"] Cons.prems Suc show ?thesis by (auto simp: cstr_def)
    qed simp
  qed
  moreover have "(put_bytes dst 0 (take (dsize - 1) (cstr src)))[dsize - 1 := 0] =
      put_bytes dst 0 (take (dsize - 1) (cstr src) @ [0])"
    using False assms put_bytes_snoc [of 0 "take (dsize - 1) (cstr src)" dst 0] by simp
  ultimately show ?thesis
    using False assms trunc by (simp add: strlcpy_def strlen_from_eq strlcpy_str_def)
qed

end
