(* ===== verification/Fat12_Layout.thy ===== *)
theory Fat12_Layout
  imports Drive Str
begin

text \<open>
  The data of \<open>kernel/fat12.c\<close>: the packed on-disk structures of \<open>fat12.h\<close> with their byte
  layout, the geometry that \<open>detect_fat12\<close> derives from the boot sector, the open file table of
  \<open>kernel/fileno.h\<close>, and the state that the file system functions share. The first
  operation, \<open>detect_fat12\<close>, is here too.
\<close>

section \<open>Directory entries\<close>

record fat12_dir_entry =
  de_name :: bytes
  de_ext :: bytes
  de_attr :: u8
  de_lcase :: u8
  de_creation_time_ms :: u8
  de_creation_time :: u16
  de_creation_date :: u16
  de_last_access_date :: u16
  de_first_cluster_high :: u16
  de_last_write_time :: u16
  de_last_write_date :: u16
  de_first_cluster_low :: u16
  de_file_size :: u32

text \<open>Reading the 32 bytes of a packed entry, and writing them.\<close>

definition dir_entry_of_bytes :: "bytes \<Rightarrow> fat12_dir_entry" where
  "dir_entry_of_bytes b = \<lparr>
     de_name = sub_bytes b 0 8,
     de_ext = sub_bytes b 8 3,
     de_attr = b ! 11,
     de_lcase = b ! 12,
     de_creation_time_ms = b ! 13,
     de_creation_time = u16_of_le (b ! 14) (b ! 15),
     de_creation_date = u16_of_le (b ! 16) (b ! 17),
     de_last_access_date = u16_of_le (b ! 18) (b ! 19),
     de_first_cluster_high = u16_of_le (b ! 20) (b ! 21),
     de_last_write_time = u16_of_le (b ! 22) (b ! 23),
     de_last_write_date = u16_of_le (b ! 24) (b ! 25),
     de_first_cluster_low = u16_of_le (b ! 26) (b ! 27),
     de_file_size = u32_of_le (b ! 28) (b ! 29) (b ! 30) (b ! 31)\<rparr>"

definition bytes_of_dir_entry :: "fat12_dir_entry \<Rightarrow> bytes" where
  "bytes_of_dir_entry e =
     de_name e @ de_ext e @ [de_attr e, de_lcase e, de_creation_time_ms e]
     @ le_of_u16 (de_creation_time e) @ le_of_u16 (de_creation_date e)
     @ le_of_u16 (de_last_access_date e) @ le_of_u16 (de_first_cluster_high e)
     @ le_of_u16 (de_last_write_time e) @ le_of_u16 (de_last_write_date e)
     @ le_of_u16 (de_first_cluster_low e) @ le_of_u32 (de_file_size e)"

definition wf_dir_entry :: "fat12_dir_entry \<Rightarrow> bool" where
  "wf_dir_entry e \<longleftrightarrow> length (de_name e) = 8 \<and> length (de_ext e) = 3"

lemma length_bytes_of_dir_entry [simp, len_simps]:
  "wf_dir_entry e \<Longrightarrow> length (bytes_of_dir_entry e) = 32"
  by (simp add: bytes_of_dir_entry_def wf_dir_entry_def)

lemma wf_dir_entry_of_bytes [simp]: "length b = 32 \<Longrightarrow> wf_dir_entry (dir_entry_of_bytes b)"
  by (simp add: dir_entry_of_bytes_def wf_dir_entry_def)

lemma list8_conv: "length xs = 8 \<longleftrightarrow>
    (\<exists>a b c d e f g h. xs = [a, b, c, d, e, f, g, h])"
  by (auto simp: eval_nat_numeral length_Suc_conv)

lemma list3_conv: "length xs = 3 \<longleftrightarrow> (\<exists>a b c. xs = [a, b, c])"
  by (auto simp: eval_nat_numeral length_Suc_conv)

lemma dir_entry_of_bytes_of [simp]:
  assumes "wf_dir_entry e"
  shows "dir_entry_of_bytes (bytes_of_dir_entry e) = e"
proof -
  obtain a b c d a1 b1 c1 d1 where n: "de_name e = [a, b, c, d, a1, b1, c1, d1]"
    using assms by (auto simp: wf_dir_entry_def list8_conv)
  obtain x y z where x: "de_ext e = [x, y, z]"
    using assms by (auto simp: wf_dir_entry_def list3_conv)
  show ?thesis
    by (cases e) (use n x in \<open>simp add: dir_entry_of_bytes_def bytes_of_dir_entry_def
      sub_bytes_def le_of_u16_def le_of_u32_def\<close>)
qed

lemma bytes_of_dir_entry_of_bytes [simp]:
  assumes "length b = 32"
  shows "bytes_of_dir_entry (dir_entry_of_bytes b) = b"
proof -
  have "bytes_of_dir_entry (dir_entry_of_bytes b) = map ((!) b) [0..<32]"
    using assms by (simp add: bytes_of_dir_entry_def dir_entry_of_bytes_def sub_bytes_def
      upt_rec take_Suc_conv_app_nth eval_nat_numeral nth_Cons_numeral)
  then show ?thesis using assms by (metis map_nth)
qed

section \<open>The boot sector and the geometry\<close>

text \<open>The fields of \<open>struct fat12_bpb\<close> at their packed offsets in sector 0.\<close>

record fat12_bpb =
  bpb_jmp :: bytes
  bpb_oem_id :: bytes
  bpb_bytes_per_sector :: u16
  bpb_sectors_per_cluster :: u8
  bpb_reserved_sectors :: u16
  bpb_num_fats :: u8
  bpb_root_dir_entries :: u16
  bpb_total_sectors_small :: u16
  bpb_media_descriptor :: u8
  bpb_sectors_per_fat :: u16
  bpb_sectors_per_track :: u16
  bpb_num_heads :: u16
  bpb_hidden_sectors :: u32
  bpb_total_sectors_large :: u32
  bpb_drive_number :: u8
  bpb_reserved :: u8
  bpb_boot_signature :: u8
  bpb_volume_id :: u32
  bpb_volume_label :: bytes
  bpb_fs_type :: bytes

definition bpb_of_bytes :: "bytes \<Rightarrow> fat12_bpb" where
  "bpb_of_bytes b = \<lparr>
     bpb_jmp = sub_bytes b 0 3,
     bpb_oem_id = sub_bytes b 3 8,
     bpb_bytes_per_sector = u16_of_le (b ! 11) (b ! 12),
     bpb_sectors_per_cluster = b ! 13,
     bpb_reserved_sectors = u16_of_le (b ! 14) (b ! 15),
     bpb_num_fats = b ! 16,
     bpb_root_dir_entries = u16_of_le (b ! 17) (b ! 18),
     bpb_total_sectors_small = u16_of_le (b ! 19) (b ! 20),
     bpb_media_descriptor = b ! 21,
     bpb_sectors_per_fat = u16_of_le (b ! 22) (b ! 23),
     bpb_sectors_per_track = u16_of_le (b ! 24) (b ! 25),
     bpb_num_heads = u16_of_le (b ! 26) (b ! 27),
     bpb_hidden_sectors = u32_of_le (b ! 28) (b ! 29) (b ! 30) (b ! 31),
     bpb_total_sectors_large = u32_of_le (b ! 32) (b ! 33) (b ! 34) (b ! 35),
     bpb_drive_number = b ! 36,
     bpb_reserved = b ! 37,
     bpb_boot_signature = b ! 38,
     bpb_volume_id = u32_of_le (b ! 39) (b ! 40) (b ! 41) (b ! 42),
     bpb_volume_label = sub_bytes b 43 11,
     bpb_fs_type = sub_bytes b 54 8\<rparr>"

record fat12_geometry =
  bytes_per_sector :: u16
  sectors_per_cluster :: u8
  reserved_sectors :: u16
  num_fats :: u8
  root_dir_entries :: u16
  sectors_per_fat :: u16
  fat_start_sector :: u32
  root_dir_start_sector :: u32
  root_dir_sectors :: u32
  data_start_sector :: u32

section \<open>Open files and the shared state\<close>

definition MAX_OPEN_FILES :: nat where
  "MAX_OPEN_FILES = 256"

text \<open>
  \<open>used\<close> holds only 0 and 1. \<open>path\<close> is the string in the buffer of 256 bytes, without its
  terminator.
\<close>

record open_file =
  of_used :: bool
  of_path :: bytes
  of_first_cluster :: u32
  of_current_cluster :: u32
  of_cursor :: u32
  of_file_size :: u32
  of_parent_cluster :: u32
  of_entry_idx :: u32

definition unused_file :: open_file where
  "unused_file = \<lparr>of_used = False, of_path = [], of_first_cluster = 0, of_current_cluster = 0,
     of_cursor = 0, of_file_size = 0, of_parent_cluster = 0, of_entry_idx = 0\<rparr>"

text \<open>A call of \<open>printf\<close>: its format, its integer arguments and its string arguments.\<close>

datatype kmsg = Kmsg string "int list" "bytes list"

text \<open>
  The state: the global \<open>drive\<close> of \<open>LineKernel.c\<close>, the file-scope variables of \<open>fat12.c\<close> and
  \<open>fileno.c\<close>, the messages printed, the state \<open>dev\<close> of driver and device, and
  \<open>stack_buf\<close>: the indeterminate bytes an automatic \<open>sec_buf[512]\<close> holds before it is filled.
\<close>

record 'd fat12_state =
  drive :: drivesformat
  fat12_geom :: fat12_geometry
  open_files :: "open_file list"
  contents_filenames :: "bytes list"
  contents_filename_idx :: nat
  klog :: "kmsg list"
  dev :: 'd
  stack_buf :: bytes

definition put_klog :: "kmsg \<Rightarrow> 'd fat12_state \<Rightarrow> 'd fat12_state" where
  "put_klog m s = s\<lparr>klog := klog s @ [m]\<rparr>"

text \<open>A sector access of the file system, through a fresh buffer on the stack.\<close>

definition read_sector_on ::
    "'d floppy_ops \<Rightarrow> drivesformat \<Rightarrow> u32 \<Rightarrow> 'd fat12_state
      \<Rightarrow> ((int \<times> bytes) \<times> 'd fat12_state) option" where
  "read_sector_on F drv lba s = do {
     (r, d) \<leftarrow> read_drive_sector F drv lba (stack_buf s) (dev s);
     Some (r, s\<lparr>dev := d\<rparr>)
   }"

abbreviation read_sector ::
    "'d floppy_ops \<Rightarrow> u32 \<Rightarrow> 'd fat12_state \<Rightarrow> ((int \<times> bytes) \<times> 'd fat12_state) option" where
  "read_sector F lba s \<equiv> read_sector_on F (drive s) lba s"

definition write_sector ::
    "'d floppy_ops \<Rightarrow> u32 \<Rightarrow> bytes \<Rightarrow> 'd fat12_state \<Rightarrow> (int \<times> 'd fat12_state) option" where
  "write_sector F lba buf s = do {
     (r, d) \<leftarrow> write_drive_sector F (drive s) lba buf (dev s);
     Some (r, s\<lparr>dev := d\<rparr>)
   }"

section \<open>detect_fat12\<close>

definition geometry_of_bpb :: "fat12_bpb \<Rightarrow> fat12_geometry" where
  "geometry_of_bpb bpb =
     (let root_start = ucast (bpb_reserved_sectors bpb)
            + ucast (bpb_num_fats bpb) * ucast (bpb_sectors_per_fat bpb);
          root_sectors = (ucast (bpb_root_dir_entries bpb) * 32
            + ucast (bpb_bytes_per_sector bpb) - 1) div ucast (bpb_bytes_per_sector bpb)
      in \<lparr>bytes_per_sector = bpb_bytes_per_sector bpb,
          sectors_per_cluster = bpb_sectors_per_cluster bpb,
          reserved_sectors = bpb_reserved_sectors bpb,
          num_fats = bpb_num_fats bpb,
          root_dir_entries = bpb_root_dir_entries bpb,
          sectors_per_fat = bpb_sectors_per_fat bpb,
          fat_start_sector = ucast (bpb_reserved_sectors bpb),
          root_dir_start_sector = root_start,
          root_dir_sectors = root_sectors,
          data_start_sector = root_start + root_sectors\<rparr>)"

definition bpb_is_fat12 :: "fat12_bpb \<Rightarrow> bool" where
  "bpb_is_fat12 bpb \<longleftrightarrow>
     bpb_bytes_per_sector bpb = 512
     \<and> (bpb_media_descriptor bpb = 0xF0 \<or> bpb_media_descriptor bpb = 0xF9)
     \<and> take 5 (bpb_fs_type bpb) = [0x46, 0x41, 0x54, 0x31, 0x32]"

definition detect_report :: "fat12_bpb \<Rightarrow> kmsg list" where
  "detect_report bpb =
     [Kmsg ''Valid FAT12 filesystem detected!\<newline>'' [] [],
      Kmsg ''  OEM ID:           %s\<newline>'' [] [cstr (bpb_oem_id bpb)],
      Kmsg ''  Volume Label:     %s\<newline>'' [] [cstr (bpb_volume_label bpb)],
      Kmsg ''  Bytes/Sector:     %d\<newline>'' [uint (bpb_bytes_per_sector bpb)] [],
      Kmsg ''  Sectors/Cluster:  %d\<newline>'' [uint (bpb_sectors_per_cluster bpb)] [],
      Kmsg ''  Reserved Sectors: %d\<newline>'' [uint (bpb_reserved_sectors bpb)] [],
      Kmsg ''  Sectors/FAT:      %d\<newline>'' [uint (bpb_sectors_per_fat bpb)] [],
      Kmsg ''  Heads:            %d\<newline>'' [uint (bpb_num_heads bpb)] [],
      Kmsg ''  Sectors/Track:    %d\<newline>'' [uint (bpb_sectors_per_track bpb)] []]"

definition detect_fat12 ::
    "'d floppy_ops \<Rightarrow> drivesformat \<Rightarrow> 'd fat12_state \<Rightarrow> (int \<times> 'd fat12_state) option" where
  "detect_fat12 F drive_id s = do {
     ((r, sector), s) \<leftarrow> read_sector_on F drive_id 0 s;
     if r < 0 then
       Some (-1, put_klog (Kmsg ''No drive detected or failed to read sector 0.\<newline>'' [] []) s)
     else
       let boot_sig = u16_of_le (sector ! 510) (sector ! 511); bpb = bpb_of_bytes sector in
       if boot_sig \<noteq> 0xAA55 then
         Some (0, put_klog (Kmsg ''Drive present, but boot signature 0x%04X is invalid.\<newline>''
           [uint boot_sig] []) s)
       else if bpb_is_fat12 bpb then
         Some (1, s\<lparr>fat12_geom := geometry_of_bpb bpb, klog := klog s @ detect_report bpb\<rparr>)
       else
         Some (0, put_klog (Kmsg ''Disk present but does not contain a valid FAT12 filesystem.\<newline>''
           [] []) s)
   }"

section \<open>The state over an ideal drive\<close>

text \<open>
  \<open>on_ideal s\<close>: the kernel uses \<open>fdrive1\<close> and the sectors have 512 bytes. On such a state a read
  has no effect and a write changes one sector of the image.
\<close>

definition on_ideal :: "image fat12_state \<Rightarrow> bool" where
  "on_ideal s \<longleftrightarrow> drive s = fdrive1 \<and> wf_image (dev s)"

lemma read_sector_ideal [disk_simps]:
  "on_ideal s \<Longrightarrow> read_sector_on ideal_floppy (drive s) lba s = Some ((0, dev s lba), s)"
  by (simp add: read_sector_on_def on_ideal_def disk_simps)

lemma read_sector_on_ideal [disk_simps]:
  "read_sector_on ideal_floppy fdrive1 lba s = Some ((0, dev s lba), s)"
  by (simp add: read_sector_on_def disk_simps)

lemma write_sector_ideal [disk_simps]:
  "on_ideal s \<Longrightarrow>
     write_sector ideal_floppy lba buf s = Some (0, s\<lparr>dev := (dev s)(lba := buf)\<rparr>)"
  by (simp add: write_sector_def on_ideal_def disk_simps)

lemma on_ideal_length [simp, len_simps]: "on_ideal s \<Longrightarrow> length (dev s lba) = 512"
  by (simp add: on_ideal_def)

lemma on_ideal_wf [simp]: "on_ideal s \<Longrightarrow> wf_image (dev s)"
  by (simp add: on_ideal_def)

lemma on_ideal_dev [simp]: "on_ideal s \<Longrightarrow> wf_image im \<Longrightarrow> on_ideal (s\<lparr>dev := im\<rparr>)"
  by (simp add: on_ideal_def)

end
