(* ===== verification/Cluster_Table.thy ===== *)
theory Cluster_Table
  imports Prelude
begin

text \<open>
  Two interfaces of the file system. A \<open>byte_store\<close> is a store of bytes with independent cells;
  packing two 12-bit entries into three bytes turns it into a \<open>cluster_table\<close>, a table with
  independent entries: this is the heart of FAT12. What the code does with the table (allocate,
  link, follow and free chains of clusters) rests on the second interface only.
\<close>

section \<open>Packed 12-bit entries\<close>

text \<open>Entry \<open>k\<close> lives in the bytes \<open>3 k div 2\<close> and the next: the low 12 bits if \<open>k\<close> is even.\<close>

definition get12 :: "('s \<Rightarrow> nat \<Rightarrow> u8) \<Rightarrow> 's \<Rightarrow> nat \<Rightarrow> u16" where
  "get12 rd s k =
     (let i = 3 * k div 2; e = u16_of_le (rd s i) (rd s (Suc i))
      in if odd k then drop_bit 4 e else e AND 0x0FFF)"

text \<open>The 16-bit word to store: the new value beside the four bits of the neighbour.\<close>

definition pack12 :: "bool \<Rightarrow> u16 \<Rightarrow> u16 \<Rightarrow> u16" where
  "pack12 is_odd e v =
     (if is_odd then (e AND 0x000F) OR push_bit 4 v else (e AND 0xF000) OR (v AND 0x0FFF))"

definition set12 ::
    "('s \<Rightarrow> nat \<Rightarrow> u8) \<Rightarrow> ('s \<Rightarrow> nat \<Rightarrow> u8 \<Rightarrow> 's) \<Rightarrow> 's \<Rightarrow> nat \<Rightarrow> u16 \<Rightarrow> 's" where
  "set12 rd wr s k v =
     (let i = 3 * k div 2; e = u16_of_le (rd s i) (rd s (Suc i));
          e' = pack12 (odd k) e v
      in wr (wr s i (ucast (e' AND 0xFF))) (Suc i) (ucast (drop_bit 8 e' AND 0xFF)))"

definition in_table :: "nat \<Rightarrow> nat \<Rightarrow> bool" where
  "in_table n k \<longleftrightarrow> Suc (3 * k div 2) < n"

text \<open>The bit-level facts behind the packing.\<close>

lemma masks_u16:
  "(0x0FFF :: u16) = mask 12" "(0x000F :: u16) = mask 4" "(0xFF :: u16) = mask 8"
  "(0xF000 :: u16) = push_bit 12 (mask 4)"
  by (simp_all add: mask_eq_exp_minus_1)

lemma bit_u16_beyond [simp]: "16 \<le> n \<Longrightarrow> \<not> bit (a :: u16) n"
  using bit_imp_le_length [of a n] by auto

lemma le_bytes_u16: "u16_of_le (ucast (w AND 0xFF)) (ucast (drop_bit 8 w AND 0xFF)) = w"
  unfolding masks_u16 u16_of_le_def by (rule bit_word_eqI) (auto simp: bit_simps)

lemma pack12_even: "pack12 False e v AND 0x0FFF = v AND 0x0FFF"
  unfolding masks_u16 pack12_def by (rule bit_word_eqI) (auto simp: bit_simps)

lemma pack12_odd: "drop_bit 4 (pack12 True e v) = v AND 0x0FFF"
  unfolding masks_u16 pack12_def by (rule bit_word_eqI) (auto simp: bit_simps)

text \<open>Writing an even entry keeps the high half of its second byte, the neighbour's low part;
  writing an odd one keeps the low half of its first byte.\<close>

lemma pack12_even_neighbour:
  "drop_bit 4 (u16_of_le (ucast (drop_bit 8 (pack12 False (u16_of_le a b) v) AND 0xFF)) c)
   = drop_bit 4 (u16_of_le b c)"
  unfolding masks_u16 u16_of_le_def pack12_def
  by (rule bit_word_eqI) (auto simp: bit_simps dest: bit_u8D)

lemma pack12_odd_neighbour:
  "u16_of_le c (ucast (pack12 True (u16_of_le a b) v AND 0xFF)) AND 0x0FFF
   = u16_of_le c a AND 0x0FFF"
  unfolding masks_u16 u16_of_le_def pack12_def by (rule bit_word_eqI) (auto simp: bit_simps)

section \<open>Byte stores\<close>

locale byte_store =
  fixes rd :: "'s \<Rightarrow> nat \<Rightarrow> u8"
    and wr :: "'s \<Rightarrow> nat \<Rightarrow> u8 \<Rightarrow> 's"
    and ok :: "'s \<Rightarrow> bool"
    and siz :: "'s \<Rightarrow> nat"
  assumes rd_wr: "ok s \<Longrightarrow> i < siz s \<Longrightarrow> j < siz s \<Longrightarrow>
      rd (wr s i b) j = (if j = i then b else rd s j)"
    and ok_wr: "ok s \<Longrightarrow> ok (wr s i b)"
    and siz_wr: "siz (wr s i b) = siz s"
begin

lemma ok_set12: "ok s \<Longrightarrow> ok (set12 rd wr s k v)"
  by (simp add: set12_def Let_def ok_wr)

lemma siz_set12: "siz (set12 rd wr s k v) = siz s"
  by (simp add: set12_def Let_def siz_wr)

lemma rd_wr2:
  assumes "ok s" and "Suc i < siz s" and "j < siz s"
  shows "rd (wr (wr s i a) (Suc i) b) j = (if j = Suc i then b else if j = i then a else rd s j)"
  using assms by (simp add: rd_wr ok_wr siz_wr)

lemma get12_set12_same:
  assumes "ok s" and "in_table (siz s) k"
  shows "get12 rd (set12 rd wr s k v) k = v AND 0x0FFF"
  using assms by (simp add: get12_def set12_def Let_def in_table_def rd_wr2 le_bytes_u16
    pack12_even pack12_odd)

lemma get12_set12_other:
  assumes "ok s" and "in_table (siz s) k" and "in_table (siz s) k'" and "k' \<noteq> k"
  shows "get12 rd (set12 rd wr s k v) k' = get12 rd s k'"
proof -
  let ?i = "3 * k div 2" and ?j = "3 * k' div 2"
  have bnd: "Suc ?i < siz s" "Suc ?j < siz s" using assms by (simp_all add: in_table_def)
  consider (up) "even k" "k' = Suc k" | (down) "odd k" "k = Suc k'"
    | (apart) "?j \<noteq> ?i" "?j \<noteq> Suc ?i" "Suc ?j \<noteq> ?i"
  proof -
    assume t: "even k \<Longrightarrow> k' = Suc k \<Longrightarrow> thesis" "odd k \<Longrightarrow> k = Suc k' \<Longrightarrow> thesis"
      "?j \<noteq> ?i \<Longrightarrow> ?j \<noteq> Suc ?i \<Longrightarrow> Suc ?j \<noteq> ?i \<Longrightarrow> thesis"
    show thesis
    proof (cases "even k \<and> k' = Suc k \<or> odd k \<and> k = Suc k'")
      case True
      then show thesis using t(1,2) by blast
    next
      case False
      with assms(4) have "?j \<noteq> ?i \<and> ?j \<noteq> Suc ?i \<and> Suc ?j \<noteq> ?i"
        by (cases "even k"; cases "even k'") (auto elim!: evenE oddE)
      then show thesis using t(3) by blast
    qed
  qed
  then show ?thesis
  proof cases
    case up
    then have "?j = Suc ?i" "odd k'" by presburger+
    with up assms(1) bnd show ?thesis
      by (simp add: get12_def set12_def Let_def rd_wr2 pack12_even_neighbour)
  next
    case down
    then have "?i = Suc ?j" "even k'" by presburger+
    with down assms(1) bnd show ?thesis
      by (simp add: get12_def set12_def Let_def rd_wr2 pack12_odd_neighbour)
  next
    case apart
    with assms(1) bnd show ?thesis
      by (simp add: get12_def set12_def Let_def rd_wr2)
  qed
qed

end

section \<open>Chains\<close>

text \<open>Cluster numbers from \<open>2\<close> to \<open>0xFF7\<close> continue a chain; every other value ends it.\<close>

definition is_link :: "nat \<Rightarrow> bool" where
  "is_link k \<longleftrightarrow> 2 \<le> k \<and> k < 0x0FF8"

inductive fat_chain :: "(nat \<Rightarrow> u16) \<Rightarrow> nat \<Rightarrow> nat list \<Rightarrow> bool" for T where
  chain_end: "\<not> is_link c \<Longrightarrow> fat_chain T c []"
| chain_link: "is_link c \<Longrightarrow> fat_chain T (unat (T c)) cs \<Longrightarrow> fat_chain T c (c # cs)"

inductive_simps fat_chain_Nil [simp]: "fat_chain T c []"
inductive_simps fat_chain_Cons [simp]: "fat_chain T c (k # cs)"

lemma fat_chain_links: "fat_chain T c cs \<Longrightarrow> k \<in> set cs \<Longrightarrow> is_link k"
  by (induction rule: fat_chain.induct) auto

lemma fat_chain_unique: "fat_chain T c cs \<Longrightarrow> fat_chain T c ds \<Longrightarrow> cs = ds"
proof (induction arbitrary: ds rule: fat_chain.induct)
  case (chain_end c)
  then show ?case by (cases ds) simp_all
next
  case (chain_link c cs)
  from chain_link.prems chain_link.hyps(1)
  obtain ds' where "ds = c # ds'" "fat_chain T (unat (T c)) ds'"
    by (cases ds) simp_all
  then show ?case using chain_link.IH by blast
qed

lemma fat_chain_suffix:
  "fat_chain T c cs \<Longrightarrow> k \<in> set cs \<Longrightarrow> \<exists>ds. fat_chain T k ds \<and> length ds \<le> length cs"
proof (induction rule: fat_chain.induct)
  case (chain_link c cs)
  show ?case
  proof (cases "k = c")
    case True
    then have "fat_chain T k (c # cs)" using chain_link.hyps by simp
    then show ?thesis by blast
  next
    case False
    then obtain ds where "fat_chain T k ds" "length ds \<le> length cs"
      using chain_link by auto
    then show ?thesis by (intro exI [of _ ds]) simp
  qed
qed simp

lemma fat_chain_distinct: "fat_chain T c cs \<Longrightarrow> distinct cs"
proof (induction rule: fat_chain.induct)
  case (chain_link c cs)
  have "c \<notin> set cs"
  proof
    assume "c \<in> set cs"
    with chain_link.hyps obtain ds where "fat_chain T c ds" "length ds \<le> length cs"
      using fat_chain_suffix by blast
    moreover have "fat_chain T c (c # cs)" using chain_link.hyps by simp
    ultimately show False using fat_chain_unique [of T c ds "c # cs"] by simp
  qed
  with chain_link.IH show ?case by simp
qed simp

lemma fat_chain_cong:
  "fat_chain T c cs \<Longrightarrow> (\<And>k. k \<in> set cs \<Longrightarrow> T' k = T k) \<Longrightarrow> fat_chain T' c cs"
  by (induction rule: fat_chain.induct) simp_all

definition free_entries :: "('s \<Rightarrow> nat \<Rightarrow> u16 \<Rightarrow> 's) \<Rightarrow> nat list \<Rightarrow> 's \<Rightarrow> 's" where
  "free_entries put ks s = fold (\<lambda>k s. put s k 0) ks s"

lemma free_entries_simps [simp]:
  "free_entries put [] s = s" "free_entries put (k # ks) s = free_entries put ks (put s k 0)"
  by (simp_all add: free_entries_def)

section \<open>Cluster tables\<close>

locale cluster_table =
  fixes get :: "'s \<Rightarrow> nat \<Rightarrow> u16"
    and put :: "'s \<Rightarrow> nat \<Rightarrow> u16 \<Rightarrow> 's"
    and ok :: "'s \<Rightarrow> bool"
    and valid :: "'s \<Rightarrow> nat \<Rightarrow> bool"
  assumes get_put: "ok s \<Longrightarrow> valid s k \<Longrightarrow> valid s k' \<Longrightarrow>
      get (put s k v) k' = (if k' = k then v AND 0x0FFF else get s k')"
    and ok_put: "ok s \<Longrightarrow> ok (put s k v)"
    and valid_put: "valid (put s k v) k' = valid s k'"
begin

lemma ok_free_entries: "ok s \<Longrightarrow> ok (free_entries put ks s)"
  by (induction ks arbitrary: s) (simp_all add: ok_put)

lemma valid_free_entries: "valid (free_entries put ks s) k = valid s k"
  by (induction ks arbitrary: s) (simp_all add: valid_put)

lemma get_free_entries:
  "ok s \<Longrightarrow> valid s k \<Longrightarrow> \<forall>c \<in> set ks. valid s c \<Longrightarrow>
     get (free_entries put ks s) k = (if k \<in> set ks then 0 else get s k)"
  by (induction ks arbitrary: s) (auto simp: get_put ok_put valid_put)

text \<open>A loop that frees a chain entry by entry: what it does to a chain, and why it stops.\<close>

lemma free_loop_chain:
  assumes stop: "\<And>c s. \<not> is_link c \<Longrightarrow> c < 65536 \<Longrightarrow> f c s = Some s"
    and link: "\<And>c s. is_link c \<Longrightarrow> ok s \<Longrightarrow> f c s = f (unat (get s c)) (put s c 0)"
    and "fat_chain (get s) c cs" and "ok s" and "c < 65536" and "\<forall>k \<in> set cs. valid s k"
  shows "f c s = Some (free_entries put cs s)"
  using assms(3-)
proof (induction cs arbitrary: c s rule: list.induct)
  case Nil
  then show ?case by (simp add: stop)
next
  case (Cons k ks)
  then have c: "is_link c" "fat_chain (get s) (unat (get s c)) ks" "k = c" "c \<notin> set ks"
    using fat_chain_distinct [OF Cons.prems(1)] by auto
  have "fat_chain (get (put s c 0)) (unat (get s c)) ks"
    using c Cons.prems by (intro fat_chain_cong [OF c(2)]) (auto simp: get_put)
  then have "f (unat (get s c)) (put s c 0) = Some (free_entries put ks (put s c 0))"
    using Cons.prems c by (intro Cons.IH) (auto simp: ok_put valid_put unat_u16_less)
  with c Cons.prems show ?case by (simp add: link)
qed

definition links_closed :: "'s \<Rightarrow> bool" where
  "links_closed s \<longleftrightarrow>
     (\<forall>k. is_link k \<and> valid s k \<longrightarrow> is_link (unat (get s k)) \<longrightarrow> valid s (unat (get s k)))"

definition live :: "'s \<Rightarrow> nat set" where
  "live s = {k. is_link k \<and> valid s k \<and> get s k \<noteq> 0}"

lemma finite_live: "finite (live s)"
  by (rule finite_subset [of _ "{..<0x0FF8}"]) (auto simp: live_def is_link_def)

lemma live_put_zero: "ok s \<Longrightarrow> is_link c \<Longrightarrow> valid s c \<Longrightarrow> live (put s c 0) = live s - {c}"
  by (auto simp: live_def get_put valid_put split: if_splits)

lemma links_closed_put_zero:
  "ok s \<Longrightarrow> valid s c \<Longrightarrow> links_closed s \<Longrightarrow> links_closed (put s c 0)"
  unfolding links_closed_def by (auto simp: get_put valid_put is_link_def split: if_splits)

text \<open>
  The loop stops even on a cyclic chain: an entry is cleared before the loop can come back to it,
  and a cleared entry ends the loop.
\<close>

lemma free_loop_stops:
  assumes stop: "\<And>c s. \<not> is_link c \<Longrightarrow> c < 65536 \<Longrightarrow> f c s = Some s"
    and link: "\<And>c s. is_link c \<Longrightarrow> ok s \<Longrightarrow> f c s = f (unat (get s c)) (put s c 0)"
    and "ok s" and "links_closed s" and "c < 65536" and "is_link c \<Longrightarrow> valid s c"
  shows "\<exists>ks. f c s = Some (free_entries put ks s) \<and> (\<forall>k \<in> set ks. is_link k \<and> valid s k)"
  using assms(3-)
proof (induction "card (live s)" arbitrary: c s rule: less_induct)
  case less
  show ?case
  proof (cases "is_link c")
    case False
    then have "f c s = Some (free_entries put [] s)" using less.prems by (simp add: stop)
    then show ?thesis by (intro exI [of _ "[]"]) simp
  next
    case True
    let ?n = "unat (get s c)" and ?t = "put s c 0"
    have step: "f c s = f ?n ?t" using True less.prems by (simp add: link)
    have v: "valid s c" using True less.prems by simp
    have n: "?n < 65536" by (rule unat_u16_less)
    obtain ks where ks: "f ?n ?t = Some (free_entries put ks ?t)"
      "\<forall>k \<in> set ks. is_link k \<and> valid ?t k"
    proof (cases "get s c = 0")
      case z: True
      then have "f ?n ?t = Some (free_entries put [] ?t)"
        by (simp add: stop is_link_def)
      then show thesis by (intro that [of "[]"]) simp_all
    next
      case False
      then have "c \<in> live s" using True v by (simp add: live_def)
      then have "card (live ?t) < card (live s)"
        using True v less.prems finite_live
        by (simp add: live_put_zero card_Diff1_less del: card_Diff_insert)
      moreover have "is_link ?n \<Longrightarrow> valid ?t ?n"
        using less.prems True v by (simp add: links_closed_def valid_put)
      ultimately show thesis
        using less.hyps [of ?t ?n] less.prems v n that
        by (auto simp: ok_put links_closed_put_zero)
    qed
    then show ?thesis using step True v
      by (intro exI [of _ "c # ks"]) (auto simp: valid_put)
  qed
qed

end

sublocale byte_store \<subseteq> cluster_table "get12 rd" "set12 rd wr" ok "\<lambda>s. in_table (siz s)"
  by unfold_locales (auto simp: get12_set12_same get12_set12_other ok_set12 siz_set12)

end
