(* ===== verification/Fat12_Table.thy ===== *)
theory Fat12_Table
  imports Fat12_Layout Cluster_Table
begin

text \<open>
  The file allocation table of \<open>kernel/fat12.c\<close>: the byte accesses with their mirroring to the
  other copies, the packed 12-bit entries, the allocation of a cluster and the release of a
  chain.
\<close>

section \<open>The operations\<close>

fun read_fat12_fat_bytes ::
    "'d floppy_ops \<Rightarrow> u32 \<Rightarrow> nat \<Rightarrow> 'd fat12_state \<Rightarrow> (bytes \<times> 'd fat12_state) option" where
  "read_fat12_fat_bytes F byte_offset 0 s = Some ([], s)"
| "read_fat12_fat_bytes F byte_offset (Suc count) s = do {
     let bo = byte_offset;
     let sector = fat_start_sector (fat12_geom s) + (bo div 512);
     let offset_in_sector = bo mod 512;
     ((_, sec_buf), s) \<leftarrow> read_sector F sector s;
     (bytes, s) \<leftarrow> read_fat12_fat_bytes F (byte_offset + 1) count s;
     Some (sec_buf ! unat offset_in_sector # bytes, s)
   }"

text \<open>The inner loop, over the copies \<open>f\<close> of the table from 1 on.\<close>

fun write_fat_copies ::
    "'d floppy_ops \<Rightarrow> u32 \<Rightarrow> bytes \<Rightarrow> nat list \<Rightarrow> 'd fat12_state
      \<Rightarrow> 'd fat12_state option" where
  "write_fat_copies F sector sec_buf [] s = Some s"
| "write_fat_copies F sector sec_buf (f # fs) s = do {
     let dup_sector = sector + of_nat f * ucast (sectors_per_fat (fat12_geom s));
     (_, s) \<leftarrow> write_sector F dup_sector sec_buf s;
     write_fat_copies F sector sec_buf fs s
   }"

fun write_fat12_fat_bytes ::
    "'d floppy_ops \<Rightarrow> u32 \<Rightarrow> bytes \<Rightarrow> 'd fat12_state \<Rightarrow> 'd fat12_state option" where
  "write_fat12_fat_bytes F byte_offset [] s = Some s"
| "write_fat12_fat_bytes F byte_offset (b # bytes) s = do {
     let bo = byte_offset;
     let sector = fat_start_sector (fat12_geom s) + (bo div 512);
     let offset_in_sector = bo mod 512;
     ((_, sec_buf), s) \<leftarrow> read_sector F sector s;
     let sec_buf = sec_buf[unat offset_in_sector := b];
     (_, s) \<leftarrow> write_sector F sector sec_buf s;
     s \<leftarrow> write_fat_copies F sector sec_buf [1..<unat (num_fats (fat12_geom s))] s;
     write_fat12_fat_bytes F (byte_offset + 1) bytes s
   }"

definition fat12_read_fat_entry ::
    "'d floppy_ops \<Rightarrow> u32 \<Rightarrow> 'd fat12_state \<Rightarrow> (u16 \<times> 'd fat12_state) option" where
  "fat12_read_fat_entry F cluster s = do {
     let byte_offset = (cluster * 3) div 2;
     (bytes, s) \<leftarrow> read_fat12_fat_bytes F byte_offset 2 s;
     let entry = (ucast (bytes ! 0) OR push_bit 8 (ucast (bytes ! 1)) :: u16);
     if cluster AND 1 \<noteq> 0 then Some (drop_bit 4 entry, s) else Some (entry AND 0x0FFF, s)
   }"

definition fat12_write_fat_entry ::
    "'d floppy_ops \<Rightarrow> u32 \<Rightarrow> u16 \<Rightarrow> 'd fat12_state \<Rightarrow> 'd fat12_state option" where
  "fat12_write_fat_entry F cluster value s = do {
     let byte_offset = (cluster * 3) div 2;
     (bytes, s) \<leftarrow> read_fat12_fat_bytes F byte_offset 2 s;
     let entry = (ucast (bytes ! 0) OR push_bit 8 (ucast (bytes ! 1)) :: u16);
     let entry = (if cluster AND 1 \<noteq> 0 then (entry AND 0x000F) OR push_bit 4 value
                  else (entry AND 0xF000) OR (value AND 0x0FFF));
     write_fat12_fat_bytes F byte_offset
       [ucast (entry AND 0xFF), ucast (drop_bit 8 entry AND 0xFF)] s
   }"

text \<open>The search loop of \<open>fat12_allocate_cluster\<close>, from cluster \<open>c\<close> on.\<close>

function allocate_from ::
    "'d floppy_ops \<Rightarrow> u32 \<Rightarrow> u32 \<Rightarrow> 'd fat12_state \<Rightarrow> (int \<times> 'd fat12_state) option" where
  "allocate_from F current_cluster c s =
     (if c < 4080 then do {
        (e, s) \<leftarrow> fat12_read_fat_entry F c s;
        if e = 0 then do {
          s \<leftarrow> fat12_write_fat_entry F c 0x0FFF s;
          s \<leftarrow> (if current_cluster \<ge> 2
                then fat12_write_fat_entry F current_cluster (ucast c) s else Some s);
          Some (uint c, s)
        } else allocate_from F current_cluster (c + 1) s
      } else Some (-1, s))"
  by pat_completeness auto
termination
proof (relation "measure (\<lambda>(F, cur, c, s). 4080 - unat c)", goal_cases)
  case (2 F cur c s x e s')
  then have "unat (c + 1) = unat c + 1" and "unat c < 4080"
    by (simp_all add: word_less_nat_alt unat_word_ariths)
  then show ?case by simp
qed simp

declare allocate_from.simps [simp del]

definition fat12_allocate_cluster ::
    "'d floppy_ops \<Rightarrow> u32 \<Rightarrow> 'd fat12_state \<Rightarrow> (int \<times> 'd fat12_state) option" where
  "fat12_allocate_cluster F current_cluster s = allocate_from F current_cluster 2 s"

text \<open>Following a chain has no bound in the code; \<open>None\<close> stands for a loop that never ends.\<close>

partial_function (option) fat12_free_cluster_chain ::
    "'d floppy_ops \<Rightarrow> u32 \<Rightarrow> 'd fat12_state \<Rightarrow> 'd fat12_state option" where
  "fat12_free_cluster_chain F c s =
     (if c \<ge> 2 \<and> c < 0x0FF8 then do {
        (nxt, s) \<leftarrow> fat12_read_fat_entry F c s;
        s \<leftarrow> fat12_write_fat_entry F c 0x000 s;
        fat12_free_cluster_chain F (ucast nxt) s
      } else Some s)"


section \<open>The geometry\<close>

text \<open>
  \<open>wf_geom\<close>: the derived fields of the geometry are those \<open>detect_fat12\<close> computes. The source
  fields are arbitrary, so no bound on the number of copies or the size of the table is assumed.
\<close>

definition wf_geom :: "fat12_geometry \<Rightarrow> bool" where
  "wf_geom g \<longleftrightarrow>
     bytes_per_sector g = 512
     \<and> fat_start_sector g = ucast (reserved_sectors g)
     \<and> root_dir_start_sector g =
         ucast (reserved_sectors g) + ucast (num_fats g) * ucast (sectors_per_fat g)
     \<and> root_dir_sectors g = (ucast (root_dir_entries g) * 32 + 511) div 512
     \<and> data_start_sector g = root_dir_start_sector g + root_dir_sectors g"

lemma geometry_of_bpb_wf: "bpb_bytes_per_sector bpb = 512 \<Longrightarrow> wf_geom (geometry_of_bpb bpb)"
  by (simp add: wf_geom_def geometry_of_bpb_def Let_def)
    (simp only: add.commute)

text \<open>The three regions follow each other: the copies of the table, the root directory, the data.\<close>

lemma unat_fat_start: "wf_geom g \<Longrightarrow> unat (fat_start_sector g) = unat (reserved_sectors g)"
  by (simp add: wf_geom_def)

lemma unat_root_dir_start:
  "wf_geom g \<Longrightarrow> unat (root_dir_start_sector g) =
     unat (reserved_sectors g) + unat (num_fats g) * unat (sectors_per_fat g)"
  using mult_less_u8_u16 [of "num_fats g" "sectors_per_fat g"] unat_u16_less [of "reserved_sectors g"]
  by (simp add: wf_geom_def unat_add_u32 unat_mult_u32)

lemma unat_root_dir_sectors:
  "wf_geom g \<Longrightarrow> unat (root_dir_sectors g) = (unat (root_dir_entries g) * 32 + 511) div 512"
  using unat_u16_less [of "root_dir_entries g"]
  by (simp add: wf_geom_def unat_div unat_add_u32 unat_mult_u32)

lemma unat_data_start:
  "wf_geom g \<Longrightarrow> unat (data_start_sector g) =
     unat (root_dir_start_sector g) + unat (root_dir_sectors g)"
  using mult_less_u8_u16 [of "num_fats g" "sectors_per_fat g"] unat_u16_less [of "reserved_sectors g"]
    unat_u16_less [of "root_dir_entries g"] unat_root_dir_start [of g] unat_root_dir_sectors [of g]
  by (simp add: wf_geom_def unat_add_u32)

section \<open>Bytes of the table on an ideal drive\<close>

definition fat_ready :: "image fat12_state \<Rightarrow> bool" where
  "fat_ready s \<longleftrightarrow> on_ideal s \<and> wf_geom (fat12_geom s)"

lemma fat_readyD [simp]: "fat_ready s \<Longrightarrow> on_ideal s" "fat_ready s \<Longrightarrow> wf_geom (fat12_geom s)"
  by (simp_all add: fat_ready_def)

definition fat_size :: "image fat12_state \<Rightarrow> nat" where
  "fat_size s = 512 * unat (sectors_per_fat (fat12_geom s))"

definition fat_sector :: "image fat12_state \<Rightarrow> nat \<Rightarrow> u32" where
  "fat_sector s i = fat_start_sector (fat12_geom s) + of_nat (i div 512)"

definition fat_byte :: "image fat12_state \<Rightarrow> nat \<Rightarrow> u8" where
  "fat_byte s i = dev s (fat_sector s i) ! (i mod 512)"

definition fat_copies :: "image fat12_state \<Rightarrow> u32 \<Rightarrow> u32 list" where
  "fat_copies s sec =
     map (\<lambda>f. sec + of_nat f * ucast (sectors_per_fat (fat12_geom s)))
       [1..<unat (num_fats (fat12_geom s))]"

definition put_fat_byte :: "image fat12_state \<Rightarrow> nat \<Rightarrow> u8 \<Rightarrow> image fat12_state" where
  "put_fat_byte s i b =
     (let sec = fat_sector s i
      in s\<lparr>dev := store_all (sec # fat_copies s sec) ((dev s sec)[i mod 512 := b]) (dev s)\<rparr>)"

lemma put_fat_byte_fields [simp]:
  "fat12_geom (put_fat_byte s i b) = fat12_geom s" "drive (put_fat_byte s i b) = drive s"
  "fat_size (put_fat_byte s i b) = fat_size s"
  by (simp_all add: put_fat_byte_def fat_size_def Let_def)

lemma fat_ready_put_fat_byte [simp]: "fat_ready s \<Longrightarrow> fat_ready (put_fat_byte s i b)"
  by (simp only: fat_ready_def put_fat_byte_fields)
    (simp add: on_ideal_def put_fat_byte_def Let_def)

lemma unat_fat_sector:
  "fat_ready s \<Longrightarrow> i < 4294967296 \<Longrightarrow>
     unat (fat_sector s i) = unat (reserved_sectors (fat12_geom s)) + i div 512"
  using unat_u16_less [of "reserved_sectors (fat12_geom s)"]
  by (simp add: fat_sector_def unat_add_u32 unat_fat_start unat_of_nat_u32)

lemma fat_size_less: "fat_size s < 4294967296"
  using unat_u16_less [of "sectors_per_fat (fat12_geom s)"] by (simp add: fat_size_def)

text \<open>A copy of a sector of the first table never lies in the first table.\<close>

lemma unat_fat_copies:
  assumes "fat_ready s" and "i < fat_size s" and "lba \<in> set (fat_copies s (fat_sector s i))"
  shows "unat (reserved_sectors (fat12_geom s)) + unat (sectors_per_fat (fat12_geom s)) \<le> unat lba"
    and "unat lba < unat (root_dir_start_sector (fat12_geom s))"
proof -
  let ?g = "fat12_geom s"
  from assms(3) obtain f where f: "1 \<le> f" "f < unat (num_fats ?g)"
    and lba: "lba = fat_sector s i + of_nat f * ucast (sectors_per_fat ?g)"
    by (auto simp: fat_copies_def)
  have nf: "f < 256" using f(2) unat_u8_less [of "num_fats ?g"] by linarith
  have "f * unat (sectors_per_fat ?g) \<le> 255 * 65535"
    using nf unat_u16_less [of "sectors_per_fat ?g"] by (intro mult_le_mono) linarith+
  moreover have i: "i div 512 < unat (sectors_per_fat ?g)" "i < 4294967296"
    using assms(2) fat_size_less [of s] by (auto simp: fat_size_def)
  ultimately have lba': "unat lba = unat (reserved_sectors ?g) + i div 512
      + f * unat (sectors_per_fat ?g)"
    using assms(1) unat_u16_less [of "reserved_sectors ?g"] nf
      unat_u16_less [of "sectors_per_fat ?g"]
    by (simp add: lba unat_add_u32 unat_mult_u32 unat_of_nat_u32 unat_fat_sector)
  have "1 * unat (sectors_per_fat ?g) \<le> f * unat (sectors_per_fat ?g)"
    using f(1) by (rule mult_le_mono1)
  then show "unat (reserved_sectors ?g) + unat (sectors_per_fat ?g) \<le> unat lba"
    using lba' by linarith
  have "Suc f * unat (sectors_per_fat ?g) \<le> unat (num_fats ?g) * unat (sectors_per_fat ?g)"
    using f(2) by (intro mult_le_mono1) simp
  then show "unat lba < unat (root_dir_start_sector ?g)"
    using lba' i(1) assms(1) by (simp add: unat_root_dir_start)
qed

lemma fat_byte_put_fat_byte:
  assumes "fat_ready s" and "i < fat_size s" and "j < fat_size s"
  shows "fat_byte (put_fat_byte s i b) j = (if j = i then b else fat_byte s j)"
proof -
  let ?t = "put_fat_byte s i b"
  have sec: "fat_sector ?t j = fat_sector s j" by (simp add: fat_sector_def)
  have ij: "i < 4294967296" "j < 4294967296" using assms fat_size_less [of s] by auto
  have "unat (fat_sector s j) < unat (reserved_sectors (fat12_geom s))
      + unat (sectors_per_fat (fat12_geom s))"
    using assms(1,3) ij by (auto simp: unat_fat_sector fat_size_def)
  then have no_copy: "fat_sector s j \<notin> set (fat_copies s (fat_sector s i))"
    using unat_fat_copies(1) [OF assms(1,2)] by fastforce
  have same: "fat_sector s j = fat_sector s i \<longleftrightarrow> j div 512 = i div 512"
    using assms(1) ij by (simp add: word_unat_eq_iff unat_fat_sector)
  have len: "length (dev s (fat_sector s i)) = 512" using assms(1) by simp
  have eq: "j div 512 = i div 512 \<Longrightarrow> j mod 512 = i mod 512 \<longleftrightarrow> j = i"
    by (metis div_mult_mod_eq)
  show ?thesis
    unfolding fat_byte_def sec
    using no_copy same len eq by (auto simp: put_fat_byte_def Let_def nth_list_update fat_byte_def
      store_all_apply)
qed


interpretation fat: byte_store fat_byte put_fat_byte fat_ready fat_size
  by unfold_locales (auto simp: fat_byte_put_fat_byte)

text \<open>The 12-bit entries of the first table.\<close>

abbreviation fat_entry :: "image fat12_state \<Rightarrow> nat \<Rightarrow> u16" where
  "fat_entry \<equiv> get12 fat_byte"

abbreviation put_fat_entry :: "image fat12_state \<Rightarrow> nat \<Rightarrow> u16 \<Rightarrow> image fat12_state" where
  "put_fat_entry \<equiv> set12 fat_byte put_fat_byte"

abbreviation in_fat :: "image fat12_state \<Rightarrow> nat \<Rightarrow> bool" where
  "in_fat s \<equiv> in_table (fat_size s)"

section \<open>The operations on an ideal drive\<close>

lemma of_nat_div_u32: "of_nat (unat (bo :: u32) div 512) = bo div 512"
  by (simp add: word_arith_nat_defs(6))

lemma fat_sector_unat: "fat_sector s (unat bo) = fat_start_sector (fat12_geom s) + bo div 512"
  by (simp add: fat_sector_def of_nat_div_u32)

lemma read_fat12_fat_bytes_ideal [disk_simps]:
  "fat_ready s \<Longrightarrow> unat bo + n < 4294967296 \<Longrightarrow>
     read_fat12_fat_bytes ideal_floppy bo n s =
       Some (map (fat_byte s) [unat bo..<unat bo + n], s)"
proof (induction n arbitrary: bo)
  case (Suc n)
  then have "unat (bo + 1) = Suc (unat bo)" by (simp add: unat_add_u32)
  with Suc.IH [of "bo + 1"] Suc.prems show ?case
    by (simp add: disk_simps upt_rec fat_byte_def fat_sector_unat unat_mod)
qed simp

lemma write_fat_copies_ideal:
  "on_ideal s \<Longrightarrow> length buf = 512 \<Longrightarrow>
     write_fat_copies ideal_floppy sec buf fs s =
       Some (s\<lparr>dev := store_all (map (\<lambda>f. sec + of_nat f *
          ucast (sectors_per_fat (fat12_geom s))) fs) buf (dev s)\<rparr>)"
  by (induction fs arbitrary: s) (simp_all add: disk_simps)

lemma write_fat12_fat_bytes_ideal:
  assumes "fat_ready s"
  shows "write_fat12_fat_bytes ideal_floppy bo (b # bs) s =
    write_fat12_fat_bytes ideal_floppy (bo + 1) bs (put_fat_byte s (unat bo) b)"
  using assms
  by (simp add: disk_simps write_fat_copies_ideal put_fat_byte_def fat_copies_def Let_def
      fat_sector_unat unat_mod)

lemma and_one_u32: "(c :: u32) AND 1 \<noteq> 0 \<longleftrightarrow> odd (unat c)"
  by (simp add: and_one_eq mod_2_eq_odd bit_unsigned_iff flip: bit_0)

lemma entry_offset_u32: "unat (c :: u32) < 65536 \<Longrightarrow> unat (c * 3 div 2) = 3 * unat c div 2"
  by (simp add: unat_div unat_mult_u32 mult.commute)

lemma two_bytes: "map f [i..<Suc (Suc i)] = [f i, f (Suc i)]"
  by simp

lemma fat12_read_fat_entry_ideal [disk_simps]:
  assumes "fat_ready s" and "unat c < 65536"
  shows "fat12_read_fat_entry ideal_floppy c s = Some (fat_entry s (unat c), s)"
  using assms
  by (simp add: fat12_read_fat_entry_def read_fat12_fat_bytes_ideal entry_offset_u32
      and_one_u32 get12_def u16_of_le_def Let_def)

lemma fat12_write_fat_entry_ideal [disk_simps]:
  assumes "fat_ready s" and "unat c < 65536"
  shows "fat12_write_fat_entry ideal_floppy c v s = Some (put_fat_entry s (unat c) v)"
proof -
  have "unat (c * 3 div 2 + 1) = Suc (3 * unat c div 2)"
    using assms by (simp add: unat_add_u32 entry_offset_u32)
  then show ?thesis
    using assms
    by (simp add: fat12_write_fat_entry_def read_fat12_fat_bytes_ideal entry_offset_u32
        and_one_u32 set12_def pack12_def u16_of_le_def Let_def write_fat12_fat_bytes_ideal
        del: write_fat12_fat_bytes.simps(2))
qed

section \<open>Allocation\<close>

text \<open>The clusters the search visits from cluster \<open>c\<close> on.\<close>

definition cluster_range :: "nat \<Rightarrow> nat list" where
  "cluster_range c = [c..<4080]"

lemma set_cluster_range [simp]: "set (cluster_range c) = {c..<4080}"
  by (simp add: cluster_range_def)

lemma length_cluster_range [simp]: "length (cluster_range c) = 4080 - c"
  by (simp add: cluster_range_def)

lemma nth_cluster_range [simp]: "i < 4080 - c \<Longrightarrow> cluster_range c ! i = c + i"
  by (simp add: cluster_range_def)

lemma cluster_range_simps [simp]:
  "c < 4080 \<Longrightarrow> cluster_range c = c # cluster_range (Suc c)" "\<not> c < 4080 \<Longrightarrow> cluster_range c = []"
  by (simp_all add: cluster_range_def upt_rec)

declare cluster_range_simps(1) [simp del]

text \<open>The specification: the first free entry is marked as the end of a chain, then linked.\<close>

definition first_free :: "image fat12_state \<Rightarrow> nat option" where
  "first_free s = List.find (\<lambda>k. fat_entry s k = 0) (cluster_range 2)"

definition take_cluster :: "image fat12_state \<Rightarrow> u32 \<Rightarrow> nat \<Rightarrow> image fat12_state" where
  "take_cluster s cur k =
     (let t = put_fat_entry s k 0x0FFF
      in if cur \<ge> 2 then put_fat_entry t (unat cur) (of_nat k) else t)"

lemma fat_ready_take_cluster [simp]: "fat_ready s \<Longrightarrow> fat_ready (take_cluster s cur k)"
  by (simp add: take_cluster_def Let_def fat.ok_put)

lemma allocate_from_ideal:
  "fat_ready s \<Longrightarrow> unat cur < 65536 \<Longrightarrow> unat c \<le> 4080 \<Longrightarrow>
     allocate_from ideal_floppy cur c s =
       (case List.find (\<lambda>k. fat_entry s k = 0) (cluster_range (unat c)) of
          None \<Rightarrow> Some (-1, s)
        | Some k \<Rightarrow> Some (int k, take_cluster s cur k))"
proof (induction "4080 - unat c" arbitrary: c)
  case 0
  then have "\<not> c < 4080" by (simp add: word_less_nat_alt)
  with 0 show ?case by (simp add: allocate_from.simps [of _ _ c])
next
  case (Suc n)
  then have c: "c < 4080" "unat c < 4080" and n: "unat (c + 1) = Suc (unat c)"
    by (simp_all add: word_less_nat_alt unat_add_u32)
  have "(ucast c :: u16) = of_nat (unat c)" by simp
  moreover have "uint c = int (unat c)" by simp
  ultimately show ?case
    using Suc c n
    by (simp add: cluster_range_simps(1) allocate_from.simps [of _ _ c] disk_simps take_cluster_def Let_def fat.ok_put)
qed

lemma fat12_allocate_cluster_ideal [disk_simps]:
  "fat_ready s \<Longrightarrow> unat cur < 65536 \<Longrightarrow>
     fat12_allocate_cluster ideal_floppy cur s =
       (case first_free s of
          None \<Rightarrow> Some (-1, s)
        | Some k \<Rightarrow> Some (int k, take_cluster s cur k))"
  by (simp add: fat12_allocate_cluster_def allocate_from_ideal first_free_def)

lemma first_free_SomeD:
  "first_free s = Some k \<Longrightarrow> 2 \<le> k \<and> k < 4080 \<and> fat_entry s k = 0
     \<and> (\<forall>j. 2 \<le> j \<and> j < k \<longrightarrow> fat_entry s j \<noteq> 0)"
proof -
  assume "first_free s = Some k"
  then obtain i where i: "i < 4078" "k = 2 + i" "fat_entry s k = 0"
    and before: "\<forall>j<i. fat_entry s (2 + j) \<noteq> 0"
    by (auto simp: first_free_def find_Some_iff)
  have "fat_entry s j \<noteq> 0" if "2 \<le> j" "j < k" for j
    using before [rule_format, of "j - 2"] that i by (simp add: le_add_diff_inverse del: add_2_eq_Suc add_2_eq_Suc')
  with i show ?thesis by simp
qed

lemma first_free_None_iff: "first_free s = None \<longleftrightarrow> (\<forall>k. 2 \<le> k \<and> k < 4080 \<longrightarrow> fat_entry s k \<noteq> 0)"
  by (auto simp: first_free_def find_None_iff)

text \<open>The effect of an allocation on the entries of the table.\<close>

lemma fat_entry_take_cluster:
  assumes "fat_ready s" and "in_fat s k" and "cur \<ge> 2 \<Longrightarrow> in_fat s (unat cur)" and "in_fat s j"
    and "k < 4080"
  shows "fat_entry (take_cluster s cur k) j =
    (if cur \<ge> 2 \<and> j = unat cur then of_nat k else if j = k then 0x0FFF else fat_entry s j)"
proof -
  have "of_nat k AND 0x0FFF = (of_nat k :: u16)"
  proof -
    have "(of_nat k :: u16) AND mask 12 = of_nat k"
      using assms(5) by (simp add: take_bit_eq_mask [symmetric] take_bit_of_nat
        take_bit_nat_eq_self)
    then show ?thesis by (simp add: masks_u16)
  qed
  then show ?thesis
    using assms by (simp add: take_cluster_def Let_def fat.get_put fat.ok_put fat.valid_put
      del: put_fat_byte_fields)
qed

section \<open>Releasing a chain\<close>

lemma free_cluster_chain_stop:
  "\<not> is_link c \<Longrightarrow> c < 65536 \<Longrightarrow> fat12_free_cluster_chain ideal_floppy (of_nat c) s = Some s"
  by (subst fat12_free_cluster_chain.simps)
    (auto simp: is_link_def word_less_nat_alt word_le_nat_alt unat_of_nat_u32)

lemma free_cluster_chain_link:
  assumes "is_link c" and "fat_ready s"
  shows "fat12_free_cluster_chain ideal_floppy (of_nat c) s =
    fat12_free_cluster_chain ideal_floppy (of_nat (unat (fat_entry s c))) (put_fat_entry s c 0)"
proof -
  have c: "unat (of_nat c :: u32) = c" "c < 65536"
    using assms(1) by (simp_all add: is_link_def unat_of_nat_u32)
  then have "2 \<le> (of_nat c :: u32) \<and> (of_nat c :: u32) < 0x0FF8"
    using assms(1) by (simp add: is_link_def word_less_nat_alt word_le_nat_alt)
  moreover have "(ucast (fat_entry s c) :: u32) = of_nat (unat (fat_entry s c))"
    by simp
  ultimately show ?thesis
    using assms c by (subst fat12_free_cluster_chain.simps) (simp add: disk_simps)
qed

lemma free_cluster_chain_of_chain:
  assumes "fat_ready s" and "unat c < 65536" and "fat_chain (fat_entry s) (unat c) ks"
    and "\<forall>k \<in> set ks. in_fat s k"
  shows "fat12_free_cluster_chain ideal_floppy c s = Some (free_entries put_fat_entry ks s)"
  using fat.free_loop_chain [of "\<lambda>c s. fat12_free_cluster_chain ideal_floppy (of_nat c) s",
      OF free_cluster_chain_stop free_cluster_chain_link assms(3,1,2,4)]
  by simp

lemma free_cluster_chain_stops:
  assumes "fat_ready s" and "unat c < 65536" and "fat.links_closed s"
    and "is_link (unat c) \<Longrightarrow> in_fat s (unat c)"
  shows "\<exists>ks. fat12_free_cluster_chain ideal_floppy c s = Some (free_entries put_fat_entry ks s)
    \<and> (\<forall>k \<in> set ks. is_link k \<and> in_fat s k)"
  using fat.free_loop_stops [of "\<lambda>c s. fat12_free_cluster_chain ideal_floppy (of_nat c) s",
      OF free_cluster_chain_stop free_cluster_chain_link assms(1,3,2,4)]
  by simp

section \<open>Writes behind the table\<close>

text \<open>A write to the root directory or the data area leaves the table alone.\<close>

lemma fat_byte_put_behind:
  assumes "fat_ready s" and "num_fats (fat12_geom s) \<noteq> 0" and "i < fat_size s"
    and "unat (root_dir_start_sector (fat12_geom s)) \<le> unat sec"
  shows "fat_byte (s\<lparr>dev := (dev s)(sec := buf)\<rparr>) i = fat_byte s i"
proof -
  let ?g = "fat12_geom s"
  have i: "i < 4294967296" "i div 512 < unat (sectors_per_fat ?g)"
    using assms(3) fat_size_less [of s] by (auto simp: fat_size_def)
  have "unat (num_fats ?g) \<noteq> 0" using assms(2) by (simp add: unat_eq_zero)
  then have "1 * unat (sectors_per_fat ?g) \<le> unat (num_fats ?g) * unat (sectors_per_fat ?g)"
    by (intro mult_le_mono1) linarith
  moreover have "unat (root_dir_start_sector ?g) =
      unat (reserved_sectors ?g) + unat (num_fats ?g) * unat (sectors_per_fat ?g)"
    using assms(1) by (intro unat_root_dir_start fat_readyD)
  moreover have "unat (fat_sector s i) = unat (reserved_sectors ?g) + i div 512"
    using assms(1) i(1) by (rule unat_fat_sector)
  ultimately have "unat (fat_sector s i) < unat sec" using assms(4) i(2) by linarith
  then have "fat_sector s i \<noteq> sec" by auto
  moreover have "fat_sector (s\<lparr>dev := (dev s)(sec := buf)\<rparr>) i = fat_sector s i"
    by (simp add: fat_sector_def)
  ultimately show ?thesis by (simp add: fat_byte_def)
qed

lemma fat_entry_put_behind:
  assumes "fat_ready s" and "num_fats (fat12_geom s) \<noteq> 0" and "in_fat s k"
    and "unat (root_dir_start_sector (fat12_geom s)) \<le> unat sec"
  shows "fat_entry (s\<lparr>dev := (dev s)(sec := buf)\<rparr>) k = fat_entry s k"
  using assms fat_byte_put_behind [OF assms(1,2) _ assms(4)]
  by (simp add: get12_def in_table_def Let_def)

end
