(* ===== verification/Fat12_Dir.thy ===== *)
theory Fat12_Dir
  imports Fat12_Table
begin

text \<open>
  Directory entries of \<open>kernel/fat12.c\<close>: reading and writing one entry of the root directory or of
  the cluster chain of a subdirectory (\<open>dir_cluster = 0\<close> stands for the root), the 8.3 names, the
  scans for a name or a free slot, and the creation of an entry. A C function that returns -1 or
  fills an output structure returns \<open>None\<close> or \<open>Some\<close> of that structure here.
\<close>

section \<open>Reading and writing an entry\<close>

definition cluster_sector :: "fat12_geometry \<Rightarrow> u32 \<Rightarrow> u32 \<Rightarrow> u32" where
  "cluster_sector g c sector_offset =
     data_start_sector g + (c - 2) * ucast (sectors_per_cluster g) + sector_offset"

definition entries_per_cluster :: "fat12_geometry \<Rightarrow> u32" where
  "entries_per_cluster g = (ucast (sectors_per_cluster g) * 512) div 32"

text \<open>The loop to the cluster that holds the entry: \<open>None\<close> where the chain ends before.\<close>

fun dir_walk ::
    "'d floppy_ops \<Rightarrow> u32 \<Rightarrow> nat \<Rightarrow> 'd fat12_state \<Rightarrow> (u32 option \<times> 'd fat12_state) option" where
  "dir_walk F c 0 s = Some (Some c, s)"
| "dir_walk F c (Suc n) s = do {
     (e, s) \<leftarrow> fat12_read_fat_entry F c s;
     let c = ucast e;
     (if c < 2 \<or> c \<ge> 0x0FF8 then Some (None, s) else dir_walk F c n s)
   }"

definition fat12_read_dir_entry ::
    "'d floppy_ops \<Rightarrow> u32 \<Rightarrow> u32 \<Rightarrow> 'd fat12_state
      \<Rightarrow> (fat12_dir_entry option \<times> 'd fat12_state) option" where
  "fat12_read_dir_entry F dir_cluster entry_index s =
     (let g = fat12_geom s in
      if dir_cluster = 0 then
        if entry_index \<ge> ucast (root_dir_entries g) then Some (None, s)
        else do {
          let byte_offset = entry_index * 32;
          let sector = root_dir_start_sector g + byte_offset div 512;
          let offset_in_sector = byte_offset mod 512;
          ((r, sec_buf), s) \<leftarrow> read_sector F sector s;
          (if r < 0 then Some (None, s)
           else Some (Some (dir_entry_of_bytes (sub_bytes sec_buf (unat offset_in_sector) 32)), s))
        }
      else if entries_per_cluster g = 0 then None
      else do {
        let target_cluster_index = entry_index div entries_per_cluster g;
        let entry_offset_in_cluster = entry_index mod entries_per_cluster g;
        (w, s) \<leftarrow> dir_walk F dir_cluster (unat target_cluster_index) s;
        (case w of
           None \<Rightarrow> Some (None, s)
         | Some c \<Rightarrow> do {
             let byte_offset = entry_offset_in_cluster * 32;
             let sector = cluster_sector g c (byte_offset div 512);
             let offset_in_sector = byte_offset mod 512;
             ((r, sec_buf), s) \<leftarrow> read_sector F sector s;
             (if r < 0 then Some (None, s)
              else Some (Some (dir_entry_of_bytes (sub_bytes sec_buf (unat offset_in_sector) 32)), s))
           })
      })"

text \<open>The loop that clears a new directory cluster; the results of the writes are ignored.\<close>

fun zero_sectors ::
    "'d floppy_ops \<Rightarrow> u32 \<Rightarrow> nat list \<Rightarrow> 'd fat12_state \<Rightarrow> 'd fat12_state option" where
  "zero_sectors F new_c [] s = Some s"
| "zero_sectors F new_c (i # is) s = do {
     (_, s) \<leftarrow> write_sector F (cluster_sector (fat12_geom s) new_c (of_nat i)) (replicate 512 0) s;
     zero_sectors F new_c is s
   }"

text \<open>The loop of \<open>fat12_write_dir_entry\<close>: where the chain ends it is extended by a cleared cluster.\<close>

fun dir_walk_extend ::
    "'d floppy_ops \<Rightarrow> u32 \<Rightarrow> nat \<Rightarrow> 'd fat12_state \<Rightarrow> (u32 option \<times> 'd fat12_state) option" where
  "dir_walk_extend F c 0 s = Some (Some c, s)"
| "dir_walk_extend F c (Suc n) s = do {
     let prev_c = c;
     (e, s) \<leftarrow> fat12_read_fat_entry F c s;
     let c = ucast e;
     (if c < 2 \<or> c \<ge> 0x0FF8 then do {
        (new_c, s) \<leftarrow> fat12_allocate_cluster F prev_c s;
        (if new_c < 0 then Some (None, s)
         else do {
           s \<leftarrow> zero_sectors F (word_of_int new_c)
                 [0..<unat (sectors_per_cluster (fat12_geom s))] s;
           dir_walk_extend F (word_of_int new_c) n s
         })
      } else dir_walk_extend F c n s)
   }"

text \<open>The store of the entry in its sector, common to both branches: \<open>False\<close> is the result -1.\<close>

definition put_dir_entry_in ::
    "'d floppy_ops \<Rightarrow> u32 \<Rightarrow> u32 \<Rightarrow> fat12_dir_entry \<Rightarrow> 'd fat12_state
      \<Rightarrow> (bool \<times> 'd fat12_state) option" where
  "put_dir_entry_in F sector offset_in_sector in_entry s = do {
     ((r, sec_buf), s) \<leftarrow> read_sector F sector s;
     (if r < 0 then Some (False, s)
      else do {
        let sec_buf = put_bytes sec_buf (unat offset_in_sector) (bytes_of_dir_entry in_entry);
        (r, s) \<leftarrow> write_sector F sector sec_buf s;
        Some (\<not> r < 0, s)
      })
   }"

definition fat12_write_dir_entry ::
    "'d floppy_ops \<Rightarrow> u32 \<Rightarrow> u32 \<Rightarrow> fat12_dir_entry \<Rightarrow> 'd fat12_state
      \<Rightarrow> (bool \<times> 'd fat12_state) option" where
  "fat12_write_dir_entry F dir_cluster entry_index in_entry s =
     (let g = fat12_geom s in
      if dir_cluster = 0 then
        if entry_index \<ge> ucast (root_dir_entries g) then Some (False, s)
        else
          let byte_offset = entry_index * 32 in
          put_dir_entry_in F (root_dir_start_sector g + byte_offset div 512) (byte_offset mod 512)
            in_entry s
      else if entries_per_cluster g = 0 then None
      else do {
        let target_cluster_index = entry_index div entries_per_cluster g;
        let entry_offset_in_cluster = entry_index mod entries_per_cluster g;
        (w, s) \<leftarrow> dir_walk_extend F dir_cluster (unat target_cluster_index) s;
        (case w of
           None \<Rightarrow> Some (False, s)
         | Some c \<Rightarrow>
             let byte_offset = entry_offset_in_cluster * 32 in
             put_dir_entry_in F (cluster_sector g c (byte_offset div 512)) (byte_offset mod 512)
               in_entry s)
      })"

section \<open>Scanning a directory\<close>

definition match_fat12_name :: "fat12_dir_entry \<Rightarrow> bytes \<Rightarrow> bytes \<Rightarrow> bool" where
  "match_fat12_name entry nm ex \<longleftrightarrow>
     (\<forall>i \<in> set [0..<8]. de_name entry ! i = nm ! i)
     \<and> (\<forall>i \<in> set [0..<3]. de_ext entry ! i = ex ! i)"

text \<open>
  The search loop shared by \<open>fat12_find_entry\<close> and \<open>fat12_resolve_parent\<close>: the matching entry
  and its index. Nothing bounds it on a cyclic directory chain.
\<close>

partial_function (option) find_in_dir ::
    "'d floppy_ops \<Rightarrow> bytes \<Rightarrow> bytes \<Rightarrow> u32 \<Rightarrow> u32 \<Rightarrow> 'd fat12_state
      \<Rightarrow> ((fat12_dir_entry \<times> u32) option \<times> 'd fat12_state) option" where
  "find_in_dir F formatted_name formatted_ext dir_cluster entry_idx s = do {
     (r, s) \<leftarrow> fat12_read_dir_entry F dir_cluster entry_idx s;
     (case r of
        None \<Rightarrow> Some (None, s)
      | Some entry \<Rightarrow>
          if de_name entry ! 0 = 0 then Some (None, s)
          else if de_name entry ! 0 = 0xE5 then
            find_in_dir F formatted_name formatted_ext dir_cluster (entry_idx + 1) s
          else if de_attr entry = 0x0F then
            find_in_dir F formatted_name formatted_ext dir_cluster (entry_idx + 1) s
          else if match_fat12_name entry formatted_name formatted_ext then
            Some (Some (entry, entry_idx), s)
          else find_in_dir F formatted_name formatted_ext dir_cluster (entry_idx + 1) s)
   }"

text \<open>
  The search of \<open>fat12_create_entry\<close> for a slot: the end mark, a deleted entry, or the index past
  the end of a subdirectory. \<open>None\<close> as first component: the root directory is full.
\<close>

partial_function (option) find_slot ::
    "'d floppy_ops \<Rightarrow> u32 \<Rightarrow> u32 \<Rightarrow> 'd fat12_state \<Rightarrow> (u32 option \<times> 'd fat12_state) option" where
  "find_slot F parent_cluster entry_idx s = do {
     (r, s) \<leftarrow> fat12_read_dir_entry F parent_cluster entry_idx s;
     (case r of
        None \<Rightarrow> if parent_cluster = 0 then Some (None, s) else Some (Some entry_idx, s)
      | Some entry \<Rightarrow>
          if de_name entry ! 0 = 0 \<or> de_name entry ! 0 = 0xE5 then Some (Some entry_idx, s)
          else find_slot F parent_cluster (entry_idx + 1) s)
   }"

definition zero_entry :: fat12_dir_entry where
  "zero_entry = dir_entry_of_bytes (replicate 32 0)"

definition make_entry :: "bytes \<Rightarrow> bytes \<Rightarrow> u8 \<Rightarrow> u32 \<Rightarrow> u32 \<Rightarrow> fat12_dir_entry" where
  "make_entry nm ex attr first_cluster fsize =
     zero_entry\<lparr>de_name := take 8 nm, de_ext := take 3 ex, de_attr := attr,
       de_first_cluster_low := ucast first_cluster, de_file_size := fsize\<rparr>"

text \<open>The result is the index converted to \<open>int\<close>, with the entry written, or -1.\<close>

definition fat12_create_entry ::
    "'d floppy_ops \<Rightarrow> u32 \<Rightarrow> bytes \<Rightarrow> bytes \<Rightarrow> u8 \<Rightarrow> u32 \<Rightarrow> u32 \<Rightarrow> 'd fat12_state
      \<Rightarrow> ((int \<times> fat12_dir_entry option) \<times> 'd fat12_state) option" where
  "fat12_create_entry F parent_cluster nm ex attr first_cluster fsize s = do {
     (slot, s) \<leftarrow> find_slot F parent_cluster 0 s;
     (case slot of
        None \<Rightarrow> Some ((-1, None), s)
      | Some entry_idx \<Rightarrow> do {
          (check_entry, s) \<leftarrow> fat12_read_dir_entry F parent_cluster entry_idx s;
          let was_end = (case check_entry of None \<Rightarrow> False | Some e \<Rightarrow> de_name e ! 0 = 0);
          let new_entry = make_entry nm ex attr first_cluster fsize;
          (w, s) \<leftarrow> fat12_write_dir_entry F parent_cluster entry_idx new_entry s;
          (if \<not> w then Some ((-1, None), s)
           else do {
             s \<leftarrow> (if was_end then do {
                      (_, s) \<leftarrow> fat12_write_dir_entry F parent_cluster (entry_idx + 1) zero_entry s;
                      Some s
                    } else Some s);
             Some ((sint entry_idx, Some new_entry), s)
           })
        })
   }"

section \<open>Where an entry lies\<close>

text \<open>The \<open>n\<close>-th cluster of a chain, if the chain is that long.\<close>

fun chain_nth :: "(nat \<Rightarrow> u16) \<Rightarrow> nat \<Rightarrow> nat \<Rightarrow> nat option" where
  "chain_nth T c 0 = Some c"
| "chain_nth T c (Suc n) =
     (if is_link (unat (T c)) then chain_nth T (unat (T c)) n else None)"

lemma chain_nth_bound: "chain_nth T c n = Some k \<Longrightarrow> c < 65536 \<Longrightarrow> k < 65536"
  by (induction n arbitrary: c) (auto simp: unat_u16_less split: if_splits)

lemma chain_nth_link: "chain_nth T c n = Some k \<Longrightarrow> is_link c \<Longrightarrow> is_link k"
  by (induction n arbitrary: c) (auto split: if_splits)

lemma chain_nth_of_chain:
  "fat_chain T c ks \<Longrightarrow> n < length ks \<Longrightarrow> chain_nth T c n = Some (ks ! n)"
proof (induction ks arbitrary: c n rule: list.induct)
  case (Cons k ks)
  then show ?case
  proof (cases n)
    case (Suc m)
    with Cons have "ks \<noteq> []" by auto
    with Cons.prems have "is_link (unat (T c))" by (cases ks) auto
    with Cons Suc show ?thesis by auto
  qed auto
qed simp

lemma chain_nth_eq:
  "fat_chain T c ks \<Longrightarrow> is_link c \<Longrightarrow>
     chain_nth T c n = (if n < length ks then Some (ks ! n) else None)"
proof (induction ks arbitrary: c n rule: list.induct)
  case (Cons k ks)
  show ?case
  proof (cases n)
    case 0
    with Cons.prems show ?thesis by simp
  next
    case (Suc m)
    show ?thesis
    proof (cases "is_link (unat (T c))")
      case True
      with Cons.IH [of "unat (T c)" m] Cons.prems Suc show ?thesis by simp
    next
      case False
      with Cons.prems have "ks = []" by (cases ks) simp_all
      with False Suc show ?thesis by simp
    qed
  qed
qed simp

lemma is_link_unat_iff: "is_link (unat (w :: u16)) \<longleftrightarrow> \<not> ((ucast w :: u32) < 2 \<or> (ucast w :: u32) \<ge> 0x0FF8)"
  by (auto simp: is_link_def word_less_nat_alt word_le_nat_alt)

lemma dir_walk_ideal [disk_simps]:
  "fat_ready s \<Longrightarrow> unat c < 65536 \<Longrightarrow>
     dir_walk ideal_floppy c n s =
       Some (map_option of_nat (chain_nth (fat_entry s) (unat c) n), s)"
proof (induction n arbitrary: c)
  case (Suc n)
  let ?w = "fat_entry s (unat c)"
  have "unat (ucast ?w :: u32) < 65536" by (simp add: unat_u16_less)
  with Suc.IH [of "ucast ?w"] Suc.prems show ?case
    by (auto simp: disk_simps is_link_unat_iff)
qed simp

text \<open>The sector and the offset of entry \<open>idx\<close> of directory \<open>dc\<close>.\<close>

definition slot_in :: "u32 \<Rightarrow> u32 \<Rightarrow> u32 \<times> nat" where
  "slot_in sector idx = (sector + (idx * 32) div 512, unat ((idx * 32) mod 512))"

definition dir_slot :: "image fat12_state \<Rightarrow> u32 \<Rightarrow> u32 \<Rightarrow> (u32 \<times> nat) option" where
  "dir_slot s dc idx =
     (let g = fat12_geom s in
      if dc = 0 then
        if idx \<ge> ucast (root_dir_entries g) then None
        else Some (slot_in (root_dir_start_sector g) idx)
      else
        map_option (\<lambda>c. slot_in (cluster_sector g (of_nat c) 0) (idx mod entries_per_cluster g))
          (chain_nth (fat_entry s) (unat dc) (unat (idx div entries_per_cluster g))))"

definition dir_lookup :: "image fat12_state \<Rightarrow> u32 \<Rightarrow> u32 \<Rightarrow> fat12_dir_entry option" where
  "dir_lookup s dc idx =
     map_option (\<lambda>(sec, off). dir_entry_of_bytes (sub_bytes (dev s sec) off 32)) (dir_slot s dc idx)"

definition put_slot :: "image fat12_state \<Rightarrow> u32 \<times> nat \<Rightarrow> fat12_dir_entry \<Rightarrow> image fat12_state" where
  "put_slot s p e = s\<lparr>dev := (dev s)(fst p :=
     put_bytes (dev s (fst p)) (snd p) (bytes_of_dir_entry e))\<rparr>"

text \<open>A directory argument that the code can follow: the root, or a cluster of a volume whose
  clusters are not empty.\<close>

definition dir_ready :: "image fat12_state \<Rightarrow> u32 \<Rightarrow> bool" where
  "dir_ready s dc \<longleftrightarrow>
     fat_ready s \<and> unat dc < 65536 \<and> (dc \<noteq> 0 \<longrightarrow> sectors_per_cluster (fat12_geom s) \<noteq> 0)"

lemma dir_readyD [simp]: "dir_ready s dc \<Longrightarrow> fat_ready s"
  by (simp add: dir_ready_def)

lemma unat_entries_per_cluster:
  "unat (entries_per_cluster g) = unat (sectors_per_cluster g) * 16"
  using unat_u8_less [of "sectors_per_cluster g"]
  by (simp add: entries_per_cluster_def unat_div unat_mult_u32)

lemma entries_per_cluster_zero_iff [simp]:
  "entries_per_cluster g = 0 \<longleftrightarrow> sectors_per_cluster g = 0"
  using unat_entries_per_cluster [of g] by (auto simp: unat_eq_zero)

lemma cluster_sector_add: "cluster_sector g c o' = cluster_sector g c 0 + o'"
  by (simp add: cluster_sector_def)

lemma fat12_read_dir_entry_ideal [disk_simps]:
  "dir_ready s dc \<Longrightarrow> fat12_read_dir_entry ideal_floppy dc idx s = Some (dir_lookup s dc idx, s)"
  by (auto simp: fat12_read_dir_entry_def dir_lookup_def dir_slot_def slot_in_def disk_simps
      dir_ready_def Let_def cluster_sector_add [of _ _ "_ div _"] split: option.split)

lemma dir_walk_extend_ideal:
  "fat_ready s \<Longrightarrow> unat c < 65536 \<Longrightarrow> chain_nth (fat_entry s) (unat c) n = Some k \<Longrightarrow>
     dir_walk_extend ideal_floppy c n s = Some (Some (of_nat k), s)"
proof (induction n arbitrary: c)
  case (Suc n)
  let ?w = "fat_entry s (unat c)"
  have "unat (ucast ?w :: u32) < 65536" by (simp add: unat_u16_less)
  with Suc.IH [of "ucast ?w"] Suc.prems show ?case
    by (auto simp: disk_simps is_link_unat_iff split: if_splits)
qed auto

lemma put_dir_entry_in_ideal [disk_simps]:
  "on_ideal s \<Longrightarrow> put_dir_entry_in ideal_floppy sec off e s = Some (True, put_slot s (sec, unat off) e)"
  by (simp add: put_dir_entry_in_def disk_simps put_slot_def)

lemma fat12_write_dir_entry_ideal:
  "dir_ready s dc \<Longrightarrow> dir_slot s dc idx = Some p \<Longrightarrow>
     fat12_write_dir_entry ideal_floppy dc idx e s = Some (True, put_slot s p e)"
  by (auto simp: fat12_write_dir_entry_def dir_slot_def slot_in_def disk_simps dir_walk_extend_ideal
      dir_ready_def Let_def cluster_sector_add [of _ _ "_ div _"] split: if_splits)

lemma fat12_write_root_full:
  "dir_slot s 0 idx = None \<Longrightarrow>
     fat12_write_dir_entry ideal_floppy 0 idx e s = Some (False, s)"
  by (simp add: fat12_write_dir_entry_def dir_slot_def Let_def split: if_splits)

section \<open>Slots are independent\<close>

text \<open>
  Every slot is a 32-byte cell of a sector behind the copies of the table, provided the volume has
  at least one copy of the table, its links stay inside the table, and the directory is the root
  or starts at a cluster of the table.
\<close>

definition tree_ready :: "image fat12_state \<Rightarrow> bool" where
  "tree_ready s \<longleftrightarrow>
     fat_ready s \<and> num_fats (fat12_geom s) \<noteq> 0 \<and> sectors_per_cluster (fat12_geom s) \<noteq> 0
     \<and> fat.links_closed s"

definition dir_cluster_ok :: "image fat12_state \<Rightarrow> u32 \<Rightarrow> bool" where
  "dir_cluster_ok s dc \<longleftrightarrow> dc = 0 \<or> (is_link (unat dc) \<and> in_fat s (unat dc))"

lemma tree_readyD:
  assumes "tree_ready s"
  shows "fat_ready s" and "wf_geom (fat12_geom s)" and "num_fats (fat12_geom s) \<noteq> 0"
    and "sectors_per_cluster (fat12_geom s) \<noteq> 0" and "fat.links_closed s"
  using assms by (simp_all add: tree_ready_def)

lemma tree_ready_dir [simp]: "tree_ready s \<Longrightarrow> dir_cluster_ok s dc \<Longrightarrow> dir_ready s dc"
  unfolding tree_ready_def dir_ready_def dir_cluster_ok_def is_link_def by (elim disjE) simp_all

lemma unat_root_dir_start_less: "wf_geom g \<Longrightarrow> unat (root_dir_start_sector g) < 33554432"
  using mult_less_u8_u16 [of "num_fats g" "sectors_per_fat g"] unat_u16_less [of "reserved_sectors g"]
  by (simp add: unat_root_dir_start)

lemma unat_data_start_less: "wf_geom g \<Longrightarrow> unat (data_start_sector g) < 67108864"
  using unat_root_dir_start_less [of g] unat_u16_less [of "root_dir_entries g"]
  by (simp add: unat_data_start unat_root_dir_sectors)

text \<open>The data sector of a cluster never wraps: it lies behind the root directory.\<close>

lemma unat_cluster_sector:
  assumes "wf_geom g" and "2 \<le> k" and "k < 65536" and "unat o' < 65536"
  shows "unat (cluster_sector g (of_nat k) o') =
    unat (data_start_sector g) + (k - 2) * unat (sectors_per_cluster g) + unat o'"
proof -
  have k: "(of_nat k :: u32) - 2 = of_nat (k - 2)" using assms(2) by simp
  have "(k - 2) * unat (sectors_per_cluster g) \<le> 65536 * 256"
    using assms(3) unat_u8_less [of "sectors_per_cluster g"] by (intro mult_le_mono) linarith+
  then show ?thesis
    using unat_data_start_less [OF assms(1)] assms(3,4)
    unfolding cluster_sector_def k by (simp add: unat_add_u32 unat_mult_u32 unat_of_nat_u32)
qed

lemma slot_offset: "snd (slot_in sec idx) = 32 * (unat idx mod 16)"
proof -
  have "unat (idx * 32 mod 512) = (32 * unat idx mod 4294967296) mod 512"
    by (simp add: unat_mod unat_word_ariths mult.commute)
  also have "\<dots> = 32 * unat idx mod 512" by (simp add: mod_mod_cancel)
  also have "\<dots> = 32 * (unat idx mod 16)" by (simp add: mult_mod_right)
  finally show ?thesis by (simp add: slot_in_def)
qed


lemma dir_slot_cases:
  assumes "dir_slot s dc idx = Some p"
  obtains (root) "dc = 0" "unat idx < unat (root_dir_entries (fat12_geom s))"
      "p = slot_in (root_dir_start_sector (fat12_geom s)) idx"
    | (sub) k where "dc \<noteq> 0"
      "chain_nth (fat_entry s) (unat dc) (unat (idx div entries_per_cluster (fat12_geom s))) = Some k"
      "p = slot_in (cluster_sector (fat12_geom s) (of_nat k) 0)
             (idx mod entries_per_cluster (fat12_geom s))"
  using assms by (auto simp: dir_slot_def Let_def word_less_nat_alt not_le split: if_splits)

text \<open>The sector of a slot, as a number.\<close>

lemma unat_slot_root:
  assumes "wf_geom g" and "unat idx < unat (root_dir_entries g)"
  shows "unat (fst (slot_in (root_dir_start_sector g) idx)) =
    unat (root_dir_start_sector g) + unat idx div 16"
proof -
  have i: "unat idx < 65536" using assms(2) unat_u16_less [of "root_dir_entries g"] by linarith
  then have "unat (idx * 32) = unat idx * 32" by (subst unat_mult_u32) simp_all
  then have d: "unat (idx * 32 div 512) = unat idx div 16" by (simp add: unat_div)
  then show ?thesis
    using unat_root_dir_start_less [OF assms(1)] i
    unfolding slot_in_def fst_conv by (subst unat_add_u32) (simp_all add: d)
qed

lemma unat_slot_sub:
  assumes "wf_geom g" and "2 \<le> k" and "k < 65536" and "sectors_per_cluster g \<noteq> 0"
  shows "unat (fst (slot_in (cluster_sector g (of_nat k) 0) (idx mod entries_per_cluster g))) =
    unat (data_start_sector g) + (k - 2) * unat (sectors_per_cluster g)
      + (unat idx mod (unat (sectors_per_cluster g) * 16)) div 16"
proof -
  let ?spc = "unat (sectors_per_cluster g)"
  have spc: "0 < ?spc" using assms(4) by (simp add: unat_gt_0)
  have "unat idx mod (?spc * 16) < ?spc * 16" using spc by simp
  then have m: "unat (idx mod entries_per_cluster g) < 4096"
    using unat_u8_less [of "sectors_per_cluster g"]
    by (simp add: unat_mod unat_entries_per_cluster)
  have "(k - 2) * ?spc \<le> 65536 * 256"
    using assms(3) unat_u8_less [of "sectors_per_cluster g"] by (intro mult_le_mono) linarith+
  moreover have cs: "unat (cluster_sector g (of_nat k) 0) =
      unat (data_start_sector g) + (k - 2) * ?spc"
    using unat_cluster_sector [OF assms(1,2,3), of 0] by simp
  moreover have "unat ((idx mod entries_per_cluster g) * 32) =
      unat (idx mod entries_per_cluster g) * 32"
    using m by (subst unat_mult_u32) simp_all
  then have d: "unat ((idx mod entries_per_cluster g) * 32 div 512) =
      (unat idx mod (?spc * 16)) div 16"
    by (simp add: unat_div unat_mod unat_entries_per_cluster)
  moreover have "(unat idx mod (?spc * 16)) div 16 < 256"
    using m by (simp add: unat_mod unat_entries_per_cluster)
  ultimately show ?thesis
    using unat_data_start_less [OF assms(1)]
    unfolding slot_in_def fst_conv by (subst unat_add_u32; linarith)
qed

lemma dir_slot_sub_link:
  assumes "dir_cluster_ok s dc" and "dc \<noteq> 0" and "chain_nth T (unat dc) n = Some k"
  shows "is_link k"
  using assms(1,2) chain_nth_link [OF assms(3)] by (simp add: dir_cluster_ok_def)

lemma dir_slot_behind_fat:
  assumes "tree_ready s" and "dir_cluster_ok s dc" and "dir_slot s dc idx = Some p"
  shows "unat (root_dir_start_sector (fat12_geom s)) \<le> unat (fst p)"
    and "snd p + 32 \<le> 512" and "32 dvd snd p"
proof -
  note wf = tree_readyD(2) [OF assms(1)] and spc = tree_readyD(4) [OF assms(1)]
  show "unat (root_dir_start_sector (fat12_geom s)) \<le> unat (fst p)"
    using assms(3)
  proof (cases rule: dir_slot_cases)
    case root
    then show ?thesis using wf by (simp add: unat_slot_root)
  next
    case (sub k)
    then show ?thesis
      using dir_slot_sub_link [OF assms(2) sub(1,2)] unat_slot_sub [OF wf _ _ spc, of k idx] wf
      by (simp add: is_link_def unat_data_start)
  qed
  show "snd p + 32 \<le> 512"
    using assms(3) by (cases rule: dir_slot_cases) (simp_all add: slot_offset mod_le_divisor
      less_Suc_eq_le [symmetric])
  show "32 dvd snd p"
    using assms(3) by (cases rule: dir_slot_cases) (simp_all add: slot_offset)
qed

text \<open>Following a chain sees the table only where its links lead.\<close>

lemma chain_nth_cong:
  assumes "\<And>k. V k \<Longrightarrow> T' k = T k"
    and "\<And>k. V k \<Longrightarrow> is_link k \<Longrightarrow> is_link (unat (T k)) \<Longrightarrow> V (unat (T k))"
    and "V c" and "is_link c"
  shows "chain_nth T' c n = chain_nth T c n"
  using assms(3,4) by (induction n arbitrary: c) (auto simp: assms(1,2))

lemma put_slot_fields [simp]:
  "fat12_geom (put_slot s p e) = fat12_geom s" "fat_size (put_slot s p e) = fat_size s"
  "open_files (put_slot s p e) = open_files s" "drive (put_slot s p e) = drive s"
  by (simp_all add: put_slot_def fat_size_def)

lemma fat_ready_put_slot:
  "fat_ready s \<Longrightarrow> wf_dir_entry e \<Longrightarrow> snd p + 32 \<le> 512 \<Longrightarrow> fat_ready (put_slot s p e)"
  unfolding fat_ready_def by (simp add: put_slot_def)

lemma fat_entry_put_slot:
  assumes "tree_ready s" and "in_fat s k"
    and "unat (root_dir_start_sector (fat12_geom s)) \<le> unat (fst p)"
  shows "fat_entry (put_slot s p e) k = fat_entry s k"
  unfolding put_slot_def
  using tree_readyD(1,3) [OF assms(1)] assms(2,3) by (rule fat_entry_put_behind)

lemma tree_ready_put_slot:
  assumes "tree_ready s" and "wf_dir_entry e" and "snd p + 32 \<le> 512"
    and "unat (root_dir_start_sector (fat12_geom s)) \<le> unat (fst p)"
  shows "tree_ready (put_slot s p e)"
proof -
  have "fat.links_closed (put_slot s p e)"
    using tree_readyD(5) [OF assms(1)] fat_entry_put_slot [OF assms(1) _ assms(4)]
    unfolding fat.links_closed_def by simp
  then show ?thesis
    unfolding tree_ready_def
    using tree_readyD [OF assms(1)] fat_ready_put_slot [OF _ assms(2,3)] by simp
qed

lemma dir_slot_put_slot:
  assumes "tree_ready s" and "dir_cluster_ok s dc"
    and "unat (root_dir_start_sector (fat12_geom s)) \<le> unat (fst p)"
  shows "dir_slot (put_slot s p e) dc idx = dir_slot s dc idx"
proof (cases "dc = 0")
  case False
  have "chain_nth (fat_entry (put_slot s p e)) (unat dc) n =
      chain_nth (fat_entry s) (unat dc) n" for n
    using assms(2) False tree_readyD(5) [OF assms(1)]
    by (intro chain_nth_cong [where V = "in_fat s"])
      (auto simp: fat_entry_put_slot [OF assms(1) _ assms(3)] dir_cluster_ok_def
        fat.links_closed_def)
  with False show ?thesis by (simp add: dir_slot_def Let_def)
qed (simp add: dir_slot_def Let_def)

text \<open>
  The central law of the directory store: an entry written to a slot is read back there, and
  every other slot of every directory keeps its entry.
\<close>

lemma dir_lookup_put_slot:
  assumes "tree_ready s" and "dir_cluster_ok s dc" and "dir_slot s dc idx = Some p"
    and "dir_cluster_ok s dc'" and "wf_dir_entry e"
  shows "dir_lookup (put_slot s p e) dc' idx' =
    (if dir_slot s dc' idx' = Some p then Some e else dir_lookup s dc' idx')"
proof -
  note p = dir_slot_behind_fat [OF assms(1,2,3)]
  have slot: "dir_slot (put_slot s p e) dc' idx' = dir_slot s dc' idx'"
    by (rule dir_slot_put_slot [OF assms(1,4) p(1)])
  have len: "length (dev s x) = 512" for x using tree_readyD(1) [OF assms(1)] by simp
  have eb: "length (bytes_of_dir_entry e) = 32" using assms(5) by simp
  show ?thesis
  proof (cases "dir_slot s dc' idx'")
    case None
    then show ?thesis by (simp add: dir_lookup_def slot)
  next
    case (Some q)
    note q = dir_slot_behind_fat [OF assms(1,4) Some]
    have "sub_bytes (dev (put_slot s p e) (fst q)) (snd q) 32 =
        (if q = p then bytes_of_dir_entry e else sub_bytes (dev s (fst q)) (snd q) 32)"
    proof (cases "fst q = fst p")
      case True
      show ?thesis
      proof (cases "snd q = snd p")
        case same: True
        with True have "q = p" by (simp add: prod_eq_iff)
        with p(2) eb len show ?thesis
          using sub_bytes_put_bytes_same [of "snd p" "dev s (fst p)" "bytes_of_dir_entry e"]
          by (simp add: put_slot_def)
      next
        case False
        have "snd q + 32 \<le> snd p \<or> snd p + 32 \<le> snd q"
          using False p(3) q(3) by (elim dvdE) auto
        with True False p(2) q(2) eb len show ?thesis
          by (auto simp: put_slot_def sub_bytes_put_bytes_other)
      qed
    qed (auto simp: put_slot_def)
    with assms(5) Some show ?thesis
      by (auto simp: dir_lookup_def slot split: prod.splits)
  qed
qed

lemma dir_cluster_ok_put_slot [simp]:
  "dir_cluster_ok (put_slot s p e) dc = dir_cluster_ok s dc"
  by (simp add: dir_cluster_ok_def)

lemma wf_dir_lookup:
  assumes "tree_ready s" and "dir_cluster_ok s dc" and "dir_lookup s dc idx = Some e"
  shows "wf_dir_entry e"
proof -
  obtain p where p: "dir_slot s dc idx = Some p"
      "e = dir_entry_of_bytes (sub_bytes (dev s (fst p)) (snd p) 32)"
    using assms(3) by (auto simp: dir_lookup_def)
  with dir_slot_behind_fat(2) [OF assms(1,2) p(1)] tree_readyD(1) [OF assms(1)]
  show ?thesis by simp
qed

end
