(* ===== verification/Fat12_Scan.thy ===== *)
theory Fat12_Scan
  imports Fat12_Dir
begin

text \<open>
  The contents of a directory as a list of entries, and what the scans and the creation of an
  entry do to that list on an ideal drive.
\<close>

section \<open>The entries of a directory\<close>

text \<open>\<open>dir_holds s dc es\<close>: the entries before the end mark, or before the end, of directory \<open>dc\<close>.\<close>

definition dir_holds :: "image fat12_state \<Rightarrow> u32 \<Rightarrow> fat12_dir_entry list \<Rightarrow> bool" where
  "dir_holds s dc es \<longleftrightarrow>
     length es < 4294967295
     \<and> (\<forall>i < length es. dir_lookup s dc (of_nat i) = Some (es ! i) \<and> de_name (es ! i) ! 0 \<noteq> 0)
     \<and> (case dir_lookup s dc (of_nat (length es)) of
          None \<Rightarrow> True | Some e \<Rightarrow> de_name e ! 0 = 0)"

lemma dir_holds_nth:
  "dir_holds s dc es \<Longrightarrow> i < length es \<Longrightarrow>
     dir_lookup s dc (of_nat i) = Some (es ! i) \<and> de_name (es ! i) ! 0 \<noteq> 0"
  by (simp add: dir_holds_def)

lemma dir_holds_end:
  "dir_holds s dc es \<Longrightarrow> dir_lookup s dc (of_nat (length es)) = Some e \<Longrightarrow> de_name e ! 0 = 0"
  by (simp add: dir_holds_def)

definition entry_matches :: "bytes \<Rightarrow> bytes \<Rightarrow> fat12_dir_entry \<Rightarrow> bool" where
  "entry_matches nm ex e \<longleftrightarrow>
     de_name e ! 0 \<noteq> 0xE5 \<and> de_attr e \<noteq> 0x0F \<and> match_fat12_name e nm ex"

fun find_live :: "bytes \<Rightarrow> bytes \<Rightarrow> nat \<Rightarrow> fat12_dir_entry list \<Rightarrow> (fat12_dir_entry \<times> u32) option" where
  "find_live nm ex i [] = None"
| "find_live nm ex i (e # es) =
     (if entry_matches nm ex e then Some (e, of_nat i) else find_live nm ex (Suc i) es)"

lemma find_in_dir_from:
  assumes "dir_ready s dc" and "dir_holds s dc es"
  shows "i \<le> length es \<Longrightarrow>
    find_in_dir ideal_floppy nm ex dc (of_nat i) s = Some (find_live nm ex i (drop i es), s)"
proof (induction "length es - i" arbitrary: i)
  case 0
  then show ?case
    using assms dir_holds_end [OF assms(2)]
    by (subst find_in_dir.simps) (auto simp: disk_simps split: option.split)
next
  case (Suc n)
  then have i: "i < length es" by simp
  then have drop: "drop i es = es ! i # drop (Suc i) es" by (simp add: Cons_nth_drop_Suc)
  have IH: "find_in_dir ideal_floppy nm ex dc (of_nat i + 1) s =
      Some (find_live nm ex (Suc i) (drop (Suc i) es), s)"
    using Suc.hyps(1) [of "Suc i"] Suc.hyps(2) i by (simp add: add.commute)
  show ?case
    using assms(1) dir_holds_nth [OF assms(2) i]
    by (subst find_in_dir.simps) (simp add: disk_simps drop IH entry_matches_def)
qed

lemma find_in_dir_ideal:
  "dir_ready s dc \<Longrightarrow> dir_holds s dc es \<Longrightarrow>
     find_in_dir ideal_floppy nm ex dc 0 s = Some (find_live nm ex 0 es, s)"
  using find_in_dir_from [of s dc es 0] by simp

lemma find_live_Some_iff:
  "find_live nm ex i es = Some (e, k) \<longleftrightarrow>
     (\<exists>j < length es. e = es ! j \<and> k = of_nat (i + j) \<and> entry_matches nm ex e
        \<and> (\<forall>h < j. \<not> entry_matches nm ex (es ! h)))"
proof (induction es arbitrary: i)
  case (Cons a es)
  show ?case
  proof (cases "entry_matches nm ex a")
    case True
    then show ?thesis by (fastforce simp: nth_Cons split: nat.splits)
  next
    case False
    then show ?thesis
      by (simp add: Cons.IH Ex_less_Suc2 All_less_Suc2) (auto simp: ac_simps)
  qed
qed simp

lemma find_live_None_iff:
  "find_live nm ex i es = None \<longleftrightarrow> (\<forall>e \<in> set es. \<not> entry_matches nm ex e)"
  by (induction es arbitrary: i) auto

section \<open>Free slots\<close>

text \<open>The index \<open>find_slot\<close> returns on a directory that holds \<open>es\<close>.\<close>

definition is_deleted :: "fat12_dir_entry \<Rightarrow> bool" where
  "is_deleted e \<longleftrightarrow> de_name e ! 0 = 0xE5"

fun slot_index :: "nat \<Rightarrow> fat12_dir_entry list \<Rightarrow> nat" where
  "slot_index i [] = i"
| "slot_index i (e # es) = (if is_deleted e then i else slot_index (Suc i) es)"

lemma slot_index_bounds: "i \<le> slot_index i es \<and> slot_index i es \<le> i + length es"
proof (induction es arbitrary: i)
  case (Cons e es)
  from Cons.IH [of "Suc i"] show ?case by auto
qed simp

lemma slot_index_deleted:
  "slot_index i es < i + length es \<Longrightarrow> is_deleted (es ! (slot_index i es - i))"
proof (induction es arbitrary: i)
  case (Cons e es)
  show ?case
  proof (cases "is_deleted e")
    case False
    have "i < slot_index (Suc i) es" using slot_index_bounds [of "Suc i" es] by simp
    then show ?thesis
      using Cons.IH [of "Suc i"] Cons.prems False by (simp add: nth_Cons' Suc_diff_Suc)
  qed simp
qed simp

definition free_slot :: "image fat12_state \<Rightarrow> u32 \<Rightarrow> fat12_dir_entry list \<Rightarrow> u32 option" where
  "free_slot s dc es =
     (if slot_index 0 es < length es then Some (of_nat (slot_index 0 es))
      else if dc = 0 \<and> dir_lookup s dc (of_nat (length es)) = None then None
      else Some (of_nat (length es)))"

lemma find_slot_from:
  assumes "dir_ready s dc" and "dir_holds s dc es"
  shows "i \<le> length es \<Longrightarrow> find_slot ideal_floppy dc (of_nat i) s =
    Some (if slot_index i (drop i es) < length es then Some (of_nat (slot_index i (drop i es)))
          else if dc = 0 \<and> dir_lookup s dc (of_nat (length es)) = None then None
          else Some (of_nat (length es)), s)"
proof (induction "length es - i" arbitrary: i)
  case 0
  then show ?case
    using assms dir_holds_end [OF assms(2)]
    by (subst find_slot.simps) (auto simp: disk_simps split: option.split)
next
  case (Suc n)
  then have i: "i < length es" by simp
  then have drop: "drop i es = es ! i # drop (Suc i) es" by (simp add: Cons_nth_drop_Suc)
  note IH = Suc.hyps(1) [of "Suc i"]
  show ?case
    using assms(1) dir_holds_nth [OF assms(2) i] IH Suc.hyps(2) i
    by (subst find_slot.simps) (simp add: disk_simps drop is_deleted_def add.commute)
qed

lemma find_slot_ideal:
  "dir_ready s dc \<Longrightarrow> dir_holds s dc es \<Longrightarrow>
     find_slot ideal_floppy dc 0 s = Some (free_slot s dc es, s)"
  using find_slot_from [of s dc es 0] by (simp add: free_slot_def)

section \<open>Distinct slots\<close>

text \<open>The root directory, and a directory on a chain without repetition, never use a slot twice.\<close>

definition slots_distinct :: "image fat12_state \<Rightarrow> u32 \<Rightarrow> bool" where
  "slots_distinct s dc \<longleftrightarrow>
     (\<forall>i j p. dir_slot s dc i = Some p \<longrightarrow> dir_slot s dc j = Some p \<longrightarrow> i = j)"

lemma slot_parts:
  assumes "unat i div 16 = unat j div 16" and "unat i mod 16 = unat j mod 16"
  shows "i = (j :: u32)"
  using assms by (metis div_mult_mod_eq word_unat_eq_iff)

lemma slots_distinct_root:
  assumes "tree_ready s"
  shows "slots_distinct s 0"
  unfolding slots_distinct_def
proof (intro allI impI)
  fix i j p
  assume i: "dir_slot s 0 i = Some p" and j: "dir_slot s 0 j = Some p"
  note wf = tree_readyD(2) [OF assms]
  from i obtain "unat i < unat (root_dir_entries (fat12_geom s))"
    and pi: "p = slot_in (root_dir_start_sector (fat12_geom s)) i"
    by (cases rule: dir_slot_cases) auto
  moreover from j obtain "unat j < unat (root_dir_entries (fat12_geom s))"
    and pj: "p = slot_in (root_dir_start_sector (fat12_geom s)) j"
    by (cases rule: dir_slot_cases) auto
  ultimately have "unat i div 16 = unat j div 16"
    using unat_slot_root [OF wf, of i] unat_slot_root [OF wf, of j] by simp
  moreover have "unat i mod 16 = unat j mod 16"
    using slot_offset [of "root_dir_start_sector (fat12_geom s)" i]
      slot_offset [of "root_dir_start_sector (fat12_geom s)" j] pi pj by simp
  ultimately show "i = j" by (rule slot_parts)
qed

lemma mult_add_unique:
  fixes a b x y c :: nat
  assumes "a * c + x = b * c + y" and "x < c" and "y < c"
  shows "a = b \<and> x = y"
proof -
  have "(a * c + x) div c = a" "(b * c + y) div c = b" using assms(2,3) by simp_all
  with assms(1) have "a = b" by metis
  with assms(1) show ?thesis by simp
qed

lemma slots_distinct_chain:
  assumes "tree_ready s" and "dir_cluster_ok s dc" and "dc \<noteq> 0"
    and "fat_chain (fat_entry s) (unat dc) ks"
  shows "slots_distinct s dc"
  unfolding slots_distinct_def
proof (intro allI impI)
  fix i j p
  assume i: "dir_slot s dc i = Some p" and j: "dir_slot s dc j = Some p"
  let ?g = "fat12_geom s" and ?spc = "unat (sectors_per_cluster (fat12_geom s))"
  note wf = tree_readyD(2) [OF assms(1)] and spc = tree_readyD(4) [OF assms(1)]
  have pos: "0 < ?spc" using spc by (simp add: unat_gt_0)
  have link: "is_link (unat dc)" using assms(2,3) by (simp add: dir_cluster_ok_def)
  have at: "\<exists>n k. n < length ks \<and> k = ks ! n \<and> is_link k \<and> n = unat x div (?spc * 16)
      \<and> unat (fst p) = unat (data_start_sector ?g) + (k - 2) * ?spc + (unat x mod (?spc * 16)) div 16
      \<and> snd p = 32 * (unat x mod (?spc * 16) mod 16)"
    if slot: "dir_slot s dc x = Some p" for x
    using slot
  proof (cases rule: dir_slot_cases)
    case (sub k)
    have n: "unat (x div entries_per_cluster ?g) = unat x div (?spc * 16)"
      by (simp add: unat_div unat_entries_per_cluster)
    have k: "is_link k" by (rule dir_slot_sub_link [OF assms(2) sub(1,2)])
    moreover have "unat (fst p) = unat (data_start_sector ?g) + (k - 2) * ?spc
        + (unat x mod (?spc * 16)) div 16"
      using unat_slot_sub [OF wf _ _ spc, of k x] k sub(3) by (simp add: is_link_def)
    moreover have "snd p = 32 * (unat x mod (?spc * 16) mod 16)"
      using sub(3) slot_offset by (simp add: unat_mod unat_entries_per_cluster)
    ultimately show ?thesis
      using sub(2) n by (auto simp: chain_nth_eq [OF assms(4) link] split: if_splits)
  qed (use assms(3) in simp)
  obtain n k where nk: "n < length ks" "k = ks ! n" "is_link k" "n = unat i div (?spc * 16)"
      "unat (fst p) = unat (data_start_sector ?g) + (k - 2) * ?spc + (unat i mod (?spc * 16)) div 16"
      "snd p = 32 * (unat i mod (?spc * 16) mod 16)"
    using at [OF i] by blast
  obtain n' k' where nk': "n' < length ks" "k' = ks ! n'" "is_link k'" "n' = unat j div (?spc * 16)"
      "unat (fst p) = unat (data_start_sector ?g) + (k' - 2) * ?spc + (unat j mod (?spc * 16)) div 16"
      "snd p = 32 * (unat j mod (?spc * 16) mod 16)"
    using at [OF j] by blast
  have lt: "(unat x mod (?spc * 16)) div 16 < ?spc" for x :: u32
    using pos by (simp add: less_mult_imp_div_less)
  have "(k - 2) * ?spc + (unat i mod (?spc * 16)) div 16
      = (k' - 2) * ?spc + (unat j mod (?spc * 16)) div 16"
    using nk(5) nk'(5) by linarith
  then have "k - 2 = k' - 2 \<and> (unat i mod (?spc * 16)) div 16 = (unat j mod (?spc * 16)) div 16"
    by (rule mult_add_unique [OF _ lt lt])
  moreover from this have "k = k'" using nk(3) nk'(3) unfolding is_link_def by linarith
  then have "n = n'"
    using nk(1,2) nk'(1,2) fat_chain_distinct [OF assms(4)] nth_eq_iff_index_eq by blast
  moreover have "unat i mod (?spc * 16) mod 16 = unat j mod (?spc * 16) mod 16"
    using nk(6) nk'(6) by simp
  ultimately have "unat i div (?spc * 16) = unat j div (?spc * 16)"
      "unat i mod (?spc * 16) = unat j mod (?spc * 16)"
    using nk(4) nk'(4) by (simp_all, metis div_mult_mod_eq)
  then show "i = j" by (metis div_mult_mod_eq word_unat_eq_iff)
qed


section \<open>Creating an entry\<close>

lemma of_nat_u32_inj: "i < 4294967296 \<Longrightarrow> j < 4294967296 \<Longrightarrow> (of_nat i :: u32) = of_nat j \<longleftrightarrow> i = j"
  by (metis unat_of_nat_u32)

lemma wf_zero_entry [simp]: "wf_dir_entry zero_entry"
  by (simp add: zero_entry_def)

lemma zero_entry_end [simp]: "de_name zero_entry ! 0 = 0"
  by (simp add: zero_entry_def dir_entry_of_bytes_def)

lemma wf_make_entry [simp]:
  "length nm = 8 \<Longrightarrow> length ex = 3 \<Longrightarrow> wf_dir_entry (make_entry nm ex a c z)"
  by (simp add: make_entry_def wf_dir_entry_def)

lemma make_entry_fields [simp]:
  "length nm = 8 \<Longrightarrow> de_name (make_entry nm ex a c z) = nm"
  "length ex = 3 \<Longrightarrow> de_ext (make_entry nm ex a c z) = ex"
  "de_attr (make_entry nm ex a c z) = a" "de_file_size (make_entry nm ex a c z) = z"
  "de_first_cluster_low (make_entry nm ex a c z) = ucast c"
  by (simp_all add: make_entry_def)

text \<open>A directory on which entries can be stored one by one.\<close>

definition dir_store :: "image fat12_state \<Rightarrow> u32 \<Rightarrow> bool" where
  "dir_store s dc \<longleftrightarrow> tree_ready s \<and> dir_cluster_ok s dc \<and> slots_distinct s dc"

lemma dir_storeD:
  "dir_store s dc \<Longrightarrow> tree_ready s" "dir_store s dc \<Longrightarrow> dir_cluster_ok s dc"
  "dir_store s dc \<Longrightarrow> slots_distinct s dc" "dir_store s dc \<Longrightarrow> dir_ready s dc"
  by (simp_all add: dir_store_def)

lemma dir_store_root: "tree_ready s \<Longrightarrow> dir_store s 0"
  by (simp add: dir_store_def slots_distinct_root dir_cluster_ok_def)

lemma dir_store_chain:
  "tree_ready s \<Longrightarrow> dir_cluster_ok s dc \<Longrightarrow> dc \<noteq> 0 \<Longrightarrow> fat_chain (fat_entry s) (unat dc) ks \<Longrightarrow>
     dir_store s dc"
  by (simp add: dir_store_def slots_distinct_chain)

lemma put_slot_store:
  assumes "dir_store s dc" and "dir_slot s dc idx = Some p" and "wf_dir_entry e"
  shows "dir_store (put_slot s p e) dc"
    and "dir_slot (put_slot s p e) dc idx' = dir_slot s dc idx'"
    and "in_fat s k \<Longrightarrow> fat_entry (put_slot s p e) k = fat_entry s k"
proof -
  note st = dir_storeD [OF assms(1)]
  note p = dir_slot_behind_fat [OF st(1,2) assms(2)]
  show slot: "dir_slot (put_slot s p e) dc idx' = dir_slot s dc idx'" for idx'
    by (rule dir_slot_put_slot [OF st(1,2) p(1)])
  show "dir_store (put_slot s p e) dc"
    using tree_ready_put_slot [OF st(1) assms(3) p(2,1)] st(2,3)
    unfolding dir_store_def slots_distinct_def slot by simp
  show "in_fat s k \<Longrightarrow> fat_entry (put_slot s p e) k = fat_entry s k"
    by (rule fat_entry_put_slot [OF st(1) _ p(1)])
qed

lemma dir_lookup_put_at:
  assumes "dir_store s dc" and "dir_slot s dc (of_nat i) = Some p" and "wf_dir_entry e"
    and "i < 4294967296" and "j < 4294967296"
  shows "dir_lookup (put_slot s p e) dc (of_nat j) =
    (if j = i then Some e else dir_lookup s dc (of_nat j))"
proof -
  note st = dir_storeD [OF assms(1)]
  have "dir_slot s dc (of_nat j) = Some p \<longleftrightarrow> j = i"
    using st(3) assms(2,4,5) of_nat_u32_inj [of j i] unfolding slots_distinct_def by blast
  then show ?thesis
    using dir_lookup_put_slot [OF st(1,2) assms(2) st(2) assms(3)] by simp
qed

lemma dir_lookup_None_iff: "dir_lookup s dc idx = None \<longleftrightarrow> dir_slot s dc idx = None"
  by (simp add: dir_lookup_def)

lemma dir_holds_put:
  assumes "dir_store s dc" and "dir_holds s dc es" and "j < length es"
    and "dir_slot s dc (of_nat j) = Some p" and "wf_dir_entry e" and "de_name e ! 0 \<noteq> 0"
  shows "dir_holds (put_slot s p e) dc (es[j := e])"
proof -
  have len: "length es < 4294967295" using assms(2) by (simp add: dir_holds_def)
  have l: "dir_lookup (put_slot s p e) dc (of_nat i) =
      (if i = j then Some e else dir_lookup s dc (of_nat i))" if "i \<le> length es" for i
    using that len assms(3) by (intro dir_lookup_put_at [OF assms(1,4,5)]) linarith+
  show ?thesis
    using assms(2,3,6) by (auto simp: dir_holds_def l nth_list_update)
qed

lemma dir_holds_append:
  assumes "dir_store s dc" and "dir_holds s dc es" and "length es < 4294967294"
    and "dir_slot s dc (of_nat (length es)) = Some p" and "wf_dir_entry e" and "de_name e ! 0 \<noteq> 0"
    and "dir_slot s dc (of_nat (Suc (length es))) = None"
  shows "dir_holds (put_slot s p e) dc (es @ [e])"
proof -
  have l: "dir_lookup (put_slot s p e) dc (of_nat i) =
      (if i = length es then Some e else dir_lookup s dc (of_nat i))" if "i \<le> Suc (length es)" for i
    using that assms(3) by (intro dir_lookup_put_at [OF assms(1,4,5)]) linarith+
  have "dir_lookup s dc (of_nat (Suc (length es))) = None"
    using assms(7) by (simp only: dir_lookup_None_iff)
  then show ?thesis
    using assms(2,3,6) l [of "Suc (length es)"]
    by (auto simp: dir_holds_def l nth_append less_Suc_eq simp del: of_nat_Suc)
qed

lemma dir_holds_append_end:
  assumes "dir_store s dc" and "dir_holds s dc es" and "length es < 4294967294"
    and "dir_slot s dc (of_nat (length es)) = Some p" and "wf_dir_entry e" and "de_name e ! 0 \<noteq> 0"
    and "dir_slot s dc (of_nat (Suc (length es))) = Some q"
  shows "dir_holds (put_slot (put_slot s p e) q zero_entry) dc (es @ [e])"
proof -
  note put = put_slot_store [OF assms(1,4,5)]
  have l: "dir_lookup (put_slot s p e) dc (of_nat i) =
      (if i = length es then Some e else dir_lookup s dc (of_nat i))" if "i \<le> Suc (length es)" for i
    using that assms(3) by (intro dir_lookup_put_at [OF assms(1,4,5)]) linarith+
  have m: "dir_lookup (put_slot (put_slot s p e) q zero_entry) dc (of_nat i) =
      (if i = Suc (length es) then Some zero_entry else dir_lookup (put_slot s p e) dc (of_nat i))"
    if "i \<le> Suc (length es)" for i
    using that assms(3,7) put(2)
    by (intro dir_lookup_put_at [OF put(1)]) (simp_all del: of_nat_Suc)
  show ?thesis
    using assms(2,3,6) m [of "Suc (length es)"]
    by (auto simp: dir_holds_def l m nth_append less_Suc_eq simp del: of_nat_Suc)
qed


text \<open>
  The specification of a creation: the list gets the entry in place of its first deleted element,
  or at its end, where the new end mark is written behind it if the directory has room for one.
\<close>

definition insert_entry :: "fat12_dir_entry \<Rightarrow> fat12_dir_entry list \<Rightarrow> fat12_dir_entry list" where
  "insert_entry e es =
     (if slot_index 0 es < length es then es[slot_index 0 es := e] else es @ [e])"

definition store_new :: "u32 \<Rightarrow> fat12_dir_entry list \<Rightarrow> (u32 \<times> nat) \<Rightarrow> fat12_dir_entry
    \<Rightarrow> image fat12_state \<Rightarrow> image fat12_state" where
  "store_new dc es p e s =
     (if slot_index 0 es < length es then put_slot s p e
      else case dir_slot s dc (of_nat (Suc (length es))) of
        None \<Rightarrow> put_slot s p e
      | Some q \<Rightarrow> put_slot (put_slot s p e) q zero_entry)"

text \<open>Room for one more entry without a new cluster.\<close>

definition has_room :: "image fat12_state \<Rightarrow> u32 \<Rightarrow> fat12_dir_entry list \<Rightarrow> bool" where
  "has_room s dc es \<longleftrightarrow>
     slot_index 0 es < length es
     \<or> (dir_slot s dc (of_nat (length es)) \<noteq> None
        \<and> (dc = 0 \<or> dir_slot s dc (of_nat (Suc (length es))) \<noteq> None))"

lemma slot_index_le: "slot_index 0 es \<le> length es"
  using slot_index_bounds [of 0 es] by simp

lemma slot_index_full: "\<not> slot_index 0 es < length es \<Longrightarrow> slot_index 0 es = length es"
  using slot_index_le [of es] by simp

lemma has_room_slot:
  assumes "dir_holds s dc es" and "has_room s dc es"
  obtains p where "dir_slot s dc (of_nat (slot_index 0 es)) = Some p"
proof (cases "slot_index 0 es < length es")
  case True
  with dir_holds_nth [OF assms(1)] have "dir_lookup s dc (of_nat (slot_index 0 es)) \<noteq> None"
    by simp
  with that show ?thesis unfolding dir_lookup_None_iff by blast
next
  case False
  with assms(2) that slot_index_full [OF False] show ?thesis by (auto simp: has_room_def)
qed

lemma free_slot_room:
  assumes "has_room s dc es"
  shows "free_slot s dc es = Some (of_nat (slot_index 0 es))"
  using assms slot_index_full [of es] by (auto simp: free_slot_def has_room_def dir_lookup_None_iff)

lemma fat12_create_entry_room:
  assumes "dir_store s dc" and "dir_holds s dc es" and "length es < 2147483647"
    and "has_room s dc es" and "dir_slot s dc (of_nat (slot_index 0 es)) = Some p"
    and "length nm = 8" and "length ex = 3"
  shows "fat12_create_entry ideal_floppy dc nm ex a c z s =
    Some ((int (slot_index 0 es), Some (make_entry nm ex a c z)),
      store_new dc es p (make_entry nm ex a c z) s)"
proof -
  let ?e = "make_entry nm ex a c z" and ?i = "slot_index 0 es"
  note st = dir_storeD [OF assms(1)]
  have wf: "wf_dir_entry ?e" using assms(6,7) by simp
  note put = put_slot_store [OF assms(1,5) wf]
  have i: "?i < 2147483648" using slot_index_le [of es] assms(3) by linarith
  then have sint: "sint (of_nat ?i :: u32) = int ?i"
    by (simp add: signed_of_nat signed_take_bit_int_eq_self)
  obtain e0 where e0: "dir_lookup s dc (of_nat ?i) = Some e0"
    using assms(5) by (cases "dir_lookup s dc (of_nat ?i)") (simp_all add: dir_lookup_None_iff)
  note wr = fat12_write_dir_entry_ideal [OF st(4) assms(5), of ?e]
  show ?thesis
  proof (cases "?i < length es")
    case True
    with dir_holds_nth [OF assms(2) True] e0 have "de_name e0 ! 0 \<noteq> 0" by simp
    with True show ?thesis
      using st(4) by (simp add: fat12_create_entry_def find_slot_ideal [OF st(4) assms(2)]
        free_slot_room [OF assms(4)] disk_simps e0 wr sint store_new_def Let_def)
  next
    case False
    note full = slot_index_full [OF False]
    have "de_name e0 ! 0 = 0" using dir_holds_end [OF assms(2)] e0 full by simp
    moreover have "\<exists>b. fat12_write_dir_entry ideal_floppy dc (of_nat ?i + 1) zero_entry (put_slot s p ?e) =
        Some (b, store_new dc es p ?e s)"
    proof (cases "dir_slot s dc (of_nat (Suc (length es)))")
      case None
      then have "dc = 0" using assms(4) False by (auto simp: has_room_def)
      with None put(2) [of "of_nat (Suc (length es))"] full False show ?thesis
        using fat12_write_root_full [of "put_slot s p ?e"]
        by (intro exI [of _ False]) (simp add: store_new_def add.commute)
    next
      case (Some q)
      with put(2) [of "of_nat (Suc (length es))"] full False show ?thesis
        using fat12_write_dir_entry_ideal [OF dir_storeD(4) [OF put(1)]]
        by (intro exI [of _ True]) (simp add: store_new_def add.commute)
    qed
    ultimately show ?thesis
      using st(4) by (auto simp: fat12_create_entry_def find_slot_ideal [OF st(4) assms(2)]
        free_slot_room [OF assms(4)] disk_simps e0 wr sint Let_def)
  qed
qed

lemma store_new_effect:
  assumes "dir_store s dc" and "dir_holds s dc es" and "length es < 2147483647"
    and "dir_slot s dc (of_nat (slot_index 0 es)) = Some p"
    and "wf_dir_entry e" and "de_name e ! 0 \<noteq> 0"
  shows "dir_store (store_new dc es p e s) dc"
    and "dir_holds (store_new dc es p e s) dc (insert_entry e es)"
    and "in_fat s k \<Longrightarrow> fat_entry (store_new dc es p e s) k = fat_entry s k"
    and "open_files (store_new dc es p e s) = open_files s"
    and "dir_cluster_ok s dc' \<Longrightarrow> dir_slot s dc' idx' \<noteq> dir_slot s dc (of_nat (slot_index 0 es)) \<Longrightarrow>
      dir_slot s dc' idx' \<noteq> dir_slot s dc (of_nat (Suc (length es))) \<Longrightarrow>
      dir_lookup (store_new dc es p e s) dc' idx' = dir_lookup s dc' idx'"
proof -
  note st = dir_storeD [OF assms(1)]
  note put = put_slot_store [OF assms(1,4,5)]
  note full = slot_index_full [of es]
  have q: "dir_slot (put_slot s p e) dc (of_nat (Suc (length es))) = Some q"
    if "dir_slot s dc (of_nat (Suc (length es))) = Some q" for q
    using that put(2) by simp
  note put2 = put_slot_store [OF put(1) q wf_zero_entry]
  have frame1: "dir_lookup (put_slot s p e) dc' idx' = dir_lookup s dc' idx'"
    if "dir_cluster_ok s dc'" and "dir_slot s dc' idx' \<noteq> Some p" for dc' idx'
    using dir_lookup_put_slot [OF st(1,2) assms(4) that(1) assms(5)] that(2) by simp
  have frame2: "dir_lookup (put_slot (put_slot s p e) q zero_entry) dc' idx' = dir_lookup s dc' idx'"
    if "dir_slot s dc (of_nat (Suc (length es))) = Some q"
      and "dir_cluster_ok s dc'" and "dir_slot s dc' idx' \<noteq> Some p" and "dir_slot s dc' idx' \<noteq> Some q"
    for q dc' idx'
  proof -
    note p = dir_slot_behind_fat [OF st(1,2) assms(4)]
    have "dir_cluster_ok (put_slot s p e) dc'" using that(2) by simp
    with dir_lookup_put_slot [OF dir_storeD(1,2) [OF put(1)] q [OF that(1)] this wf_zero_entry]
    show ?thesis using that frame1 [OF that(2,3)] dir_slot_put_slot [OF st(1) that(2) p(1)] by simp
  qed
  show "dir_store (store_new dc es p e s) dc"
    using put(1) put2(1) by (simp add: store_new_def split: option.split)
  show "in_fat s k \<Longrightarrow> fat_entry (store_new dc es p e s) k = fat_entry s k"
    using put(3) put2(3) by (simp add: store_new_def split: option.split)
  show "open_files (store_new dc es p e s) = open_files s"
    by (simp add: store_new_def split: option.split)
  show "dir_lookup (store_new dc es p e s) dc' idx' = dir_lookup s dc' idx'"
    if "dir_cluster_ok s dc'" "dir_slot s dc' idx' \<noteq> dir_slot s dc (of_nat (slot_index 0 es))"
      "dir_slot s dc' idx' \<noteq> dir_slot s dc (of_nat (Suc (length es)))"
    using that frame1 [OF that(1), of idx'] frame2 [OF _ that(1), of _ idx'] assms(4)
    by (cases "dir_slot s dc (of_nat (Suc (length es)))")
      (simp_all add: store_new_def del: of_nat_Suc)
  show "dir_holds (store_new dc es p e s) dc (insert_entry e es)"
  proof (cases "slot_index 0 es < length es")
    case True
    with dir_holds_put [OF assms(1,2) True assms(4,5,6)] show ?thesis
      by (simp add: store_new_def insert_entry_def)
  next
    case False
    have slot: "dir_slot s dc (of_nat (length es)) = Some p" using assms(4) full [OF False] by simp
    have len: "length es < 4294967294" using assms(3) by simp
    show ?thesis
      using dir_holds_append [OF assms(1,2) len slot assms(5,6)]
        dir_holds_append_end [OF assms(1,2) len slot assms(5,6)] False
      by (simp add: store_new_def insert_entry_def split: option.split del: of_nat_Suc)
  qed
qed

text \<open>A full root directory.\<close>

lemma fat12_create_entry_full:
  assumes "dir_ready s 0" and "dir_holds s 0 es" and "slot_index 0 es = length es"
    and "dir_slot s 0 (of_nat (length es)) = None"
  shows "fat12_create_entry ideal_floppy 0 nm ex a c z s = Some ((-1, None), s)"
proof -
  have "free_slot s 0 es = None"
    using assms(3,4) by (simp add: free_slot_def dir_lookup_None_iff)
  then show ?thesis
    by (simp add: fat12_create_entry_def find_slot_ideal [OF assms(1,2)])
qed

end
