(* ===== verification/Fat12_Path.thy ===== *)
theory Fat12_Path
  imports Fat12_Scan
begin

text \<open>
  Names and paths of \<open>kernel/fat12.c\<close>: the conversion between file names and 8.3 names, the
  splitting of a path into components, and the two walks down the directory tree,
  \<open>fat12_find_entry\<close> and \<open>fat12_resolve_parent\<close>.
\<close>

section \<open>8.3 names\<close>

definition to_upper :: "u8 \<Rightarrow> u8" where
  "to_upper c = (if c \<ge> 0x61 \<and> c \<le> 0x7A then c - 0x61 + 0x41 else c)"

text \<open>The first loop of \<open>to_fat12_name\<close>: at most eight characters before a NUL or a dot.\<close>

function fat_name_loop :: "bytes \<Rightarrow> nat \<Rightarrow> bytes \<Rightarrow> nat \<times> bytes" where
  "fat_name_loop src i dest =
     (if cch src i \<noteq> 0 \<and> cch src i \<noteq> 0x2E \<and> i < 8
      then fat_name_loop src (Suc i) (dest[i := to_upper (cch src i)])
      else (i, dest))"
  by pat_completeness auto
termination by (relation "measure (\<lambda>(src, i, dest). 8 - i)") auto

declare fat_name_loop.simps [simp del]

function skip_to_dot :: "bytes \<Rightarrow> nat \<Rightarrow> nat" where
  "skip_to_dot src i =
     (if cch src i \<noteq> 0 \<and> cch src i \<noteq> 0x2E then skip_to_dot src (Suc i) else i)"
  by pat_completeness auto
termination
  by (relation "measure (\<lambda>(src, i). length src - i)") (auto simp: cch_def split: if_splits)

declare skip_to_dot.simps [simp del]

function fat_ext_loop :: "bytes \<Rightarrow> nat \<Rightarrow> nat \<Rightarrow> bytes \<Rightarrow> bytes" where
  "fat_ext_loop src i j dest =
     (if cch src i \<noteq> 0 \<and> j < 3
      then fat_ext_loop src (Suc i) (Suc j) (dest[j := to_upper (cch src i)])
      else dest)"
  by pat_completeness auto
termination by (relation "measure (\<lambda>(src, i, j, dest). 3 - j)") auto

declare fat_ext_loop.simps [simp del]

definition to_fat12_name :: "bytes \<Rightarrow> bytes \<times> bytes" where
  "to_fat12_name src =
     (let (i, dest_name) = fat_name_loop src 0 (replicate 8 0x20);
          i = skip_to_dot src i;
          dest_ext = replicate 3 0x20
      in if cch src i = 0x2E then (dest_name, fat_ext_loop src (Suc i) 0 dest_ext)
         else (dest_name, dest_ext))"

text \<open>\<open>from_fat12_name\<close> drops the padding; the result is the string it stores in \<open>dest\<close>.\<close>

function unpadded_length :: "bytes \<Rightarrow> nat \<Rightarrow> nat" where
  "unpadded_length b n =
     (if n > 0 \<and> b ! (n - 1) = 0x20 then unpadded_length b (n - 1) else n)"
  by pat_completeness auto
termination by (relation "measure snd") auto

declare unpadded_length.simps [simp del]

definition from_fat12_name :: "bytes \<Rightarrow> bytes \<Rightarrow> bytes" where
  "from_fat12_name fat_name fat_ext =
     (let name_len = unpadded_length fat_name 8; ext_len = unpadded_length fat_ext 3
      in take name_len fat_name @ (if ext_len > 0 then 0x2E # take ext_len fat_ext else []))"

section \<open>Path components\<close>

function skip_slashes :: "bytes \<Rightarrow> nat \<Rightarrow> nat" where
  "skip_slashes path off = (if cch path off = 0x2F then skip_slashes path (Suc off) else off)"
  by pat_completeness auto
termination
  by (relation "measure (\<lambda>(path, off). length path - off)") (auto simp: cch_def split: if_splits)

declare skip_slashes.simps [simp del]

text \<open>The copy loop: a component longer than 255 characters is cut, the offset still moves on.\<close>

function component_loop :: "bytes \<Rightarrow> nat \<Rightarrow> bytes \<Rightarrow> bytes \<times> nat" where
  "component_loop path off component =
     (if cch path off \<noteq> 0 \<and> cch path off \<noteq> 0x2F
      then component_loop path (Suc off)
             (if length component < 255 then component @ [cch path off] else component)
      else (component, off))"
  by pat_completeness auto
termination
  by (relation "measure (\<lambda>(path, off, component). length path - off)")
    (auto simp: cch_def split: if_splits)

declare component_loop.simps [simp del]

text \<open>The component found, if any, and the new offset.\<close>

definition get_next_path_component :: "bytes \<Rightarrow> nat \<Rightarrow> bytes option \<times> nat" where
  "get_next_path_component path off =
     (let off = skip_slashes path off
      in if cch path off = 0 then (None, off)
         else let (component, off) = component_loop path off [] in (Some component, off))"

section \<open>Walking a path\<close>

text \<open>
  The outer loop of \<open>fat12_find_entry\<close>: the entry found, its index and the cluster of its
  directory; \<open>None\<close> as first component stands for the result -9.
\<close>

partial_function (option) find_entry_loop ::
    "'d floppy_ops \<Rightarrow> bytes \<Rightarrow> bytes \<Rightarrow> nat \<Rightarrow> u32 \<Rightarrow> 'd fat12_state
      \<Rightarrow> ((fat12_dir_entry \<times> u32 \<times> u32) option \<times> 'd fat12_state) option" where
  "find_entry_loop F path component off dir_cluster s = do {
     let (formatted_name, formatted_ext) = to_fat12_name component;
     (found, s) \<leftarrow> find_in_dir F formatted_name formatted_ext dir_cluster 0 s;
     (case found of
        None \<Rightarrow> Some (None, s)
      | Some (entry, entry_idx) \<Rightarrow>
          (case get_next_path_component path off of
             (Some next_component, next_offset) \<Rightarrow>
               if de_attr entry AND 0x10 = 0 then Some (None, s)
               else find_entry_loop F path (strlcpy_str next_component 256) next_offset
                      (ucast (de_first_cluster_low entry)) s
           | (None, _) \<Rightarrow> Some (Some (entry, entry_idx, dir_cluster), s)))
   }"

definition fat12_find_entry ::
    "'d floppy_ops \<Rightarrow> bytes \<Rightarrow> 'd fat12_state
      \<Rightarrow> ((fat12_dir_entry \<times> u32 \<times> u32) option \<times> 'd fat12_state) option" where
  "fat12_find_entry F path s =
     (case get_next_path_component path 0 of
        (None, _) \<Rightarrow> Some (None, s)
      | (Some component, off) \<Rightarrow> find_entry_loop F path component off 0 s)"

text \<open>\<open>fat12_resolve_parent\<close>: the cluster of the parent directory and the last name of the path.\<close>

partial_function (option) resolve_parent_loop ::
    "'d floppy_ops \<Rightarrow> bytes \<Rightarrow> bytes \<Rightarrow> nat \<Rightarrow> u32 \<Rightarrow> 'd fat12_state
      \<Rightarrow> ((u32 \<times> bytes \<times> bytes) option \<times> 'd fat12_state) option" where
  "resolve_parent_loop F path component off dir_cluster s =
     (case get_next_path_component path off of
        (Some next_component, next_offset) \<Rightarrow> do {
          let (formatted_name, formatted_ext) = to_fat12_name component;
          (found, s) \<leftarrow> find_in_dir F formatted_name formatted_ext dir_cluster 0 s;
          (case found of
             None \<Rightarrow> Some (None, s)
           | Some (entry, entry_idx) \<Rightarrow>
               if de_attr entry AND 0x10 = 0 then Some (None, s)
               else resolve_parent_loop F path (strlcpy_str next_component 256) next_offset
                      (ucast (de_first_cluster_low entry)) s)
        }
      | (None, _) \<Rightarrow>
          let (final_name, final_ext) = to_fat12_name component
          in Some (Some (dir_cluster, final_name, final_ext), s))"

definition fat12_resolve_parent ::
    "'d floppy_ops \<Rightarrow> bytes \<Rightarrow> 'd fat12_state
      \<Rightarrow> ((u32 \<times> bytes \<times> bytes) option \<times> 'd fat12_state) option" where
  "fat12_resolve_parent F path s =
     (case get_next_path_component path 0 of
        (None, _) \<Rightarrow> Some (None, s)
      | (Some component, off) \<Rightarrow> resolve_parent_loop F path component off 0 s)"

section \<open>What the name conversions compute\<close>

definition pad_to :: "nat \<Rightarrow> bytes \<Rightarrow> bytes" where
  "pad_to n xs = xs @ replicate (n - length xs) 0x20"

lemma length_pad_to [simp, len_simps]: "length (pad_to n xs) = max n (length xs)"
  by (simp add: pad_to_def)

lemma put_bytes_spaces: "length xs \<le> n \<Longrightarrow> put_bytes (replicate n 0x20) 0 xs = pad_to n xs"
  by (simp add: put_bytes_def pad_to_def)

abbreviation name_char :: "u8 \<Rightarrow> bool" where
  "name_char c \<equiv> c \<noteq> 0 \<and> c \<noteq> 0x2E"

lemma fat_name_loop_eq:
  "i \<le> 8 \<Longrightarrow> length dest = 8 \<Longrightarrow>
     fat_name_loop src i dest =
       (i + length (takeWhile name_char (take (8 - i) (drop i src))),
        put_bytes dest i (map to_upper (takeWhile name_char (take (8 - i) (drop i src)))))"
proof (induction src i dest rule: fat_name_loop.induct)
  case (1 src i dest)
  show ?case
  proof (cases "name_char (cch src i) \<and> i < 8")
    case True
    then have i: "i < length src" by (simp add: cch_def split: if_splits)
    have "take (8 - i) (drop i src) = src ! i # take (8 - Suc i) (drop (Suc i) src)"
      using True i by (simp add: Cons_nth_drop_Suc [symmetric] Suc_diff_Suc take_Cons')
    with True i 1 show ?thesis
      by (subst fat_name_loop.simps) (simp add: cch_def put_bytes_Cons)
  next
    case False
    then have "takeWhile name_char (take (8 - i) (drop i src)) = []"
      by (cases "i < 8 \<and> i < length src")
        (auto simp: cch_def Cons_nth_drop_Suc [symmetric] take_Cons')
    with False show ?thesis by (subst fat_name_loop.simps) auto
  qed
qed

lemma skip_to_dot_eq: "skip_to_dot src i = i + length (takeWhile name_char (drop i src))"
proof (induction src i rule: skip_to_dot.induct)
  case (1 src i)
  show ?case
  proof (cases "i < length src")
    case True
    with 1 show ?thesis
      by (subst skip_to_dot.simps) (simp add: cch_def Cons_nth_drop_Suc [symmetric])
  qed (subst skip_to_dot.simps, simp)
qed

lemma fat_ext_loop_eq:
  "j \<le> 3 \<Longrightarrow> length dest = 3 \<Longrightarrow>
     fat_ext_loop src i j dest =
       put_bytes dest j (map to_upper (takeWhile (\<lambda>c. c \<noteq> 0) (take (3 - j) (drop i src))))"
proof (induction src i j dest rule: fat_ext_loop.induct)
  case (1 src i j dest)
  show ?case
  proof (cases "cch src i \<noteq> 0 \<and> j < 3")
    case True
    then have i: "i < length src" by (simp add: cch_def split: if_splits)
    have "take (3 - j) (drop i src) = src ! i # take (3 - Suc j) (drop (Suc i) src)"
      using True i by (simp add: Cons_nth_drop_Suc [symmetric] Suc_diff_Suc take_Cons')
    with True i 1 show ?thesis
      by (subst fat_ext_loop.simps) (simp add: cch_def put_bytes_Cons)
  next
    case False
    then have "takeWhile (\<lambda>c. c \<noteq> 0) (take (3 - j) (drop i src)) = []"
      by (cases "j < 3 \<and> i < length src")
        (auto simp: cch_def Cons_nth_drop_Suc [symmetric] take_Cons')
    with False show ?thesis by (subst fat_ext_loop.simps) auto
  qed
qed

text \<open>The base name is what precedes the first dot, the extension what follows it.\<close>

definition base_of :: "bytes \<Rightarrow> bytes" where
  "base_of src = takeWhile (\<lambda>c. c \<noteq> 0x2E) src"

definition ext_of :: "bytes \<Rightarrow> bytes" where
  "ext_of src = drop (Suc (length (base_of src))) src"

lemma takeWhile_take_skip:
  "length (takeWhile P (take n xs)) + length (takeWhile P (drop (length (takeWhile P (take n xs))) xs))
     = length (takeWhile P xs)"
  by (induction xs arbitrary: n) (auto simp: take_Cons' split: nat.split)

lemma takeWhile_take: "takeWhile P (take n xs) = take n (takeWhile P xs)"
  by (induction xs arbitrary: n) (auto simp: take_Cons')

lemma takeWhile_no_NUL:
  "0 \<notin> set src \<Longrightarrow> takeWhile name_char src = base_of src"
  unfolding base_of_def by (intro takeWhile_cong) auto

lemma cch_after_base: "cch src (length (base_of src)) = 0x2E \<longleftrightarrow> 0x2E \<in> set src"
  unfolding base_of_def by (induction src) (auto simp: cch_def)

lemma base_of_all: "0x2E \<notin> set src \<Longrightarrow> base_of src = src"
  unfolding base_of_def by (subst takeWhile_eq_all_conv) auto

lemma to_fat12_name_eq:
  assumes "0 \<notin> set src"
  shows "to_fat12_name src =
    (pad_to 8 (map to_upper (take 8 (base_of src))), pad_to 3 (map to_upper (take 3 (ext_of src))))"
proof -
  have ext: "takeWhile (\<lambda>c. c \<noteq> 0) (take 3 (ext_of src)) = take 3 (ext_of src)"
    using assms set_drop_subset [of "Suc (length (base_of src))" src]
      set_take_subset [of 3 "ext_of src"]
    by (subst takeWhile_eq_all_conv) (auto simp: ext_of_def)
  have none: "ext_of src = []" if "0x2E \<notin> set src"
    using base_of_all [OF that] by (simp add: ext_of_def)
  have name: "fat_name_loop src 0 (replicate 8 0x20) =
      (length (takeWhile name_char (take 8 src)), pad_to 8 (map to_upper (take 8 (base_of src))))"
    using assms by (simp add: fat_name_loop_eq takeWhile_take takeWhile_no_NUL put_bytes_spaces)
  have skip: "skip_to_dot src (length (takeWhile name_char (take 8 src))) = length (base_of src)"
    using assms by (simp add: skip_to_dot_eq takeWhile_take_skip takeWhile_no_NUL)
  have extl: "fat_ext_loop src (Suc (length (base_of src))) 0 (replicate 3 0x20) =
      pad_to 3 (map to_upper (take 3 (ext_of src)))"
    by (simp add: fat_ext_loop_eq ext_of_def [symmetric] ext put_bytes_spaces)
  show ?thesis
    unfolding to_fat12_name_def
    using none by (simp add: name skip extl cch_after_base Let_def pad_to_def)
qed

text \<open>The padding removed again.\<close>

definition rstrip :: "bytes \<Rightarrow> bytes" where
  "rstrip xs = rev (dropWhile (\<lambda>c. c = 0x20) (rev xs))"

lemma rstrip_snoc: "rstrip (xs @ [c]) = (if c = 0x20 then rstrip xs else xs @ [c])"
  by (simp add: rstrip_def)

lemma rstrip_Nil [simp]: "rstrip [] = []"
  by (simp add: rstrip_def)

lemma rstrip_padding: "\<exists>k. xs = rstrip xs @ replicate k 0x20"
proof (induction xs rule: rev_induct)
  case (snoc c xs)
  then obtain k where k: "xs = rstrip xs @ replicate k 0x20" by blast
  show ?case
  proof (cases "c = 0x20")
    case True
    have "xs @ [c] = rstrip xs @ replicate (Suc k) 0x20"
      using k True by (metis append.assoc replicate_append_same replicate_Suc)
    moreover have "rstrip (xs @ [c]) = rstrip xs" using True by (simp add: rstrip_snoc)
    ultimately show ?thesis by (metis)
  qed (auto simp: rstrip_snoc intro: exI [of _ 0])
qed simp

lemma set_rstrip: "set (rstrip xs) \<subseteq> set xs"
  unfolding rstrip_def by (auto dest: set_dropWhileD)

lemma length_rstrip: "length (rstrip xs) \<le> length xs"
  unfolding rstrip_def by (metis length_dropWhile_le length_rev)

lemma pad_to_rstrip: "length xs = n \<Longrightarrow> pad_to n (rstrip xs) = xs"
proof -
  assume n: "length xs = n"
  obtain k where k: "xs = rstrip xs @ replicate k 0x20" using rstrip_padding by blast
  then have "length xs = length (rstrip xs) + k" by (metis length_append length_replicate)
  with k n show ?thesis by (metis add_diff_cancel_left' pad_to_def)
qed

lemma rstrip_pad_to:
  assumes "xs = [] \<or> last xs \<noteq> 0x20"
  shows "rstrip (pad_to n xs) = xs"
proof -
  have "rstrip (xs @ replicate k 0x20) = xs" for k
  proof (induction k)
    case 0
    show ?case using assms by (cases xs rule: rev_cases) (auto simp: rstrip_snoc)
  next
    case (Suc k)
    then show ?case
      using rstrip_snoc [of "xs @ replicate k 0x20" "0x20"]
      by (simp add: replicate_append_same [symmetric])
  qed
  then show ?thesis by (simp add: pad_to_def)
qed

lemma unpadded_length_eq: "n \<le> length b \<Longrightarrow> take (unpadded_length b n) b = rstrip (take n b)"
proof (induction n)
  case (Suc n)
  then show ?case
    by (subst unpadded_length.simps) (simp add: take_Suc_conv_app_nth rstrip_snoc)
qed (subst unpadded_length.simps, simp)

lemma unpadded_length_le: "unpadded_length b n \<le> n"
proof (induction n)
  case (Suc n)
  then show ?case by (subst unpadded_length.simps) simp
qed (subst unpadded_length.simps, simp)

lemma from_fat12_name_eq:
  assumes "length nm = 8" and "length ex = 3"
  shows "from_fat12_name nm ex = rstrip nm @ (if rstrip ex = [] then [] else 0x2E # rstrip ex)"
proof -
  have n: "take (unpadded_length nm 8) nm = rstrip nm" "take (unpadded_length ex 3) ex = rstrip ex"
    using assms by (simp_all add: unpadded_length_eq)
  moreover have "unpadded_length ex 3 = length (rstrip ex)"
    using unpadded_length_le [of ex 3] assms(2) n(2) by (metis length_take min.absorb2)
  ultimately show ?thesis by (simp add: from_fat12_name_def Let_def)
qed

definition stored_char :: "u8 \<Rightarrow> bool" where
  "stored_char c \<longleftrightarrow> c \<noteq> 0 \<and> to_upper c = c"

definition stored_name :: "bytes \<Rightarrow> bytes \<Rightarrow> bool" where
  "stored_name nm ex \<longleftrightarrow>
     length nm = 8 \<and> length ex = 3 \<and> list_all stored_char nm \<and> list_all stored_char ex
     \<and> 0x2E \<notin> set nm"

lemma base_of_append: "0x2E \<notin> set xs \<Longrightarrow> base_of (xs @ 0x2E # ys) = xs"
  unfolding base_of_def by (subst takeWhile_append2) auto

lemma ext_of_append: "0x2E \<notin> set xs \<Longrightarrow> ext_of (xs @ 0x2E # ys) = ys"
  by (simp add: ext_of_def base_of_append)

lemma map_to_upper_stored: "list_all stored_char xs \<Longrightarrow> map to_upper xs = xs"
  by (induction xs) (simp_all add: stored_char_def)

lemma list_all_subset: "list_all P xs \<Longrightarrow> set ys \<subseteq> set xs \<Longrightarrow> list_all P ys"
  by (auto simp: list_all_iff)

lemma to_fat12_name_from:
  assumes "stored_name nm ex"
  shows "to_fat12_name (from_fat12_name nm ex) = (nm, ex)"
proof -
  have len: "length nm = 8" "length ex = 3" and dot: "0x2E \<notin> set nm"
    and ch: "list_all stored_char nm" "list_all stored_char ex"
    using assms by (simp_all add: stored_name_def)
  note sub = set_rstrip [of nm] set_rstrip [of ex]
  have ch': "list_all stored_char (rstrip nm)" "list_all stored_char (rstrip ex)"
    using list_all_subset ch sub by blast+
  then have zero: "0 \<notin> set (from_fat12_name nm ex)"
    by (auto simp: from_fat12_name_eq len list_all_iff stored_char_def)
  have dot': "0x2E \<notin> set (rstrip nm)" using dot sub by blast
  have "length (rstrip nm) \<le> 8" "length (rstrip ex) \<le> 3"
    using length_rstrip [of nm] length_rstrip [of ex] len by simp_all
  moreover have "base_of (from_fat12_name nm ex) = rstrip nm"
    using dot' by (simp add: from_fat12_name_eq len base_of_append base_of_all)
  moreover have "ext_of (from_fat12_name nm ex) = rstrip ex"
    using dot' by (simp add: from_fat12_name_eq len ext_of_append) (simp add: ext_of_def base_of_all)
  ultimately show ?thesis
    by (simp add: to_fat12_name_eq [OF zero] map_to_upper_stored ch' pad_to_rstrip len)
qed

text \<open>A name in 8.3 form is stored and printed in upper case.\<close>

definition name_8_3 :: "bytes \<Rightarrow> bool" where
  "name_8_3 src \<longleftrightarrow>
     0 \<notin> set src \<and> length (base_of src) \<le> 8 \<and> length (ext_of src) \<le> 3
     \<and> (base_of src = [] \<or> last (base_of src) \<noteq> 0x20)
     \<and> (ext_of src = [] \<or> last (ext_of src) \<noteq> 0x20) \<and> (0x2E \<in> set src \<longrightarrow> ext_of src \<noteq> [])"

lemma to_upper_space [simp]: "to_upper c = 0x20 \<longleftrightarrow> c = 0x20"
proof -
  have "c - 97 + 65 = (c - 32 :: u8)" by simp
  moreover have "c - 32 = 32 \<longleftrightarrow> c = 64" for c :: u8 by (simp add: diff_eq_eq)
  ultimately show ?thesis by (auto simp: to_upper_def)
qed

lemma base_dot_ext: "0x2E \<in> set src \<Longrightarrow> src = base_of src @ 0x2E # ext_of src"
proof -
  assume "0x2E \<in> set src"
  then obtain xs ys where "src = xs @ 0x2E # ys" "0x2E \<notin> set xs"
    by (metis split_list_first)
  then show ?thesis by (simp add: base_of_append ext_of_append)
qed

lemma from_fat12_name_to:
  assumes "name_8_3 src"
  shows "from_fat12_name (fst (to_fat12_name src)) (snd (to_fat12_name src)) = map to_upper src"
proof -
  let ?b = "map to_upper (base_of src)" and ?x = "map to_upper (ext_of src)"
  have "?b = [] \<or> last ?b \<noteq> 0x20" "?x = [] \<or> last ?x \<noteq> 0x20"
    using assms by (auto simp: name_8_3_def last_map)
  then have r: "rstrip (pad_to 8 ?b) = ?b" "rstrip (pad_to 3 ?x) = ?x"
    by (simp_all add: rstrip_pad_to)
  have "to_fat12_name src = (pad_to 8 ?b, pad_to 3 ?x)"
    using assms by (simp add: name_8_3_def to_fat12_name_eq)
  moreover have "length (pad_to 8 ?b) = 8" "length (pad_to 3 ?x) = 3"
    using assms by (simp_all add: name_8_3_def)
  ultimately have eq: "from_fat12_name (fst (to_fat12_name src)) (snd (to_fat12_name src)) =
      ?b @ (if ?x = [] then [] else 0x2E # ?x)"
    by (simp add: from_fat12_name_eq r)
  show ?thesis
  proof (cases "0x2E \<in> set src")
    case True
    then have "map to_upper src = ?b @ to_upper 0x2E # ?x" by (metis base_dot_ext list.simps(9) map_append)
    moreover have "ext_of src \<noteq> []" using assms True by (simp add: name_8_3_def)
    ultimately show ?thesis using eq by (simp add: to_upper_def)
  next
    case False
    then show ?thesis using eq base_of_all [OF False] by (simp add: ext_of_def)
  qed
qed

section \<open>Splitting a path\<close>

text \<open>
  The components of a path: the non-empty parts between slashes, each cut to 255 characters.
\<close>

definition drop_slashes :: "bytes \<Rightarrow> bytes" where
  "drop_slashes p = dropWhile (\<lambda>c. c = 0x2F) p"

definition comp_head :: "bytes \<Rightarrow> bytes" where
  "comp_head p = takeWhile (\<lambda>c. c \<noteq> 0x2F) p"

function split_path :: "bytes \<Rightarrow> bytes list" where
  "split_path p =
     (let q = drop_slashes p
      in if q = [] then [] else take 255 (comp_head q) # split_path (drop (length (comp_head q)) q))"
  by pat_completeness auto
termination
proof (relation "measure length")
  fix p q
  assume q: "q = drop_slashes p" "q \<noteq> []"
  then have "hd q \<noteq> 0x2F" unfolding drop_slashes_def by (metis (full_types) hd_dropWhile)
  then have "comp_head q \<noteq> []" using q(2) by (cases q) (simp_all add: comp_head_def)
  moreover have "length q \<le> length p" using q(1) by (simp add: drop_slashes_def length_dropWhile_le)
  ultimately have "length q - length (comp_head q) < length p"
    using q(2) by (metis diff_less le_trans length_greater_0_conv less_le_trans)
  then show "(drop (length (comp_head q)) q, p) \<in> measure length" by simp
qed simp

declare split_path.simps [simp del]

lemma skip_slashes_eq:
  "skip_slashes path off = off + length (takeWhile (\<lambda>c. c = 0x2F) (drop off path))"
proof (induction path off rule: skip_slashes.induct)
  case (1 path off)
  show ?case
  proof (cases "off < length path")
    case True
    with 1 show ?thesis
      by (subst skip_slashes.simps) (simp add: cch_def Cons_nth_drop_Suc [symmetric])
  qed (subst skip_slashes.simps, simp)
qed

lemma component_loop_eq:
  "length acc \<le> 255 \<Longrightarrow>
     component_loop path off acc =
       (let t = takeWhile (\<lambda>c. c \<noteq> 0 \<and> c \<noteq> 0x2F) (drop off path)
        in (acc @ take (255 - length acc) t, off + length t))"
proof (induction path off acc rule: component_loop.induct)
  case (1 path off acc)
  show ?case
  proof (cases "off < length path")
    case True
    then have drop: "drop off path = path ! off # drop (Suc off) path"
      by (simp add: Cons_nth_drop_Suc)
    show ?thesis
    proof (cases "cch path off \<noteq> 0 \<and> cch path off \<noteq> 0x2F")
      case cont: True
      then have c: "path ! off \<noteq> 0" "path ! off \<noteq> 0x2F" using True by (simp_all add: cch_def)
      from 1 cont show ?thesis
        by (subst component_loop.simps)
          (auto simp: drop c True cch_def Let_def take_Cons' Suc_diff_Suc)
    next
      case False
      then show ?thesis by (subst component_loop.simps) (auto simp: drop True cch_def)
    qed
  qed (subst component_loop.simps, simp)
qed

lemma drop_takeWhile: "drop (length (takeWhile P xs)) xs = dropWhile P xs"
  by (metis append_eq_conv_conj takeWhile_dropWhile_id)

lemma drop_plus: "drop (m + n) xs = drop n (drop m xs)"
  by (simp add: add.commute)

lemma drop_skip_slashes: "drop (skip_slashes path off) path = drop_slashes (drop off path)"
  by (simp only: skip_slashes_eq drop_slashes_def drop_takeWhile drop_plus)

lemma cch_drop: "cch path off = (case drop off path of [] \<Rightarrow> 0 | c # _ \<Rightarrow> c)"
  by (cases "off < length path") (auto simp: cch_def Cons_nth_drop_Suc [symmetric])

text \<open>Repeated calls deliver the components of the path one by one.\<close>

lemma get_next_path_component_eq:
  assumes "0 \<notin> set path"
  shows "case split_path (drop off path) of
      [] \<Rightarrow> fst (get_next_path_component path off) = None
    | c # cs \<Rightarrow> (\<exists>off'. get_next_path_component path off = (Some c, off')
                       \<and> split_path (drop off' path) = cs)"
proof -
  let ?o = "skip_slashes path off" and ?q = "drop_slashes (drop off path)"
  have q: "drop ?o path = ?q" by (rule drop_skip_slashes)
  have sub: "set ?q \<subseteq> set path"
    using set_drop_subset [of ?o path] q by simp
  have zero: "cch path ?o = 0 \<longleftrightarrow> ?q = []"
    using assms sub by (auto simp: cch_drop q split: list.split)
  have head: "takeWhile (\<lambda>c. c \<noteq> 0 \<and> c \<noteq> 0x2F) ?q = comp_head ?q"
    unfolding comp_head_def using assms sub by (intro takeWhile_cong) auto
  show ?thesis
  proof (cases "?q = []")
    case True
    then show ?thesis
      using zero by (simp add: split_path.simps [of "drop off path"] get_next_path_component_def Let_def)
  next
    case False
    then have "get_next_path_component path off =
        (Some (take 255 (comp_head ?q)), ?o + length (comp_head ?q))"
      using zero by (simp add: get_next_path_component_def component_loop_eq q head Let_def)
    moreover have "drop (?o + length (comp_head ?q)) path = drop (length (comp_head ?q)) ?q"
      by (simp only: drop_plus q)
    ultimately show ?thesis
      using False by (simp add: split_path.simps [of "drop off path"] Let_def)
  qed
qed

lemma split_path_props:
  "c \<in> set (split_path p) \<Longrightarrow> length c \<le> 255 \<and> c \<noteq> [] \<and> set c \<subseteq> set p \<and> 0x2F \<notin> set c"
proof (induction p arbitrary: c rule: split_path.induct)
  case (1 p)
  let ?q = "drop_slashes p"
  have sub: "set ?q \<subseteq> set p" unfolding drop_slashes_def by (auto dest: set_dropWhileD)
  show ?case
  proof (cases "?q = []")
    case True
    with 1 show ?thesis by (simp add: split_path.simps [of p])
  next
    case False
    then have "hd ?q \<noteq> 0x2F" unfolding drop_slashes_def by (metis (full_types) hd_dropWhile)
    then have ne: "comp_head ?q \<noteq> []" using False by (cases ?q) (simp_all add: comp_head_def)
    have hd: "set (comp_head ?q) \<subseteq> set ?q" "0x2F \<notin> set (comp_head ?q)"
      unfolding comp_head_def by (auto dest: set_takeWhileD)
    have take: "set (take 255 (comp_head ?q)) \<subseteq> set (comp_head ?q)" by (rule set_take_subset)
    have drop: "set (drop (length (comp_head ?q)) ?q) \<subseteq> set ?q" by (rule set_drop_subset)
    consider "c = take 255 (comp_head ?q)" | "c \<in> set (split_path (drop (length (comp_head ?q)) ?q))"
      using 1(2) False by (auto simp: split_path.simps [of p] Let_def)
    then show ?thesis
    proof cases
      case 1
      with ne hd sub take show ?thesis by auto
    next
      case 2
      from "1.IH" [OF refl False 2] drop sub show ?thesis by blast
    qed
  qed
qed

end
