(* ===== verification/Fat12_Tree.thy ===== *)
theory Fat12_Tree
  imports Fat12_Path
begin

text \<open>
  The directory tree as an abstract map from directories to their lists of entries, and the
  proof that the two path walks of \<open>kernel/fat12.c\<close> compute the lookup in that tree. A
  directory is named by its first cluster, the root by 0.
\<close>

section \<open>The abstract tree\<close>

type_synonym dir_tree = "u32 \<Rightarrow> fat12_dir_entry list option"

definition is_dir :: "fat12_dir_entry \<Rightarrow> bool" where
  "is_dir e \<longleftrightarrow> de_attr e AND 0x10 \<noteq> 0"

definition start_cluster :: "fat12_dir_entry \<Rightarrow> u32" where
  "start_cluster e = ucast (de_first_cluster_low e)"

text \<open>
  \<open>tree_holds s T\<close>: every directory of \<open>T\<close> is on the disk with these entries, the root is one of
  them, and so is every directory that a visible entry names.
\<close>

definition tree_holds :: "image fat12_state \<Rightarrow> dir_tree \<Rightarrow> bool" where
  "tree_holds s T \<longleftrightarrow>
     T 0 \<noteq> None
     \<and> (\<forall>dc es. T dc = Some es \<longrightarrow>
          dir_ready s dc \<and> dir_holds s dc es
          \<and> (\<forall>e \<in> set es. \<not> is_deleted e \<longrightarrow> de_attr e \<noteq> 0x0F \<longrightarrow> is_dir e \<longrightarrow>
               T (start_cluster e) \<noteq> None))"

lemma tree_holdsD:
  assumes "tree_holds s T" and "T dc = Some es"
  shows "dir_ready s dc" and "dir_holds s dc es"
  using assms by (auto simp: tree_holds_def)

text \<open>The entry of a directory that a path component names, with its index.\<close>

definition lookup_name :: "dir_tree \<Rightarrow> u32 \<Rightarrow> bytes \<Rightarrow> (fat12_dir_entry \<times> u32) option" where
  "lookup_name T dc c =
     (let (nm, ex) = to_fat12_name c in find_live nm ex 0 (the (T dc)))"

fun descend :: "dir_tree \<Rightarrow> u32 \<Rightarrow> bytes list \<Rightarrow> u32 option" where
  "descend T dc [] = Some dc"
| "descend T dc (c # cs) =
     (case lookup_name T dc c of
        None \<Rightarrow> None
      | Some (e, _) \<Rightarrow> if is_dir e then descend T (start_cluster e) cs else None)"

text \<open>The lookup of a path: the entry, its index and its directory.\<close>

definition lookup_path ::
    "dir_tree \<Rightarrow> bytes list \<Rightarrow> (fat12_dir_entry \<times> u32 \<times> u32) option" where
  "lookup_path T cs =
     (if cs = [] then None
      else case descend T 0 (butlast cs) of
        None \<Rightarrow> None
      | Some dc \<Rightarrow> map_option (\<lambda>(e, i). (e, i, dc)) (lookup_name T dc (last cs)))"

definition parent_of_path :: "dir_tree \<Rightarrow> bytes list \<Rightarrow> (u32 \<times> bytes \<times> bytes) option" where
  "parent_of_path T cs =
     (if cs = [] then None
      else map_option (\<lambda>dc. (dc, to_fat12_name (last cs))) (descend T 0 (butlast cs)))"

lemma descend_closed:
  assumes "tree_holds s T" and "T dc \<noteq> None" and "lookup_name T dc c = Some (e, i)" and "is_dir e"
  shows "T (start_cluster e) \<noteq> None"
proof -
  obtain es where es: "T dc = Some es" using assms(2) by blast
  with assms(3) obtain nm ex where "find_live nm ex 0 es = Some (e, i)"
    by (auto simp: lookup_name_def split: prod.splits)
  then obtain j where "j < length es" "e = es ! j" "entry_matches nm ex e"
    by (auto simp: find_live_Some_iff)
  then have "e \<in> set es" "\<not> is_deleted e" "de_attr e \<noteq> 0x0F"
    by (auto simp: entry_matches_def is_deleted_def)
  then show ?thesis using assms(1,4) es by (auto simp: tree_holds_def)
qed

lemma lookup_name_matches:
  assumes "T dc = Some es" and "lookup_name T dc c = Some (e, i)"
  shows "\<exists>j < length es. e = es ! j \<and> i = of_nat j
    \<and> entry_matches (fst (to_fat12_name c)) (snd (to_fat12_name c)) e"
  using assms by (auto simp: lookup_name_def find_live_Some_iff split: prod.splits)

section \<open>The walks compute the lookup\<close>

text \<open>One step of either walk.\<close>

lemma find_in_dir_tree:
  assumes "tree_holds s T" and "T dc \<noteq> None"
  shows "find_in_dir ideal_floppy (fst (to_fat12_name c)) (snd (to_fat12_name c)) dc 0 s =
    Some (lookup_name T dc c, s)"
  using assms tree_holdsD [OF assms(1)]
  by (auto simp: find_in_dir_ideal lookup_name_def split_beta)

lemma last_Cons_Cons: "last (x # y # xs) = last (y # xs)"
  by simp

lemma find_entry_loop_tree:
  assumes "tree_holds s T" and "0 \<notin> set path"
  shows "T dc \<noteq> None \<Longrightarrow> cs = split_path (drop off path) \<Longrightarrow>
    find_entry_loop ideal_floppy path c off dc s =
      Some (case descend T dc (butlast (c # cs)) of
              None \<Rightarrow> None
            | Some d \<Rightarrow> map_option (\<lambda>(e, i). (e, i, d)) (lookup_name T d (last (c # cs))), s)"
proof (induction cs arbitrary: c off dc)
  case Nil
  have "fst (get_next_path_component path off) = None"
    using get_next_path_component_eq [OF assms(2), of off] Nil(2) by simp
  then obtain off' where "get_next_path_component path off = (None, off')"
    by (cases "get_next_path_component path off") simp
  then show ?case
    using find_in_dir_tree [OF assms(1) Nil(1), of c]
    by (subst find_entry_loop.simps) (auto simp: split_beta split: option.split)
next
  case (Cons c' cs)
  obtain off' where nxt: "get_next_path_component path off = (Some c', off')"
    and cs: "cs = split_path (drop off' path)"
    using get_next_path_component_eq [OF assms(2), of off] Cons.prems(2) [symmetric] by auto
  have "c' \<in> set (split_path (drop off path))" using Cons.prems(2) [symmetric] by simp
  from split_path_props [OF this]
  have "length c' < 256" "0 \<notin> set c'"
    using assms(2) set_drop_subset [of off path] by auto
  then have copy: "strlcpy_str c' 256 = c'" by simp
  show ?case
  proof (cases "lookup_name T dc c")
    case None
    then show ?thesis
      using find_in_dir_tree [OF assms(1) Cons.prems(1), of c]
      by (subst find_entry_loop.simps) (simp add: split_beta)
  next
    case (Some p)
    obtain e i where p: "p = (e, i)" by (cases p)
    note IH = Cons.IH [OF _ cs, of "start_cluster e" c']
    show ?thesis
    proof (cases "is_dir e")
      case True
      then have "T (start_cluster e) \<noteq> None"
        using descend_closed [OF assms(1) Cons.prems(1)] Some p by blast
      from IH [OF this] True Some p nxt copy show ?thesis
        using find_in_dir_tree [OF assms(1) Cons.prems(1), of c]
        unfolding last_Cons_Cons [of c]
        by (subst find_entry_loop.simps) (simp add: split_beta is_dir_def start_cluster_def)
    next
      case False
      with Some p nxt show ?thesis
        using find_in_dir_tree [OF assms(1) Cons.prems(1), of c]
        by (subst find_entry_loop.simps) (simp add: split_beta is_dir_def)
    qed
  qed
qed

lemma split_first:
  assumes "0 \<notin> set path"
  obtains "split_path path = []" "fst (get_next_path_component path 0) = None"
    | c cs off where "split_path path = c # cs" "get_next_path_component path 0 = (Some c, off)"
      "cs = split_path (drop off path)"
  using get_next_path_component_eq [OF assms, of 0] by (cases "split_path path") auto

lemma fat12_find_entry_tree:
  assumes "tree_holds s T" and "0 \<notin> set path"
  shows "fat12_find_entry ideal_floppy path s = Some (lookup_path T (split_path path), s)"
  using assms(2)
proof (cases rule: split_first)
  case 1
  then show ?thesis
    by (cases "get_next_path_component path 0") (simp add: fat12_find_entry_def lookup_path_def)
next
  case (2 c cs off)
  have "T 0 \<noteq> None" using assms(1) by (simp add: tree_holds_def)
  from find_entry_loop_tree [OF assms this 2(3), of c] 2(1,2) show ?thesis
    by (simp add: fat12_find_entry_def lookup_path_def)
qed

lemma resolve_parent_loop_tree:
  assumes "tree_holds s T" and "0 \<notin> set path"
  shows "T dc \<noteq> None \<Longrightarrow> cs = split_path (drop off path) \<Longrightarrow>
    resolve_parent_loop ideal_floppy path c off dc s =
      Some (map_option (\<lambda>d. (d, to_fat12_name (last (c # cs)))) (descend T dc (butlast (c # cs))), s)"
proof (induction cs arbitrary: c off dc)
  case Nil
  have "fst (get_next_path_component path off) = None"
    using get_next_path_component_eq [OF assms(2), of off] Nil(2) by simp
  then obtain off' where "get_next_path_component path off = (None, off')"
    by (cases "get_next_path_component path off") simp
  then show ?case
    by (subst resolve_parent_loop.simps) (simp add: split_beta)
next
  case (Cons c' cs)
  obtain off' where nxt: "get_next_path_component path off = (Some c', off')"
    and cs: "cs = split_path (drop off' path)"
    using get_next_path_component_eq [OF assms(2), of off] Cons.prems(2) [symmetric] by auto
  have "c' \<in> set (split_path (drop off path))" using Cons.prems(2) [symmetric] by simp
  from split_path_props [OF this]
  have "length c' < 256" "0 \<notin> set c'"
    using assms(2) set_drop_subset [of off path] by auto
  then have copy: "strlcpy_str c' 256 = c'" by simp
  show ?case
  proof (cases "lookup_name T dc c")
    case None
    then show ?thesis
      using find_in_dir_tree [OF assms(1) Cons.prems(1), of c] nxt
      by (subst resolve_parent_loop.simps) (simp add: split_beta)
  next
    case (Some p)
    obtain e i where p: "p = (e, i)" by (cases p)
    note IH = Cons.IH [OF _ cs, of "start_cluster e" c']
    show ?thesis
    proof (cases "is_dir e")
      case True
      then have "T (start_cluster e) \<noteq> None"
        using descend_closed [OF assms(1) Cons.prems(1)] Some p by blast
      from IH [OF this] True Some p nxt copy show ?thesis
        using find_in_dir_tree [OF assms(1) Cons.prems(1), of c]
        by (subst resolve_parent_loop.simps) (simp add: split_beta is_dir_def start_cluster_def)
    next
      case False
      with Some p nxt show ?thesis
        using find_in_dir_tree [OF assms(1) Cons.prems(1), of c]
        by (subst resolve_parent_loop.simps) (simp add: split_beta is_dir_def)
    qed
  qed
qed

lemma fat12_resolve_parent_tree:
  assumes "tree_holds s T" and "0 \<notin> set path"
  shows "fat12_resolve_parent ideal_floppy path s = Some (parent_of_path T (split_path path), s)"
  using assms(2)
proof (cases rule: split_first)
  case 1
  then show ?thesis
    by (cases "get_next_path_component path 0") (simp add: fat12_resolve_parent_def parent_of_path_def)
next
  case (2 c cs off)
  have "T 0 \<noteq> None" using assms(1) by (simp add: tree_holds_def)
  from resolve_parent_loop_tree [OF assms this 2(3), of c] 2(1,2) show ?thesis
    by (simp add: fat12_resolve_parent_def parent_of_path_def)
qed

end
