(* ===== verification/Fat12_Volume.thy ===== *)
theory Fat12_Volume
  imports Fat12_Tree
begin

text \<open>
  The invariant of a mounted volume: the abstract tree is on the disk and no two directories
  share a slot. The stores that the operations of \<open>kernel/fat12.c\<close> make keep it, with the tree
  changed in one directory only.
\<close>

section \<open>The invariant\<close>

definition slots_apart :: "image fat12_state \<Rightarrow> u32 \<Rightarrow> u32 \<Rightarrow> bool" where
  "slots_apart s dc dc' \<longleftrightarrow>
     (\<forall>i j p. dir_slot s dc i = Some p \<longrightarrow> dir_slot s dc' j \<noteq> Some p)"

definition volume :: "image fat12_state \<Rightarrow> dir_tree \<Rightarrow> bool" where
  "volume s T \<longleftrightarrow>
     tree_holds s T
     \<and> (\<forall>dc. T dc \<noteq> None \<longrightarrow> dir_store s dc)
     \<and> (\<forall>dc dc'. T dc \<noteq> None \<longrightarrow> T dc' \<noteq> None \<longrightarrow> dc \<noteq> dc' \<longrightarrow> slots_apart s dc dc')"

lemma volumeD:
  assumes "volume s T"
  shows "tree_holds s T" and "T dc \<noteq> None \<Longrightarrow> dir_store s dc"
    and "T dc \<noteq> None \<Longrightarrow> T dc' \<noteq> None \<Longrightarrow> dc \<noteq> dc' \<Longrightarrow> slots_apart s dc dc'"
    and "T dc = Some es \<Longrightarrow> dir_holds s dc es" and "tree_ready s"
proof -
  show tree: "tree_holds s T" using assms by (simp add: volume_def)
  show store: "T dc \<noteq> None \<Longrightarrow> dir_store s dc" for dc using assms by (simp add: volume_def)
  show "T dc \<noteq> None \<Longrightarrow> T dc' \<noteq> None \<Longrightarrow> dc \<noteq> dc' \<Longrightarrow> slots_apart s dc dc'"
    using assms unfolding volume_def by blast
  show "T dc = Some es \<Longrightarrow> dir_holds s dc es" using tree by (auto simp: tree_holds_def)
  have "T 0 \<noteq> None" using tree by (simp add: tree_holds_def)
  from store [OF this] show "tree_ready s" by (rule dir_storeD(1))
qed

text \<open>An entry that may stand in the tree: if it is visible, its directory is known.\<close>

definition entry_closed :: "dir_tree \<Rightarrow> fat12_dir_entry \<Rightarrow> bool" where
  "entry_closed T e \<longleftrightarrow>
     (\<not> is_deleted e \<longrightarrow> de_attr e \<noteq> 0x0F \<longrightarrow> is_dir e \<longrightarrow> T (start_cluster e) \<noteq> None)"

lemma tree_holds_closed:
  "tree_holds s T \<Longrightarrow> T dc = Some es \<Longrightarrow> e \<in> set es \<Longrightarrow> entry_closed T e"
  by (auto simp: tree_holds_def entry_closed_def)

text \<open>Where a store leaves the slots and the other directories alone, the volume follows.\<close>

lemma volume_change:
  assumes "volume s T" and "T dc \<noteq> None"
    and "dir_holds t dc es'" and "\<And>e. e \<in> set es' \<Longrightarrow> entry_closed T e"
    and "\<And>d. T d \<noteq> None \<Longrightarrow> dir_store t d"
    and "\<And>d i. T d \<noteq> None \<Longrightarrow> dir_slot t d i = dir_slot s d i"
    and "\<And>d i. T d \<noteq> None \<Longrightarrow> d \<noteq> dc \<Longrightarrow> dir_lookup t d i = dir_lookup s d i"
  shows "volume t (T(dc \<mapsto> es'))"
proof -
  have other: "dir_holds t d es" if "T d = Some es" "d \<noteq> dc" for d es
    using volumeD(4) [OF assms(1) that(1)] assms(7) [of d] that unfolding dir_holds_def by simp
  have dom: "(T(dc \<mapsto> es')) d \<noteq> None \<longleftrightarrow> T d \<noteq> None" for d using assms(2) by simp
  have "tree_holds t (T(dc \<mapsto> es'))"
    unfolding tree_holds_def dom
  proof (intro conjI allI impI ballI)
    show "T 0 \<noteq> None" using volumeD(1) [OF assms(1)] by (simp add: tree_holds_def)
  next
    fix d es assume d: "(T(dc \<mapsto> es')) d = Some es"
    then have "T d \<noteq> None" using dom by blast
    then show "dir_ready t d" by (intro dir_storeD(4) assms(5))
    show "dir_holds t d es" using d assms(3) other by (auto split: if_splits)
    fix e assume e: "e \<in> set es" "\<not> is_deleted e" "de_attr e \<noteq> 0x0F" "is_dir e"
    have "entry_closed T e"
      using d e(1) assms(4) tree_holds_closed [OF volumeD(1) [OF assms(1)]]
      by (auto split: if_splits)
    with e show "T (start_cluster e) \<noteq> None" by (simp add: entry_closed_def)
  qed
  moreover have "slots_apart t d d'" if "T d \<noteq> None" "T d' \<noteq> None" "d \<noteq> d'" for d d'
    using volumeD(3) [OF assms(1) that] assms(6) that(1,2) by (simp add: slots_apart_def)
  ultimately show ?thesis using assms(5) unfolding volume_def dom by blast
qed

section \<open>Stores in one directory\<close>

text \<open>A store in the slot of a known directory, as any directory of the tree sees it.\<close>

lemma put_slot_volume:
  assumes "volume s T" and "T dc \<noteq> None" and "dir_slot s dc i = Some p" and "wf_dir_entry e"
    and "T d \<noteq> None"
  shows "dir_slot (put_slot s p e) d j = dir_slot s d j"
    and "dir_store (put_slot s p e) d"
    and "d \<noteq> dc \<Longrightarrow> dir_lookup (put_slot s p e) d j = dir_lookup s d j"
proof -
  note st = dir_storeD [OF volumeD(2) [OF assms(1,2)]]
  note sd = dir_storeD [OF volumeD(2) [OF assms(1,5)]]
  note p = dir_slot_behind_fat [OF st(1,2) assms(3)]
  show slot: "dir_slot (put_slot s p e) d j = dir_slot s d j" for j
    by (rule dir_slot_put_slot [OF sd(1,2) p(1)])
  show "dir_store (put_slot s p e) d"
    using tree_ready_put_slot [OF st(1) assms(4) p(2,1)] sd(2,3)
    unfolding dir_store_def slots_distinct_def slot by simp
  show "dir_lookup (put_slot s p e) d j = dir_lookup s d j" if "d \<noteq> dc"
  proof -
    have "dir_slot s d j \<noteq> Some p"
      using volumeD(3) [OF assms(1,2,5)] that assms(3) unfolding slots_apart_def by blast
    then show ?thesis using dir_lookup_put_slot [OF st(1,2) assms(3) sd(2) assms(4)] by simp
  qed
qed

lemma volume_put_slot:
  assumes "volume s T" and "T dc = Some es" and "j < length es"
    and "dir_slot s dc (of_nat j) = Some p"
    and "wf_dir_entry e" and "de_name e ! 0 \<noteq> 0" and "entry_closed T e"
  shows "volume (put_slot s p e) (T(dc \<mapsto> es[j := e]))"
proof (rule volume_change [OF assms(1)])
  have dc: "T dc \<noteq> None" using assms(2) by simp
  note put = put_slot_volume [OF assms(1) dc assms(4,5)]
  show "T dc \<noteq> None" by (rule dc)
  show "dir_holds (put_slot s p e) dc (es[j := e])"
    by (rule dir_holds_put [OF volumeD(2) [OF assms(1) dc] volumeD(4) [OF assms(1,2)] assms(3-6)])
  fix x assume "x \<in> set (es[j := e])"
  then have "x = e \<or> x \<in> set es" using set_update_subset_insert by fastforce
  then show "entry_closed T x"
    using assms(7) tree_holds_closed [OF volumeD(1) [OF assms(1)] assms(2)] by auto
qed (use put_slot_volume [OF assms(1) _ assms(4,5)] assms(2) in auto)

lemma volume_store_new:
  assumes "volume s T" and "T dc = Some es" and "length es < 2147483647"
    and "dir_slot s dc (of_nat (slot_index 0 es)) = Some p"
    and "wf_dir_entry e" and "de_name e ! 0 \<noteq> 0" and "entry_closed T e"
  shows "volume (store_new dc es p e s) (T(dc \<mapsto> insert_entry e es))"
proof (rule volume_change [OF assms(1)])
  have dc: "T dc \<noteq> None" using assms(2) by simp
  note st = volumeD(2) [OF assms(1) dc] and ho = volumeD(4) [OF assms(1,2)]
  note new = store_new_effect [OF st ho assms(3-6)]
  show "T dc \<noteq> None" by (rule dc)
  show "dir_holds (store_new dc es p e s) dc (insert_entry e es)" by (rule new(2))
  fix x assume "x \<in> set (insert_entry e es)"
  then have "x = e \<or> x \<in> set es"
    using set_update_subset_insert by (fastforce simp: insert_entry_def split: if_splits)
  then show "entry_closed T x"
    using assms(7) tree_holds_closed [OF volumeD(1) [OF assms(1)] assms(2)] by auto
next
  have dc: "T dc \<noteq> None" using assms(2) by simp
  note st = volumeD(2) [OF assms(1) dc] and ho = volumeD(4) [OF assms(1,2)]
  note put = put_slot_volume [OF assms(1) dc assms(4,5)]
  note p = dir_slot_behind_fat [OF dir_storeD(1,2) [OF st] assms(4)]
  have two: "dir_slot (put_slot (put_slot s p e) q zero_entry) d i = dir_slot s d i
      \<and> dir_store (put_slot (put_slot s p e) q zero_entry) d"
    if q: "dir_slot s dc (of_nat (Suc (length es))) = Some q" and d: "T d \<noteq> None" for q d i
  proof -
    have q': "dir_slot (put_slot s p e) dc (of_nat (Suc (length es))) = Some q"
      using q put(1) [OF dc] by simp
    note b = dir_slot_behind_fat [OF dir_storeD(1,2) [OF put(2) [OF dc]] q']
    note sd = dir_storeD [OF put(2) [OF d]]
    have slot: "dir_slot (put_slot (put_slot s p e) q zero_entry) d i = dir_slot (put_slot s p e) d i"
      for i by (rule dir_slot_put_slot [OF sd(1,2) b(1)])
    then show ?thesis
      using tree_ready_put_slot [OF sd(1) wf_zero_entry b(2,1)] sd(2,3) put(1) [OF d]
      unfolding dir_store_def slots_distinct_def by simp
  qed
  show slot: "dir_slot (store_new dc es p e s) d i = dir_slot s d i" if "T d \<noteq> None" for d i
    using put(1) [OF that] two [OF _ that] by (simp add: store_new_def split: option.split)
  show "dir_store (store_new dc es p e s) d" if "T d \<noteq> None" for d
    using put(2) [OF that] two [OF _ that] by (simp add: store_new_def split: option.split)
  show "dir_lookup (store_new dc es p e s) d i = dir_lookup s d i" if d: "T d \<noteq> None" "d \<noteq> dc" for d i
  proof (cases "dir_slot s d i")
    case None
    with slot [OF d(1)] show ?thesis by (simp add: dir_lookup_def)
  next
    case (Some r)
    have "dir_slot s dc j \<noteq> Some r" for j
      using volumeD(3) [OF assms(1) dc d(1)] d(2) Some unfolding slots_apart_def by blast
    then have "dir_slot s d i \<noteq> dir_slot s dc j" for j using Some by metis
    then show ?thesis
      by (intro store_new_effect(5) [OF st ho assms(3-6)] dir_storeD(2) volumeD(2) [OF assms(1)] d(1))
  qed
qed

section \<open>Changes of the table\<close>

text \<open>\<open>same_behind s t\<close>: \<open>t\<close> differs from \<open>s\<close> at most in the sectors of the table copies.\<close>

definition same_behind :: "image fat12_state \<Rightarrow> image fat12_state \<Rightarrow> bool" where
  "same_behind s t \<longleftrightarrow>
     fat12_geom t = fat12_geom s \<and> drive t = drive s \<and> open_files t = open_files s
     \<and> (\<forall>sec. unat (root_dir_start_sector (fat12_geom s)) \<le> unat sec \<longrightarrow> dev t sec = dev s sec)"

lemma same_behind_refl [simp]: "same_behind s s"
  by (simp add: same_behind_def)

lemma same_behind_trans: "same_behind s t \<Longrightarrow> same_behind t u \<Longrightarrow> same_behind s u"
  by (simp add: same_behind_def)

lemma same_behindD:
  assumes "same_behind s t"
  shows "fat12_geom t = fat12_geom s" and "open_files t = open_files s" and "fat_size t = fat_size s"
    and "unat (root_dir_start_sector (fat12_geom s)) \<le> unat sec \<Longrightarrow> dev t sec = dev s sec"
  using assms by (simp_all add: same_behind_def fat_size_def)

lemma same_behind_put_fat_byte:
  assumes "fat_ready s" and "num_fats (fat12_geom s) \<noteq> 0" and "i < fat_size s"
  shows "same_behind s (put_fat_byte s i b)"
proof -
  let ?g = "fat12_geom s"
  have i: "i < 4294967296" "i div 512 < unat (sectors_per_fat ?g)"
    using assms(3) fat_size_less [of s] by (auto simp: fat_size_def)
  have "unat (num_fats ?g) \<noteq> 0" using assms(2) by (simp add: unat_eq_zero)
  then have "1 * unat (sectors_per_fat ?g) \<le> unat (num_fats ?g) * unat (sectors_per_fat ?g)"
    by (intro mult_le_mono1) linarith
  then have "i div 512 < unat (num_fats ?g) * unat (sectors_per_fat ?g)" using i(2) by linarith
  then have first: "unat (fat_sector s i) < unat (root_dir_start_sector ?g)"
    using assms(1) i(1) by (simp add: unat_fat_sector unat_root_dir_start)
  have "sec \<notin> set (fat_sector s i # fat_copies s (fat_sector s i))"
    if "unat (root_dir_start_sector ?g) \<le> unat sec" for sec
    using unat_fat_copies(2) [OF assms(1,3), of sec] first that by auto
  then show ?thesis
    unfolding same_behind_def by (simp add: put_fat_byte_def Let_def store_all_apply)
qed

lemma same_behind_put_fat_entry:
  assumes "fat_ready s" and "num_fats (fat12_geom s) \<noteq> 0" and "in_fat s k"
  shows "same_behind s (put_fat_entry s k v)"
  unfolding set12_def Let_def
  using assms
  by (intro same_behind_trans [OF same_behind_put_fat_byte same_behind_put_fat_byte])
    (simp_all add: in_table_def)

lemma same_behind_free_entries:
  "fat_ready s \<Longrightarrow> num_fats (fat12_geom s) \<noteq> 0 \<Longrightarrow> \<forall>k \<in> set ks. in_fat s k \<Longrightarrow>
     same_behind s (free_entries put_fat_entry ks s)"
proof (induction ks arbitrary: s)
  case (Cons k ks)
  then have first: "same_behind s (put_fat_entry s k 0)"
    by (intro same_behind_put_fat_entry) simp_all
  then have "same_behind (put_fat_entry s k 0) (free_entries put_fat_entry ks (put_fat_entry s k 0))"
    using Cons.prems same_behindD [OF first]
    by (intro Cons.IH) (simp_all add: fat.ok_put fat.valid_put)
  with same_behind_trans [OF first] show ?case by simp
qed simp

lemma links_closed_free_entries:
  "fat_ready s \<Longrightarrow> fat.links_closed s \<Longrightarrow> \<forall>k \<in> set ks. in_fat s k \<Longrightarrow>
     fat.links_closed (free_entries put_fat_entry ks s)"
proof (induction ks arbitrary: s)
  case (Cons k ks)
  then show ?case
    using fat.links_closed_put_zero [of s k]
    by (simp add: fat.ok_put fat.valid_put)
qed simp

lemma tree_ready_free_entries:
  assumes "tree_ready s" and "\<forall>k \<in> set ks. in_fat s k"
  shows "tree_ready (free_entries put_fat_entry ks s)"
  using tree_readyD [OF assms(1)] assms(2)
    same_behindD(1) [OF same_behind_free_entries [OF tree_readyD(1,3) [OF assms(1)] assms(2)]]
    links_closed_free_entries [OF tree_readyD(1,5) [OF assms(1)] assms(2)]
    fat.ok_free_entries [OF tree_readyD(1) [OF assms(1)]]
  unfolding tree_ready_def by simp

text \<open>The directories of the tree never touch the clusters of \<open>K\<close>.\<close>

definition dirs_avoid :: "image fat12_state \<Rightarrow> dir_tree \<Rightarrow> nat set \<Rightarrow> bool" where
  "dirs_avoid s T K \<longleftrightarrow>
     (\<forall>dc n k. T dc \<noteq> None \<longrightarrow> dc \<noteq> 0 \<longrightarrow> chain_nth (fat_entry s) (unat dc) n = Some k \<longrightarrow> k \<notin> K)"

lemma chain_nth_agree:
  "(\<And>m k. chain_nth T c m = Some k \<Longrightarrow> T' k = T k) \<Longrightarrow> chain_nth T' c n = chain_nth T c n"
proof (induction n arbitrary: c)
  case (Suc n)
  have c: "T' c = T c" using Suc.prems [of 0 c] by simp
  show ?case
  proof (cases "is_link (unat (T c))")
    case True
    have "T' k = T k" if "chain_nth T (unat (T c)) m = Some k" for m k
      using Suc.prems [of "Suc m" k] True that by simp
    from Suc.IH [OF this] True c show ?thesis by simp
  next
    case False
    with c show ?thesis by simp
  qed
qed simp

lemma chain_nth_in_fat:
  "fat.links_closed s \<Longrightarrow> is_link c \<Longrightarrow> in_fat s c \<Longrightarrow> chain_nth (fat_entry s) c n = Some k \<Longrightarrow> in_fat s k"
  by (induction n arbitrary: c) (auto simp: fat.links_closed_def split: if_splits)

text \<open>
  A volume keeps its tree under every change that leaves its directories alone: their chains in
  the table, and the sectors of their entries.
\<close>

lemma volume_frame:
  assumes "volume s T" and "tree_ready t" and "fat12_geom t = fat12_geom s"
    and "\<And>k. in_fat s k \<Longrightarrow> k \<notin> K \<Longrightarrow> fat_entry t k = fat_entry s k" and "dirs_avoid s T K"
    and "\<And>dc i p. T dc \<noteq> None \<Longrightarrow> dir_slot s dc i = Some p \<Longrightarrow> dev t (fst p) = dev s (fst p)"
  shows "volume t T"
proof -
  have size: "fat_size t = fat_size s" using assms(3) by (simp add: fat_size_def)
  have slot: "dir_slot t dc i = dir_slot s dc i" if dc: "T dc \<noteq> None" for dc i
  proof (cases "dc = 0")
    case True
    then show ?thesis using assms(3) by (simp add: dir_slot_def Let_def)
  next
    case False
    note st = dir_storeD [OF volumeD(2) [OF assms(1) dc]]
    have link: "is_link (unat dc)" "in_fat s (unat dc)"
      using st(2) False by (simp_all add: dir_cluster_ok_def)
    have "fat_entry t k = fat_entry s k" if "chain_nth (fat_entry s) (unat dc) m = Some k" for m k
      using assms(4,5) dc False that chain_nth_in_fat [OF tree_readyD(5) [OF st(1)] link that]
      unfolding dirs_avoid_def by blast
    then have "chain_nth (fat_entry t) (unat dc) n = chain_nth (fat_entry s) (unat dc) n" for n
      by (rule chain_nth_agree)
    then show ?thesis using False assms(3) by (simp add: dir_slot_def Let_def)
  qed
  have look: "dir_lookup t dc i = dir_lookup s dc i" if "T dc \<noteq> None" for dc i
    using slot [OF that, of i] assms(6) [OF that, of i]
    by (cases "dir_slot s dc i") (simp_all add: dir_lookup_def split_beta)
  have store: "dir_store t dc" if "T dc \<noteq> None" for dc
    using dir_storeD [OF volumeD(2) [OF assms(1) that]] slot [OF that] assms(2)
    by (simp add: dir_store_def slots_distinct_def dir_cluster_ok_def size)
  obtain es where root: "T 0 = Some es" using volumeD(1) [OF assms(1)] by (auto simp: tree_holds_def)
  have "volume t (T(0 \<mapsto> es))"
  proof (rule volume_change [OF assms(1)])
    show "T 0 \<noteq> None" using root by simp
    show "dir_holds t 0 es"
      using volumeD(4) [OF assms(1) root] look root by (simp add: dir_holds_def)
    show "entry_closed T e" if "e \<in> set es" for e
      by (rule tree_holds_closed [OF volumeD(1) [OF assms(1)] root that])
  qed (use store slot look in auto)
  moreover have "T(0 \<mapsto> es) = T" using root by auto
  ultimately show ?thesis by simp
qed

lemma volume_free_entries:
  assumes "volume s T" and "\<forall>k \<in> set ks. in_fat s k" and "dirs_avoid s T (set ks)"
  shows "volume (free_entries put_fat_entry ks s) T"
proof (rule volume_frame [OF assms(1) _ _ _ assms(3)])
  note ready = volumeD(5) [OF assms(1)]
  note same = same_behind_free_entries [OF tree_readyD(1,3) [OF ready] assms(2)]
  show "tree_ready (free_entries put_fat_entry ks s)" by (rule tree_ready_free_entries [OF ready assms(2)])
  show "fat12_geom (free_entries put_fat_entry ks s) = fat12_geom s" by (rule same_behindD(1) [OF same])
  show "fat_entry (free_entries put_fat_entry ks s) k = fat_entry s k" if "in_fat s k" "k \<notin> set ks" for k
    using fat.get_free_entries [OF tree_readyD(1) [OF ready] that(1) assms(2)] that(2) by simp
  show "dev (free_entries put_fat_entry ks s) (fst p) = dev s (fst p)"
    if "T dc \<noteq> None" "dir_slot s dc i = Some p" for dc i p
    using same_behindD(4) [OF same] that(2)
      dir_slot_behind_fat(1) [OF dir_storeD(1,2) [OF volumeD(2) [OF assms(1) that(1)]]]
    by blast
qed

section \<open>States with the same disk\<close>

text \<open>What is in the disk does not depend on the open files, the messages or the listed names.\<close>

definition same_disk :: "image fat12_state \<Rightarrow> image fat12_state \<Rightarrow> bool" where
  "same_disk s t \<longleftrightarrow> fat12_geom t = fat12_geom s \<and> dev t = dev s \<and> drive t = drive s"

lemma same_diskD:
  assumes "same_disk s t"
  shows "fat12_geom t = fat12_geom s" and "dev t = dev s" and "drive t = drive s"
    and "fat_entry t = fat_entry s" and "fat_size t = fat_size s" and "fat_ready t = fat_ready s"
    and "dir_slot t = dir_slot s" and "dir_lookup t = dir_lookup s"
proof -
  show g: "fat12_geom t = fat12_geom s" "dev t = dev s" "drive t = drive s"
    using assms by (simp_all add: same_disk_def)
  show "fat_entry t = fat_entry s"
    by (rule ext) (simp add: get12_def fat_byte_def fat_sector_def Let_def g)
  then show "dir_slot t = dir_slot s" by (intro ext) (simp add: dir_slot_def Let_def g)
  then show "dir_lookup t = dir_lookup s" by (intro ext) (simp add: dir_lookup_def g)
  show "fat_size t = fat_size s" by (simp add: fat_size_def g)
  show "fat_ready t = fat_ready s" by (simp add: fat_ready_def on_ideal_def g)
qed

lemma volume_same_disk: "same_disk s t \<Longrightarrow> volume t T = volume s T"
  by (simp add: same_diskD volume_def tree_holds_def dir_store_def slots_distinct_def slots_apart_def
      tree_ready_def fat.links_closed_def dir_cluster_ok_def dir_ready_def dir_holds_def)

end
