(* ===== verification/Fat12_File.thy ===== *)
theory Fat12_File
  imports Fat12_Volume
begin

text \<open>
  The operations on open files of \<open>kernel/fat12.c\<close> except writing: opening (with creation),
  closing, reading and the size. A file is named by a \<open>fileno\<close>, three more than its index in the open file
  table; the computation of the index is undefined where it overflows \<open>int\<close>.
\<close>

section \<open>Open, close, size\<close>

text \<open>The first loop of \<open>fat12_open\<close>, at index \<open>i\<close> of the table.\<close>

fun first_unused :: "open_file list \<Rightarrow> nat \<Rightarrow> int" where
  "first_unused [] i = -1"
| "first_unused (f # fs) i = (if \<not> of_used f then int i + 3 else first_unused fs (Suc i))"

definition install_file ::
    "nat \<Rightarrow> bytes \<Rightarrow> fat12_dir_entry \<Rightarrow> u32 \<Rightarrow> u32 \<Rightarrow> 'd fat12_state \<Rightarrow> 'd fat12_state" where
  "install_file index filename entry parent_cluster entry_idx s =
     s\<lparr>open_files := (open_files s)[index := \<lparr>
         of_used = True,
         of_path = strlcpy_str filename 256,
         of_first_cluster = ucast (de_first_cluster_low entry),
         of_current_cluster = ucast (de_first_cluster_low entry),
         of_cursor = 0,
         of_file_size = de_file_size entry,
         of_parent_cluster = parent_cluster,
         of_entry_idx = entry_idx\<rparr>]\<rparr>"

definition fat12_open ::
    "'d floppy_ops \<Rightarrow> bytes \<Rightarrow> 'd fat12_state \<Rightarrow> (int \<times> 'd fat12_state) option" where
  "fat12_open F filename s =
     (let fd = first_unused (open_files s) 0; index = nat (fd - 3) in
      if fd = -1 then Some (-1, s)
      else do {
        (found, s) \<leftarrow> fat12_find_entry F filename s;
        (case found of
           Some (entry, entry_idx, parent_cluster) \<Rightarrow>
             if de_attr entry AND 0x10 \<noteq> 0 then Some (-1, s)
             else Some (fd, install_file index filename entry parent_cluster entry_idx s)
         | None \<Rightarrow> do {
             (parent, s) \<leftarrow> fat12_resolve_parent F filename s;
             (case parent of
                None \<Rightarrow> Some (-9, s)
              | Some (parent_cluster, nm, ex) \<Rightarrow> do {
                  ((idx, entry), s) \<leftarrow> fat12_create_entry F parent_cluster nm ex 0 0 0 s;
                  (if idx < 0 then Some (-1, s)
                   else case entry of
                     None \<Rightarrow> None
                   | Some entry \<Rightarrow>
                       Some (fd, install_file index filename entry parent_cluster
                                   (word_of_int idx) s))
                })
           })
      })"

text \<open>The test that starts every operation on a \<open>fileno\<close>; its result is the index, if valid.\<close>

definition file_index :: "int \<Rightarrow> 'd fat12_state \<Rightarrow> nat option option" where
  "file_index fileno s = do {
     index \<leftarrow> cint (fileno - 3);
     (if index < 0 \<or> index \<ge> int MAX_OPEN_FILES \<or> \<not> of_used (open_files s ! nat index)
      then Some None else Some (Some (nat index)))
   }"

definition fat12_close :: "int \<Rightarrow> 'd fat12_state \<Rightarrow> (int \<times> 'd fat12_state) option" where
  "fat12_close fileno s = do {
     i \<leftarrow> file_index fileno s;
     (case i of
        None \<Rightarrow> Some (-5, s)
      | Some index \<Rightarrow>
          Some (0, s\<lparr>open_files := (open_files s)[index := (open_files s ! index)\<lparr>of_used := False\<rparr>]\<rparr>))
   }"

definition fat12_get_size :: "int \<Rightarrow> 'd fat12_state \<Rightarrow> u32 option" where
  "fat12_get_size fileno s = do {
     i \<leftarrow> file_index fileno s;
     (case i of None \<Rightarrow> Some 0 | Some index \<Rightarrow> Some (of_file_size (open_files s ! index)))
   }"

definition upd_file :: "nat \<Rightarrow> (open_file \<Rightarrow> open_file) \<Rightarrow> 'd fat12_state \<Rightarrow> 'd fat12_state" where
  "upd_file index f s = s\<lparr>open_files := (open_files s)[index := f (open_files s ! index)]\<rparr>"

definition cluster_bytes :: "fat12_geometry \<Rightarrow> u32" where
  "cluster_bytes g = ucast (sectors_per_cluster g) * 512"

section \<open>Read\<close>

text \<open>
  The loop of \<open>fat12_read\<close>, where following the chain is the same loop as in a directory: \<open>dest\<close> is the caller's buffer. The result is the number of bytes
  read or -1, with the buffer. Storing past the end of the buffer is undefined.
\<close>

partial_function (option) fat12_read_loop ::
    "'d floppy_ops \<Rightarrow> nat \<Rightarrow> u32 \<Rightarrow> bytes \<Rightarrow> u32 \<Rightarrow> 'd fat12_state
      \<Rightarrow> ((int \<times> bytes) \<times> 'd fat12_state) option" where
  "fat12_read_loop F index count dest bytes_read s =
     (let f = open_files s ! index; cursor = of_cursor f; g = fat12_geom s in
      if \<not> bytes_read < count then Some ((sint bytes_read, dest), s)
      else if cursor \<ge> of_file_size f then Some ((sint bytes_read, dest), s)
      else if cluster_bytes g = 0 then None
      else if of_first_cluster f < 2 then Some ((sint bytes_read, dest), s)
      else do {
        let cluster_index = cursor div cluster_bytes g;
        let offset_in_cluster = cursor mod cluster_bytes g;
        (w, s) \<leftarrow> dir_walk F (of_first_cluster f) (unat cluster_index) s;
        (case w of
           None \<Rightarrow> Some ((sint bytes_read, dest), s)
         | Some c \<Rightarrow> do {
             let offset_in_sector = offset_in_cluster mod 512;
             let sector = cluster_sector g c (offset_in_cluster div 512);
             ((r, sec_buf), s) \<leftarrow> read_sector F sector s;
             (if r < 0 then Some ((-1, dest), s)
              else do {
                let to_read = min (count - bytes_read) (512 - offset_in_sector);
                let to_read = min to_read (of_file_size f - cursor);
                (if unat bytes_read + unat to_read > length dest then None
                 else fat12_read_loop F index count
                   (put_bytes dest (unat bytes_read)
                      (sub_bytes sec_buf (unat offset_in_sector) (unat to_read)))
                   (bytes_read + to_read)
                   (upd_file index (\<lambda>f. f\<lparr>of_cursor := of_cursor f + to_read\<rparr>) s))
              })
           })
      })"

definition fat12_read ::
    "'d floppy_ops \<Rightarrow> int \<Rightarrow> bytes \<Rightarrow> u32 \<Rightarrow> 'd fat12_state
      \<Rightarrow> ((int \<times> bytes) \<times> 'd fat12_state) option" where
  "fat12_read F fileno buf count s = do {
     i \<leftarrow> file_index fileno s;
     (case i of
        None \<Rightarrow> Some ((-5, buf), s)
      | Some index \<Rightarrow> fat12_read_loop F index count buf 0 s)
   }"

section \<open>File numbers\<close>

lemma first_unused_cases:
  obtains (full) "first_unused fs i = -1" "\<forall>f \<in> set fs. of_used f"
  | (free) k where "k < length fs" "first_unused fs i = int (i + k) + 3" "\<not> of_used (fs ! k)"
      "\<forall>j < k. of_used (fs ! j)"
proof (induction fs arbitrary: i thesis)
  case (Cons f fs)
  show ?case
  proof (cases "of_used f")
    case True
    show ?thesis
    proof (rule Cons.IH [of "Suc i"])
      assume "first_unused fs (Suc i) = -1" "\<forall>f \<in> set fs. of_used f"
      with True show thesis by (intro Cons.prems(1)) simp_all
    next
      fix k
      assume "k < length fs" "first_unused fs (Suc i) = int (Suc i + k) + 3" "\<not> of_used (fs ! k)"
        "\<forall>j < k. of_used (fs ! j)"
      with True show thesis
        by (intro Cons.prems(2) [of "Suc k"]) (auto simp: nth_Cons split: nat.split)
    qed
  next
    case False
    then show ?thesis by (intro Cons.prems(2) [of 0]) simp_all
  qed
qed simp

text \<open>The least index of the table that is not in use.\<close>

definition lowest_free :: "open_file list \<Rightarrow> nat \<Rightarrow> bool" where
  "lowest_free fs k \<longleftrightarrow> k < length fs \<and> \<not> of_used (fs ! k) \<and> (\<forall>j < k. of_used (fs ! j))"

lemma first_unused_lowest:
  assumes "lowest_free fs k"
  shows "first_unused fs 0 = int k + 3"
proof (cases rule: first_unused_cases [of fs 0])
  case full
  with assms show ?thesis by (auto simp: lowest_free_def)
next
  case (free j)
  then have "j = k" using assms unfolding lowest_free_def by (metis linorder_neqE_nat)
  with free show ?thesis by simp
qed

lemma first_unused_full_iff: "first_unused fs i = -1 \<longleftrightarrow> (\<forall>f \<in> set fs. of_used f)"
proof (cases rule: first_unused_cases [of fs i])
  case (free k)
  then show ?thesis using nth_mem [OF free(1)] by auto
qed simp

lemma file_index_eq:
  assumes "- 2147483645 \<le> fileno" and "fileno < 2147483648"
  shows "file_index fileno s =
    Some (if 3 \<le> fileno \<and> fileno < 259 \<and> of_used (open_files s ! nat (fileno - 3))
          then Some (nat (fileno - 3)) else None)"
  using assms by (auto simp: file_index_def cint_def MAX_OPEN_FILES_def)

lemma file_index_used:
  "i < 256 \<Longrightarrow> of_used (open_files s ! i) \<Longrightarrow> file_index (int i + 3) s = Some (Some i)"
  by (simp add: file_index_eq)

section \<open>Open and close\<close>

lemma fat12_open_none_free:
  "\<forall>f \<in> set (open_files s). of_used f \<Longrightarrow> fat12_open F fn s = Some (-1, s)"
  using first_unused_full_iff [of "open_files s" 0] by (simp add: fat12_open_def Let_def)

lemma fat12_open_existing:
  assumes "volume s T" and "0 \<notin> set fn" and "lowest_free (open_files s) k"
    and "lookup_path T (split_path fn) = Some (e, idx, dc)"
  shows "fat12_open ideal_floppy fn s =
    Some (if is_dir e then (-1, s) else (int k + 3, install_file k fn e dc idx s))"
  using first_unused_lowest [OF assms(3)]
    fat12_find_entry_tree [OF volumeD(1) [OF assms(1)] assms(2)] assms(4)
  by (simp add: fat12_open_def is_dir_def Let_def)

lemma fat12_open_no_parent:
  assumes "volume s T" and "0 \<notin> set fn" and "lowest_free (open_files s) k"
    and "lookup_path T (split_path fn) = None" and "parent_of_path T (split_path fn) = None"
  shows "fat12_open ideal_floppy fn s = Some (-9, s)"
  using first_unused_lowest [OF assms(3)]
    fat12_find_entry_tree [OF volumeD(1) [OF assms(1)] assms(2)]
    fat12_resolve_parent_tree [OF volumeD(1) [OF assms(1)] assms(2)] assms(4,5)
  by (simp add: fat12_open_def Let_def)

lemma to_fat12_name_lengths:
  "0 \<notin> set c \<Longrightarrow> to_fat12_name c = (nm, ex) \<Longrightarrow> length nm = 8 \<and> length ex = 3"
  by (auto simp: to_fat12_name_eq)

lemma parent_of_pathD:
  assumes "volume s T" and "0 \<notin> set fn" and "parent_of_path T (split_path fn) = Some (dc, nm, ex)"
  shows "T dc \<noteq> None" and "length nm = 8" and "length ex = 3"
    and "descend T 0 (butlast (split_path fn)) = Some dc"
    and "to_fat12_name (last (split_path fn)) = (nm, ex)"
proof -
  have ne: "split_path fn \<noteq> []" and d: "descend T 0 (butlast (split_path fn)) = Some dc"
    and n: "to_fat12_name (last (split_path fn)) = (nm, ex)"
    using assms(3) by (auto simp: parent_of_path_def split: if_splits)
  show "descend T 0 (butlast (split_path fn)) = Some dc"
    and "to_fat12_name (last (split_path fn)) = (nm, ex)" by (fact d, fact n)
  have "0 \<notin> set (last (split_path fn))"
    using split_path_props [OF last_in_set [OF ne]] assms(2) by blast
  from to_fat12_name_lengths [OF this n] show "length nm = 8" "length ex = 3" by simp_all
  have "T d \<noteq> None \<Longrightarrow> descend T d cs = Some dc \<Longrightarrow> T dc \<noteq> None" for d cs
  proof (induction cs arbitrary: d)
    case (Cons c cs)
    then obtain e i where "lookup_name T d c = Some (e, i)" "is_dir e"
        "descend T (start_cluster e) cs = Some dc"
      by (auto split: option.splits if_splits)
    with Cons descend_closed [OF volumeD(1) [OF assms(1)] Cons.prems(1)] show ?case by blast
  qed simp
  moreover have "T 0 \<noteq> None" using volumeD(1) [OF assms(1)] by (simp add: tree_holds_def)
  ultimately show "T dc \<noteq> None" using d by blast
qed

text \<open>A file that is not there is created in the directory that its path names.\<close>

lemma fat12_open_new:
  assumes "volume s T" and "0 \<notin> set fn" and "lowest_free (open_files s) k"
    and "lookup_path T (split_path fn) = None"
    and "parent_of_path T (split_path fn) = Some (dc, nm, ex)" and "T dc = Some es"
    and "length es < 2147483647" and "has_room s dc es"
    and "dir_slot s dc (of_nat (slot_index 0 es)) = Some p"
  shows "fat12_open ideal_floppy fn s =
    Some (int k + 3, install_file k fn (make_entry nm ex 0 0 0) dc (of_nat (slot_index 0 es))
      (store_new dc es p (make_entry nm ex 0 0 0) s))"
proof -
  note par = parent_of_pathD [OF assms(1,2,5)]
  have "fat12_create_entry ideal_floppy dc nm ex 0 0 0 s =
      Some ((int (slot_index 0 es), Some (make_entry nm ex 0 0 0)),
        store_new dc es p (make_entry nm ex 0 0 0) s)"
    by (rule fat12_create_entry_room [OF volumeD(2) [OF assms(1) par(1)]
        volumeD(4) [OF assms(1,6)] assms(7,8,9) par(2,3)])
  then show ?thesis
    using first_unused_lowest [OF assms(3)]
      fat12_find_entry_tree [OF volumeD(1) [OF assms(1)] assms(2)]
      fat12_resolve_parent_tree [OF volumeD(1) [OF assms(1)] assms(2)] assms(4,5)
    by (simp add: fat12_open_def Let_def)
qed

text \<open>The name that was looked up in vain is found after its creation.\<close>

lemma entry_matches_make:
  assumes "length nm = 8" and "length ex = 3" and "nm ! 0 \<noteq> 0xE5" and "a \<noteq> 0x0F"
  shows "entry_matches nm ex (make_entry nm ex a c z)"
  using assms by (simp add: entry_matches_def match_fat12_name_def)

lemma find_live_insert:
  assumes "find_live nm ex 0 es = None" and "entry_matches nm ex e"
  shows "find_live nm ex 0 (insert_entry e es) = Some (e, of_nat (slot_index 0 es))"
proof -
  let ?j = "slot_index 0 es"
  have "\<not> entry_matches nm ex (insert_entry e es ! h)" if "h < ?j" for h
    using that assms(1) slot_index_le [of es] find_live_None_iff [of nm ex 0 es]
    by (simp add: insert_entry_def nth_append)
  moreover have "?j < length (insert_entry e es)" "insert_entry e es ! ?j = e"
    using slot_index_le [of es] by (auto simp: insert_entry_def nth_append)
  ultimately show ?thesis using assms(2) by (auto simp: find_live_Some_iff)
qed

lemma match_fat12_name_iff:
  "length (de_name e) = 8 \<Longrightarrow> length (de_ext e) = 3 \<Longrightarrow> length nm = 8 \<Longrightarrow> length ex = 3 \<Longrightarrow>
     match_fat12_name e nm ex \<longleftrightarrow> de_name e = nm \<and> de_ext e = ex"
  by (auto simp: match_fat12_name_def list_eq_iff_nth_eq)

lemma find_live_insert_other:
  assumes "find_live nm ex 0 es = Some (e', i)" and "\<not> entry_matches nm ex e"
  shows "find_live nm ex 0 (insert_entry e es) = Some (e', i)"
proof -
  obtain j where j: "j < length es" "e' = es ! j" "i = of_nat j" "entry_matches nm ex e'"
    "\<forall>h < j. \<not> entry_matches nm ex (es ! h)"
    using assms(1) by (auto simp: find_live_Some_iff)
  have "slot_index 0 es \<noteq> j"
    using slot_index_deleted [of 0 es] j by (auto simp: is_deleted_def entry_matches_def)
  then have "insert_entry e es ! j = e'" and "j < length (insert_entry e es)"
    using j(1,2) by (auto simp: insert_entry_def nth_append)
  moreover have "\<not> entry_matches nm ex (insert_entry e es ! h)" if "h < j" for h
    using that j(1,5) assms(2) by (auto simp: insert_entry_def nth_append nth_list_update)
  ultimately show ?thesis using j(3,4) by (auto simp: find_live_Some_iff)
qed

lemma lookup_name_insert_other:
  assumes "T dc = Some es" and "lookup_name T dc c = None" and "0 \<notin> set c" and "0 \<notin> set c'"
    and "to_fat12_name c = (nm, ex)" and "lookup_name T d c' = Some (e', i)"
  shows "lookup_name (T(dc \<mapsto> insert_entry (make_entry nm ex a k z) es)) d c' = Some (e', i)"
proof (cases "d = dc")
  case True
  obtain nm' ex' where c': "to_fat12_name c' = (nm', ex')" by (cases "to_fat12_name c'")
  note len = to_fat12_name_lengths [OF assms(3,5)] to_fat12_name_lengths [OF assms(4) c']
  have found: "find_live nm' ex' 0 es = Some (e', i)"
    using assms(1,6) c' True by (simp add: lookup_name_def)
  moreover have "find_live nm ex 0 es = None" using assms(1,2,5) by (simp add: lookup_name_def)
  ultimately have "(nm', ex') \<noteq> (nm, ex)" by auto
  then have "\<not> entry_matches nm' ex' (make_entry nm ex a k z)"
    using len by (auto simp: entry_matches_def match_fat12_name_iff)
  from find_live_insert_other [OF found this] show ?thesis
    using True c' by (simp add: lookup_name_def)
qed (use assms(6) in \<open>simp add: lookup_name_def\<close>)

lemma lookup_path_insert:
  assumes "0 \<notin> set fn" and "lookup_path T (split_path fn) = None"
    and "parent_of_path T (split_path fn) = Some (dc, nm, ex)" and "T dc = Some es"
    and "nm ! 0 \<noteq> 0xE5" and "a \<noteq> 0x0F"
  shows "lookup_path (T(dc \<mapsto> insert_entry (make_entry nm ex a k z) es)) (split_path fn) =
    Some (make_entry nm ex a k z, of_nat (slot_index 0 es), dc)"
proof -
  let ?e = "make_entry nm ex a k z" and ?cs = "split_path fn"
  let ?T = "T(dc \<mapsto> insert_entry ?e es)" and ?c = "last (split_path fn)"
  have ne: "?cs \<noteq> []" and dc: "descend T 0 (butlast ?cs) = Some dc" and nm: "to_fat12_name ?c = (nm, ex)"
    using assms(3) by (auto simp: parent_of_path_def split: if_splits)
  have zero: "0 \<notin> set c" if "c \<in> set ?cs" for c using split_path_props [OF that] assms(1) by blast
  have none: "lookup_name T dc ?c = None" using assms(2) ne dc by (simp add: lookup_path_def)
  have "descend T d cs = Some x \<Longrightarrow> set cs \<subseteq> set ?cs \<Longrightarrow> descend ?T d cs = Some x" for d x cs
  proof (induction cs arbitrary: d)
    case (Cons c cs)
    then obtain e i where e: "lookup_name T d c = Some (e, i)" "is_dir e"
        "descend T (start_cluster e) cs = Some x"
      by (auto split: option.splits if_splits)
    have "lookup_name ?T d c = Some (e, i)"
      using Cons.prems(2) ne
      by (intro lookup_name_insert_other [OF assms(4) none _ _ nm e(1)] zero) simp_all
    with Cons e show ?case by (simp del: fun_upd_apply)
  qed simp
  from this [OF dc] have "descend ?T 0 (butlast ?cs) = Some dc" by (auto dest: in_set_butlastD)
  moreover have "lookup_name ?T dc ?c = Some (?e, of_nat (slot_index 0 es))"
    using none assms(4-6) nm to_fat12_name_lengths [OF zero [OF last_in_set [OF ne]] nm]
    by (simp add: lookup_name_def find_live_insert entry_matches_make)
  ultimately show ?thesis using ne by (simp add: lookup_path_def)
qed

end
