(* ===== verification/Fat12_Data.thy ===== *)
theory Fat12_Data
  imports Fat12_File
begin

text \<open>
  The contents of a file as one byte sequence, the concatenation of the sectors of its cluster
  chain, and the proof that \<open>fat12_read\<close> of \<open>kernel/fat12.c\<close> delivers a segment of it.
\<close>

section \<open>Concatenations of blocks\<close>

lemma length_concat_uniform:
  "\<forall>x \<in> set xss. length x = m \<Longrightarrow> length (concat xss) = length xss * m"
  by (induction xss) simp_all

lemma drop_concat_uniform:
  "\<forall>x \<in> set xss. length x = m \<Longrightarrow> j \<le> length xss \<Longrightarrow> drop (j * m) (concat xss) = concat (drop j xss)"
proof (induction xss arbitrary: j)
  case (Cons x xss)
  then show ?case by (cases j) simp_all
qed simp

lemma sub_bytes_concat:
  assumes "\<forall>x \<in> set xss. length x = m" and "j < length xss" and "r + n \<le> m"
  shows "sub_bytes (concat xss) (j * m + r) n = sub_bytes (xss ! j) r n"
proof -
  have "drop (j * m + r) (concat xss) = drop r (drop (j * m) (concat xss))"
    by (rule drop_plus)
  also have "drop (j * m) (concat xss) = xss ! j @ concat (drop (Suc j) xss)"
    using assms(1,2) by (simp add: drop_concat_uniform Cons_nth_drop_Suc [symmetric])
  finally have "drop (j * m + r) (concat xss) = drop r (xss ! j @ concat (drop (Suc j) xss))" .
  moreover have "length (xss ! j) = m" using assms(1,2) by simp
  ultimately show ?thesis using assms(3) by (simp add: sub_bytes_def)
qed

lemma nth_concat_uniform:
  assumes "\<forall>x \<in> set xss. length x = m" and "i < length xss * m"
  shows "concat xss ! i = xss ! (i div m) ! (i mod m)"
proof -
  have m: "0 < m" using assms(2) by (cases m) auto
  have j: "i div m < length xss" using assms(2) by (simp add: less_mult_imp_div_less)
  have r: "i mod m < m" using m by simp
  have "i = i div m * m + i mod m" by simp
  then have "sub_bytes (concat xss) i 1 = sub_bytes (xss ! (i div m)) (i mod m) 1"
    using sub_bytes_concat [OF assms(1) j, of "i mod m" 1] r by simp
  moreover have "length (xss ! (i div m)) = m" using assms(1) j by simp
  ultimately show ?thesis
    using nth_sub_bytes [of 0 1 i "concat xss"] nth_sub_bytes [of 0 1 "i mod m" "xss ! (i div m)"]
      assms(2) r length_concat_uniform [OF assms(1)] by simp
qed

section \<open>The sectors and the contents of a file\<close>

definition cluster_sectors :: "fat12_geometry \<Rightarrow> nat \<Rightarrow> u32 list" where
  "cluster_sectors g k =
     map (\<lambda>i. cluster_sector g (of_nat k) (of_nat i)) [0..<unat (sectors_per_cluster g)]"

definition file_sectors :: "fat12_geometry \<Rightarrow> nat list \<Rightarrow> u32 list" where
  "file_sectors g ks = concat (map (cluster_sectors g) ks)"

definition file_content :: "image fat12_state \<Rightarrow> nat list \<Rightarrow> bytes" where
  "file_content s ks = concat (map (dev s) (file_sectors (fat12_geom s) ks))"

lemma length_cluster_sectors [simp]: "length (cluster_sectors g k) = unat (sectors_per_cluster g)"
  by (simp add: cluster_sectors_def)

lemma length_file_sectors: "length (file_sectors g ks) = length ks * unat (sectors_per_cluster g)"
  unfolding file_sectors_def by (subst length_concat_uniform) auto

lemma length_file_content:
  "fat_ready s \<Longrightarrow> length (file_content s ks) = length (file_sectors (fat12_geom s) ks) * 512"
  unfolding file_content_def by (subst length_concat_uniform [where m = 512]) auto

text \<open>The chain of a file, none for a file without a first cluster.\<close>

definition file_chain :: "image fat12_state \<Rightarrow> u32 \<Rightarrow> nat list \<Rightarrow> bool" where
  "file_chain s c ks \<longleftrightarrow>
     (c < 2 \<and> ks = []) \<or> (is_link (unat c) \<and> fat_chain (fat_entry s) (unat c) ks)"

lemma file_chain_less: "file_chain s c ks \<Longrightarrow> unat c < 65536"
  unfolding file_chain_def by (elim disjE) (auto simp: is_link_def word_less_nat_alt)

lemma unat_cluster_bytes: "unat (cluster_bytes g) = unat (sectors_per_cluster g) * 512"
  using unat_u8_less [of "sectors_per_cluster g"] by (simp add: cluster_bytes_def unat_mult_u32)

lemma cluster_bytes_zero_iff [simp]: "cluster_bytes g = 0 \<longleftrightarrow> sectors_per_cluster g = 0"
  using unat_cluster_bytes [of g] by (auto simp: unat_eq_zero)

lemma unat_eq_of_nat: "unat w = n \<Longrightarrow> w = of_nat n"
  by auto

lemma unat_cluster_index:
  "unat (cur div cluster_bytes g) = unat cur div 512 div unat (sectors_per_cluster g)"
  by (simp only: unat_div unat_cluster_bytes mult.commute [of _ 512] div_mult2_eq)

text \<open>The sector that holds offset \<open>cur\<close> of the file, as both loops compute it.\<close>

lemma sector_of_offset:
  assumes "unat cur div 512 < length (file_sectors g ks)"
  shows "cluster_sector g (of_nat (ks ! unat (cur div cluster_bytes g)))
      (cur mod cluster_bytes g div 512) = file_sectors g ks ! (unat cur div 512)"
    and "unat (cur div cluster_bytes g) < length ks"
proof -
  let ?spc = "unat (sectors_per_cluster g)" and ?q = "unat cur div 512"
  have len: "\<forall>x \<in> set (map (cluster_sectors g) ks). length x = ?spc" by simp
  have q: "?q < length ks * ?spc" using assms by (simp add: length_file_sectors)
  then have spc: "0 < ?spc" by (cases ?spc) auto
  have div: "unat (cur div cluster_bytes g) = ?q div ?spc"
    by (rule unat_cluster_index)
  show "unat (cur div cluster_bytes g) < length ks"
    using q div by (simp add: less_mult_imp_div_less)
  moreover have "unat (cur mod cluster_bytes g div 512) = ?q mod ?spc"
    using mod_mult2_eq [of "unat cur" 512 ?spc]
    by (simp add: unat_div unat_mod unat_cluster_bytes mult.commute)
  then have "cur mod cluster_bytes g div 512 = of_nat (?q mod ?spc)"
    by (rule unat_eq_of_nat)
  ultimately show "cluster_sector g (of_nat (ks ! unat (cur div cluster_bytes g)))
      (cur mod cluster_bytes g div 512) = file_sectors g ks ! ?q"
    using nth_concat_uniform [OF len, of ?q] q div spc
    by (simp add: file_sectors_def cluster_sectors_def)
qed

lemma offset_mod_512: "unat (cur mod cluster_bytes g mod 512) = unat cur mod 512"
  by (simp add: unat_mod unat_cluster_bytes mod_mod_cancel)

text \<open>Following the chain to offset \<open>cur\<close> ends exactly where the contents end.\<close>

lemma walk_to_offset:
  assumes "file_chain s c ks" and "2 \<le> c" and "sectors_per_cluster (fat12_geom s) \<noteq> 0"
  shows "chain_nth (fat_entry s) (unat c) (unat (cur div cluster_bytes (fat12_geom s))) =
    (if unat cur div 512 < length (file_sectors (fat12_geom s) ks)
     then Some (ks ! unat (cur div cluster_bytes (fat12_geom s))) else None)"
proof -
  let ?g = "fat12_geom s"
  have link: "is_link (unat c)" and ch: "fat_chain (fat_entry s) (unat c) ks"
    using assms(1,2) by (auto simp: file_chain_def)
  have spc: "0 < unat (sectors_per_cluster ?g)" using assms(3) by (simp add: unat_gt_0)
  have "unat (cur div cluster_bytes ?g) = unat cur div 512 div unat (sectors_per_cluster ?g)"
    by (rule unat_cluster_index)
  moreover have "unat cur div 512 div unat (sectors_per_cluster ?g) < length ks
      \<longleftrightarrow> unat cur div 512 < length (file_sectors ?g ks)"
    using spc by (simp add: length_file_sectors div_less_iff_less_mult)
  ultimately show ?thesis using chain_nth_eq [OF ch link] by simp
qed

lemma sub_bytes_content:
  assumes "fat_ready s" and "i div 512 < length (file_sectors (fat12_geom s) ks)"
    and "i mod 512 + n \<le> 512"
  shows "sub_bytes (dev s (file_sectors (fat12_geom s) ks ! (i div 512))) (i mod 512) n =
    sub_bytes (file_content s ks) i n"
proof -
  let ?xss = "map (dev s) (file_sectors (fat12_geom s) ks)"
  have "\<forall>x \<in> set ?xss. length x = 512" using assms(1) by auto
  from sub_bytes_concat [OF this, of "i div 512" "i mod 512" n] assms(2,3) show ?thesis
    by (simp add: file_content_def)
qed

section \<open>Reading\<close>

text \<open>The number of bytes a read of \<open>count\<close> bytes at cursor \<open>cur\<close> delivers.\<close>

definition read_length :: "nat \<Rightarrow> nat \<Rightarrow> nat \<Rightarrow> nat \<Rightarrow> nat" where
  "read_length count cur fsize stored = min count (min fsize stored - cur)"

lemma upd_file_fields [simp]:
  "dev (upd_file i f s) = dev s" "fat12_geom (upd_file i f s) = fat12_geom s"
  "drive (upd_file i f s) = drive s" "length (open_files (upd_file i f s)) = length (open_files s)"
  "i < length (open_files s) \<Longrightarrow> open_files (upd_file i f s) ! i = f (open_files s ! i)"
  by (simp_all add: upd_file_def)

lemma upd_file_upd [simp]:
  "i < length (open_files s) \<Longrightarrow> upd_file i f (upd_file i h s) = upd_file i (\<lambda>x. f (h x)) s"
  by (simp add: upd_file_def)

lemma upd_file_id: "f (open_files s ! i) = open_files s ! i \<Longrightarrow> upd_file i f s = s"
  by (simp add: upd_file_def)

lemma fat_ready_upd_file [simp]: "fat_ready (upd_file i f s) = fat_ready s"
  by (simp add: fat_ready_def on_ideal_def)

lemma fat_entry_upd_file [simp]: "fat_entry (upd_file i f s) = fat_entry s"
  by (rule ext) (simp add: get12_def fat_byte_def fat_sector_def Let_def)

lemma file_chain_upd_file [simp]: "file_chain (upd_file i f s) c ks = file_chain s c ks"
  by (simp add: file_chain_def)

lemma file_content_upd_file [simp]: "file_content (upd_file i f s) ks = file_content s ks"
  by (simp add: file_content_def)

lemma put_bytes_append: "put_bytes (p @ q) (length p) ys = p @ ys @ drop (length ys) q"
  by (simp add: put_bytes_def)

lemma put_bytes_put_bytes:
  "off + length xs \<le> length b \<Longrightarrow>
     put_bytes (put_bytes b off xs) (off + length xs) ys = put_bytes b off (xs @ ys)"
proof -
  assume fits: "off + length xs \<le> length b"
  let ?p = "take off b @ xs"
  have p: "length ?p = off + length xs" using fits by simp
  have "put_bytes b off xs = ?p @ drop (off + length xs) b" by (simp add: put_bytes_def)
  then have "put_bytes (put_bytes b off xs) (off + length xs) ys =
      ?p @ ys @ drop (length ys) (drop (off + length xs) b)"
    using put_bytes_append [of ?p _ ys] unfolding p by simp
  then show ?thesis by (simp add: put_bytes_def ac_simps)
qed

lemma sub_bytes_add: "sub_bytes xs i m @ sub_bytes xs (i + m) n = sub_bytes xs i (m + n)"
  by (simp only: sub_bytes_def take_add drop_plus)

lemma sub_bytes_Nil [simp]: "sub_bytes xs i 0 = []"
  by (simp add: sub_bytes_def)

definition read_effect ::
    "nat \<Rightarrow> nat list \<Rightarrow> nat \<Rightarrow> bytes \<Rightarrow> nat \<Rightarrow> image fat12_state \<Rightarrow> (int \<times> bytes) \<times> image fat12_state" where
  "read_effect i ks count dest br s =
     (let f = open_files s ! i; c = file_content s ks;
          n = read_length (count - br) (unat (of_cursor f)) (unat (of_file_size f)) (length c)
      in ((int (br + n), put_bytes dest br (sub_bytes c (unat (of_cursor f)) n)),
          upd_file i (\<lambda>f. f\<lparr>of_cursor := of_cursor f + of_nat n\<rparr>) s))"

lemma read_effect_stop:
  assumes "count \<le> br \<or> min (unat (of_file_size (open_files s ! i))) (length (file_content s ks))
      \<le> unat (of_cursor (open_files s ! i))"
  shows "read_effect i ks count dest br s = ((int br, dest), s)"
proof -
  have "read_length (count - br) (unat (of_cursor (open_files s ! i)))
      (unat (of_file_size (open_files s ! i))) (length (file_content s ks)) = 0"
    using assms by (auto simp: read_length_def)
  then show ?thesis by (simp add: read_effect_def upd_file_id Let_def)
qed

lemma read_effect_step:
  assumes "i < length (open_files s)" and "f = open_files s ! i"
    and "k \<le> read_length (count - br) (unat (of_cursor f)) (unat (of_file_size f))
      (length (file_content s ks))"
    and "br + k \<le> length dest"
  shows "read_effect i ks count (put_bytes dest br (sub_bytes (file_content s ks) (unat (of_cursor f)) k))
      (br + k) (upd_file i (\<lambda>f. f\<lparr>of_cursor := of_cursor f + of_nat k\<rparr>) s) =
    read_effect i ks count dest br s"
proof -
  let ?c = "file_content s ks" and ?cur = "unat (of_cursor f)" and ?size = "unat (of_file_size f)"
  let ?n = "read_length (count - br) ?cur ?size (length ?c)"
  have "?cur + k < 4294967296"
    using assms(3) unat_u32_less [of "of_file_size f"] unat_u32_less [of "of_cursor f"]
    by (auto simp: read_length_def min_def split: if_splits)
  then have cur: "unat (of_cursor f + of_nat k) = ?cur + k"
    by (simp add: unat_add_u32 unat_of_nat_u32)
  have n: "?n = k + read_length (count - (br + k)) (?cur + k) ?size (length ?c)"
    using assms(3) unfolding read_length_def by linarith
  have len: "length (sub_bytes ?c ?cur k) = k" using assms(3) by (auto simp: read_length_def)
  show ?thesis
    unfolding read_effect_def Let_def
    using assms(1,4) len put_bytes_put_bytes [of br "sub_bytes ?c ?cur k" dest]
    by (simp add: assms(2) [symmetric] cur n sub_bytes_add add.assoc)
qed

text \<open>The arithmetic of one round of the loop: how many bytes it takes, and that they lie in one sector.\<close>

lemma read_chunk:
  fixes cur fsize count br :: u32 and g :: fat12_geometry
  assumes "br < count" and "cur < fsize" and "unat cur div 512 < n"
  defines "k \<equiv> min (min (count - br) (512 - cur mod cluster_bytes g mod 512)) (fsize - cur)"
  shows "0 < unat k" and "unat br + unat k \<le> unat count" and "unat (br + k) = unat br + unat k"
    and "unat cur mod 512 + unat k \<le> 512"
    and "unat k \<le> read_length (unat count - unat br) (unat cur) (unat fsize) (n * 512)"
proof -
  have less: "unat br < unat count" "unat cur < unat fsize" using assms(1,2) by (simp_all add: word_less_nat_alt)
  have off: "unat (cur mod cluster_bytes g mod 512) = unat cur mod 512" by (rule offset_mod_512)
  then have "unat (512 - cur mod cluster_bytes g mod 512) = 512 - unat cur mod 512"
    by (subst unat_sub) (simp_all add: word_le_nat_alt)
  moreover have "unat (count - br) = unat count - unat br" "unat (fsize - cur) = unat fsize - unat cur"
    using less by (simp_all add: unat_sub word_le_nat_alt)
  ultimately have k: "unat k =
      min (min (unat count - unat br) (512 - unat cur mod 512)) (unat fsize - unat cur)"
    unfolding k_def by (simp add: min_def word_le_nat_alt)
  show "0 < unat k" unfolding k using less by simp
  show kbr: "unat br + unat k \<le> unat count" unfolding k using less by linarith
  show "unat (br + k) = unat br + unat k"
    using kbr unat_u32_less [of count] by (intro unat_add_u32) linarith
  show "unat cur mod 512 + unat k \<le> 512" unfolding k using mod_less_divisor [of 512 "unat cur"] by linarith
  have "unat cur div 512 * 512 + 512 \<le> n * 512"
    using assms(3) by (metis Suc_leI add.commute mult_Suc mult_le_mono1)
  then have "unat cur + (512 - unat cur mod 512) \<le> n * 512"
    using div_mult_mod_eq [of "unat cur" 512] mod_less_divisor [of 512 "unat cur"] by linarith
  then show "unat k \<le> read_length (unat count - unat br) (unat cur) (unat fsize) (n * 512)"
    unfolding k read_length_def by linarith
qed

text \<open>One round of the loop: the chunk is copied and the cursor moves past it, and the effect left to do is the same.\<close>

lemma read_loop_step:
  fixes count br :: u32 and s :: "image fat12_state" and i :: nat and ks :: "nat list" and dest :: bytes
  defines "k \<equiv> min (min (count - br) (512 - of_cursor (open_files s ! i) mod cluster_bytes (fat12_geom s) mod 512))
    (of_file_size (open_files s ! i) - of_cursor (open_files s ! i))"
  defines "d \<equiv> put_bytes dest (unat br) (sub_bytes (file_content s ks) (unat (of_cursor (open_files s ! i))) (unat k))"
  defines "t \<equiv> upd_file i (\<lambda>f. f\<lparr>of_cursor := of_cursor f + k\<rparr>) s"
  assumes ready: "fat_ready s" "sectors_per_cluster (fat12_geom s) \<noteq> 0" and i: "i < length (open_files s)"
    and chain: "file_chain s (of_first_cluster (open_files s ! i)) ks" and room: "unat count \<le> length dest"
    and br: "br < count" and eof: "of_cursor (open_files s ! i) < of_file_size (open_files s ! i)"
    and first: "2 \<le> of_first_cluster (open_files s ! i)"
    and inside: "unat (of_cursor (open_files s ! i)) div 512 < length (file_sectors (fat12_geom s) ks)"
  shows "fat12_read_loop ideal_floppy i count dest br s = fat12_read_loop ideal_floppy i count d (br + k) t"
    and "read_effect i ks (unat count) d (unat (br + k)) t = read_effect i ks (unat count) dest (unat br) s"
    and "length d = length dest" and "unat br < unat (br + k)" and "unat (br + k) \<le> unat count"
proof -
  let ?f = "open_files s ! i" and ?g = "fat12_geom s" and ?c = "file_content s ks"
  let ?cur = "unat (of_cursor ?f)"
  note chunk = read_chunk [OF br eof inside, of ?g, folded k_def]
  have fits: "unat br + unat k \<le> length dest" using chunk(2) room by linarith
  show "length d = length dest" unfolding d_def using fits by (intro length_put_bytes) simp
  show "unat br < unat (br + k)" "unat (br + k) \<le> unat count" using chunk(1-3) by linarith+
  have "unat k \<le> read_length (unat count - unat br) ?cur (unat (of_file_size ?f)) (length ?c)"
    using chunk(5) length_file_content [OF ready(1), of ks] by simp
  from read_effect_step [OF i refl this, of dest] fits
  show "read_effect i ks (unat count) d (unat (br + k)) t = read_effect i ks (unat count) dest (unat br) s"
    unfolding chunk(3) d_def t_def by simp
  have bytes: "sub_bytes (dev s (cluster_sector ?g (of_nat (ks ! unat (of_cursor ?f div cluster_bytes ?g)))
      (of_cursor ?f mod cluster_bytes ?g div 512))) (unat (of_cursor ?f mod cluster_bytes ?g mod 512)) (unat k) =
      sub_bytes ?c ?cur (unat k)"
    unfolding sector_of_offset(1) [OF inside] offset_mod_512
    using ready(1) inside chunk(4) by (rule sub_bytes_content)
  have "\<not> of_file_size ?f \<le> of_cursor ?f" and "\<not> of_first_cluster ?f < 2" and "on_ideal s"
    and "\<not> unat br + unat k > length dest"
    using eof first ready(1) fits by (simp_all add: not_le not_less)
  then show "fat12_read_loop ideal_floppy i count dest br s = fat12_read_loop ideal_floppy i count d (br + k) t"
    unfolding d_def t_def
    using br inside ready(2) bytes file_chain_less [OF chain] walk_to_offset [OF chain first ready(2), of "of_cursor ?f"]
    by (subst fat12_read_loop.simps)
      (simp add: k_def [symmetric] Let_def dir_walk_ideal [OF ready(1)] read_sector_ideal)
qed

lemma fat12_read_loop_eq:
  assumes "fat_ready s" and "sectors_per_cluster (fat12_geom s) \<noteq> 0" and "i < length (open_files s)"
    and "file_chain s (of_first_cluster (open_files s ! i)) ks"
    and "unat count < 2147483648" and "unat count \<le> length dest" and "br \<le> count"
  shows "fat12_read_loop ideal_floppy i count dest br s =
    Some (read_effect i ks (unat count) dest (unat br) s)"
  using assms
proof (induction "unat count - unat br" arbitrary: dest br s rule: less_induct)
  case less
  let ?f = "open_files s ! i" and ?g = "fat12_geom s" and ?c = "file_content s ks"
  let ?cur = "unat (of_cursor ?f)" and ?size = "unat (of_file_size ?f)"
  have br: "unat br \<le> unat count" using less.prems(7) by (simp add: word_le_nat_alt)
  have sint: "sint br = int (unat br)"
    using br less.prems(5) by (intro sint_small) linarith
  note stop = read_effect_stop [of "unat count" "unat br" s i ks dest]
  consider (fin) "br = count" | (eof) "br < count" "of_cursor ?f \<ge> of_file_size ?f"
    | (none) "br < count" "of_cursor ?f < of_file_size ?f" "of_first_cluster ?f < 2"
    | (short) "br < count" "of_cursor ?f < of_file_size ?f" "2 \<le> of_first_cluster ?f"
        "\<not> ?cur div 512 < length (file_sectors ?g ks)"
    | (step) "br < count" "of_cursor ?f < of_file_size ?f" "2 \<le> of_first_cluster ?f"
        "?cur div 512 < length (file_sectors ?g ks)"
    using less.prems(7) by fastforce
  then show ?case
  proof cases
    case fin
    then show ?thesis using stop sint by (subst fat12_read_loop.simps) simp
  next
    case eof
    then have "read_effect i ks (unat count) dest (unat br) s = ((int (unat br), dest), s)"
      by (intro stop) (simp add: word_le_nat_alt min_le_iff_disj)
    with eof show ?thesis
      using sint by (subst fat12_read_loop.simps) (simp add: Let_def)
  next
    case none
    then have "ks = []" using less.prems(4) by (auto simp: file_chain_def is_link_def word_less_nat_alt)
    then have "?c = []" by (simp add: file_content_def file_sectors_def)
    then show ?thesis
      using none stop sint less.prems(2) by (subst fat12_read_loop.simps) (simp add: Let_def not_le)
  next
    case short
    have "length ?c \<le> ?cur"
      using short(4) less.prems(1) by (simp add: length_file_content not_less less_eq_div_iff_mult_less_eq)
    then have "read_effect i ks (unat count) dest (unat br) s = ((int (unat br), dest), s)"
      by (intro stop) linarith
    then show ?thesis
      using short sint less.prems(1,2) file_chain_less [OF less.prems(4)]
        walk_to_offset [OF less.prems(4) short(3) less.prems(2), of "of_cursor ?f"]
      by (subst fat12_read_loop.simps) (simp add: Let_def not_le not_less dir_walk_ideal)
  next
    case step
    note round = read_loop_step [OF less.prems(1-4,6) step]
    show ?thesis
      unfolding round(1) round(2) [symmetric]
    proof (rule less.hyps)
      show "unat count - unat (br + min (min (count - br) (512 - of_cursor ?f mod cluster_bytes ?g mod 512))
          (of_file_size ?f - of_cursor ?f)) < unat count - unat br"
        using round(4,5) by linarith
    qed (use less.prems round(3,5) in \<open>simp_all add: word_le_nat_alt\<close>)
  qed
qed

text \<open>The whole operation, for a file number that is in use and one that is not.\<close>

lemma fat12_read_ideal:
  assumes "fat_ready s" and "sectors_per_cluster (fat12_geom s) \<noteq> 0"
    and "length (open_files s) = 256" and "i < 256" and "of_used (open_files s ! i)"
    and "file_chain s (of_first_cluster (open_files s ! i)) ks"
    and "unat count < 2147483648" and "unat count \<le> length buf"
  shows "fat12_read ideal_floppy (int i + 3) buf count s =
    Some (read_effect i ks (unat count) buf 0 s)"
  using fat12_read_loop_eq [OF assms(1,2) _ assms(6-8), of 0] assms(3-5)
  by (simp add: fat12_read_def file_index_used)

lemma fat12_bad_fileno:
  assumes "- 2147483645 \<le> fileno" and "fileno < 2147483648"
    and "fileno < 3 \<or> 259 \<le> fileno \<or> \<not> of_used (open_files s ! nat (fileno - 3))"
  shows "fat12_read F fileno buf count s = Some ((-5, buf), s)"
    and "fat12_close fileno s = Some (-5, s)" and "fat12_get_size fileno s = Some 0"
  using assms by (auto simp: fat12_read_def fat12_close_def fat12_get_size_def file_index_eq)

text \<open>A volume whose boot sector gives no sectors per cluster makes the loop divide by zero.\<close>

lemma fat12_read_division:
  assumes "sectors_per_cluster (fat12_geom s) = 0" and "i < 256" and "of_used (open_files s ! i)"
    and "0 < count" and "of_cursor (open_files s ! i) < of_file_size (open_files s ! i)"
  shows "fat12_read F (int i + 3) buf count s = None"
  using assms
  by (simp add: fat12_read_def file_index_used) (subst fat12_read_loop.simps, simp add: Let_def)

end
