(* ===== verification/Fat12_Write.thy ===== *)
theory Fat12_Write
  imports Fat12_Data
begin

text \<open>
  Writing to an open file, \<open>fat12_write\<close> of \<open>kernel/fat12.c\<close>: the allocation of clusters as the
  file grows, the stores in the data sectors, and the size in the directory entry.
\<close>

section \<open>Write\<close>

text \<open>A field of the directory entry of an open file is rewritten if the entry can be read.\<close>

definition update_dir_entry ::
    "'d floppy_ops \<Rightarrow> nat \<Rightarrow> (fat12_dir_entry \<Rightarrow> fat12_dir_entry) \<Rightarrow> 'd fat12_state
      \<Rightarrow> 'd fat12_state option" where
  "update_dir_entry F index upd s = do {
     let f = open_files s ! index;
     (r, s) \<leftarrow> fat12_read_dir_entry F (of_parent_cluster f) (of_entry_idx f) s;
     (case r of
        None \<Rightarrow> Some s
      | Some entry \<Rightarrow> do {
          (_, s) \<leftarrow> fat12_write_dir_entry F (of_parent_cluster f) (of_entry_idx f) (upd entry) s;
          Some s
        })
   }"

text \<open>The first cluster of an empty file: \<open>False\<close> where none is free.\<close>

definition ensure_first_cluster ::
    "'d floppy_ops \<Rightarrow> nat \<Rightarrow> 'd fat12_state \<Rightarrow> (bool \<times> 'd fat12_state) option" where
  "ensure_first_cluster F index s =
     (if of_first_cluster (open_files s ! index) = 0 then do {
        (new_c, s) \<leftarrow> fat12_allocate_cluster F 0 s;
        (if new_c < 0 then Some (False, s)
         else do {
           let s = upd_file index (\<lambda>f. f\<lparr>of_first_cluster := word_of_int new_c\<rparr>) s;
           s \<leftarrow> update_dir_entry F index (\<lambda>e. e\<lparr>de_first_cluster_low := word_of_int new_c\<rparr>) s;
           Some (True, s)
         })
      } else Some (True, s))"

text \<open>The walk of \<open>fat12_write\<close>: a chain that ends is extended; \<open>None\<close> where no cluster is free.\<close>

fun write_walk ::
    "'d floppy_ops \<Rightarrow> u32 \<Rightarrow> nat \<Rightarrow> 'd fat12_state \<Rightarrow> (u32 option \<times> 'd fat12_state) option" where
  "write_walk F c 0 s = Some (Some c, s)"
| "write_walk F c (Suc n) s = do {
     (e, s) \<leftarrow> fat12_read_fat_entry F c s;
     let nxt = ucast e;
     (if nxt < 2 \<or> nxt \<ge> 0x0FF8 then do {
        (new_c, s) \<leftarrow> fat12_allocate_cluster F c s;
        (if new_c < 0 then Some (None, s) else write_walk F (word_of_int new_c) n s)
      } else write_walk F nxt n s)
   }"

text \<open>After a chunk: the cursor moves, and a grown size goes to the directory entry.\<close>

definition advance_cursor ::
    "'d floppy_ops \<Rightarrow> nat \<Rightarrow> u32 \<Rightarrow> 'd fat12_state \<Rightarrow> 'd fat12_state option" where
  "advance_cursor F index to_write s = do {
     let s = upd_file index (\<lambda>f. f\<lparr>of_cursor := of_cursor f + to_write\<rparr>) s;
     let f = open_files s ! index;
     (if of_cursor f > of_file_size f then do {
        let s = upd_file index (\<lambda>f. f\<lparr>of_file_size := of_cursor f\<rparr>) s;
        update_dir_entry F index (\<lambda>e. e\<lparr>de_file_size := of_cursor f\<rparr>) s
      } else Some s)
   }"

partial_function (option) fat12_write_loop ::
    "'d floppy_ops \<Rightarrow> nat \<Rightarrow> bytes \<Rightarrow> u32 \<Rightarrow> u32 \<Rightarrow> 'd fat12_state
      \<Rightarrow> (int \<times> 'd fat12_state) option" where
  "fat12_write_loop F index src nbyte bytes_written s =
     (if \<not> bytes_written < nbyte then Some (sint bytes_written, s)
      else if cluster_bytes (fat12_geom s) = 0 then None
      else do {
        let cursor = of_cursor (open_files s ! index);
        let cluster_index = cursor div cluster_bytes (fat12_geom s);
        let offset_in_cluster = cursor mod cluster_bytes (fat12_geom s);
        (ok, s) \<leftarrow> ensure_first_cluster F index s;
        (if \<not> ok then Some (-1, s)
         else do {
           (w, s) \<leftarrow> write_walk F (of_first_cluster (open_files s ! index))
                       (unat cluster_index) s;
           (case w of
              None \<Rightarrow> Some (sint bytes_written, s)
            | Some c \<Rightarrow> do {
                let offset_in_sector = offset_in_cluster mod 512;
                let sector = cluster_sector (fat12_geom s) c (offset_in_cluster div 512);
                ((r, sec_buf), s) \<leftarrow> read_sector F sector s;
                (if r < 0 then Some (-1, s)
                 else do {
                   let to_write = min (nbyte - bytes_written) (512 - offset_in_sector);
                   (if unat bytes_written + unat to_write > length src then None
                    else do {
                      let sec_buf = put_bytes sec_buf (unat offset_in_sector)
                            (sub_bytes src (unat bytes_written) (unat to_write));
                      (r, s) \<leftarrow> write_sector F sector sec_buf s;
                      (if r < 0 then Some (-1, s)
                       else do {
                         s \<leftarrow> advance_cursor F index to_write s;
                         fat12_write_loop F index src nbyte (bytes_written + to_write) s
                       })
                    })
                 })
              })
         })
      })"

definition fat12_write ::
    "'d floppy_ops \<Rightarrow> int \<Rightarrow> bytes \<Rightarrow> u32 \<Rightarrow> 'd fat12_state \<Rightarrow> (int \<times> 'd fat12_state) option" where
  "fat12_write F fileno buf nbyte s = do {
     i \<leftarrow> file_index fileno s;
     (case i of
        None \<Rightarrow> Some (-5, s)
      | Some index \<Rightarrow> fat12_write_loop F index buf nbyte 0 s)
   }"

end
