(* ===== verification/Fat12_Ops.thy ===== *)
theory Fat12_Ops
  imports Fat12_Write
begin

text \<open>
  The operations on the directory tree of \<open>kernel/fat12.c\<close>: rename, the creation and removal of
  directories, the removal of files, and the listing of a directory.
\<close>

section \<open>Rename\<close>

definition mark_deleted :: "fat12_dir_entry \<Rightarrow> fat12_dir_entry" where
  "mark_deleted e = e\<lparr>de_name := (de_name e)[0 := 0xE5]\<rparr>"

text \<open>The last loop of \<open>fat12_rename\<close>: the stored path of an open file follows the rename.\<close>

definition rename_open_files :: "bytes \<Rightarrow> bytes \<Rightarrow> open_file list \<Rightarrow> open_file list" where
  "rename_open_files oldpath newpath fs =
     map (\<lambda>f. if of_used f \<and> of_path f = cstr oldpath
              then f\<lparr>of_path := strlcpy_str newpath 256\<rparr> else f) fs"

definition fat12_rename ::
    "'d floppy_ops \<Rightarrow> bytes \<Rightarrow> bytes \<Rightarrow> 'd fat12_state \<Rightarrow> (int \<times> 'd fat12_state) option" where
  "fat12_rename F oldpath newpath s = do {
     (found, s) \<leftarrow> fat12_find_entry F oldpath s;
     (case found of
        None \<Rightarrow> Some (-9, s)
      | Some (old_entry, old_entry_idx, old_parent_cluster) \<Rightarrow> do {
          (existing, s) \<leftarrow> fat12_find_entry F newpath s;
          (if existing \<noteq> None then Some (-1, s)
           else do {
             (parent, s) \<leftarrow> fat12_resolve_parent F newpath s;
             (case parent of
                None \<Rightarrow> Some (-9, s)
              | Some (new_parent_cluster, new_name, new_ext) \<Rightarrow> do {
                  ((new_entry_idx, _), s) \<leftarrow> fat12_create_entry F new_parent_cluster new_name new_ext
                     (de_attr old_entry) (ucast (de_first_cluster_low old_entry))
                     (de_file_size old_entry) s;
                  (if new_entry_idx < 0 then Some (-1, s)
                   else do {
                     let dir_c = ucast (de_first_cluster_low old_entry);
                     s \<leftarrow> (if de_attr old_entry AND 0x10 \<noteq> 0 \<and> dir_c \<ge> 2 then do {
                              (r, s) \<leftarrow> fat12_read_dir_entry F dir_c 1 s;
                              (case r of
                                 None \<Rightarrow> Some s
                               | Some dotdot \<Rightarrow> do {
                                   (_, s) \<leftarrow> fat12_write_dir_entry F dir_c 1
                                      (dotdot\<lparr>de_first_cluster_low := ucast new_parent_cluster\<rparr>) s;
                                   Some s
                                 })
                            } else Some s);
                     (_, s) \<leftarrow> fat12_write_dir_entry F old_parent_cluster old_entry_idx
                        (mark_deleted old_entry) s;
                     Some (0, s\<lparr>open_files := rename_open_files oldpath newpath (open_files s)\<rparr>)
                   })
                })
           })
        })
   }"

section \<open>Directories\<close>

definition dot_entry :: "u32 \<Rightarrow> fat12_dir_entry" where
  "dot_entry cluster = zero_entry\<lparr>de_name := 0x2E # replicate 7 0x20, de_ext := replicate 3 0x20,
     de_attr := 0x10, de_first_cluster_low := ucast cluster\<rparr>"

definition dotdot_entry :: "u32 \<Rightarrow> fat12_dir_entry" where
  "dotdot_entry parent_cluster = zero_entry\<lparr>de_name := 0x2E # 0x2E # replicate 6 0x20,
     de_ext := replicate 3 0x20, de_attr := 0x10, de_first_cluster_low := ucast parent_cluster\<rparr>"

definition fat12_init_dir_cluster ::
    "'d floppy_ops \<Rightarrow> u32 \<Rightarrow> u32 \<Rightarrow> 'd fat12_state \<Rightarrow> 'd fat12_state option" where
  "fat12_init_dir_cluster F cluster parent_cluster s = do {
     (_, s) \<leftarrow> fat12_write_dir_entry F cluster 0 (dot_entry cluster) s;
     (_, s) \<leftarrow> fat12_write_dir_entry F cluster 1 (dotdot_entry parent_cluster) s;
     (_, s) \<leftarrow> fat12_write_dir_entry F cluster 2 zero_entry s;
     Some s
   }"

definition fat12_makedir ::
    "'d floppy_ops \<Rightarrow> bytes \<Rightarrow> 'd fat12_state \<Rightarrow> (int \<times> 'd fat12_state) option" where
  "fat12_makedir F path s = do {
     (parent, s) \<leftarrow> fat12_resolve_parent F path s;
     (case parent of
        None \<Rightarrow> Some (-9, s)
      | Some (parent_cluster, nm, ex) \<Rightarrow> do {
          (existing, s) \<leftarrow> fat12_find_entry F path s;
          (if existing \<noteq> None then Some (-1, s)
           else do {
             (new_cluster, s) \<leftarrow> fat12_allocate_cluster F 0 s;
             (if new_cluster < 0 then Some (-1, s)
              else do {
                s \<leftarrow> fat12_init_dir_cluster F (word_of_int new_cluster) parent_cluster s;
                ((idx, _), s) \<leftarrow> fat12_create_entry F parent_cluster nm ex 0x10
                   (word_of_int new_cluster) 0 s;
                (if idx < 0 then do {
                   s \<leftarrow> fat12_free_cluster_chain F (word_of_int new_cluster) s;
                   Some (-1, s)
                 } else Some (0, s))
              })
           })
        })
   }"

text \<open>The entries that the scans of a directory skip: deleted ones, long-name parts, \<open>.\<close> and \<open>..\<close>.\<close>

definition hidden_entry :: "fat12_dir_entry \<Rightarrow> bool" where
  "hidden_entry e \<longleftrightarrow>
     de_name e ! 0 = 0xE5 \<or> de_attr e = 0x0F
     \<or> (de_name e ! 0 = 0x2E
        \<and> (de_name e ! 1 = 0x20 \<or> (de_name e ! 1 = 0x2E \<and> de_name e ! 2 = 0x20)))"

partial_function (option) dir_empty_loop ::
    "'d floppy_ops \<Rightarrow> u32 \<Rightarrow> u32 \<Rightarrow> 'd fat12_state \<Rightarrow> (bool \<times> 'd fat12_state) option" where
  "dir_empty_loop F dir_cluster entry_idx s = do {
     (r, s) \<leftarrow> fat12_read_dir_entry F dir_cluster entry_idx s;
     (case r of
        None \<Rightarrow> Some (True, s)
      | Some entry \<Rightarrow>
          if de_name entry ! 0 = 0 then Some (True, s)
          else if hidden_entry entry then dir_empty_loop F dir_cluster (entry_idx + 1) s
          else Some (False, s))
   }"

definition fat12_is_dir_empty ::
    "'d floppy_ops \<Rightarrow> u32 \<Rightarrow> 'd fat12_state \<Rightarrow> (bool \<times> 'd fat12_state) option" where
  "fat12_is_dir_empty F dir_cluster s = dir_empty_loop F dir_cluster 0 s"

text \<open>The end of both removals: the chain is freed and the entry marked as deleted.\<close>

definition remove_entry ::
    "'d floppy_ops \<Rightarrow> fat12_dir_entry \<Rightarrow> u32 \<Rightarrow> u32 \<Rightarrow> 'd fat12_state
      \<Rightarrow> (int \<times> 'd fat12_state) option" where
  "remove_entry F entry entry_idx parent_cluster s = do {
     s \<leftarrow> (if (ucast (de_first_cluster_low entry) :: u32) \<ge> 2
           then fat12_free_cluster_chain F (ucast (de_first_cluster_low entry)) s else Some s);
     (w, s) \<leftarrow> fat12_write_dir_entry F parent_cluster entry_idx (mark_deleted entry) s;
     Some (if w then 0 else -1, s)
   }"

definition fat12_removedir ::
    "'d floppy_ops \<Rightarrow> bytes \<Rightarrow> 'd fat12_state \<Rightarrow> (int \<times> 'd fat12_state) option" where
  "fat12_removedir F path s = do {
     (found, s) \<leftarrow> fat12_find_entry F path s;
     (case found of
        None \<Rightarrow> Some (-9, s)
      | Some (entry, entry_idx, parent_cluster) \<Rightarrow>
          if de_attr entry AND 0x10 = 0 then Some (-9, s)
          else do {
            (empty, s) \<leftarrow> fat12_is_dir_empty F (ucast (de_first_cluster_low entry)) s;
            (if \<not> empty then Some (-11, s) else remove_entry F entry entry_idx parent_cluster s)
          })
   }"

section \<open>Files\<close>

text \<open>The test of one open file in \<open>fat12_removefile\<close>: does it use the file to remove?\<close>

definition file_in_use :: "bytes \<Rightarrow> fat12_dir_entry \<Rightarrow> open_file \<Rightarrow> bool" where
  "file_in_use filename entry f \<longleftrightarrow>
     of_used f \<and> of_first_cluster f = ucast (de_first_cluster_low entry)
     \<and> (de_first_cluster_low entry \<noteq> 0 \<or> of_path f = cstr filename)"

definition fat12_removefile ::
    "'d floppy_ops \<Rightarrow> bytes \<Rightarrow> 'd fat12_state \<Rightarrow> (int \<times> 'd fat12_state) option" where
  "fat12_removefile F filename s = do {
     (found, s) \<leftarrow> fat12_find_entry F filename s;
     (case found of
        None \<Rightarrow> Some (-9, s)
      | Some (entry, entry_idx, parent_cluster) \<Rightarrow>
          if de_attr entry AND 0x10 \<noteq> 0 then Some (-9, s)
          else if list_ex (file_in_use filename entry) (open_files s) then Some (-11, s)
          else remove_entry F entry entry_idx parent_cluster s)
   }"

section \<open>Listing\<close>

datatype contentstype = DIRECTORY | FILE

text \<open>
  An element of the caller's array: the file name is a pointer into the static ring
  \<open>contents_filenames\<close>, given by its index there, or \<open>NULL\<close>.
\<close>

record contents =
  ct_type :: contentstype
  ct_filename :: "nat option"

text \<open>One name is stored in the next buffer of the ring; the result is the index of the buffer.\<close>

definition store_filename :: "fat12_dir_entry \<Rightarrow> 'd fat12_state \<Rightarrow> nat \<times> 'd fat12_state" where
  "store_filename entry s =
     (let buf = contents_filename_idx s;
          str = from_fat12_name (de_name entry) (de_ext entry) @ [0]
      in (buf, s\<lparr>contents_filename_idx := (buf + 1) mod 64,
                contents_filenames := (contents_filenames s)
                  [buf := put_bytes (contents_filenames s ! buf) 0 str]\<rparr>))"

definition put_content :: "contents list \<Rightarrow> nat \<Rightarrow> contents \<Rightarrow> contents list option" where
  "put_content fcontents i c = (if i < length fcontents then Some (fcontents[i := c]) else None)"

partial_function (option) list_dir_loop ::
    "'d floppy_ops \<Rightarrow> u32 \<Rightarrow> nat \<Rightarrow> u32 \<Rightarrow> nat \<Rightarrow> contents list \<Rightarrow> 'd fat12_state
      \<Rightarrow> ((nat \<times> contents list) \<times> 'd fat12_state) option" where
  "list_dir_loop F dir_cluster count read_idx populated_count fcontents s =
     (if \<not> populated_count < count then Some ((populated_count, fcontents), s)
      else do {
        (r, s) \<leftarrow> fat12_read_dir_entry F dir_cluster read_idx s;
        (case r of
           None \<Rightarrow> Some ((populated_count, fcontents), s)
         | Some dir_entry \<Rightarrow>
             if de_name dir_entry ! 0 = 0 then Some ((populated_count, fcontents), s)
             else if hidden_entry dir_entry then
               list_dir_loop F dir_cluster count (read_idx + 1) populated_count fcontents s
             else do {
               let (buf, s) = store_filename dir_entry s;
               fcontents \<leftarrow> put_content fcontents populated_count
                 \<lparr>ct_type = (if de_attr dir_entry AND 0x10 \<noteq> 0 then DIRECTORY else FILE),
                  ct_filename = Some buf\<rparr>;
               list_dir_loop F dir_cluster count (read_idx + 1) (populated_count + 1) fcontents s
             })
      })"

definition is_root_path :: "bytes \<Rightarrow> bool" where
  "is_root_path path \<longleftrightarrow> cstr path = [0x2F] \<or> cstr path = [] \<or> cstr path = [0x2F, 0x2E]"

definition terminate_list :: "nat \<Rightarrow> nat \<Rightarrow> contents list \<Rightarrow> contents list option" where
  "terminate_list populated_count count fcontents =
     (if populated_count < count
      then if populated_count < length fcontents
           then Some (fcontents[populated_count := (fcontents ! populated_count)\<lparr>ct_filename := None\<rparr>])
           else None
      else Some fcontents)"

definition fat12_listcontent ::
    "'d floppy_ops \<Rightarrow> bytes \<Rightarrow> contents list \<Rightarrow> nat \<Rightarrow> 'd fat12_state
      \<Rightarrow> ((int \<times> contents list) \<times> 'd fat12_state) option" where
  "fat12_listcontent F path fcontents count s =
     (if is_root_path path then do {
        ((n, fcontents), s) \<leftarrow> list_dir_loop F 0 count 0 0 fcontents s;
        fcontents \<leftarrow> terminate_list n count fcontents;
        Some ((0, fcontents), s)
      }
      else do {
        (found, s) \<leftarrow> fat12_find_entry F path s;
        (case found of
           None \<Rightarrow> Some ((-9, fcontents), s)
         | Some (target_entry, _, _) \<Rightarrow>
             if de_attr target_entry AND 0x10 \<noteq> 0 then do {
               ((n, fcontents), s) \<leftarrow> list_dir_loop F (ucast (de_first_cluster_low target_entry))
                  count 0 0 fcontents s;
               fcontents \<leftarrow> terminate_list n count fcontents;
               Some ((0, fcontents), s)
             }
             else if count > 0 then do {
               let (buf, s) = store_filename target_entry s;
               fcontents \<leftarrow> put_content fcontents 0 \<lparr>ct_type = FILE, ct_filename = Some buf\<rparr>;
               fcontents \<leftarrow> terminate_list 1 count fcontents;
               Some ((0, fcontents), s)
             }
             else do {
               fcontents \<leftarrow> terminate_list 0 count fcontents;
               Some ((0, fcontents), s)
             })
      })"

section \<open>Emptiness of a directory\<close>

lemma dir_empty_from:
  assumes "dir_ready s dc" and "dir_holds s dc es"
  shows "i \<le> length es \<Longrightarrow>
    dir_empty_loop ideal_floppy dc (of_nat i) s = Some (list_all hidden_entry (drop i es), s)"
proof (induction "length es - i" arbitrary: i)
  case 0
  then show ?case
    using assms dir_holds_end [OF assms(2)]
    by (subst dir_empty_loop.simps) (auto simp: disk_simps split: option.split)
next
  case (Suc n)
  then have i: "i < length es" by simp
  then have drop: "drop i es = es ! i # drop (Suc i) es" by (simp add: Cons_nth_drop_Suc)
  have "dir_empty_loop ideal_floppy dc (of_nat i + 1) s =
      Some (list_all hidden_entry (drop (Suc i) es), s)"
    using Suc.hyps(1) [of "Suc i"] Suc.hyps(2) i by (simp add: add.commute)
  then show ?case
    using assms(1) dir_holds_nth [OF assms(2) i]
    by (subst dir_empty_loop.simps) (simp add: disk_simps drop)
qed

lemma fat12_is_dir_empty_ideal:
  "dir_ready s dc \<Longrightarrow> dir_holds s dc es \<Longrightarrow>
     fat12_is_dir_empty ideal_floppy dc s = Some (list_all hidden_entry es, s)"
  using dir_empty_from [of s dc es 0] by (simp add: fat12_is_dir_empty_def)

section \<open>Removal of a file\<close>

lemma lookup_pathD:
  assumes "volume s T" and "lookup_path T cs = Some (e, idx, dc)"
  obtains es j where "T dc = Some es" "j < length es" "e = es ! j" "idx = of_nat j"
    "\<not> is_deleted e" "de_attr e \<noteq> 0x0F"
proof -
  have ne: "cs \<noteq> []" and d: "descend T 0 (butlast cs) = Some dc"
    and l: "lookup_name T dc (last cs) = Some (e, idx)"
    using assms(2) by (auto simp: lookup_path_def split: if_splits option.splits)
  have "T d \<noteq> None \<Longrightarrow> descend T d cs = Some dc \<Longrightarrow> T dc \<noteq> None" for d cs
  proof (induction cs arbitrary: d)
    case (Cons c cs)
    then obtain e i where "lookup_name T d c = Some (e, i)" "is_dir e"
        "descend T (start_cluster e) cs = Some dc"
      by (auto split: option.splits if_splits)
    with Cons descend_closed [OF volumeD(1) [OF assms(1)] Cons.prems(1)] show ?case by blast
  qed simp
  moreover have "T 0 \<noteq> None" using volumeD(1) [OF assms(1)] by (simp add: tree_holds_def)
  ultimately obtain es where es: "T dc = Some es" using d by blast
  with lookup_name_matches [OF es l] that show thesis
    by (auto simp: entry_matches_def is_deleted_def)
qed

lemma mark_deleted_fields [simp]:
  "de_attr (mark_deleted e) = de_attr e" "de_ext (mark_deleted e) = de_ext e"
  "wf_dir_entry e \<Longrightarrow> wf_dir_entry (mark_deleted e)"
  "wf_dir_entry e \<Longrightarrow> is_deleted (mark_deleted e)"
  "wf_dir_entry e \<Longrightarrow> de_name (mark_deleted e) ! 0 \<noteq> 0"
  by (simp_all add: mark_deleted_def wf_dir_entry_def is_deleted_def)

lemma entry_closed_deleted [simp]: "is_deleted e \<Longrightarrow> entry_closed T e"
  by (simp add: entry_closed_def)

lemma volume_entry:
  assumes "volume s T" and "T dc = Some es" and "j < length es"
  obtains p where "dir_slot s dc (of_nat j) = Some p" "wf_dir_entry (es ! j)" "dir_ready s dc"
proof -
  have dc: "T dc \<noteq> None" using assms(2) by simp
  note st = dir_storeD [OF volumeD(2) [OF assms(1) dc]]
  have l: "dir_lookup s dc (of_nat j) = Some (es ! j)"
    using dir_holds_nth [OF volumeD(4) [OF assms(1,2)] assms(3)] by simp
  then obtain p where "dir_slot s dc (of_nat j) = Some p"
    using dir_lookup_None_iff [of s dc "of_nat j"] by fastforce
  with that wf_dir_lookup [OF st(1,2) l] st(4) show thesis by blast
qed

text \<open>Rewriting entry \<open>j\<close> of a directory in the tree.\<close>

lemma rewrite_entry:
  assumes "volume s T" and "T dc = Some es" and "j < length es"
    and "wf_dir_entry e" and "de_name e ! 0 \<noteq> 0" and "entry_closed T e"
  shows "\<exists>t. fat12_write_dir_entry ideal_floppy dc (of_nat j) e s = Some (True, t)
    \<and> volume t (T(dc \<mapsto> es[j := e])) \<and> open_files t = open_files s
    \<and> fat_size t = fat_size s \<and> (\<forall>k. in_fat s k \<longrightarrow> fat_entry t k = fat_entry s k)"
proof -
  obtain p where p: "dir_slot s dc (of_nat j) = Some p" "dir_ready s dc"
    using volume_entry [OF assms(1-3)] .
  have dc: "T dc \<noteq> None" using assms(2) by simp
  note st = volumeD(2) [OF assms(1) dc]
  have "volume (put_slot s p e) (T(dc \<mapsto> es[j := e]))" by (rule volume_put_slot [OF assms(1-3) p(1) assms(4-6)])
  with fat12_write_dir_entry_ideal [OF p(2,1)] put_slot_store(3) [OF st p(1) assms(4)] show ?thesis
    by (auto simp: fat_size_def)
qed

lemma delete_entry:
  assumes "volume s T" and "T dc = Some es" and "j < length es"
  shows "\<exists>t. fat12_write_dir_entry ideal_floppy dc (of_nat j) (mark_deleted (es ! j)) s = Some (True, t)
    \<and> volume t (T(dc \<mapsto> es[j := mark_deleted (es ! j)])) \<and> open_files t = open_files s
    \<and> fat_size t = fat_size s \<and> (\<forall>k. in_fat s k \<longrightarrow> fat_entry t k = fat_entry s k)"
proof -
  have "wf_dir_entry (es ! j)" by (rule volume_entry [OF assms])
  then show ?thesis by (intro rewrite_entry [OF assms]) simp_all
qed

lemma free_file_chain:
  assumes "volume s T" and "file_chain s c ks" and "\<forall>k \<in> set ks. in_fat s k"
    and "dirs_avoid s T (set ks)"
  shows "\<exists>t. (if c \<ge> 2 then fat12_free_cluster_chain ideal_floppy c s else Some s) = Some t
    \<and> volume t T \<and> open_files t = open_files s \<and> fat_size t = fat_size s
    \<and> (\<forall>k. in_fat s k \<longrightarrow> fat_entry t k = (if k \<in> set ks then 0 else fat_entry s k))"
proof (cases "c \<ge> 2")
  case True
  then have ch: "fat_chain (fat_entry s) (unat c) ks" using assms(2) by (auto simp: file_chain_def)
  note ready = volumeD(5) [OF assms(1)]
  note same = same_behindD [OF same_behind_free_entries [OF tree_readyD(1,3) [OF ready] assms(3)]]
  show ?thesis
    using True free_cluster_chain_of_chain [OF tree_readyD(1) [OF ready] file_chain_less [OF assms(2)]
        ch assms(3)] volume_free_entries [OF assms(1,3,4)] same(2,3)
      fat.get_free_entries [OF tree_readyD(1) [OF ready] _ assms(3)]
    by simp
next
  case False
  then have "ks = []" using assms(2) by (auto simp: file_chain_def is_link_def word_le_nat_alt)
  with False assms(1) show ?thesis by simp
qed

lemma fat12_removefile_ideal:
  assumes "volume s T" and "0 \<notin> set fn" and "lookup_path T (split_path fn) = Some (e, idx, dc)"
    and "\<not> is_dir e" and "\<forall>f \<in> set (open_files s). \<not> file_in_use fn e f"
    and "file_chain s (start_cluster e) ks" and "\<forall>k \<in> set ks. in_fat s k"
    and "dirs_avoid s T (set ks)"
  shows "\<exists>t es j. fat12_removefile ideal_floppy fn s = Some (0, t)
    \<and> T dc = Some es \<and> j < length es \<and> e = es ! j
    \<and> volume t (T(dc \<mapsto> es[j := mark_deleted e])) \<and> open_files t = open_files s
    \<and> (\<forall>k. in_fat s k \<longrightarrow> fat_entry t k = (if k \<in> set ks then 0 else fat_entry s k))"
proof -
  obtain es j where es: "T dc = Some es" "j < length es" "e = es ! j" "idx = of_nat j"
    by (rule lookup_pathD [OF assms(1,3)])
  obtain t where t: "(if start_cluster e \<ge> 2 then fat12_free_cluster_chain ideal_floppy (start_cluster e) s
        else Some s) = Some t" "volume t T" "open_files t = open_files s" "fat_size t = fat_size s"
    and entries: "\<forall>k. in_fat s k \<longrightarrow> fat_entry t k = (if k \<in> set ks then 0 else fat_entry s k)"
    using free_file_chain [OF assms(1,6,7,8)] by blast
  obtain u where u: "fat12_write_dir_entry ideal_floppy dc (of_nat j) (mark_deleted (es ! j)) t = Some (True, u)"
    "volume u (T(dc \<mapsto> es[j := mark_deleted (es ! j)]))" "open_files u = open_files t"
    and rest: "\<forall>k. in_fat t k \<longrightarrow> fat_entry u k = fat_entry t k"
    using delete_entry [OF t(2) es(1,2)] by blast
  have "remove_entry ideal_floppy e idx dc s = Some (0, u)"
    unfolding remove_entry_def t(1) [unfolded start_cluster_def] using u(1) es(3,4) by simp
  then have "fat12_removefile ideal_floppy fn s = Some (0, u)"
    using assms(3-5) fat12_find_entry_tree [OF volumeD(1) [OF assms(1)] assms(2)]
    by (simp add: fat12_removefile_def is_dir_def list_ex_iff)
  with u(2,3) t(3,4) entries rest es show ?thesis by auto
qed

lemma fat12_removefile_errors:
  assumes "volume s T" and "0 \<notin> set fn"
  shows "lookup_path T (split_path fn) = None \<Longrightarrow> fat12_removefile ideal_floppy fn s = Some (-9, s)"
    and "lookup_path T (split_path fn) = Some (e, idx, dc) \<Longrightarrow> is_dir e \<Longrightarrow>
      fat12_removefile ideal_floppy fn s = Some (-9, s)"
    and "lookup_path T (split_path fn) = Some (e, idx, dc) \<Longrightarrow> \<not> is_dir e \<Longrightarrow>
      list_ex (file_in_use fn e) (open_files s) \<Longrightarrow>
      fat12_removefile ideal_floppy fn s = Some (-11, s)"
  using fat12_find_entry_tree [OF volumeD(1) [OF assms(1)] assms(2)]
  by (simp_all add: fat12_removefile_def is_dir_def)

section \<open>Removal of a directory\<close>

lemma fat12_removedir_not_empty:
  assumes "volume s T" and "0 \<notin> set path" and "lookup_path T (split_path path) = Some (e, idx, dc)"
    and "is_dir e" and "T (start_cluster e) = Some es" and "\<not> list_all hidden_entry es"
  shows "fat12_removedir ideal_floppy path s = Some (-11, s)"
  using fat12_find_entry_tree [OF volumeD(1) [OF assms(1)] assms(2)] assms(3,4,6)
    fat12_is_dir_empty_ideal [OF tree_holdsD [OF volumeD(1) [OF assms(1)] assms(5)]]
  by (simp add: fat12_removedir_def is_dir_def start_cluster_def)

end
