(* ===== verification/Demo_Volume.thy ===== *)
theory Demo_Volume
  imports Fat12_Ops
begin

text \<open>
  A small volume: one copy of a table of one sector, a root directory of 16 entries, and one
  sector per cluster. The root holds a file of two clusters and a directory, which holds an empty
  file. It satisfies the invariant, and the hypotheses of the properties are shown on it.
\<close>

definition demo_geom :: fat12_geometry where
  "demo_geom = \<lparr>bytes_per_sector = 512, sectors_per_cluster = 1, reserved_sectors = 1,
     num_fats = 1, root_dir_entries = 16, sectors_per_fat = 1, fat_start_sector = 1,
     root_dir_start_sector = 2, root_dir_sectors = 1, data_start_sector = 3\<rparr>"

definition demo_a :: fat12_dir_entry where
  "demo_a = make_entry (chars ''A       '') (chars ''TXT'') 0 2 600"

definition demo_d :: fat12_dir_entry where
  "demo_d = make_entry (chars ''D       '') (chars ''   '') 0x10 4 0"

definition demo_b :: fat12_dir_entry where
  "demo_b = make_entry (chars ''B       '') (chars ''   '') 0 0 0"

definition fill :: "bytes \<Rightarrow> bytes" where
  "fill b = b @ replicate (512 - length b) 0"

definition demo_image :: image where
  "demo_image = (\<lambda>_. replicate 512 0)
     (1 := fill [0xF0, 0xFF, 0xFF, 0x03, 0xF0, 0xFF, 0xFF, 0x0F],
      2 := fill (bytes_of_dir_entry demo_a @ bytes_of_dir_entry demo_d),
      3 := replicate 512 0x41, 4 := replicate 512 0x42,
      5 := fill (bytes_of_dir_entry demo_b))"

definition demo :: "image fat12_state" where
  "demo = \<lparr>drive = fdrive1, fat12_geom = demo_geom, open_files = replicate 256 unused_file,
     contents_filenames = replicate 64 (replicate 32 0), contents_filename_idx = 0, klog = [],
     dev = demo_image, stack_buf = replicate 512 0\<rparr>"

definition demo_tree :: dir_tree where
  "demo_tree = [0 \<mapsto> [demo_a, demo_d], 4 \<mapsto> [demo_b]]"

lemma demo_entries [simp]:
  "wf_dir_entry demo_a" "wf_dir_entry demo_d" "wf_dir_entry demo_b"
  by (simp_all add: demo_a_def demo_d_def demo_b_def chars_def)

lemma length_fill [simp]: "length b \<le> 512 \<Longrightarrow> length (fill b) = 512"
  by (simp add: fill_def)

lemma demo_fields [simp]:
  "drive demo = fdrive1" "fat12_geom demo = demo_geom" "dev demo = demo_image"
  "open_files demo = replicate 256 unused_file"
  by (simp_all add: demo_def)

lemma demo_ready: "fat_ready demo"
proof -
  have "wf_image demo_image" by (simp add: wf_image_def demo_image_def)
  then show ?thesis by (simp add: fat_ready_def on_ideal_def wf_geom_def demo_geom_def)
qed

lemma demo_lookup:
  "dir_lookup demo 0 0 = Some demo_a" "dir_lookup demo 0 1 = Some demo_d"
  "map_option (\<lambda>e. de_name e ! 0) (dir_lookup demo 0 2) = Some 0"
  "dir_lookup demo 4 0 = Some demo_b"
  "map_option (\<lambda>e. de_name e ! 0) (dir_lookup demo 4 1) = Some 0"
  by code_simp+

lemma demo_table:
  "fat_entry demo 2 = 3" "fat_entry demo 3 = 0xFFF" "fat_entry demo 4 = 0xFFF"
  by code_simp+

lemma demo_table_rest:
  assumes "5 \<le> k" and "in_fat demo k"
  shows "fat_entry demo k = 0"
proof -
  have k: "3 * k div 2 + 1 < 512" using assms(2) by (simp add: in_table_def fat_size_def demo_geom_def)
  have z: "fat_byte demo i = (if i = 7 then 0x0F else 0)" if "7 \<le> i" "i < 512" for i
  proof -
    have "fat_sector demo i = 1" using that by (simp add: fat_sector_def demo_geom_def)
    then show ?thesis
      using that by (auto simp: fat_byte_def demo_image_def fill_def nth_append nth_Cons' )
  qed
  show ?thesis
  proof (cases "k = 5")
    case True
    then show ?thesis by (simp only:) code_simp
  next
    case False
    then have "9 \<le> 3 * k div 2" using assms(1) by presburger
    then show ?thesis
      using z [of "3 * k div 2"] z [of "3 * k div 2 + 1"] k by (simp add: get12_def u16_of_le_def)
  qed
qed

lemma demo_links: "fat.links_closed demo"
  unfolding fat.links_closed_def
proof (intro allI impI)
  fix k assume k: "is_link k \<and> in_fat demo k" and l: "is_link (unat (fat_entry demo k))"
  have "\<not> 5 \<le> k" using demo_table_rest k l by (auto simp: is_link_def)
  then have "k = 2 \<or> k = 3 \<or> k = 4" using k by (auto simp: is_link_def)
  then show "in_fat demo (unat (fat_entry demo k))"
    using l by (auto simp: demo_table is_link_def in_table_def fat_size_def demo_geom_def)
qed

lemma demo_tree_ready: "tree_ready demo"
  using demo_ready demo_links by (simp add: tree_ready_def demo_geom_def)

section \<open>The invariant holds\<close>

lemma demo_chain_sub: "fat_chain (fat_entry demo) 4 [4]"
  by (simp add: demo_table is_link_def)

lemma demo_chain_file: "fat_chain (fat_entry demo) 2 [2, 3]"
  by (simp add: demo_table is_link_def)

lemma demo_in_fat: "k < 300 \<Longrightarrow> in_fat demo k"
  by (simp add: in_table_def fat_size_def demo_geom_def)

lemma demo_store: "dir_store demo 0" "dir_store demo 4"
  using dir_store_root [OF demo_tree_ready]
    dir_store_chain [OF demo_tree_ready, of 4 "[4]"] demo_chain_sub demo_in_fat [of 4]
  by (simp_all add: dir_cluster_ok_def is_link_def)

lemma small_slot: "(idx :: u32) < 16 \<Longrightarrow> idx * 32 div 512 = 0"
proof -
  assume "idx < 16"
  then have i: "unat idx < 16" by (simp add: word_less_nat_alt)
  then have "unat (idx * 32) = unat idx * 32" by (subst unat_mult_u32) simp_all
  with i show ?thesis by (simp add: word_unat_eq_iff unat_div)
qed

lemma demo_slot_root: "dir_slot demo 0 i = Some p \<Longrightarrow> fst p = 2"
  using small_slot [of i] by (auto simp: dir_slot_def demo_geom_def slot_in_def not_le split: if_splits)

lemma demo_slot_sub: "dir_slot demo 4 i = Some p \<Longrightarrow> fst p = 5"
proof (erule dir_slot_cases)
  have e: "entries_per_cluster demo_geom = 16" by (simp add: entries_per_cluster_def demo_geom_def)
  have sec: "cluster_sector demo_geom 4 0 = 5" by (simp add: cluster_sector_def demo_geom_def)
  have c: "chain_nth (fat_entry demo) 4 n = Some k \<Longrightarrow> k = 4" for n k
    by (cases n) (auto simp: demo_table is_link_def)
  fix k assume "chain_nth (fat_entry demo) (unat (4 :: u32)) (unat (i div entries_per_cluster (fat12_geom demo))) = Some k"
    and p: "p = slot_in (cluster_sector (fat12_geom demo) (of_nat k) 0) (i mod entries_per_cluster (fat12_geom demo))"
  then have "k = 4" using c by simp
  moreover have "i mod 16 < 16" by (simp add: word_less_nat_alt unat_mod)
  ultimately show "fst p = 5" using small_slot [of "i mod 16"] by (simp add: p e sec slot_in_def)
qed simp

lemma demo_slots_apart: "slots_apart demo 0 4" "slots_apart demo 4 0"
  unfolding slots_apart_def using demo_slot_root demo_slot_sub by fastforce+

lemma demo_volume: "volume demo demo_tree"
proof -
  have dom: "demo_tree dc \<noteq> None \<longleftrightarrow> dc = 0 \<or> dc = 4" for dc by (simp add: demo_tree_def)
  have root: "dir_holds demo 0 [demo_a, demo_d]"
    using demo_lookup(1-3) by (auto simp: dir_holds_def less_Suc_eq split: option.split)
      (simp_all add: demo_a_def demo_d_def chars_def)
  have sub: "dir_holds demo 4 [demo_b]"
    using demo_lookup(4,5) by (auto simp: dir_holds_def split: option.split)
      (simp add: demo_b_def chars_def)
  have attr: "\<not> is_dir demo_a" "start_cluster demo_d = 4" "\<not> is_dir demo_b"
    by (simp_all add: is_dir_def start_cluster_def demo_a_def demo_b_def demo_d_def make_entry_def)
  have ready: "dir_ready demo 0" "dir_ready demo 4"
    using dir_storeD(4) [OF demo_store(1)] dir_storeD(4) [OF demo_store(2)] by simp_all
  have "tree_holds demo demo_tree"
    using root sub attr ready by (auto simp: tree_holds_def demo_tree_def split: if_splits)
  moreover have "slots_apart demo dc dc'" if "dc = 0 \<or> dc = 4" "dc' = 0 \<or> dc' = 4" "dc \<noteq> dc'" for dc dc'
    using that demo_slots_apart by auto
  moreover have "dir_store demo dc" if "dc = 0 \<or> dc = 4" for dc using that demo_store by auto
  ultimately show ?thesis unfolding volume_def dom by simp
qed

end
