(* ===== verification/Fat12_Session.thy ===== *)
theory Fat12_Session
  imports Fat12_Ops
begin

text \<open>
  The operations of \<open>kernel/fat12.c\<close> as they are used one after the other: every operation is
  stated with the volume it leaves behind, and the open file table keeps its invariant.
\<close>

section \<open>The open file table\<close>

lemma same_disk_install [simp]: "same_disk s (install_file k fn e dc i s)"
  by (simp add: same_disk_def install_file_def)

lemma same_disk_upd_file [simp]: "same_disk s (upd_file i f s)"
  by (simp add: same_disk_def)

lemma open_files_install:
  "open_files (install_file k fn e dc i s) = (open_files s)[k := \<lparr>of_used = True,
     of_path = strlcpy_str fn 256, of_first_cluster = start_cluster e,
     of_current_cluster = start_cluster e, of_cursor = 0, of_file_size = de_file_size e,
     of_parent_cluster = dc, of_entry_idx = i\<rparr>]"
  by (simp add: install_file_def start_cluster_def)

lemma fat12_close_used:
  assumes "length (open_files s) = 256" and "i < 256" and "of_used (open_files s ! i)"
  shows "fat12_close (int i + 3) s = Some (0, upd_file i (\<lambda>f. f\<lparr>of_used := False\<rparr>) s)"
  using assms by (simp add: fat12_close_def file_index_eq upd_file_def)

text \<open>A closed file number is free again, and no other is touched.\<close>

lemma open_close:
  assumes "volume s T" and "0 \<notin> set fn" and "length (open_files s) = 256"
    and "lowest_free (open_files s) k" and "lookup_path T (split_path fn) = Some (e, idx, dc)"
    and "\<not> is_dir e"
  shows "\<exists>t. fat12_open ideal_floppy fn s = Some (int k + 3, t) \<and> volume t T
    \<and> fat12_get_size (int k + 3) t = Some (de_file_size e)
    \<and> (\<exists>u. fat12_close (int k + 3) t = Some (0, u) \<and> volume u T
        \<and> map of_used (open_files u) = map of_used (open_files s)
        \<and> fat12_get_size (int k + 3) u = Some 0)"
proof -
  let ?t = "install_file k fn e dc idx s"
  let ?u = "upd_file k (\<lambda>f. f\<lparr>of_used := False\<rparr>) ?t"
  have k: "k < 256" "\<not> of_used (open_files s ! k)" using assms(3,4) by (simp_all add: lowest_free_def)
  have len: "length (open_files ?t) = 256" "of_used (open_files ?t ! k)"
    using assms(3) k by (simp_all add: open_files_install)
  have "volume ?t T" using volume_same_disk [OF same_disk_install] assms(1) by blast
  moreover from this have "volume ?u T" using volume_same_disk [OF same_disk_upd_file] by blast
  moreover have "fat12_close (int k + 3) ?t = Some (0, ?u)" by (rule fat12_close_used [OF len(1) k(1) len(2)])
  moreover have "fat12_get_size (int k + 3) ?t = Some (de_file_size e)"
    using len k assms(3) by (simp add: fat12_get_size_def file_index_eq open_files_install)
  moreover have "fat12_get_size (int k + 3) ?u = Some 0"
    using len k by (simp add: fat12_get_size_def file_index_eq)
  moreover have "map of_used (open_files ?u) = map of_used (open_files s)"
    using k assms(3) by (intro nth_equalityI) (auto simp: upd_file_def open_files_install nth_list_update)
  ultimately show ?thesis using fat12_open_existing [OF assms(1,2,4,5)] assms(6) by auto
qed

section \<open>Creation\<close>

lemma to_upper_zero: "c \<noteq> 0 \<Longrightarrow> to_upper c \<noteq> 0"
  unfolding to_upper_def by (auto simp: word_le_nat_alt)

lemma to_fat12_name_first:
  assumes "0 \<notin> set c"
  shows "fst (to_fat12_name c) ! 0 \<noteq> 0"
proof (cases "base_of c")
  case Nil
  then show ?thesis by (simp add: to_fat12_name_eq [OF assms] pad_to_def)
next
  case (Cons a as)
  then have "a \<in> set c" unfolding base_of_def by (metis list.set_intros(1) set_takeWhileD)
  with assms have "a \<noteq> 0" by auto
  then show ?thesis using to_upper_zero [of a] Cons by (simp add: to_fat12_name_eq [OF assms] pad_to_def)
qed

lemma parent_name_first:
  assumes "0 \<notin> set fn" and "parent_of_path T (split_path fn) = Some (dc, nm, ex)"
  shows "nm ! 0 \<noteq> 0"
proof -
  have ne: "split_path fn \<noteq> []" and n: "to_fat12_name (last (split_path fn)) = (nm, ex)"
    using assms(2) by (auto simp: parent_of_path_def split: if_splits)
  have "0 \<notin> set (last (split_path fn))"
    using split_path_props [OF last_in_set [OF ne]] assms(1) by auto
  with to_fat12_name_first [OF this] n show ?thesis by simp
qed

lemma entry_closed_file [simp]: "entry_closed T (make_entry nm ex 0 c z)"
  by (simp add: entry_closed_def is_dir_def)

text \<open>A new file is in the tree, at the first slot that was free, and open.\<close>

lemma open_creates:
  assumes "volume s T" and "0 \<notin> set fn" and "lowest_free (open_files s) k"
    and "lookup_path T (split_path fn) = None"
    and "parent_of_path T (split_path fn) = Some (dc, nm, ex)" and "T dc = Some es"
    and "length es < 2147483647" and "has_room s dc es" and "nm ! 0 \<noteq> 0xE5"
  shows "\<exists>t. fat12_open ideal_floppy fn s = Some (int k + 3, t)
    \<and> volume t (T(dc \<mapsto> insert_entry (make_entry nm ex 0 0 0) es))
    \<and> lookup_path (T(dc \<mapsto> insert_entry (make_entry nm ex 0 0 0) es)) (split_path fn) =
        Some (make_entry nm ex 0 0 0, of_nat (slot_index 0 es), dc)
    \<and> open_files t = (open_files s)[k := \<lparr>of_used = True, of_path = strlcpy_str fn 256,
        of_first_cluster = 0, of_current_cluster = 0, of_cursor = 0, of_file_size = 0,
        of_parent_cluster = dc, of_entry_idx = of_nat (slot_index 0 es)\<rparr>]"
proof -
  note par = parent_of_pathD [OF assms(1,2,5)]
  let ?e = "make_entry nm ex 0 0 0"
  obtain p where p: "dir_slot s dc (of_nat (slot_index 0 es)) = Some p"
    using has_room_slot [OF volumeD(4) [OF assms(1,6)] assms(8)] by blast
  have e: "wf_dir_entry ?e" "de_name ?e ! 0 \<noteq> 0"
    using par(2,3) parent_name_first [OF assms(2,5)] by simp_all
  have vol: "volume (store_new dc es p ?e s) (T(dc \<mapsto> insert_entry ?e es))"
    by (rule volume_store_new [OF assms(1,6,7) p e entry_closed_file])
  have files: "open_files (store_new dc es p ?e s) = open_files s"
    by (rule store_new_effect(4) [OF volumeD(2) [OF assms(1) par(1)] volumeD(4) [OF assms(1,6)] assms(7) p e])
  have zero: "start_cluster ?e = 0" "de_file_size ?e = 0" by (simp_all add: start_cluster_def)
  show ?thesis
    using fat12_open_new [OF assms(1-8) p] volume_same_disk [OF same_disk_install] vol
      lookup_path_insert [OF assms(2,4,5,6,9), of 0 0 0]
    by (auto simp: open_files_install files zero)
qed

end
