(* ===== verification/Demo_Session.thy ===== *)
theory Demo_Session
  imports Demo_Volume Fat12_Session
begin

text \<open>Paths and files of the small volume, and the facts about them that the witnesses use.\<close>

lemma demo_path_ok [simp]:
  "0 \<notin> set (chars ''/A.TXT'')" "0 \<notin> set (chars ''/NEW.C'')" "0 \<notin> set (chars ''/D'')"
  "0 \<notin> set (chars ''/X/Y'')" "0 \<notin> set (chars ''/D/B'')"
  by (simp_all add: chars_def)

lemma demo_lowest: "lowest_free (open_files demo) 0"
  by (simp add: lowest_free_def unused_file_def)

lemma demo_find:
  "lookup_path demo_tree (split_path (chars ''/A.TXT'')) = Some (demo_a, 0, 0)"
  "lookup_path demo_tree (split_path (chars ''/D'')) = Some (demo_d, 1, 0)"
  "lookup_path demo_tree (split_path (chars ''/D/B'')) = Some (demo_b, 0, 4)"
  "lookup_path demo_tree (split_path (chars ''/X/Y'')) = None"
  "parent_of_path demo_tree (split_path (chars ''/X/Y'')) = None"
  by code_simp+

lemma demo_new:
  "lookup_path demo_tree (split_path (chars ''/NEW.C'')) = None"
  "parent_of_path demo_tree (split_path (chars ''/NEW.C'')) =
     Some (0, chars ''NEW     '', chars ''C  '')"
  "chars ''NEW     '' ! 0 \<noteq> 0xE5"
  by code_simp+

lemma demo_root: "demo_tree 0 = Some [demo_a, demo_d]"
  by (simp add: demo_tree_def)

lemma demo_sub: "demo_tree 4 = Some [demo_b]"
  by (simp add: demo_tree_def)

lemma demo_room: "has_room demo 0 [demo_a, demo_d]"
  by (simp add: has_room_def dir_slot_def demo_geom_def)

lemma demo_insert: "insert_entry e [demo_a, demo_d] = [demo_a, demo_d, e]"
  by (simp add: insert_entry_def is_deleted_def demo_a_def demo_d_def chars_def make_entry_def)

lemma demo_is_dir: "\<not> is_dir demo_a" "is_dir demo_d" "\<not> is_dir demo_b"
  by (simp_all add: is_dir_def demo_a_def demo_b_def demo_d_def)

lemma demo_unused: "\<forall>f \<in> set (open_files demo). \<not> file_in_use fn e f"
  by (simp add: file_in_use_def unused_file_def)

lemma demo_start: "start_cluster demo_a = 2" "start_cluster demo_d = 4" "start_cluster demo_b = 0"
  by (simp_all add: start_cluster_def demo_a_def demo_b_def demo_d_def)

lemma demo_file_chain: "file_chain demo (start_cluster demo_a) [2, 3]"
  by (simp add: file_chain_def demo_start is_link_def demo_table)

lemma demo_file_in_fat: "\<forall>k \<in> set [2, 3]. in_fat demo k"
  using demo_in_fat by simp

lemma demo_avoid: "dirs_avoid demo demo_tree (set [2, 3])"
proof -
  have c: "chain_nth (fat_entry demo) 4 n = Some k \<Longrightarrow> k = 4" for n k
    by (cases n) (auto simp: demo_table is_link_def)
  show ?thesis by (auto simp: dirs_avoid_def demo_tree_def split: if_splits dest: c)
qed

text \<open>The state after opening the file of two clusters, and the contents of that file.\<close>

definition demo_open :: "image fat12_state" where
  "demo_open = install_file 0 (chars ''/A.TXT'') demo_a 0 0 demo"

lemma demo_open_file:
  "open_files demo_open ! 0 = \<lparr>of_used = True, of_path = chars ''/A.TXT'', of_first_cluster = 2,
     of_current_cluster = 2, of_cursor = 0, of_file_size = 600, of_parent_cluster = 0, of_entry_idx = 0\<rparr>"
  "length (open_files demo_open) = 256"
proof -
  have "strlcpy_str (chars ''/A.TXT'') 256 = chars ''/A.TXT''"
    by (rule strlcpy_str_short) (simp_all add: chars_def)
  moreover have "de_file_size demo_a = 600" by (simp add: demo_a_def)
  ultimately show "open_files demo_open ! 0 = \<lparr>of_used = True, of_path = chars ''/A.TXT'', of_first_cluster = 2,
     of_current_cluster = 2, of_cursor = 0, of_file_size = 600, of_parent_cluster = 0, of_entry_idx = 0\<rparr>"
    by (simp add: demo_open_def open_files_install demo_start)
  show "length (open_files demo_open) = 256" by (simp add: demo_open_def open_files_install)
qed

lemma demo_same_disk: "same_disk demo demo_open"
  by (simp add: demo_open_def)

lemma demo_open_ready: "fat_ready demo_open" "fat12_geom demo_open = demo_geom"
  using demo_ready same_diskD [OF demo_same_disk] by simp_all

lemma demo_content: "file_content demo_open [2, 3] = replicate 512 0x41 @ replicate 512 0x42"
  by (simp add: file_content_def file_sectors_def cluster_sectors_def demo_open_ready
      same_diskD(2) [OF demo_same_disk] cluster_sector_def demo_geom_def demo_image_def)

lemma demo_open_chain: "file_chain demo_open (of_first_cluster (open_files demo_open ! 0)) [2, 3]"
  by (simp add: demo_open_file file_chain_def same_diskD(4) [OF demo_same_disk] is_link_def demo_table)

lemma demo_open_volume: "volume demo_open demo_tree"
  using demo_volume volume_same_disk [OF demo_same_disk] by simp

lemma demo_in_use: "list_ex (file_in_use (chars ''/A.TXT'') demo_a) (open_files demo_open)"
proof -
  have "open_files demo_open ! 0 \<in> set (open_files demo_open)" by (rule nth_mem) (simp add: demo_open_file)
  moreover have "file_in_use (chars ''/A.TXT'') demo_a (open_files demo_open ! 0)"
    unfolding demo_open_file by (simp add: file_in_use_def demo_a_def)
  ultimately show ?thesis unfolding list_ex_iff by blast
qed

lemma demo_visible: "\<not> hidden_entry demo_b"
  by (simp add: hidden_entry_def demo_b_def chars_def make_entry_def)

lemma demo_stored_name: "stored_name (chars ''A       '') (chars ''TXT'')"
  by (simp add: stored_name_def stored_char_def chars_def to_upper_def)

lemma demo_name_8_3: "name_8_3 (chars ''read.me'')"
  by (simp add: name_8_3_def base_of_def ext_of_def chars_def)

text \<open>The same volume with every file number in use.\<close>

definition demo_full :: "image fat12_state" where
  "demo_full = demo\<lparr>open_files := replicate 256 (unused_file\<lparr>of_used := True\<rparr>)\<rparr>"

lemma demo_full_volume: "volume demo_full demo_tree"
proof -
  have "same_disk demo demo_full" by (simp add: same_disk_def demo_full_def)
  with demo_volume show ?thesis by (simp add: volume_same_disk)
qed

lemma demo_full_used: "\<forall>f \<in> set (open_files demo_full). of_used f"
  by (simp add: demo_full_def)

end
