(* ===== verification/Fat12_Clusters.thy ===== *)
theory Fat12_Clusters
  imports Fat12_Session
begin

text \<open>
  The clusters of a file and the directories: where their sectors lie, and what a store in a
  data sector, a new cluster and a changed directory entry leave alone. The write of
  \<open>kernel/fat12.c\<close> is a sequence of these three steps.
\<close>

section \<open>The sectors of different clusters are different\<close>

lemma cluster_sector_inj:
  assumes "wf_geom g" and "is_link k" and "is_link k'" and "o1 < unat (sectors_per_cluster g)"
    and "o2 < unat (sectors_per_cluster g)"
    and "cluster_sector g (of_nat k) (of_nat o1) = cluster_sector g (of_nat k') (of_nat o2)"
  shows "k = k' \<and> o1 = o2"
proof -
  let ?spc = "unat (sectors_per_cluster g)"
  have small: "unat (of_nat j :: u32) = j" if "j < ?spc" for j
    using that unat_u8_less [of "sectors_per_cluster g"] by (simp add: unat_of_nat_u32)
  have "(k - 2) * ?spc + o1 = (k' - 2) * ?spc + o2"
    using unat_cluster_sector [OF assms(1), of k "of_nat o1"] unat_cluster_sector [OF assms(1), of k' "of_nat o2"]
      assms(2-6) small [OF assms(4)] small [OF assms(5)] unat_u8_less [of "sectors_per_cluster g"]
    by (simp add: is_link_def)
  then have "k - 2 = k' - 2 \<and> o1 = o2" using assms(4,5) by (rule mult_add_unique)
  then show ?thesis using assms(2,3) by (auto simp: is_link_def)
qed

lemma set_file_sectors:
  "sec \<in> set (file_sectors g ks) \<longleftrightarrow>
     (\<exists>k \<in> set ks. \<exists>i < unat (sectors_per_cluster g). sec = cluster_sector g (of_nat k) (of_nat i))"
proof -
  have "sec \<in> set (cluster_sectors g k) \<longleftrightarrow>
      (\<exists>i < unat (sectors_per_cluster g). sec = cluster_sector g (of_nat k) (of_nat i))" for k
    by (auto simp: cluster_sectors_def)
  then show ?thesis unfolding file_sectors_def by (simp only: set_concat set_map UN_iff bex_simps)
qed

lemma file_sectors_disjoint:
  assumes "wf_geom g" and "\<forall>k \<in> set ks \<union> set ls. is_link k" and "set ks \<inter> set ls = {}"
  shows "set (file_sectors g ks) \<inter> set (file_sectors g ls) = {}"
proof -
  have False if sec: "sec \<in> set (file_sectors g ks)" "sec \<in> set (file_sectors g ls)" for sec
  proof -
    obtain k i where k: "k \<in> set ks" "i < unat (sectors_per_cluster g)"
      "sec = cluster_sector g (of_nat k) (of_nat i)" using sec(1) unfolding set_file_sectors by blast
    obtain k' i' where k': "k' \<in> set ls" "i' < unat (sectors_per_cluster g)"
      "sec = cluster_sector g (of_nat k') (of_nat i')" using sec(2) unfolding set_file_sectors by blast
    have "is_link k" "is_link k'" using assms(2) k(1) k'(1) by blast+
    then have "k = k'" using cluster_sector_inj [OF assms(1) _ _ k(2) k'(2)] k(3) k'(3) by simp
    then show False using assms(3) k(1) k'(1) by blast
  qed
  then show ?thesis by blast
qed

lemma distinct_file_sectors:
  assumes "wf_geom g"
  shows "distinct ks \<Longrightarrow> \<forall>k \<in> set ks. is_link k \<Longrightarrow> distinct (file_sectors g ks)"
proof (induction ks)
  case (Cons k ks)
  have "distinct (cluster_sectors g k)"
    using cluster_sector_inj [OF assms, of k k] Cons.prems
    by (auto simp: cluster_sectors_def distinct_map inj_on_def)
  moreover have "set (cluster_sectors g k) \<inter> set (file_sectors g ks) = {}"
    using file_sectors_disjoint [OF assms, of "[k]" ks] Cons.prems by (auto simp: file_sectors_def)
  ultimately show ?case using Cons by (simp add: file_sectors_def)
qed (simp add: file_sectors_def)

lemma file_sector_behind:
  assumes "wf_geom g" and "\<forall>k \<in> set ks. is_link k" and "sec \<in> set (file_sectors g ks)"
  shows "unat (data_start_sector g) \<le> unat sec"
proof -
  obtain k i where k: "k \<in> set ks" "i < unat (sectors_per_cluster g)"
    "sec = cluster_sector g (of_nat k) (of_nat i)" using assms(3) unfolding set_file_sectors by blast
  have "is_link k" using assms(2) k(1) by blast
  then show ?thesis
    using unat_cluster_sector [OF assms(1), of k "of_nat i"] k(2,3) unat_u8_less [of "sectors_per_cluster g"]
    by (simp add: is_link_def unat_of_nat_u32)
qed

text \<open>No slot of a directory lies in a sector of a file that the directories avoid.\<close>

lemma dir_slot_avoids:
  assumes "volume s T" and "T dc \<noteq> None" and "dirs_avoid s T (set ks)" and "\<forall>k \<in> set ks. is_link k"
    and "dir_slot s dc i = Some p"
  shows "fst p \<notin> set (file_sectors (fat12_geom s) ks)"
proof
  let ?g = "fat12_geom s" and ?spc = "unat (sectors_per_cluster (fat12_geom s))"
  note st = dir_storeD [OF volumeD(2) [OF assms(1,2)]]
  note wf = tree_readyD(2) [OF st(1)] and spc = tree_readyD(4) [OF st(1)]
  assume sec: "fst p \<in> set (file_sectors ?g ks)"
  then have behind: "unat (data_start_sector ?g) \<le> unat (fst p)"
    using file_sector_behind [OF wf assms(4)] by blast
  show False
    using assms(5)
  proof (cases rule: dir_slot_cases)
    case root
    have "unat i div 16 < unat (root_dir_sectors ?g)"
      using root(2) unfolding unat_root_dir_sectors [OF wf] by linarith
    then show False
      using behind root(3) unat_slot_root [OF wf root(2)] unat_data_start [OF wf] by simp
  next
    case (sub k)
    obtain j o' where j: "j \<in> set ks" "o' < ?spc" "fst p = cluster_sector ?g (of_nat j) (of_nat o')"
      using sec by (auto simp: set_file_sectors)
    have k: "is_link k" by (rule dir_slot_sub_link [OF st(2) sub(1,2)])
    let ?o = "(unat i mod (?spc * 16)) div 16"
    have pos: "0 < ?spc" using spc by (simp add: unat_gt_0)
    have o: "?o < ?spc" using pos by (simp add: less_mult_imp_div_less)
    have "unat (of_nat o' :: u32) = o'" "unat (of_nat ?o :: u32) = ?o"
      using j(2) o unat_u8_less [of "sectors_per_cluster ?g"] by (simp_all add: unat_of_nat_u32)
    then have "unat (cluster_sector ?g (of_nat k) (of_nat ?o)) = unat (fst p)"
      using unat_cluster_sector [OF wf, of k "of_nat ?o"] unat_slot_sub [OF wf _ _ spc, of k i] sub(3) k o
        unat_u8_less [of "sectors_per_cluster ?g"]
      by (simp add: is_link_def)
    then have "k = j" using cluster_sector_inj [OF wf k, of j ?o o'] j o assms(4) by (simp add: word_unat_eq_iff)
    then show False using assms(2,3) sub(1,2) j(1) unfolding dirs_avoid_def by blast
  qed
qed

end
