(* ===== verification/Fat12_Append.thy ===== *)
theory Fat12_Append
  imports Fat12_Clusters
begin

text \<open>
  The growth of a file of \<open>kernel/fat12.c\<close> by one cluster. The allocator takes a cluster whose
  entry is 0; where the directories and the other files use only marked clusters, none of them
  changes.
\<close>

section \<open>Chains that own their clusters\<close>

text \<open>No cluster of a directory is free.\<close>

definition dirs_marked :: "image fat12_state \<Rightarrow> dir_tree \<Rightarrow> bool" where
  "dirs_marked s T \<longleftrightarrow>
     (\<forall>dc n k. T dc \<noteq> None \<longrightarrow> dc \<noteq> 0 \<longrightarrow> chain_nth (fat_entry s) (unat dc) n = Some k \<longrightarrow>
        fat_entry s k \<noteq> 0)"

text \<open>The chain of a file: in the table, marked, and apart from the directories.\<close>

definition own_chain :: "image fat12_state \<Rightarrow> dir_tree \<Rightarrow> u32 \<Rightarrow> nat list \<Rightarrow> bool" where
  "own_chain s T c ks \<longleftrightarrow>
     file_chain s c ks \<and> (ks = [] \<longrightarrow> c = 0)
     \<and> (\<forall>k \<in> set ks. in_fat s k \<and> fat_entry s k \<noteq> 0) \<and> dirs_avoid s T (set ks)"

lemma own_chainD:
  assumes "own_chain s T c ks"
  shows "file_chain s c ks" and "ks = [] \<Longrightarrow> c = 0" and "k \<in> set ks \<Longrightarrow> in_fat s k"
    and "k \<in> set ks \<Longrightarrow> fat_entry s k \<noteq> 0" and "dirs_avoid s T (set ks)"
  using assms by (simp_all add: own_chain_def)

lemma file_chain_links: "file_chain s c ks \<Longrightarrow> k \<in> set ks \<Longrightarrow> is_link k"
  unfolding file_chain_def by (auto dest: fat_chain_links)

lemma file_chain_distinct: "file_chain s c ks \<Longrightarrow> distinct ks"
  unfolding file_chain_def by (auto dest: fat_chain_distinct)

lemma file_chain_cong:
  "file_chain s c ks \<Longrightarrow> (\<And>k. k \<in> set ks \<Longrightarrow> fat_entry t k = fat_entry s k) \<Longrightarrow> file_chain t c ks"
  unfolding file_chain_def using fat_chain_cong by blast

section \<open>Frames\<close>

text \<open>The entries outside \<open>K\<close> are the same.\<close>

definition same_entries :: "image fat12_state \<Rightarrow> image fat12_state \<Rightarrow> nat set \<Rightarrow> bool" where
  "same_entries s t K \<longleftrightarrow> (\<forall>k. in_fat s k \<longrightarrow> k \<notin> K \<longrightarrow> fat_entry t k = fat_entry s k)"

lemma same_entriesD: "same_entries s t K \<Longrightarrow> in_fat s k \<Longrightarrow> k \<notin> K \<Longrightarrow> fat_entry t k = fat_entry s k"
  by (simp add: same_entries_def)

text \<open>The chain of a directory does not change where only other entries do.\<close>

lemma dir_chain_frame:
  assumes "volume s T" and "same_entries s t K"
    and "dirs_avoid s T K" and "T dc \<noteq> None" and "dc \<noteq> 0"
  shows "chain_nth (fat_entry t) (unat dc) n = chain_nth (fat_entry s) (unat dc) n"
    and "chain_nth (fat_entry s) (unat dc) n = Some k \<Longrightarrow> fat_entry t k = fat_entry s k"
proof -
  note st = dir_storeD [OF volumeD(2) [OF assms(1,4)]]
  have link: "is_link (unat dc)" "in_fat s (unat dc)"
    using st(2) assms(5) by (simp_all add: dir_cluster_ok_def)
  have agree: "fat_entry t k = fat_entry s k" if "chain_nth (fat_entry s) (unat dc) m = Some k" for m k
    using same_entriesD [OF assms(2) chain_nth_in_fat [OF tree_readyD(5) [OF st(1)] link that]]
      assms(3-5) that unfolding dirs_avoid_def by blast
  then show "chain_nth (fat_entry t) (unat dc) n = chain_nth (fat_entry s) (unat dc) n"
    by (intro chain_nth_agree)
  show "chain_nth (fat_entry s) (unat dc) n = Some k \<Longrightarrow> fat_entry t k = fat_entry s k" by (rule agree)
qed

lemma dirs_avoid_frame:
  assumes "volume s T" and "same_entries s t K"
    and "dirs_avoid s T K" and "dirs_avoid s T L"
  shows "dirs_avoid t T L"
  unfolding dirs_avoid_def
proof (intro allI impI)
  fix dc n k assume d: "T dc \<noteq> None" "dc \<noteq> 0" "chain_nth (fat_entry t) (unat dc) n = Some k"
  then have "chain_nth (fat_entry s) (unat dc) n = Some k"
    using dir_chain_frame(1) [OF assms(1-3) d(1,2)] by simp
  then show "k \<notin> L" using assms(4) d(1,2) unfolding dirs_avoid_def by blast
qed

lemma dirs_marked_frame:
  assumes "volume s T" and "same_entries s t K"
    and "dirs_avoid s T K" and "dirs_marked s T"
  shows "dirs_marked t T"
  unfolding dirs_marked_def
proof (intro allI impI)
  fix dc n k assume d: "T dc \<noteq> None" "dc \<noteq> 0" "chain_nth (fat_entry t) (unat dc) n = Some k"
  note frame = dir_chain_frame [OF assms(1-3) d(1,2)]
  from d(3) have c: "chain_nth (fat_entry s) (unat dc) n = Some k" by (simp add: frame(1))
  then show "fat_entry t k \<noteq> 0"
    using frame(2) [OF c] assms(4) d(1,2) unfolding dirs_marked_def by simp
qed

text \<open>What the directories keep depends only on which directories there are.\<close>

lemma dirs_cong:
  assumes "\<And>d. T' d = None \<longleftrightarrow> T d = None"
  shows "dirs_avoid s T' K = dirs_avoid s T K" and "dirs_marked s T' = dirs_marked s T"
    and "own_chain s T' c ks = own_chain s T c ks"
  using assms by (simp_all add: dirs_avoid_def dirs_marked_def own_chain_def)

lemma own_chain_same_disk:
  assumes "same_disk s t"
  shows "own_chain t T c ks = own_chain s T c ks" and "dirs_marked t T = dirs_marked s T"
    and "file_content t ks = file_content s ks"
  by (simp_all add: same_diskD [OF assms] own_chain_def file_chain_def dirs_avoid_def dirs_marked_def
      file_content_def)

lemma own_chain_frame:
  assumes "volume s T" and "same_entries s t K"
    and "dirs_avoid s T K" and "own_chain s T c ls" and "set ls \<inter> K = {}"
    and "fat12_geom t = fat12_geom s"
  shows "own_chain t T c ls"
proof -
  note own = own_chainD [OF assms(4)]
  have e: "fat_entry t k = fat_entry s k" if "k \<in> set ls" for k
    using same_entriesD [OF assms(2) own(3) [OF that]] assms(5) that by blast
  have size: "fat_size t = fat_size s" using assms(6) by (simp add: fat_size_def)
  show ?thesis
    unfolding own_chain_def
    using own file_chain_cong [OF own(1) e] e dirs_avoid_frame [OF assms(1-3) own(5)] size by auto
qed

section \<open>The free clusters\<close>

definition free_clusters :: "image fat12_state \<Rightarrow> nat set" where
  "free_clusters s = {k. 2 \<le> k \<and> k < 4080 \<and> in_fat s k \<and> fat_entry s k = 0}"

lemma finite_free_clusters [simp]: "finite (free_clusters s)"
  by (rule finite_subset [of _ "{..<4080}"]) (auto simp: free_clusters_def)

lemma first_free_cluster:
  assumes "free_clusters s \<noteq> {}"
  obtains k where "first_free s = Some k" "k \<in> free_clusters s"
proof -
  obtain j where j: "2 \<le> j" "j < 4080" "in_fat s j" "fat_entry s j = 0"
    using assms by (auto simp: free_clusters_def)
  then obtain k where k: "first_free s = Some k" using first_free_None_iff [of s] by fastforce
  note first = first_free_SomeD [OF k]
  then have "k \<le> j" using j(1,4) not_le by blast
  then have "in_fat s k" using j(3) unfolding in_table_def by (meson Suc_le_mono div_le_mono le_less_trans mult_le_mono2)
  with first have "k \<in> free_clusters s" by (simp add: free_clusters_def)
  with k that show thesis by blast
qed

lemma fat_chain_snoc:
  "fat_chain E c ks \<Longrightarrow> ks \<noteq> [] \<Longrightarrow> is_link k \<Longrightarrow> \<not> is_link (unat (E' k)) \<Longrightarrow> unat (E' (last ks)) = k \<Longrightarrow>
     (\<And>j. j \<in> set (butlast ks) \<Longrightarrow> E' j = E j) \<Longrightarrow> fat_chain E' c (ks @ [k])"
proof (induction ks arbitrary: c)
  case (Cons j ks)
  show ?case
  proof (cases "ks = []")
    case True
    with Cons.prems show ?thesis by simp
  next
    case False
    with Cons.prems have j: "j = c" "is_link c" "fat_chain E (unat (E c)) ks" "E' c = E c" by auto
    have "fat_chain E' (unat (E c)) (ks @ [k])"
      using Cons.prems False j(3) by (intro Cons.IH) auto
    with j show ?thesis by simp
  qed
qed simp

section \<open>The allocation of a cluster\<close>

lemma dirs_avoid_free:
  assumes "dirs_marked s T" and "fat_entry s k = 0" and "dirs_avoid s T L"
  shows "dirs_avoid s T (insert k L)"
  using assms unfolding dirs_marked_def dirs_avoid_def by blast

lemma file_content_cong:
  assumes "fat12_geom t = fat12_geom s"
    and "\<And>sec. sec \<in> set (file_sectors (fat12_geom s) ks) \<Longrightarrow> dev t sec = dev s sec"
  shows "file_content t ks = file_content s ks"
  using assms by (simp add: file_content_def cong: map_cong)

lemma file_content_behind:
  assumes "fat_ready s" and "same_behind s t" and "\<forall>k \<in> set ks. is_link k"
  shows "file_content t ks = file_content s ks"
proof (rule file_content_cong)
  note wf = fat_readyD(2) [OF assms(1)]
  show "fat12_geom t = fat12_geom s" by (rule same_behindD(1) [OF assms(2)])
  fix sec assume "sec \<in> set (file_sectors (fat12_geom s) ks)"
  from file_sector_behind [OF wf assms(3) this] unat_data_start [OF wf]
  show "dev t sec = dev s sec" by (intro same_behindD(4) [OF assms(2)]) linarith
qed

text \<open>The cluster after which the code links the new one: 0 for a file without clusters.\<close>

definition last_cluster :: "nat list \<Rightarrow> u32" where
  "last_cluster ks = (if ks = [] then 0 else of_nat (last ks))"

lemma unat_last_cluster:
  assumes "file_chain s c ks"
  shows "unat (last_cluster ks) = (if ks = [] then 0 else last ks)" and "unat (last_cluster ks) < 65536"
    and "2 \<le> last_cluster ks \<longleftrightarrow> ks \<noteq> []"
proof -
  have "ks \<noteq> [] \<Longrightarrow> is_link (last ks)" using file_chain_links [OF assms] by simp
  then show "unat (last_cluster ks) = (if ks = [] then 0 else last ks)" "unat (last_cluster ks) < 65536"
    "2 \<le> last_cluster ks \<longleftrightarrow> ks \<noteq> []"
    by (auto simp: last_cluster_def is_link_def unat_of_nat_u32 word_le_nat_alt)
qed

lemma take_cluster_entries:
  assumes "volume s T" and "own_chain s T c ks" and "k \<in> free_clusters s" and "in_fat s j"
  shows "fat_entry (take_cluster s (last_cluster ks) k) j =
    (if ks \<noteq> [] \<and> j = last ks then of_nat k else if j = k then 0x0FFF else fat_entry s j)"
proof -
  note own = own_chainD [OF assms(2)] and ready = tree_readyD [OF volumeD(5) [OF assms(1)]]
  note cur = unat_last_cluster [OF own(1)]
  have k: "in_fat s k" "k < 4080" using assms(3) by (simp_all add: free_clusters_def)
  have "in_fat s (unat (last_cluster ks))" if "2 \<le> last_cluster ks"
    using that cur own(3) [of "last ks"] by simp
  from fat_entry_take_cluster [OF ready(1) k(1) this assms(4) k(2)] show ?thesis
    using cur by (simp split: if_splits)
qed

lemma same_behind_take_cluster:
  assumes "volume s T" and "own_chain s T c ks" and "in_fat s k"
  shows "same_behind s (take_cluster s (last_cluster ks) k)"
proof -
  note own = own_chainD [OF assms(2)] and ready = tree_readyD [OF volumeD(5) [OF assms(1)]]
  note cur = unat_last_cluster [OF own(1)]
  let ?u = "put_fat_entry s k 0x0FFF"
  have first: "same_behind s ?u" by (rule same_behind_put_fat_entry [OF ready(1,3) assms(3)])
  have "same_behind ?u (put_fat_entry ?u (unat (last_cluster ks)) (of_nat k))" if "ks \<noteq> []"
    using ready(1,3) own(3) [of "last ks"] that cur(1) same_behindD(1) [OF first]
    by (intro same_behind_put_fat_entry) (simp_all add: fat.ok_put fat.valid_put)
  then show ?thesis
    using first cur(3) same_behind_trans [OF first] by (auto simp: take_cluster_def Let_def)
qed

lemma take_cluster_frame:
  assumes "volume s T" and "dirs_marked s T" and "own_chain s T c ks" and "k \<in> free_clusters s"
  shows "same_entries s (take_cluster s (last_cluster ks) k) (insert k (set ks))"
    and "dirs_avoid s T (insert k (set ks))" and "k \<notin> set ks" and "is_link k" and "in_fat s k"
proof -
  note own = own_chainD [OF assms(3)]
  have k: "2 \<le> k" "k < 4080" "in_fat s k" "fat_entry s k = 0" using assms(4) by (simp_all add: free_clusters_def)
  then show "is_link k" "in_fat s k" by (simp_all add: is_link_def)
  show "k \<notin> set ks" using own(4) k(4) by blast
  show "dirs_avoid s T (insert k (set ks))" by (rule dirs_avoid_free [OF assms(2) k(4) own(5)])
  show "same_entries s (take_cluster s (last_cluster ks) k) (insert k (set ks))"
    unfolding same_entries_def using take_cluster_entries [OF assms(1,3,4)] by auto
qed

lemma take_cluster_tree_ready:
  assumes "volume s T" and "own_chain s T c ks" and "k \<in> free_clusters s"
  shows "tree_ready (take_cluster s (last_cluster ks) k)"
proof -
  let ?u = "take_cluster s (last_cluster ks) k"
  note ready = tree_readyD [OF volumeD(5) [OF assms(1)]]
  have k: "in_fat s k" "k < 4080" using assms(3) by (simp_all add: free_clusters_def)
  note same = same_behindD [OF same_behind_take_cluster [OF assms(1,2) k(1)]]
  have of_nat_k: "unat (of_nat k :: u16) = k" using k(2) by (simp add: unat_of_nat take_bit_nat_eq_self)
  have "fat.links_closed ?u"
    unfolding fat.links_closed_def same(3)
  proof (intro allI impI)
    fix j assume j: "is_link j \<and> in_fat s j" "is_link (unat (fat_entry ?u j))"
    then show "in_fat s (unat (fat_entry ?u j))"
      using take_cluster_entries [OF assms, of j] ready(5) k(1) of_nat_k
      by (auto simp: fat.links_closed_def is_link_def split: if_splits)
  qed
  then show ?thesis using ready same(1) by (simp add: tree_ready_def)
qed

lemma take_cluster_volume:
  assumes "volume s T" and "dirs_marked s T" and "own_chain s T c ks" and "k \<in> free_clusters s"
  shows "volume (take_cluster s (last_cluster ks) k) T"
    and "dirs_marked (take_cluster s (last_cluster ks) k) T"
proof -
  let ?u = "take_cluster s (last_cluster ks) k"
  note frame = take_cluster_frame [OF assms]
  note same = same_behindD [OF same_behind_take_cluster [OF assms(1,3) frame(5)]]
  show "volume ?u T"
  proof (rule volume_frame [OF assms(1) take_cluster_tree_ready [OF assms(1,3,4)] same(1) _ frame(2)])
    show "fat_entry ?u j = fat_entry s j" if "in_fat s j" "j \<notin> insert k (set ks)" for j
      by (rule same_entriesD [OF frame(1) that])
    show "dev ?u (fst p) = dev s (fst p)" if "T dc \<noteq> None" "dir_slot s dc i = Some p" for dc i p
      using same(4) dir_slot_behind_fat(1) [OF dir_storeD(1,2) [OF volumeD(2) [OF assms(1) that(1)]] that(2)]
      by blast
  qed
  show "dirs_marked ?u T" by (rule dirs_marked_frame [OF assms(1) frame(1,2) assms(2)])
qed

text \<open>The file has grown by the cluster \<open>k\<close>; nothing else that owns its clusters has changed.\<close>

lemma take_cluster_own:
  assumes "volume s T" and "dirs_marked s T" and "own_chain s T c ks" and "k \<in> free_clusters s"
  shows "own_chain (take_cluster s (last_cluster ks) k) T (if ks = [] then of_nat k else c) (ks @ [k])"
proof -
  let ?u = "take_cluster s (last_cluster ks) k"
  note frame = take_cluster_frame [OF assms] and own = own_chainD [OF assms(3)]
  note same = same_behindD [OF same_behind_take_cluster [OF assms(1,3) frame(5)]]
  note entry = take_cluster_entries [OF assms(1,3,4)]
  have small: "k < 4080" using assms(4) by (simp add: free_clusters_def)
  have of_nat_k: "unat (of_nat k :: u16) = k" "unat (of_nat k :: u32) = k"
    using small by (simp_all add: unat_of_nat take_bit_nat_eq_self)
  have k: "fat_entry ?u k = 0x0FFF" using entry [OF frame(5)] frame(3) by (cases "ks = []") auto
  have "file_chain ?u (if ks = [] then of_nat k else c) (ks @ [k])"
  proof (cases "ks = []")
    case True
    then show ?thesis using frame(4) k of_nat_k by (simp add: file_chain_def is_link_def)
  next
    case False
    then have c: "is_link (unat c)" "fat_chain (fat_entry s) (unat c) ks" using own(1) by (auto simp: file_chain_def)
    have "fat_chain (fat_entry ?u) (unat c) (ks @ [k])"
    proof (rule fat_chain_snoc [OF c(2) False frame(4)])
      show "\<not> is_link (unat (fat_entry ?u k))" unfolding k by (simp add: is_link_def)
      show "unat (fat_entry ?u (last ks)) = k" using False entry [OF own(3)] of_nat_k by simp
      have "distinct ks" by (rule file_chain_distinct [OF own(1)])
      then have "last ks \<notin> set (butlast ks)" using False by (metis append_butlast_last_id distinct_append
            disjoint_insert(1) list.set_intros(1) list.simps(15) not_distinct_conv_prefix)
      then show "fat_entry ?u j = fat_entry s j" if "j \<in> set (butlast ks)" for j
        using that frame(3) entry [OF own(3), of j] in_set_butlastD [OF that] by auto
    qed
    then show ?thesis using False c(1) by (simp add: file_chain_def)
  qed
  moreover have "in_fat ?u j \<and> fat_entry ?u j \<noteq> 0" if "j \<in> set (ks @ [k])" for j
  proof -
    have j: "in_fat s j" using that own(3) frame(5) by auto
    have "k \<noteq> 0" using frame(4) by (auto simp: is_link_def)
    then have "(of_nat k :: u16) \<noteq> 0" using of_nat_k(1) by force
    then show ?thesis using entry [OF j] that own(4) j same(3) by auto
  qed
  moreover have "dirs_avoid ?u T (set (ks @ [k]))"
    using dirs_avoid_frame [OF assms(1) frame(1,2) frame(2)] by simp
  ultimately show ?thesis unfolding own_chain_def by blast
qed

lemma take_cluster_free:
  assumes "volume s T" and "own_chain s T c ks" and "k \<in> free_clusters s"
  shows "free_clusters (take_cluster s (last_cluster ks) k) = free_clusters s - {k}"
proof -
  let ?u = "take_cluster s (last_cluster ks) k"
  note own = own_chainD [OF assms(2)]
  have k: "in_fat s k" "2 \<le> k" "k < 4080" using assms(3) by (simp_all add: free_clusters_def)
  have k0: "(of_nat k :: u16) \<noteq> 0" using k(2,3) by (simp add: word_unat_eq_iff unat_of_nat take_bit_nat_eq_self)
  note same = same_behindD [OF same_behind_take_cluster [OF assms(1,2) k(1)]]
  note entry = take_cluster_entries [OF assms]
  show ?thesis
    unfolding free_clusters_def same(3)
    using entry own(4) k0 by (auto split: if_splits)
qed

end
