(* ===== verification/Fat12_Stores.thy ===== *)
theory Fat12_Stores
  imports Fat12_Append Fat12_Write
begin

text \<open>
  The two stores of \<open>fat12_write\<close> of \<open>kernel/fat12.c\<close>: a sector of the file, and the directory
  entry of the file. Both leave the table and every other file alone.
\<close>

section \<open>Where the table does not change\<close>

lemma same_entries_keep:
  assumes "volume s T" and "same_entries s t {}" and "fat12_geom t = fat12_geom s"
  shows "dirs_marked s T \<Longrightarrow> dirs_marked t T" and "own_chain s T c ls \<Longrightarrow> own_chain t T c ls"
    and "free_clusters t = free_clusters s"
proof -
  have none: "dirs_avoid s T {}" by (simp add: dirs_avoid_def)
  show "dirs_marked s T \<Longrightarrow> dirs_marked t T" by (rule dirs_marked_frame [OF assms(1,2) none])
  show "own_chain s T c ls \<Longrightarrow> own_chain t T c ls"
    by (rule own_chain_frame [OF assms(1,2) none _ _ assms(3)]) simp_all
  have "fat_size t = fat_size s" using assms(3) by (simp add: fat_size_def)
  then show "free_clusters t = free_clusters s"
    using same_entriesD [OF assms(2)] by (auto simp: free_clusters_def)
qed

section \<open>A sector of a file\<close>

definition put_sector :: "image fat12_state \<Rightarrow> u32 \<Rightarrow> bytes \<Rightarrow> image fat12_state" where
  "put_sector s sec buf = s\<lparr>dev := (dev s)(sec := buf)\<rparr>"

lemma put_sector_fields [simp]:
  "fat12_geom (put_sector s sec buf) = fat12_geom s" "open_files (put_sector s sec buf) = open_files s"
  "drive (put_sector s sec buf) = drive s" "dev (put_sector s sec buf) = (dev s)(sec := buf)"
  "fat_size (put_sector s sec buf) = fat_size s"
  by (simp_all add: put_sector_def fat_size_def)

lemma put_sector_effect:
  assumes "volume s T" and "own_chain s T c ks" and "sec \<in> set (file_sectors (fat12_geom s) ks)"
    and "length buf = 512"
  shows "same_entries s (put_sector s sec buf) {}" and "volume (put_sector s sec buf) T"
    and "own_chain s T c' ls \<Longrightarrow> set ls \<inter> set ks = {} \<Longrightarrow>
      file_content (put_sector s sec buf) ls = file_content s ls"
proof -
  let ?t = "put_sector s sec buf" and ?g = "fat12_geom s"
  note ready = tree_readyD [OF volumeD(5) [OF assms(1)]] and own = own_chainD [OF assms(2)]
  have links: "\<forall>k \<in> set ks. is_link k" using file_chain_links [OF own(1)] by blast
  have behind: "unat (root_dir_start_sector ?g) \<le> unat sec"
    using file_sector_behind [OF ready(2) links assms(3)] unat_data_start [OF ready(2)] by linarith
  show same: "same_entries s ?t {}"
    unfolding same_entries_def put_sector_def
    using fat_entry_put_behind [OF ready(1,3) _ behind] by simp
  have none: "dirs_avoid s T {}" by (simp add: dirs_avoid_def)
  have "fat_ready ?t" using ready(1) assms(4) unfolding fat_ready_def on_ideal_def by simp
  moreover have "fat.links_closed ?t"
    using ready(5) same_entriesD [OF same] unfolding fat.links_closed_def by simp
  ultimately have ready': "tree_ready ?t" using ready(3,4) by (simp add: tree_ready_def)
  show "volume ?t T"
  proof (rule volume_frame [OF assms(1) ready' _ _ none])
    show "fat_entry ?t j = fat_entry s j" if "in_fat s j" "j \<notin> {}" for j
      by (rule same_entriesD [OF same that])
    show "dev ?t (fst p) = dev s (fst p)" if "T dc \<noteq> None" "dir_slot s dc i = Some p" for dc i p
      using dir_slot_avoids [OF assms(1) that(1) own(5) links that(2)] assms(3) by auto
  qed simp
  assume ls: "own_chain s T c' ls" "set ls \<inter> set ks = {}"
  have "\<forall>k \<in> set ks \<union> set ls. is_link k" using links file_chain_links [OF own_chainD(1) [OF ls(1)]] by blast
  then have "set (file_sectors ?g ks) \<inter> set (file_sectors ?g ls) = {}"
    using ls(2) by (intro file_sectors_disjoint [OF ready(2)]) auto
  then show "file_content ?t ls = file_content s ls"
    using assms(3) by (intro file_content_cong) auto
qed

text \<open>In the contents of the file the sector is the block at its index.\<close>

lemma concat_update:
  assumes "\<forall>x \<in> set xss. length x = m" and "j < length xss" and "r + length ys \<le> m"
  shows "concat (xss[j := put_bytes (xss ! j) r ys]) = put_bytes (concat xss) (j * m + r) ys"
proof -
  let ?p = "concat (take j xss)" and ?q = "concat (drop (Suc j) xss)" and ?x = "xss ! j"
  have x: "length ?x = m" using assms(1,2) by simp
  have "length (concat (take j xss)) = length (take j xss) * m"
    using assms(1) by (intro length_concat_uniform) (auto dest: in_set_takeD)
  then have p: "length ?p = j * m" using assms(2) by simp
  have all: "concat xss = ?p @ ?x @ ?q"
    using assms(2) by (metis concat.simps(2) concat_append id_take_nth_drop)
  have "concat (xss[j := put_bytes ?x r ys]) = ?p @ put_bytes ?x r ys @ ?q"
    using assms(2) by (simp add: upd_conv_take_nth_drop)
  then show ?thesis
    unfolding all put_bytes_def using p x assms(3) by simp
qed

lemma file_content_put_sector:
  assumes "fat_ready s" and "distinct (file_sectors (fat12_geom s) ks)"
    and "i div 512 < length (file_sectors (fat12_geom s) ks)" and "i mod 512 + length ys \<le> 512"
    and "sec = file_sectors (fat12_geom s) ks ! (i div 512)"
  shows "file_content (put_sector s sec (put_bytes (dev s sec) (i mod 512) ys)) ks =
    put_bytes (file_content s ks) i ys"
proof -
  let ?secs = "file_sectors (fat12_geom s) ks" and ?j = "i div 512"
  let ?buf = "put_bytes (dev s sec) (i mod 512) ys"
  have "map ((dev s)(sec := ?buf)) ?secs = (map (dev s) ?secs)[?j := ?buf]"
    using assms(2,3,5) by (intro nth_equalityI) (auto simp: nth_list_update nth_eq_iff_index_eq)
  moreover have "\<forall>x \<in> set (map (dev s) ?secs). length x = 512" using assms(1) by simp
  from concat_update [OF this, of ?j "i mod 512" ys] have
    "concat ((map (dev s) ?secs)[?j := ?buf]) = put_bytes (concat (map (dev s) ?secs)) i ys"
    using assms(3-5) by simp
  ultimately show ?thesis by (simp add: file_content_def)
qed

section \<open>The directory entry of an open file\<close>

text \<open>The open file \<open>f\<close> is the entry of a file at this place in the tree.\<close>

definition entry_of :: "dir_tree \<Rightarrow> open_file \<Rightarrow> fat12_dir_entry" where
  "entry_of T f = the (T (of_parent_cluster f)) ! unat (of_entry_idx f)"

definition entry_at :: "dir_tree \<Rightarrow> open_file \<Rightarrow> bool" where
  "entry_at T f \<longleftrightarrow>
     T (of_parent_cluster f) \<noteq> None
     \<and> unat (of_entry_idx f) < length (the (T (of_parent_cluster f))) \<and> \<not> is_dir (entry_of T f)"

definition set_entry :: "dir_tree \<Rightarrow> open_file \<Rightarrow> fat12_dir_entry \<Rightarrow> dir_tree" where
  "set_entry T f e =
     T(of_parent_cluster f \<mapsto> (the (T (of_parent_cluster f)))[unat (of_entry_idx f) := e])"

lemma set_entry_dom: "entry_at T f \<Longrightarrow> set_entry T f e d = None \<longleftrightarrow> T d = None"
  by (auto simp: set_entry_def entry_at_def)

lemma entry_of_set_entry [simp]: "entry_at T f \<Longrightarrow> entry_of (set_entry T f e) f = e"
  by (auto simp: set_entry_def entry_of_def entry_at_def)

lemma set_entry_again [simp]:
  "of_parent_cluster f' = of_parent_cluster f \<Longrightarrow> of_entry_idx f' = of_entry_idx f \<Longrightarrow>
     set_entry (set_entry T f e) f' e' = set_entry T f e'"
  by (simp add: set_entry_def)

lemma set_entry_id: "entry_at T f \<Longrightarrow> set_entry T f (entry_of T f) = T"
  by (auto simp: set_entry_def entry_of_def entry_at_def)

lemma entry_at_set_entry: "entry_at T f \<Longrightarrow> \<not> is_dir e \<Longrightarrow> entry_at (set_entry T f e) f"
  by (auto simp: set_entry_def entry_of_def entry_at_def)

lemma entry_of_cong:
  "of_parent_cluster f' = of_parent_cluster f \<Longrightarrow> of_entry_idx f' = of_entry_idx f \<Longrightarrow>
     entry_of T f' = entry_of T f \<and> entry_at T f' = entry_at T f \<and> set_entry T f' e = set_entry T f e"
  by (simp add: entry_of_def entry_at_def set_entry_def)

text \<open>Rewriting the entry with fields that keep it a file.\<close>

definition file_update :: "(fat12_dir_entry \<Rightarrow> fat12_dir_entry) \<Rightarrow> bool" where
  "file_update upd \<longleftrightarrow>
     (\<forall>e. de_name (upd e) = de_name e \<and> de_ext (upd e) = de_ext e \<and> de_attr (upd e) = de_attr e)"

lemma update_dir_entry_effect:
  assumes "volume s T" and "entry_at T (open_files s ! i)" and "file_update upd"
  obtains p where "update_dir_entry ideal_floppy i upd s =
      Some (put_slot s p (upd (entry_of T (open_files s ! i))))"
    and "volume (put_slot s p (upd (entry_of T (open_files s ! i))))
      (set_entry T (open_files s ! i) (upd (entry_of T (open_files s ! i))))"
    and "same_entries s (put_slot s p (upd (entry_of T (open_files s ! i)))) {}"
    and "\<And>c ls. own_chain s T c ls \<Longrightarrow>
      file_content (put_slot s p (upd (entry_of T (open_files s ! i)))) ls = file_content s ls"
proof -
  let ?f = "open_files s ! i"
  let ?dc = "of_parent_cluster ?f" and ?j = "unat (of_entry_idx ?f)" and ?e = "upd (entry_of T ?f)"
  obtain es where es: "T ?dc = Some es" "?j < length es" "entry_of T ?f = es ! ?j" "\<not> is_dir (es ! ?j)"
    using assms(2) by (auto simp: entry_at_def entry_of_def)
  then have dc: "T ?dc \<noteq> None" by simp
  note st = dir_storeD [OF volumeD(2) [OF assms(1) dc]]
  note look = dir_holds_nth [OF volumeD(4) [OF assms(1) es(1)] es(2)]
  have look': "dir_lookup s ?dc (of_entry_idx ?f) = Some (es ! ?j)" using look by simp
  then obtain p where p: "dir_slot s ?dc (of_entry_idx ?f) = Some p" by (auto simp: dir_lookup_def)
  have wf: "wf_dir_entry (es ! ?j)" by (rule wf_dir_lookup [OF st(1,2) look'])
  have e: "wf_dir_entry ?e" "de_name ?e ! 0 \<noteq> 0" "\<not> is_dir ?e"
    using wf look es(3,4) assms(3) by (simp_all add: file_update_def wf_dir_entry_def is_dir_def)
  show thesis
  proof (rule that [of p])
    show "update_dir_entry ideal_floppy i upd s = Some (put_slot s p ?e)"
      using look' es(3) fat12_write_dir_entry_ideal [OF st(4) p, of ?e]
      by (simp add: update_dir_entry_def fat12_read_dir_entry_ideal [OF st(4)] Let_def)
    have "volume (put_slot s p ?e) (T(?dc \<mapsto> es[?j := ?e]))"
      using p e by (intro volume_put_slot [OF assms(1) es(1,2)]) (simp_all add: entry_closed_def)
    then show "volume (put_slot s p ?e) (set_entry T ?f ?e)" using es(1) by (simp add: set_entry_def)
    note behind = dir_slot_behind_fat [OF st(1,2) p]
    show "same_entries s (put_slot s p ?e) {}"
      unfolding same_entries_def using fat_entry_put_slot [OF st(1) _ behind(1)] by simp
    fix c ls assume own: "own_chain s T c ls"
    have "fst p \<notin> set (file_sectors (fat12_geom s) ls)"
      using file_chain_links [OF own_chainD(1) [OF own]]
      by (intro dir_slot_avoids [OF assms(1) dc own_chainD(5) [OF own] _ p]) blast
    then show "file_content (put_slot s p ?e) ls = file_content s ls"
      by (intro file_content_cong) (auto simp: put_slot_def)
  qed
qed

end
