(* ===== verification/Fat12_Write_Correct.thy ===== *)
theory Fat12_Write_Correct
  imports Fat12_Stores
begin

text \<open>
  The proof that \<open>fat12_write\<close> of \<open>kernel/fat12.c\<close> stores the given bytes at the cursor of an open
  file: the file grows by free clusters as far as it must, its directory entry follows, and
  nothing else in the volume changes.
\<close>

section \<open>An open file of a volume\<close>

definition sync_entry :: "dir_tree \<Rightarrow> open_file \<Rightarrow> dir_tree" where
  "sync_entry T f =
     set_entry T f ((entry_of T f)\<lparr>de_first_cluster_low := ucast (of_first_cluster f),
                                    de_file_size := of_file_size f\<rparr>)"

text \<open>
  The file number \<open>i\<close> names a file of the tree with the clusters \<open>ks\<close>, whose directory entry is up
  to date, and its cursor does not lie behind its end.
\<close>

definition open_at :: "image fat12_state \<Rightarrow> dir_tree \<Rightarrow> nat \<Rightarrow> nat list \<Rightarrow> bool" where
  "open_at s T i ks \<longleftrightarrow>
     volume s T \<and> dirs_marked s T \<and> length (open_files s) = 256 \<and> i < 256
     \<and> of_used (open_files s ! i) \<and> entry_at T (open_files s ! i)
     \<and> sync_entry T (open_files s ! i) = T
     \<and> own_chain s T (of_first_cluster (open_files s ! i)) ks
     \<and> of_cursor (open_files s ! i) \<le> of_file_size (open_files s ! i)
     \<and> unat (of_file_size (open_files s ! i)) \<le> length (file_content s ks)"

lemma open_atD:
  assumes "open_at s T i ks"
  shows "volume s T" and "dirs_marked s T" and "length (open_files s) = 256" and "i < 256"
    and "of_used (open_files s ! i)" and "entry_at T (open_files s ! i)"
    and "sync_entry T (open_files s ! i) = T"
    and "own_chain s T (of_first_cluster (open_files s ! i)) ks"
    and "of_cursor (open_files s ! i) \<le> of_file_size (open_files s ! i)"
    and "unat (of_file_size (open_files s ! i)) \<le> length (file_content s ks)"
  using assms by (simp_all add: open_at_def)

text \<open>The bytes of the file are those up to its size.\<close>

definition file_bytes :: "image fat12_state \<Rightarrow> nat \<Rightarrow> nat list \<Rightarrow> bytes" where
  "file_bytes s i ks = take (unat (of_file_size (open_files s ! i))) (file_content s ks)"

definition same_place :: "open_file \<Rightarrow> open_file \<Rightarrow> bool" where
  "same_place f f' \<longleftrightarrow>
     of_used f' = of_used f \<and> of_path f' = of_path f \<and> of_parent_cluster f' = of_parent_cluster f
     \<and> of_entry_idx f' = of_entry_idx f"

lemma same_place_entry:
  "same_place f f' \<Longrightarrow> entry_of T f' = entry_of T f \<and> entry_at T f' = entry_at T f
     \<and> set_entry T f' e = set_entry T f e \<and> of_used f' = of_used f"
  by (simp add: same_place_def entry_of_def entry_at_def set_entry_def)

lemma file_update_sync [simp]:
  "file_update (\<lambda>e. e\<lparr>de_first_cluster_low := c\<rparr>)" "file_update (\<lambda>e. e\<lparr>de_file_size := z\<rparr>)"
  by (simp_all add: file_update_def)

lemma sync_entry_dom: "entry_at T f \<Longrightarrow> sync_entry T f d = None \<longleftrightarrow> T d = None"
  by (simp add: sync_entry_def set_entry_dom)

lemma sync_entry_trans:
  assumes "entry_at T f" and "same_place f f'"
  shows "sync_entry (sync_entry T f) f' = sync_entry T f'"
  using assms(1) same_place_entry [OF assms(2)] by (simp add: sync_entry_def)

lemma entry_at_sync:
  assumes "entry_at T f" and "same_place f f'"
  shows "entry_at (sync_entry T f') f'"
proof -
  have "entry_at T f'" using assms same_place_entry by simp
  moreover from this have "\<not> is_dir (entry_of T f')" by (simp add: entry_at_def)
  ultimately show ?thesis unfolding sync_entry_def by (intro entry_at_set_entry) (simp_all add: is_dir_def)
qed

section \<open>Progress of a write\<close>

text \<open>
  \<open>grown s T i ks t ks'\<close>: \<open>t\<close> is a later state of the same open file. Its clusters come from the
  free ones, and every file apart from it has kept its clusters and contents.
\<close>

definition grown ::
    "image fat12_state \<Rightarrow> dir_tree \<Rightarrow> nat \<Rightarrow> nat list \<Rightarrow> image fat12_state \<Rightarrow> nat list \<Rightarrow> bool" where
  "grown s T i ks t ks' \<longleftrightarrow>
     open_at t (sync_entry T (open_files t ! i)) i ks'
     \<and> same_place (open_files s ! i) (open_files t ! i)
     \<and> (\<forall>j. j \<noteq> i \<longrightarrow> open_files t ! j = open_files s ! j)
     \<and> fat12_geom t = fat12_geom s
     \<and> length ks' + card (free_clusters t) = length ks + card (free_clusters s)
     \<and> (\<forall>c ls. own_chain s T c ls \<longrightarrow> set ls \<inter> set ks = {} \<longrightarrow>
          own_chain t T c ls \<and> set ls \<inter> set ks' = {} \<and> file_content t ls = file_content s ls)"

lemma grownD:
  assumes "grown s T i ks t ks'"
  shows "open_at t (sync_entry T (open_files t ! i)) i ks'"
    and "same_place (open_files s ! i) (open_files t ! i)"
    and "j \<noteq> i \<Longrightarrow> open_files t ! j = open_files s ! j"
    and "fat12_geom t = fat12_geom s"
    and "length ks' + card (free_clusters t) = length ks + card (free_clusters s)"
    and "own_chain s T c ls \<Longrightarrow> set ls \<inter> set ks = {} \<Longrightarrow> own_chain t T c ls"
    and "own_chain s T c ls \<Longrightarrow> set ls \<inter> set ks = {} \<Longrightarrow> set ls \<inter> set ks' = {}"
    and "own_chain s T c ls \<Longrightarrow> set ls \<inter> set ks = {} \<Longrightarrow> file_content t ls = file_content s ls"
proof -
  show "open_at t (sync_entry T (open_files t ! i)) i ks'"
    and "same_place (open_files s ! i) (open_files t ! i)"
    and "j \<noteq> i \<Longrightarrow> open_files t ! j = open_files s ! j"
    and "fat12_geom t = fat12_geom s"
    and "length ks' + card (free_clusters t) = length ks + card (free_clusters s)"
    using assms by (simp_all add: grown_def)
  assume "own_chain s T c ls" "set ls \<inter> set ks = {}"
  then show "own_chain t T c ls" "set ls \<inter> set ks' = {}" "file_content t ls = file_content s ls"
    using assms unfolding grown_def by blast+
qed

lemma same_place_refl [simp]: "same_place f f"
  by (simp add: same_place_def)

lemma same_place_trans: "same_place f g \<Longrightarrow> same_place g h \<Longrightarrow> same_place f h"
  by (simp add: same_place_def)

lemma grown_refl: "open_at s T i ks \<Longrightarrow> grown s T i ks s ks"
  by (simp add: grown_def open_atD(7))

lemma own_chain_sync: "entry_at T f \<Longrightarrow> own_chain s (sync_entry T f) c ls = own_chain s T c ls"
  by (rule dirs_cong(3)) (rule sync_entry_dom)

lemma grown_trans:
  assumes "entry_at T (open_files s ! i)" and "grown s T i ks t ks'"
    and "grown t (sync_entry T (open_files t ! i)) i ks' u ks''"
  shows "grown s T i ks u ks''"
proof -
  note g = grownD [OF assms(2)] and h = grownD [OF assms(3)]
  have at: "entry_at T (open_files t ! i)" using assms(1) same_place_entry [OF g(2)] by simp
  have sync: "sync_entry (sync_entry T (open_files t ! i)) (open_files u ! i) = sync_entry T (open_files u ! i)"
    by (rule sync_entry_trans [OF at h(2)])
  note own = own_chain_sync [OF at]
  show ?thesis
    unfolding grown_def
  proof (intro conjI allI impI)
    show "open_at u (sync_entry T (open_files u ! i)) i ks''" using h(1) unfolding sync .
    show "same_place (open_files s ! i) (open_files u ! i)" by (rule same_place_trans [OF g(2) h(2)])
    show "fat12_geom u = fat12_geom s" using g(4) h(4) by simp
    show "length ks'' + card (free_clusters u) = length ks + card (free_clusters s)" using g(5) h(5) by simp
    show "open_files u ! j = open_files s ! j" if "j \<noteq> i" for j using g(3) h(3) that by simp
    fix c ls assume ls: "own_chain s T c ls" "set ls \<inter> set ks = {}"
    have t: "own_chain t (sync_entry T (open_files t ! i)) c ls" using g(6) [OF ls] unfolding own .
    show "own_chain u T c ls" using h(6) [OF t g(7) [OF ls]] unfolding own .
    show "set ls \<inter> set ks'' = {}" by (rule h(7) [OF t g(7) [OF ls]])
    show "file_content u ls = file_content s ls" using h(8) [OF t g(7) [OF ls]] g(8) [OF ls] by simp
  qed
qed

section \<open>The first cluster\<close>

lemma open_at_entry:
  assumes "open_at s T i ks"
  shows "de_first_cluster_low (entry_of T (open_files s ! i)) = ucast (of_first_cluster (open_files s ! i))"
    and "de_file_size (entry_of T (open_files s ! i)) = of_file_size (open_files s ! i)"
proof -
  note o = open_atD [OF assms]
  let ?f = "open_files s ! i"
  have "entry_of T ?f = (entry_of T ?f)\<lparr>de_first_cluster_low := ucast (of_first_cluster ?f),
      de_file_size := of_file_size ?f\<rparr>"
    (is "_ = ?e")
    using arg_cong [OF o(7), of "\<lambda>T. entry_of T ?f"] entry_of_set_entry [OF o(6)]
    unfolding sync_entry_def by simp
  from arg_cong [OF this, of de_first_cluster_low] arg_cong [OF this, of de_file_size]
  show "de_first_cluster_low (entry_of T ?f) = ucast (of_first_cluster ?f)"
    "de_file_size (entry_of T ?f) = of_file_size ?f" by simp_all
qed

lemma ucast_of_nat_u16 [simp]: "(ucast (of_nat k :: u32) :: u16) = of_nat k"
  by (rule bit_word_eqI) (simp add: bit_simps)

text \<open>A store in the directory entry of the file that brings it up to date again.\<close>

lemma update_dir_entry_grown:
  assumes "volume s T" and "dirs_marked s T" and "length (open_files s) = 256" and "i < 256"
    and "entry_at T (open_files s ! i)" and "of_used (open_files s ! i)" and "file_update upd"
    and "set_entry T (open_files s ! i) (upd (entry_of T (open_files s ! i))) = sync_entry T (open_files s ! i)"
    and "own_chain s T (of_first_cluster (open_files s ! i)) ks"
    and "of_cursor (open_files s ! i) \<le> of_file_size (open_files s ! i)"
    and "unat (of_file_size (open_files s ! i)) \<le> length (file_content s ks)"
  obtains t where "update_dir_entry ideal_floppy i upd s = Some t"
    and "open_at t (sync_entry T (open_files s ! i)) i ks" and "open_files t = open_files s"
    and "fat12_geom t = fat12_geom s" and "free_clusters t = free_clusters s"
    and "\<And>c ls. own_chain s T c ls \<Longrightarrow> own_chain t T c ls \<and> file_content t ls = file_content s ls"
proof (rule update_dir_entry_effect [OF assms(1,5,7)])
  fix p
  let ?f = "open_files s ! i"
  assume p: "update_dir_entry ideal_floppy i upd s = Some (put_slot s p (upd (entry_of T ?f)))"
    "volume (put_slot s p (upd (entry_of T ?f))) (set_entry T ?f (upd (entry_of T ?f)))"
    "same_entries s (put_slot s p (upd (entry_of T ?f))) {}"
    "\<And>c ls. own_chain s T c ls \<Longrightarrow>
      file_content (put_slot s p (upd (entry_of T ?f))) ls = file_content s ls"
  let ?t = "put_slot s p (upd (entry_of T ?f))"
  note keep = same_entries_keep [OF assms(1) p(3)]
  have vol: "volume ?t (sync_entry T ?f)" using p(2) assms(8) by simp
  have at: "entry_at (sync_entry T ?f) ?f" by (rule entry_at_sync [OF assms(5)]) simp
  have sync: "sync_entry (sync_entry T ?f) ?f = sync_entry T ?f" by (rule sync_entry_trans [OF assms(5)]) simp
  have marked: "dirs_marked ?t (sync_entry T ?f)"
    using keep(1) assms(2) dirs_cong(2) [OF sync_entry_dom [OF assms(5)]] by simp
  have own: "own_chain ?t (sync_entry T ?f) (of_first_cluster ?f) ks"
    using keep(2) [OF _ assms(9)] own_chain_sync [OF assms(5)] by simp
  show thesis
  proof (rule that [OF p(1)])
    show "open_at ?t (sync_entry T ?f) i ks"
      using vol at sync marked own assms p(4) [OF assms(9)] by (simp add: open_at_def)
    show "own_chain ?t T c ls \<and> file_content ?t ls = file_content s ls" if "own_chain s T c ls" for c ls
      using p(4) [OF that] keep(2) [OF _ that] by simp
  qed (use keep(3) in simp_all)
qed

lemma ensure_first_cluster_present:
  assumes "ks \<noteq> []" and "open_at s T i ks"
  shows "ensure_first_cluster F i s = Some (True, s)"
proof -
  have "is_link (unat (of_first_cluster (open_files s ! i)))"
    using own_chainD(1) [OF open_atD(8) [OF assms(2)]] assms(1) by (auto simp: file_chain_def)
  then have "of_first_cluster (open_files s ! i) \<noteq> 0" by (auto simp: is_link_def)
  then show ?thesis by (simp add: ensure_first_cluster_def)
qed

text \<open>A new cluster for the file, seen from the file number.\<close>

lemma take_cluster_open:
  assumes "open_at s T i ks" and "k \<in> free_clusters s"
  shows "open_files (take_cluster s (last_cluster ks) k) = open_files s"
    and "fat12_geom (take_cluster s (last_cluster ks) k) = fat12_geom s"
    and "free_clusters (take_cluster s (last_cluster ks) k) = free_clusters s - {k}"
    and "own_chain s T c ls \<Longrightarrow> file_content (take_cluster s (last_cluster ks) k) ls = file_content s ls"
    and "own_chain s T c ls \<Longrightarrow> set ls \<inter> set ks = {} \<Longrightarrow>
      own_chain (take_cluster s (last_cluster ks) k) T c ls \<and> k \<notin> set ls"
proof -
  note o = open_atD [OF assms(1)]
  note frame = take_cluster_frame [OF o(1,2,8) assms(2)]
  note behind = same_behind_take_cluster [OF o(1,8) frame(5)]
  note same = same_behindD [OF behind]
  show "open_files (take_cluster s (last_cluster ks) k) = open_files s"
    "fat12_geom (take_cluster s (last_cluster ks) k) = fat12_geom s" by (fact same)+
  show "free_clusters (take_cluster s (last_cluster ks) k) = free_clusters s - {k}"
    by (rule take_cluster_free [OF o(1,8) assms(2)])
  show "own_chain s T c ls \<Longrightarrow> file_content (take_cluster s (last_cluster ks) k) ls = file_content s ls"
    using file_chain_links own_chainD(1)
    by (intro file_content_behind [OF tree_readyD(1) [OF volumeD(5) [OF o(1)]] behind]) blast
  assume ls: "own_chain s T c ls" "set ls \<inter> set ks = {}"
  have "k \<notin> set ls" using own_chainD(4) [OF ls(1)] assms(2) by (auto simp: free_clusters_def)
  moreover from this have "set ls \<inter> insert k (set ks) = {}" using ls(2) by blast
  ultimately show "own_chain (take_cluster s (last_cluster ks) k) T c ls \<and> k \<notin> set ls"
    using own_chain_frame [OF o(1) frame(1,2) ls(1) _ same(1)] by blast
qed

lemma file_content_append: "file_content s (ks @ ls) = file_content s ks @ file_content s ls"
  by (simp add: file_content_def file_sectors_def)

lemma same_disk_keep:
  assumes "same_disk s t"
  shows "free_clusters t = free_clusters s"
  by (simp add: free_clusters_def same_diskD [OF assms])

lemma card_free_take: "k \<in> free_clusters s \<Longrightarrow> Suc (card (free_clusters s - {k})) = card (free_clusters s)"
  by (rule card_Suc_Diff1 [OF finite_free_clusters])

lemma same_size_update:
  "de_file_size e = z \<Longrightarrow> e\<lparr>de_first_cluster_low := c, de_file_size := z\<rparr> = e\<lparr>de_first_cluster_low := c\<rparr>"
  by (cases e) simp

lemma same_first_update:
  "de_first_cluster_low e = c \<Longrightarrow> e\<lparr>de_first_cluster_low := c, de_file_size := z\<rparr> = e\<lparr>de_file_size := z\<rparr>"
  by (cases e) simp

lemma ensure_first_cluster_grown:
  assumes "open_at s T i []" and "free_clusters s \<noteq> {}"
  obtains t k where "ensure_first_cluster ideal_floppy i s = Some (True, t)" and "grown s T i [] t [k]"
    and "of_cursor (open_files t ! i) = of_cursor (open_files s ! i)"
    and "of_file_size (open_files t ! i) = of_file_size (open_files s ! i)"
proof -
  note o = open_atD [OF assms(1)]
  let ?f = "open_files s ! i"
  obtain k where k: "first_free s = Some k" "k \<in> free_clusters s" by (rule first_free_cluster [OF assms(2)])
  let ?u = "take_cluster s 0 k" and ?c = "of_nat k :: u32"
  let ?v = "upd_file i (\<lambda>f. f\<lparr>of_first_cluster := ?c\<rparr>) ?u"
  let ?upd = "\<lambda>e. e\<lparr>de_first_cluster_low := word_of_int (int k)\<rparr>"
  have last: "last_cluster [] = 0" by (simp add: last_cluster_def)
  note take = take_cluster_open [OF assms(1) k(2), unfolded last]
  note tv = take_cluster_volume [OF o(1,2,8) k(2), unfolded last]
  have own_u: "own_chain ?u T ?c [k]" using take_cluster_own [OF o(1,2,8) k(2)] by (simp add: last)
  have disk: "same_disk ?u ?v" by simp
  note keep = own_chain_same_disk [OF disk]
  have f: "open_files ?v ! i = ?f\<lparr>of_first_cluster := ?c\<rparr>" "length (open_files ?v) = 256"
    using o(3,4) take(1) by simp_all
  have place: "same_place ?f (open_files ?v ! i)" unfolding f by (simp add: same_place_def)
  note at = same_place_entry [OF place]
  have "fat_ready s" using tree_readyD(1) [OF volumeD(5) [OF o(1)]] .
  then have alloc: "fat12_allocate_cluster ideal_floppy 0 s = Some (int k, ?u)"
    using k(1) by (simp add: fat12_allocate_cluster_ideal)
  show thesis
  proof (rule update_dir_entry_grown [of ?v T i ?upd "[k]"])
    show "volume ?v T" using tv(1) volume_same_disk [OF disk] by simp
    show "dirs_marked ?v T" using tv(2) keep(2) by simp
    show "entry_at T (open_files ?v ! i)" using o(6) at by simp
    show "of_used (open_files ?v ! i)" using o(5) at by simp
    show "set_entry T (open_files ?v ! i) (?upd (entry_of T (open_files ?v ! i))) = sync_entry T (open_files ?v ! i)"
      using at same_size_update [OF open_at_entry(2) [OF assms(1)]] f by (simp add: sync_entry_def)
    show "own_chain ?v T (of_first_cluster (open_files ?v ! i)) [k]" using own_u keep(1) f by simp
    show "of_cursor (open_files ?v ! i) \<le> of_file_size (open_files ?v ! i)" using o(9) f by simp
    show "unat (of_file_size (open_files ?v ! i)) \<le> length (file_content ?v [k])"
      using o(10) f by (simp add: file_content_def file_sectors_def)
    fix t assume t: "update_dir_entry ideal_floppy i ?upd ?v = Some t"
      "open_at t (sync_entry T (open_files ?v ! i)) i [k]" "open_files t = open_files ?v"
      "fat12_geom t = fat12_geom ?v" "free_clusters t = free_clusters ?v"
      "\<And>c ls. own_chain ?v T c ls \<Longrightarrow> own_chain t T c ls \<and> file_content t ls = file_content ?v ls"
    show thesis
    proof (rule that [of t k])
      show "ensure_first_cluster ideal_floppy i s = Some (True, t)"
      proof (cases "of_first_cluster ?f = 0")
        case True
        with alloc t(1) show ?thesis by (simp add: ensure_first_cluster_def)
      next
        case False
        with own_chainD(2) [OF o(8)] show ?thesis by simp
      qed
      show "of_cursor (open_files t ! i) = of_cursor ?f" "of_file_size (open_files t ! i) = of_file_size ?f"
        using t(3) f by simp_all
      show "grown s T i [] t [k]"
        unfolding grown_def
      proof (intro conjI allI impI)
        show "open_at t (sync_entry T (open_files t ! i)) i [k]" using t(2,3) by simp
        show "same_place ?f (open_files t ! i)" using place t(3) by simp
        show "open_files t ! j = open_files s ! j" if "j \<noteq> i" for j
          using that t(3) take(1) by (simp add: upd_file_def)
        show "fat12_geom t = fat12_geom s" using t(4) take(2) by simp
        show "length [k] + card (free_clusters t) = length [] + card (free_clusters s)"
          using t(5) same_disk_keep [OF disk] take(3) card_free_take [OF k(2)] by simp
        fix c ls assume ls: "own_chain s T c ls" "set ls \<inter> set [] = {}"
        have "own_chain ?v T c ls" using take(5) [OF ls] keep(1) by simp
        from t(6) [OF this] show "own_chain t T c ls" "file_content t ls = file_content s ls"
          using take(4) [OF ls(1)] by simp_all
        show "set ls \<inter> set [k] = {}" using take(5) [OF ls] by simp
      qed
    qed
  qed (use o f in simp_all)
qed

section \<open>The walk to the cluster of the cursor\<close>

lemma write_walk_ideal:
  "fat_ready s \<Longrightarrow> unat c < 65536 \<Longrightarrow> chain_nth (fat_entry s) (unat c) n = Some k \<Longrightarrow>
     write_walk ideal_floppy c n s = Some (Some (of_nat k), s)"
proof (induction n arbitrary: c)
  case (Suc n)
  let ?w = "fat_entry s (unat c)"
  have "unat (ucast ?w :: u32) < 65536" by (simp add: unat_u16_less)
  with Suc.IH [of "ucast ?w"] Suc.prems show ?case
    by (auto simp: disk_simps is_link_unat_iff split: if_splits)
qed auto

text \<open>A walk one past the end of the chain takes the first free cluster.\<close>

lemma write_walk_append:
  "fat_ready s \<Longrightarrow> first_free s = Some k \<Longrightarrow> fat_chain (fat_entry s) (unat c) ks \<Longrightarrow> ks \<noteq> [] \<Longrightarrow>
     write_walk ideal_floppy c (length ks) s = Some (Some (of_nat k), take_cluster s (last_cluster ks) k)"
proof (induction ks arbitrary: c rule: list.induct)
  case (Cons j ks)
  let ?w = "fat_entry s (unat c)"
  have j: "j = unat c" "is_link (unat c)" "fat_chain (fat_entry s) (unat ?w) ks" using Cons.prems(3) by auto
  then have c: "unat c < 65536" by (simp add: is_link_def)
  show ?case
  proof (cases "ks = []")
    case True
    then have "\<not> is_link (unat ?w)" using j(3) by simp
    then have "(ucast ?w :: u32) < 2 \<or> (ucast ?w :: u32) \<ge> 0x0FF8" by (simp add: is_link_unat_iff)
    with True j(1) c Cons.prems(1,2) show ?thesis
      by (simp add: disk_simps fat12_allocate_cluster_ideal last_cluster_def)
  next
    case False
    then have "is_link (unat ?w)" using j(3) by (cases ks) auto
    then have "\<not> ((ucast ?w :: u32) < 2 \<or> (ucast ?w :: u32) \<ge> 0x0FF8)" by (simp add: is_link_unat_iff)
    moreover have "last_cluster (j # ks) = last_cluster ks" using False by (simp add: last_cluster_def)
    ultimately show ?thesis
      using Cons.IH [OF Cons.prems(1,2) _ False, of "ucast ?w"] j(3) c Cons.prems(1)
      by (simp add: disk_simps)
  qed
qed simp

lemma write_walk_grown:
  assumes "open_at s T i ks" and "ks \<noteq> []" and "n \<le> length ks" and "n = length ks \<Longrightarrow> free_clusters s \<noteq> {}"
  obtains t ks' x where "write_walk ideal_floppy (of_first_cluster (open_files s ! i)) n s =
      Some (Some (of_nat (ks' ! n)), t)"
    and "grown s T i ks t ks'" and "n < length ks'" and "open_files t = open_files s"
    and "file_content t ks' = file_content s ks @ x"
proof -
  note o = open_atD [OF assms(1)]
  let ?c = "of_first_cluster (open_files s ! i)"
  note ready = tree_readyD(1) [OF volumeD(5) [OF o(1)]]
  note own = own_chainD [OF o(8)]
  have ch: "is_link (unat ?c)" "fat_chain (fat_entry s) (unat ?c) ks"
    using own(1) assms(2) by (auto simp: file_chain_def)
  show thesis
  proof (cases "n < length ks")
    case True
    then have "chain_nth (fat_entry s) (unat ?c) n = Some (ks ! n)" using chain_nth_of_chain [OF ch(2)] by simp
    from write_walk_ideal [OF ready file_chain_less [OF own(1)] this] True grown_refl [OF assms(1)]
    show thesis by (intro that [of ks s "[]"]) simp_all
  next
    case False
    with assms(3) have n: "n = length ks" by simp
    obtain k where k: "first_free s = Some k" "k \<in> free_clusters s"
      by (rule first_free_cluster [OF assms(4) [OF n]])
    let ?u = "take_cluster s (last_cluster ks) k"
    note take = take_cluster_open [OF assms(1) k(2)]
    note tv = take_cluster_volume [OF o(1,2,8) k(2)]
    have content: "file_content ?u (ks @ [k]) = file_content s ks @ file_content ?u [k]"
      using take(4) [OF o(8)] by (simp add: file_content_append)
    have own_u: "own_chain ?u T ?c (ks @ [k])" using take_cluster_own [OF o(1,2,8) k(2)] assms(2) by simp
    have "open_at ?u T i (ks @ [k])"
      using o tv own_u take(1) content by (simp add: open_at_def)
    then have "grown s T i ks ?u (ks @ [k])"
      unfolding grown_def using take o(7) card_free_take [OF k(2)] by auto
    moreover have "(ks @ [k]) ! n = k" using n by simp
    ultimately show thesis
      using write_walk_append [OF ready k(1) ch(2) assms(2)] n content take(1)
      by (intro that [of "ks @ [k]" ?u "file_content ?u [k]"]) simp_all
  qed
qed

lemma prepare_cluster:
  assumes "open_at s T i ks" and "n \<le> length ks" and "n = length ks \<Longrightarrow> free_clusters s \<noteq> {}"
  obtains u t ks' x where "ensure_first_cluster ideal_floppy i s = Some (True, u)"
    and "write_walk ideal_floppy (of_first_cluster (open_files u ! i)) n u = Some (Some (of_nat (ks' ! n)), t)"
    and "grown s T i ks t ks'" and "n < length ks'"
    and "of_cursor (open_files t ! i) = of_cursor (open_files s ! i)"
    and "of_file_size (open_files t ! i) = of_file_size (open_files s ! i)"
    and "file_content t ks' = file_content s ks @ x"
proof (cases "ks = []")
  case True
  obtain u k where u: "ensure_first_cluster ideal_floppy i s = Some (True, u)" "grown s T i [] u [k]"
    "of_cursor (open_files u ! i) = of_cursor (open_files s ! i)"
    "of_file_size (open_files u ! i) = of_file_size (open_files s ! i)"
    by (rule ensure_first_cluster_grown [OF assms(1,3) [unfolded True]]) (use assms(2) True in simp_all)
  have "of_first_cluster (open_files u ! i) = of_nat k"
  proof -
    have "fat_chain (fat_entry u) (unat (of_first_cluster (open_files u ! i))) [k]"
      using own_chainD(1) [OF open_atD(8) [OF grownD(1) [OF u(2)]]] by (auto simp: file_chain_def)
    then have "k = unat (of_first_cluster (open_files u ! i))" by simp
    then show ?thesis by simp
  qed
  with True assms(2) u show thesis
    by (intro that [of u "[k]" u "file_content u [k]"]) (simp_all add: file_content_def file_sectors_def)
next
  case False
  note present = ensure_first_cluster_present [OF False assms(1), of ideal_floppy]
  show thesis
  proof (rule write_walk_grown [OF assms(1) False assms(2,3)])
    fix t ks' x
    assume "write_walk ideal_floppy (of_first_cluster (open_files s ! i)) n s = Some (Some (of_nat (ks' ! n)), t)"
      "grown s T i ks t ks'" "n < length ks'" "open_files t = open_files s"
      "file_content t ks' = file_content s ks @ x"
    then show thesis using present by (intro that [of s ks' t x]) simp_all
  qed
qed

end
