(* ===== verification/Fat12_Write_Loop.thy ===== *)
theory Fat12_Write_Loop
  imports Fat12_Write_Correct
begin

text \<open>
  The loop of \<open>fat12_write\<close> of \<open>kernel/fat12.c\<close>: one chunk is the preparation of the cluster, the
  store of the sector and the step of the cursor; the whole write is the chunks one after the
  other.
\<close>

section \<open>Stores in a byte sequence\<close>

lemma put_bytes_twice:
  assumes "off \<le> length b"
  shows "put_bytes (put_bytes b off xs) (off + length xs) ys = put_bytes b off (xs @ ys)"
proof -
  let ?p = "take off b @ xs"
  have p: "length ?p = off + length xs" using assms by simp
  have "put_bytes b off xs = ?p @ drop (off + length xs) b" by (simp add: put_bytes_def)
  then have "put_bytes (put_bytes b off xs) (off + length xs) ys =
      ?p @ ys @ drop (length ys) (drop (off + length xs) b)"
    using put_bytes_append [of ?p _ ys] unfolding p by simp
  then show ?thesis by (simp add: put_bytes_def ac_simps)
qed

lemma take_put_bytes:
  assumes "off \<le> z" and "z \<le> length b" and "off + length ys \<le> length (b @ x)"
  shows "take (max z (off + length ys)) (put_bytes (b @ x) off ys) = put_bytes (take z b) off ys"
proof -
  let ?e = "off + length ys"
  have front: "take off (b @ x) = take off (take z b)" using assms by (simp add: min_def)
  have len: "length (take off (b @ x)) = off" using assms by simp
  have rear: "take (max z ?e - ?e) (drop ?e (b @ x)) = drop ?e (take z b)"
  proof (cases "?e \<le> z")
    case True
    have z: "take z (b @ x) = take z b" using assms(2) by simp
    have "take (max z ?e - ?e) (drop ?e (b @ x)) = drop ?e (take z (b @ x))"
      unfolding drop_take using True by (simp only: max_absorb1)
    then show ?thesis unfolding z .
  next
    case False
    then show ?thesis by simp
  qed
  have split: "take m (p @ ys @ r) = p @ ys @ take (m - (length p + length ys)) r"
    if "length p + length ys \<le> m" for m p r
    using that by simp
  have "take (max z ?e) (take off (b @ x) @ ys @ drop ?e (b @ x)) =
      take off (b @ x) @ ys @ take (max z ?e - ?e) (drop ?e (b @ x))"
    using split [of "take off (b @ x)" "max z ?e" "drop ?e (b @ x)"] unfolding len by (simp only: max.cobounded2)
  then show ?thesis unfolding put_bytes_def rear front .
qed

section \<open>The store of a sector\<close>

lemma put_sector_grown:
  assumes "open_at s T i ks" and "off div 512 < length (file_sectors (fat12_geom s) ks)"
    and "off mod 512 + length ys \<le> 512" and "sec = file_sectors (fat12_geom s) ks ! (off div 512)"
  shows "grown s T i ks (put_sector s sec (put_bytes (dev s sec) (off mod 512) ys)) ks"
    and "file_content (put_sector s sec (put_bytes (dev s sec) (off mod 512) ys)) ks =
      put_bytes (file_content s ks) off ys"
proof -
  let ?buf = "put_bytes (dev s sec) (off mod 512) ys"
  let ?t = "put_sector s sec ?buf"
  note o = open_atD [OF assms(1)]
  note ready = tree_readyD [OF volumeD(5) [OF o(1)]] and own = own_chainD [OF o(8)]
  have in_file: "sec \<in> set (file_sectors (fat12_geom s) ks)" using assms(2,4) by simp
  have "length (dev s sec) = 512" using ready(1) by simp
  then have buf: "length ?buf = 512" using assms(3) by simp
  have "distinct (file_sectors (fat12_geom s) ks)"
    using distinct_file_sectors [OF ready(2) file_chain_distinct [OF own(1)]] file_chain_links [OF own(1)] by blast
  then show content: "file_content ?t ks = put_bytes (file_content s ks) off ys"
    by (rule file_content_put_sector [OF ready(1) _ assms(2-4)])
  have "off + length ys \<le> length (file_content s ks)"
  proof -
    have "off div 512 * 512 + 512 \<le> length (file_sectors (fat12_geom s) ks) * 512" using assms(2) by simp
    then show ?thesis
      using length_file_content [OF ready(1), of ks] assms(3) div_mult_mod_eq [of off 512] by linarith
  qed
  then have len: "length (file_content ?t ks) = length (file_content s ks)" using content by simp
  note eff = put_sector_effect [OF o(1,8) in_file buf]
  note keep = same_entries_keep [OF o(1) eff(1) put_sector_fields(1)]
  have "open_at ?t T i ks"
    using o eff(2) keep(1) [OF o(2)] keep(2) [OF o(8)] len by (simp add: open_at_def)
  then show "grown s T i ks ?t ks"
    unfolding grown_def using o(7) keep(2,3) eff(3) by auto
qed

section \<open>The step of the cursor\<close>

lemma advance_cursor_grown:
  assumes "open_at s T i ks" and "unat (of_cursor (open_files s ! i)) + unat k \<le> length (file_content s ks)"
    and "unat (of_cursor (open_files s ! i)) + unat k < 4294967296"
  obtains t where "advance_cursor ideal_floppy i k s = Some t" and "grown s T i ks t ks"
    and "of_cursor (open_files t ! i) = of_cursor (open_files s ! i) + k"
    and "unat (of_file_size (open_files t ! i)) =
      max (unat (of_file_size (open_files s ! i))) (unat (of_cursor (open_files s ! i)) + unat k)"
    and "file_content t ks = file_content s ks"
proof -
  note o = open_atD [OF assms(1)]
  let ?f = "open_files s ! i"
  let ?u = "upd_file i (\<lambda>f. f\<lparr>of_cursor := of_cursor f + k\<rparr>) s"
  have cur: "unat (of_cursor ?f + k) = unat (of_cursor ?f) + unat k" by (rule unat_add_u32 [OF assms(3)])
  have fu: "open_files ?u ! i = ?f\<lparr>of_cursor := of_cursor ?f + k\<rparr>" "i < length (open_files ?u)"
    using o(3,4) by simp_all
  have disk: "same_disk s (upd_file i h s)" for h by simp
  note keep = own_chain_same_disk [OF disk] and vol = volume_same_disk [OF disk]
  show thesis
  proof (cases "of_cursor ?f + k \<le> of_file_size ?f")
    case True
    have "same_place ?f (open_files ?u ! i)" unfolding fu by (simp add: same_place_def)
    note at = same_place_entry [OF this]
    have sync: "sync_entry T (open_files ?u ! i) = T" using o(7) at fu by (simp add: sync_entry_def)
    have "open_at ?u T i ks"
      using o vol keep at True fu sync unfolding open_at_def by simp
    then have "grown s T i ks ?u ks"
      unfolding grown_def using sync same_disk_keep [OF disk] fu keep
      by (auto simp: same_place_def upd_file_def)
    moreover have "advance_cursor ideal_floppy i k s = Some ?u"
      using True o(3,4) by (simp add: advance_cursor_def Let_def linorder_not_less [symmetric])
    ultimately show thesis using True fu cur by (intro that [of ?u]) (simp_all add: word_le_nat_alt max_def)
  next
    case False
    let ?h = "\<lambda>f. f\<lparr>of_cursor := of_cursor f + k, of_file_size := of_cursor f + k\<rparr>"
    let ?v = "upd_file i ?h s"
    let ?upd = "\<lambda>e. e\<lparr>de_file_size := of_cursor ?f + k\<rparr>"
    have fv: "open_files ?v ! i = ?h ?f" "length (open_files ?v) = 256" using o(3,4) by simp_all
    have place: "same_place ?f (open_files ?v ! i)" unfolding fv by (simp add: same_place_def)
    note at = same_place_entry [OF place]
    show thesis
    proof (rule update_dir_entry_grown [of ?v T i ?upd ks])
      show "set_entry T (open_files ?v ! i) (?upd (entry_of T (open_files ?v ! i))) = sync_entry T (open_files ?v ! i)"
        using at same_first_update [OF open_at_entry(1) [OF assms(1)]] fv by (simp add: sync_entry_def)
      show "unat (of_file_size (open_files ?v ! i)) \<le> length (file_content ?v ks)"
        using assms(2) fv cur by simp
      show "own_chain ?v T (of_first_cluster (open_files ?v ! i)) ks" using o(8) keep fv by simp
      fix t assume t: "update_dir_entry ideal_floppy i ?upd ?v = Some t"
        "open_at t (sync_entry T (open_files ?v ! i)) i ks" "open_files t = open_files ?v"
        "fat12_geom t = fat12_geom ?v" "free_clusters t = free_clusters ?v"
        "\<And>c ls. own_chain ?v T c ls \<Longrightarrow> own_chain t T c ls \<and> file_content t ls = file_content ?v ls"
      have same: "own_chain s T c ls \<Longrightarrow> own_chain t T c ls \<and> file_content t ls = file_content s ls" for c ls
        using t(6) [of c ls] keep by simp
      have "grown s T i ks t ks"
        unfolding grown_def
      proof (intro conjI allI impI)
        show "open_at t (sync_entry T (open_files t ! i)) i ks" using t(2,3) by simp
        show "same_place ?f (open_files t ! i)" using place t(3) by simp
        show "open_files t ! j = open_files s ! j" if "j \<noteq> i" for j
          using that t(3) by (simp add: upd_file_def)
        show "length ks + card (free_clusters t) = length ks + card (free_clusters s)"
          using t(5) same_disk_keep [OF disk] by simp
      qed (use t(4) same in auto)
      moreover have "advance_cursor ideal_floppy i k s = Some t"
        using False o(3,4) t(1) by (simp add: advance_cursor_def Let_def not_le)
      ultimately show thesis
        using False fv cur t(3) same [OF o(8)] by (intro that [of t]) (simp_all add: word_le_nat_alt max_def)
    qed (use o vol keep at fv in simp_all)
  qed
qed

section \<open>One chunk\<close>

lemma length_content_clusters:
  "fat_ready s \<Longrightarrow> length (file_content s ks) = length ks * unat (cluster_bytes (fat12_geom s))"
  by (simp add: length_file_content length_file_sectors unat_cluster_bytes)

lemma cursor_cluster:
  assumes "open_at s T i ks"
    and "unat (of_cursor (open_files s ! i)) < (length ks + card (free_clusters s)) * unat (cluster_bytes (fat12_geom s))"
  shows "unat (of_cursor (open_files s ! i) div cluster_bytes (fat12_geom s)) \<le> length ks"
    and "unat (of_cursor (open_files s ! i) div cluster_bytes (fat12_geom s)) = length ks \<Longrightarrow> free_clusters s \<noteq> {}"
proof -
  note o = open_atD [OF assms(1)]
  let ?cb = "unat (cluster_bytes (fat12_geom s))" and ?cur = "of_cursor (open_files s ! i)"
  note ready = tree_readyD [OF volumeD(5) [OF o(1)]]
  have cb: "0 < ?cb" using ready(4) by (simp add: unat_gt_0)
  have "unat ?cur \<le> length ks * ?cb"
    using o(9,10) length_content_clusters [OF ready(1), of ks] by (simp add: word_le_nat_alt)
  then have "unat ?cur div ?cb \<le> length ks * ?cb div ?cb" by (rule div_le_mono)
  then show "unat (?cur div cluster_bytes (fat12_geom s)) \<le> length ks" using cb by (simp add: unat_div)
  assume "unat (?cur div cluster_bytes (fat12_geom s)) = length ks"
  then have "length ks * ?cb \<le> unat ?cur"
    using div_times_less_eq_dividend [of "unat ?cur" ?cb] by (simp add: unat_div)
  then have "card (free_clusters s) \<noteq> 0" using assms(2) by (cases "card (free_clusters s)") auto
  then show "free_clusters s \<noteq> {}" by auto
qed

lemma write_chunk:
  assumes "open_at s T i ks" and "bw < nbyte"
    and "unat (of_cursor (open_files s ! i)) < (length ks + card (free_clusters s)) * unat (cluster_bytes (fat12_geom s))"
    and "k = min (nbyte - bw) (512 - of_cursor (open_files s ! i) mod cluster_bytes (fat12_geom s) mod 512)"
    and "unat k \<le> 512 - unat (of_cursor (open_files s ! i)) mod 512"
    and "unat bw + unat k \<le> length src"
    and "unat (of_cursor (open_files s ! i)) + unat k < 4294967296"
  obtains t ks' where "fat12_write_loop ideal_floppy i src nbyte bw s =
      fat12_write_loop ideal_floppy i src nbyte (bw + k) t"
    and "grown s T i ks t ks'" and "of_cursor (open_files t ! i) = of_cursor (open_files s ! i) + k"
    and "file_bytes t i ks' = put_bytes (file_bytes s i ks) (unat (of_cursor (open_files s ! i)))
      (sub_bytes src (unat bw) (unat k))"
proof (rule prepare_cluster [OF assms(1) cursor_cluster [OF assms(1,3)]])
  note o = open_atD [OF assms(1)]
  let ?g = "fat12_geom s" and ?cur = "of_cursor (open_files s ! i)"
  let ?n = "unat (?cur div cluster_bytes ?g)" and ?ys = "sub_bytes src (unat bw) (unat k)"
  fix u t ks' x
  assume prep: "ensure_first_cluster ideal_floppy i s = Some (True, u)"
    "write_walk ideal_floppy (of_first_cluster (open_files u ! i)) ?n u = Some (Some (of_nat (ks' ! ?n)), t)"
    "grown s T i ks t ks'" "?n < length ks'"
    "of_cursor (open_files t ! i) = ?cur"
    "of_file_size (open_files t ! i) = of_file_size (open_files s ! i)"
    "file_content t ks' = file_content s ks @ x"
  note g = grownD [OF prep(3)]
  let ?T = "sync_entry T (open_files t ! i)"
  note ot = open_atD [OF g(1)]
  note ready = tree_readyD [OF volumeD(5) [OF ot(1)]]
  have ys: "length ?ys = unat k" using assms(6) by simp
  have spc: "0 < unat (sectors_per_cluster ?g)" using ready(4) g(4) by (simp add: unat_gt_0)
  have q: "unat ?cur div 512 < length (file_sectors (fat12_geom t) ks')"
    using prep(4) spc g(4) by (simp add: unat_cluster_index length_file_sectors div_less_iff_less_mult)
  let ?sec = "file_sectors ?g ks' ! (unat ?cur div 512)"
  have sec: "cluster_sector ?g (of_nat (ks' ! ?n)) (?cur mod cluster_bytes ?g div 512) = ?sec"
    using sector_of_offset(1) [OF q] g(4) by simp
  have r: "unat ?cur mod 512 + length ?ys \<le> 512"
    using assms(5) ys mod_less_divisor [of 512 "unat ?cur"] by linarith
  let ?v = "put_sector t ?sec (put_bytes (dev t ?sec) (unat ?cur mod 512) ?ys)"
  have put: "grown t ?T i ks' ?v ks'" "file_content ?v ks' = put_bytes (file_content t ks') (unat ?cur) ?ys"
    using put_sector_grown [OF g(1) q r] g(4) by simp_all
  have fits: "unat ?cur + unat k \<le> length (file_content t ks')"
  proof -
    have "unat ?cur div 512 * 512 + 512 \<le> length (file_sectors (fat12_geom t) ks') * 512" using q by simp
    then show ?thesis
      using length_file_content [OF ready(1), of ks'] r ys div_mult_mod_eq [of "unat ?cur" 512] by linarith
  qed
  have v_open: "open_at ?v ?T i ks'" using grownD(1) [OF put(1)] ot(7) by simp
  have v_len: "length (file_content ?v ks') = length (file_content t ks')" using put(2) fits ys by simp
  show thesis
  proof (rule advance_cursor_grown [OF v_open, of k])
    show "unat (of_cursor (open_files ?v ! i)) + unat k \<le> length (file_content ?v ks')"
      using fits v_len prep(5) by simp
    show "unat (of_cursor (open_files ?v ! i)) + unat k < 4294967296" using assms(7) prep(5) by simp
    fix w assume w: "advance_cursor ideal_floppy i k ?v = Some w" "grown ?v ?T i ks' w ks'"
      "of_cursor (open_files w ! i) = of_cursor (open_files ?v ! i) + k"
      "unat (of_file_size (open_files w ! i)) =
        max (unat (of_file_size (open_files ?v ! i))) (unat (of_cursor (open_files ?v ! i)) + unat k)"
      "file_content w ks' = file_content ?v ks'"
    show thesis
    proof (rule that [of w ks'])
      have at: "entry_at ?T (open_files t ! i)" using ot(6) .
      have "grown t ?T i ks' w ks'"
        using grown_trans [OF at put(1), of w ks'] w(2) ot(7) by simp
      then show "grown s T i ks w ks'" by (rule grown_trans [OF o(6) prep(3)])
      show "of_cursor (open_files w ! i) = ?cur + k" using w(3) prep(5) by simp
      have "?cur \<le> of_file_size (open_files s ! i)" by (rule o(9))
      then show "file_bytes w i ks' = put_bytes (file_bytes s i ks) (unat ?cur) ?ys"
        unfolding file_bytes_def w(4,5) put(2) prep(7)
        using take_put_bytes [of "unat ?cur" "unat (of_file_size (open_files s ! i))" "file_content s ks" ?ys x]
          o(10) fits ys prep(5,6,7) by (simp add: word_le_nat_alt)
      have spc0: "sectors_per_cluster ?g \<noteq> 0" using ready(4) g(4) by simp
      have off: "unat (?cur mod cluster_bytes ?g mod 512) = unat ?cur mod 512" by (rule offset_mod_512)
      show "fat12_write_loop ideal_floppy i src nbyte bw s = fat12_write_loop ideal_floppy i src nbyte (bw + k) w"
        using prep(1,2) w(1) assms(2,6) spc0 sec off g(4) ready(1)
        by (subst fat12_write_loop.simps) (simp add: Let_def disk_simps assms(4) [symmetric] put_sector_def)
    qed
  qed
qed

section \<open>The whole write\<close>

lemma chunk_length:
  fixes cur cb nbyte bw :: u32
  assumes "bw < nbyte" and "k = min (nbyte - bw) (512 - cur mod cb mod 512)" and "512 dvd unat cb"
  shows "0 < unat k" and "unat k \<le> 512 - unat cur mod 512" and "unat bw + unat k \<le> unat nbyte"
    and "unat (bw + k) = unat bw + unat k"
proof -
  have off: "unat (cur mod cb mod 512) = unat cur mod 512"
    using assms(3) by (simp add: unat_mod mod_mod_cancel)
  then have "unat (512 - cur mod cb mod 512) = 512 - unat cur mod 512"
    by (subst unat_sub) (simp_all add: word_le_nat_alt)
  moreover have "unat (nbyte - bw) = unat nbyte - unat bw"
    using assms(1) by (simp add: unat_sub word_less_nat_alt word_le_nat_alt)
  ultimately have k: "unat k = min (unat nbyte - unat bw) (512 - unat cur mod 512)"
    unfolding assms(2) by (simp add: min_def word_le_nat_alt)
  show "0 < unat k" unfolding k using assms(1) by (simp add: word_less_nat_alt)
  show "unat k \<le> 512 - unat cur mod 512" unfolding k by simp
  show le: "unat bw + unat k \<le> unat nbyte"
    unfolding k using assms(1) by (simp add: word_less_nat_alt)
  show "unat (bw + k) = unat bw + unat k"
    using le unat_u32_less [of nbyte] by (intro unat_add_u32) linarith
qed

text \<open>
  \<open>written s T i ks data t ks'\<close>: the bytes \<open>data\<close> are in the file at the former cursor, the cursor
  is behind them, and nothing else has changed.
\<close>

definition written ::
    "image fat12_state \<Rightarrow> dir_tree \<Rightarrow> nat \<Rightarrow> nat list \<Rightarrow> bytes \<Rightarrow> image fat12_state \<Rightarrow> nat list \<Rightarrow> bool" where
  "written s T i ks data t ks' \<longleftrightarrow>
     grown s T i ks t ks'
     \<and> unat (of_cursor (open_files t ! i)) = unat (of_cursor (open_files s ! i)) + length data
     \<and> file_bytes t i ks' = put_bytes (file_bytes s i ks) (unat (of_cursor (open_files s ! i))) data"

lemma length_file_bytes:
  "open_at s T i ks \<Longrightarrow> length (file_bytes s i ks) = unat (of_file_size (open_files s ! i))"
  by (simp add: file_bytes_def open_at_def)

lemma written_trans:
  assumes "open_at s T i ks" and "grown s T i ks t ks'"
    and "unat (of_cursor (open_files t ! i)) = unat (of_cursor (open_files s ! i)) + length xs"
    and "file_bytes t i ks' = put_bytes (file_bytes s i ks) (unat (of_cursor (open_files s ! i))) xs"
    and "written t (sync_entry T (open_files t ! i)) i ks' ys u ks''"
  shows "written s T i ks (xs @ ys) u ks''"
proof -
  note o = open_atD [OF assms(1)]
  have "unat (of_cursor (open_files s ! i)) \<le> length (file_bytes s i ks)"
    using o(9) length_file_bytes [OF assms(1)] by (simp add: word_le_nat_alt)
  note twice = put_bytes_twice [OF this, of xs ys]
  show ?thesis
    using assms(3-5) grown_trans [OF o(6) assms(2)] twice unfolding written_def by auto
qed

lemma fat12_write_loop_eq:
  assumes "open_at s T i ks" and "unat nbyte < 2147483648" and "unat nbyte \<le> length src" and "bw \<le> nbyte"
    and "unat (of_cursor (open_files s ! i)) + (unat nbyte - unat bw) < 4294967296"
    and "unat (of_cursor (open_files s ! i)) + (unat nbyte - unat bw) \<le>
      (length ks + card (free_clusters s)) * unat (cluster_bytes (fat12_geom s))"
  shows "\<exists>t ks'. fat12_write_loop ideal_floppy i src nbyte bw s = Some (int (unat nbyte), t)
    \<and> written s T i ks (sub_bytes src (unat bw) (unat nbyte - unat bw)) t ks'"
  using assms
proof (induction "unat nbyte - unat bw" arbitrary: bw s T ks rule: less_induct)
  case less
  note o = open_atD [OF less.prems(1)]
  let ?cur = "of_cursor (open_files s ! i)" and ?cb = "cluster_bytes (fat12_geom s)"
  show ?case
  proof (cases "bw < nbyte")
    case False
    then have "bw = nbyte" using less.prems(4) by simp
    moreover have "sint nbyte = int (unat nbyte)" by (rule sint_small [OF less.prems(2)])
    ultimately have "fat12_write_loop ideal_floppy i src nbyte bw s = Some (int (unat nbyte), s)"
      by (subst fat12_write_loop.simps) simp
    moreover have "written s T i ks (sub_bytes src (unat bw) (unat nbyte - unat bw)) s ks"
      using grown_refl [OF less.prems(1)] \<open>bw = nbyte\<close> by (simp add: written_def)
    ultimately show ?thesis by blast
  next
    case True
    define k where "k = min (nbyte - bw) (512 - ?cur mod ?cb mod 512)"
    have "512 dvd unat ?cb" by (simp add: unat_cluster_bytes)
    note k = chunk_length [OF True k_def this]
    have lt: "unat bw < unat nbyte" using True by (simp add: word_less_nat_alt)
    show ?thesis
    proof (rule write_chunk [OF less.prems(1) True _ k_def k(2), of src])
      show "unat ?cur < (length ks + card (free_clusters s)) * unat ?cb"
        using less.prems(6) lt by linarith
      show "unat bw + unat k \<le> length src" using k(3) less.prems(3) by linarith
      show no_wrap: "unat ?cur + unat k < 4294967296" using k(3) less.prems(5) by linarith
      fix t ks'
      assume t: "fat12_write_loop ideal_floppy i src nbyte bw s = fat12_write_loop ideal_floppy i src nbyte (bw + k) t"
        "grown s T i ks t ks'" "of_cursor (open_files t ! i) = ?cur + k"
        "file_bytes t i ks' = put_bytes (file_bytes s i ks) (unat ?cur) (sub_bytes src (unat bw) (unat k))"
      note g = grownD [OF t(2)]
      have cur: "unat (of_cursor (open_files t ! i)) = unat ?cur + unat k"
        unfolding t(3) by (rule unat_add_u32 [OF no_wrap])
      have "\<exists>u ks''. fat12_write_loop ideal_floppy i src nbyte (bw + k) t = Some (int (unat nbyte), u)
          \<and> written t (sync_entry T (open_files t ! i)) i ks'
              (sub_bytes src (unat (bw + k)) (unat nbyte - unat (bw + k))) u ks''"
      proof (rule less.hyps [OF _ g(1) less.prems(2,3)])
        show "unat nbyte - unat (bw + k) < unat nbyte - unat bw" using k lt by linarith
        show "bw + k \<le> nbyte" using k by (simp add: word_le_nat_alt)
        show "unat (of_cursor (open_files t ! i)) + (unat nbyte - unat (bw + k)) < 4294967296"
          using cur k less.prems(5) by linarith
        show "unat (of_cursor (open_files t ! i)) + (unat nbyte - unat (bw + k)) \<le>
            (length ks' + card (free_clusters t)) * unat (cluster_bytes (fat12_geom t))"
          using cur k less.prems(6) g(4,5) by simp
      qed
      then obtain u ks'' where u: "fat12_write_loop ideal_floppy i src nbyte (bw + k) t = Some (int (unat nbyte), u)"
        "written t (sync_entry T (open_files t ! i)) i ks'
          (sub_bytes src (unat bw + unat k) (unat nbyte - (unat bw + unat k))) u ks''"
        unfolding k(4) by blast
      have len: "length (sub_bytes src (unat bw) (unat k)) = unat k" using k(3) less.prems(3) by simp
      have "written s T i ks (sub_bytes src (unat bw) (unat k) @
          sub_bytes src (unat bw + unat k) (unat nbyte - (unat bw + unat k))) u ks''"
        using cur len by (intro written_trans [OF less.prems(1) t(2) _ t(4) u(2)]) simp
      moreover have "unat k + (unat nbyte - (unat bw + unat k)) = unat nbyte - unat bw" using k(3) by linarith
      ultimately show ?thesis using t(1) u(1) by (auto simp: sub_bytes_add)
    qed
  qed
qed

lemma fat12_write_ideal:
  assumes "open_at s T i ks" and "unat nbyte < 2147483648" and "unat nbyte \<le> length buf"
    and "unat (of_cursor (open_files s ! i)) + unat nbyte < 4294967296"
    and "unat (of_cursor (open_files s ! i)) + unat nbyte \<le>
      (length ks + card (free_clusters s)) * unat (cluster_bytes (fat12_geom s))"
  shows "\<exists>t ks'. fat12_write ideal_floppy (int i + 3) buf nbyte s = Some (int (unat nbyte), t)
    \<and> written s T i ks (take (unat nbyte) buf) t ks'"
  using fat12_write_loop_eq [OF assms(1-3), of 0] assms(4,5) open_atD(4,5) [OF assms(1)]
  by (simp add: fat12_write_def file_index_used sub_bytes_def)

section \<open>A full table\<close>

lemma write_walk_full:
  "fat_ready s \<Longrightarrow> first_free s = None \<Longrightarrow> fat_chain (fat_entry s) (unat c) ks \<Longrightarrow> ks \<noteq> [] \<Longrightarrow>
     write_walk ideal_floppy c (length ks) s = Some (None, s)"
proof (induction ks arbitrary: c rule: list.induct)
  case (Cons j ks)
  let ?w = "fat_entry s (unat c)"
  have j: "is_link (unat c)" "fat_chain (fat_entry s) (unat ?w) ks" using Cons.prems(3) by auto
  then have c: "unat c < 65536" by (simp add: is_link_def)
  show ?case
  proof (cases "ks = []")
    case True
    then have "\<not> is_link (unat ?w)" using j(2) by simp
    then have "(ucast ?w :: u32) < 2 \<or> (ucast ?w :: u32) \<ge> 0x0FF8" by (simp add: is_link_unat_iff)
    with True c Cons.prems(1,2) show ?thesis by (simp add: disk_simps fat12_allocate_cluster_ideal)
  next
    case False
    then have "is_link (unat ?w)" using j(2) by (cases ks) auto
    then have "\<not> ((ucast ?w :: u32) < 2 \<or> (ucast ?w :: u32) \<ge> 0x0FF8)" by (simp add: is_link_unat_iff)
    then show ?thesis
      using Cons.IH [OF Cons.prems(1,2) _ False, of "ucast ?w"] j(2) c Cons.prems(1)
      by (simp add: disk_simps)
  qed
qed simp

lemma fat12_write_full:
  assumes "open_at s T i ks" and "first_free s = None" and "0 < nbyte"
    and "unat (of_cursor (open_files s ! i)) = length (file_content s ks)"
  shows "fat12_write ideal_floppy (int i + 3) buf nbyte s = Some (if ks = [] then -1 else 0, s)"
proof -
  note o = open_atD [OF assms(1)]
  note ready = tree_readyD [OF volumeD(5) [OF o(1)]]
  note own = own_chainD [OF o(8)]
  let ?f = "open_files s ! i"
  have loop: "fat12_write ideal_floppy (int i + 3) buf nbyte s = fat12_write_loop ideal_floppy i buf nbyte 0 s"
    using o(4,5) by (simp add: fat12_write_def file_index_used)
  show ?thesis
  proof (cases "ks = []")
    case True
    then have "of_first_cluster ?f = 0" by (rule own(2))
    then have "ensure_first_cluster ideal_floppy i s = Some (False, s)"
      using assms(2) ready(1) by (simp add: ensure_first_cluster_def fat12_allocate_cluster_ideal)
    then show ?thesis
      unfolding loop using True assms(3) ready(4) by (subst fat12_write_loop.simps) simp
  next
    case False
    then have ch: "fat_chain (fat_entry s) (unat (of_first_cluster ?f)) ks"
      using own(1) by (auto simp: file_chain_def)
    have "0 < unat (cluster_bytes (fat12_geom s))" using ready(4) by (simp add: unat_gt_0)
    then have n: "unat (of_cursor ?f div cluster_bytes (fat12_geom s)) = length ks"
      using assms(4) length_content_clusters [OF ready(1), of ks] by (simp add: unat_div)
    have "write_walk ideal_floppy (of_first_cluster ?f) (unat (of_cursor ?f div cluster_bytes (fat12_geom s))) s =
        Some (None, s)"
      unfolding n by (rule write_walk_full [OF ready(1) assms(2) ch False])
    then show ?thesis
      unfolding loop using False assms(3) ready(4) ensure_first_cluster_present [OF False assms(1)]
      by (subst fat12_write_loop.simps) simp
  qed
qed

end
