(* ===== verification/Fat12_Roundtrip.thy ===== *)
theory Fat12_Roundtrip
  imports Fat12_Write_Loop
begin

text \<open>
  A file that is created, written, closed and opened again in \<open>kernel/fat12.c\<close> holds the bytes
  that were written.
\<close>

section \<open>Lookup after a change of a file entry\<close>

text \<open>A search sees the name and the attribute of an entry only.\<close>

definition same_head :: "fat12_dir_entry \<Rightarrow> fat12_dir_entry \<Rightarrow> bool" where
  "same_head e e' \<longleftrightarrow> de_name e' = de_name e \<and> de_ext e' = de_ext e \<and> de_attr e' = de_attr e"

lemma same_head_matches: "same_head e e' \<Longrightarrow> entry_matches nm ex e' = entry_matches nm ex e"
  by (simp add: same_head_def entry_matches_def match_fat12_name_def)

lemma find_live_update:
  assumes "same_head (es ! j) e'" and "j < length es" and "i + length es < 4294967296"
  shows "find_live nm ex i (es[j := e']) =
    map_option (\<lambda>(e, k). (if k = of_nat (i + j) then e' else e, k)) (find_live nm ex i es)"
  using assms
proof (induction es arbitrary: i j)
  case (Cons a es)
  show ?case
  proof (cases j)
    case 0
    have far: "snd p \<noteq> of_nat i" if p: "find_live nm ex (Suc i) es = Some p" for p
    proof -
      obtain e k where ek: "p = (e, k)" by (cases p)
      then obtain h where "h < length es" "k = of_nat (Suc i + h)"
        using p by (auto simp: find_live_Some_iff)
      then show ?thesis using ek Cons.prems(3) of_nat_u32_inj [of "Suc i + h" i] by simp
    qed
    show ?thesis
      using 0 Cons.prems(1) same_head_matches [of a e' nm ex] far
      by (cases "find_live nm ex (Suc i) es") (auto split: prod.splits)
  next
    case (Suc m)
    have "(of_nat i :: u32) \<noteq> of_nat (i + j)"
      using Suc Cons.prems(2,3) of_nat_u32_inj [of i "i + j"] by simp
    then show ?thesis using Cons.IH [of m "Suc i"] Cons.prems Suc by simp
  qed
qed simp

lemma lookup_name_set_entry:
  assumes "entry_at T f" and "same_head (entry_of T f) e'" and "length (the (T (of_parent_cluster f))) < 4294967296"
  shows "lookup_name (set_entry T f e') d c =
    map_option (\<lambda>(e, k). (if d = of_parent_cluster f \<and> k = of_entry_idx f then e' else e, k)) (lookup_name T d c)"
proof (cases "d = of_parent_cluster f")
  case True
  obtain nm ex where c: "to_fat12_name c = (nm, ex)" by (cases "to_fat12_name c")
  show ?thesis
    using True assms find_live_update [of "the (T d)" "unat (of_entry_idx f)" e' 0 nm ex] c
    by (simp add: lookup_name_def set_entry_def entry_at_def entry_of_def)
next
  case False
  then show ?thesis
    by (cases "lookup_name T d c") (simp_all add: lookup_name_def set_entry_def split_beta)
qed

lemma descend_set_entry:
  assumes "entry_at T f" and "same_head (entry_of T f) e'" and "length (the (T (of_parent_cluster f))) < 4294967296"
    and "\<And>d c e. lookup_name T d c = Some (e, of_entry_idx f) \<Longrightarrow> d = of_parent_cluster f \<Longrightarrow> e = entry_of T f"
    and "\<And>d c e i. T d \<noteq> None \<Longrightarrow> lookup_name T d c = Some (e, i) \<Longrightarrow> is_dir e \<Longrightarrow> T (start_cluster e) \<noteq> None"
  shows "T d \<noteq> None \<Longrightarrow> descend (set_entry T f e') d cs = descend T d cs"
proof (induction cs arbitrary: d)
  case (Cons c cs)
  show ?case
  proof (cases "lookup_name T d c")
    case None
    then show ?thesis using lookup_name_set_entry [OF assms(1-3), of d c] by simp
  next
    case (Some p)
    obtain e k where p: "p = (e, k)" by (cases p)
    have dirs: "is_dir e' = is_dir (entry_of T f)" using assms(2) by (simp add: same_head_def is_dir_def)
    have plain: "\<not> is_dir (entry_of T f)" using assms(1) by (simp add: entry_at_def)
    show ?thesis
    proof (cases "d = of_parent_cluster f \<and> k = of_entry_idx f")
      case True
      then have "e = entry_of T f" using assms(4) Some p by blast
      then show ?thesis using lookup_name_set_entry [OF assms(1-3), of d c] True Some p plain dirs by simp
    next
      case False
      then have "lookup_name (set_entry T f e') d c = Some (e, k)"
        using lookup_name_set_entry [OF assms(1-3), of d c] Some p by auto
      then show ?thesis using Some p Cons.IH assms(5) [OF Cons.prems] by simp
    qed
  qed
qed simp

lemma lookup_path_set_entry:
  assumes "volume s T" and "entry_at T f" and "same_head (entry_of T f) e'"
    and "lookup_path T cs = Some (entry_of T f, of_entry_idx f, of_parent_cluster f)"
  shows "lookup_path (set_entry T f e') cs = Some (e', of_entry_idx f, of_parent_cluster f)"
proof -
  note tree = volumeD(1) [OF assms(1)]
  obtain es where es: "T (of_parent_cluster f) = Some es" using assms(2) by (auto simp: entry_at_def)
  have len: "length (the (T (of_parent_cluster f))) < 4294967296"
    using volumeD(4) [OF assms(1) es] es by (simp add: dir_holds_def)
  have same: "e = entry_of T f"
    if l: "lookup_name T d c = Some (e, of_entry_idx f)" "d = of_parent_cluster f" for d c e
  proof -
    obtain j where "j < length es" "e = es ! j" "of_entry_idx f = of_nat j"
      using lookup_name_matches [of T "of_parent_cluster f" es c e "of_entry_idx f"] es l by auto
    then show ?thesis using es len by (simp add: entry_of_def unat_of_nat_u32)
  qed
  have dirs: "T (start_cluster e) \<noteq> None" if "T d \<noteq> None" "lookup_name T d c = Some (e, i)" "is_dir e" for d c e i
    by (rule descend_closed [OF tree that])
  have ne: "cs \<noteq> []" and par: "descend T 0 (butlast cs) = Some (of_parent_cluster f)"
    and last: "lookup_name T (of_parent_cluster f) (last cs) = Some (entry_of T f, of_entry_idx f)"
    using assms(4) by (auto simp: lookup_path_def split: if_splits option.splits)
  have "T 0 \<noteq> None" using tree by (simp add: tree_holds_def)
  then have "descend (set_entry T f e') 0 (butlast cs) = Some (of_parent_cluster f)"
    unfolding par [symmetric]
    by (intro descend_set_entry [OF assms(2,3) len]) (use same dirs in blast)+
  then show ?thesis
    using ne last lookup_name_set_entry [OF assms(2,3) len, of "of_parent_cluster f" "last cs"]
    by (simp add: lookup_path_def)
qed

section \<open>A new file\<close>

lemma store_new_entries:
  assumes "dir_store s dc" and "dir_holds s dc es" and "length es < 2147483647"
    and "dir_slot s dc (of_nat (slot_index 0 es)) = Some p" and "wf_dir_entry e" and "de_name e ! 0 \<noteq> 0"
  shows "same_entries s (store_new dc es p e s) {}" and "fat12_geom (store_new dc es p e s) = fat12_geom s"
  using store_new_effect(3) [OF assms]
  by (auto simp: same_entries_def store_new_def split: option.split)

text \<open>A file that was just created is open, without a cluster, and its entry is up to date.\<close>

lemma open_new_open_at:
  assumes "volume s T" and "dirs_marked s T" and "0 \<notin> set fn" and "length (open_files s) = 256"
    and "lowest_free (open_files s) k" and "lookup_path T (split_path fn) = None"
    and "parent_of_path T (split_path fn) = Some (dc, nm, ex)" and "T dc = Some es"
    and "length es < 2147483647" and "has_room s dc es" and "nm ! 0 \<noteq> 0xE5"
  obtains t where "fat12_open ideal_floppy fn s = Some (int k + 3, t)"
    and "open_at t (T(dc \<mapsto> insert_entry (make_entry nm ex 0 0 0) es)) k []"
    and "open_files t = (open_files s)[k := \<lparr>of_used = True, of_path = strlcpy_str fn 256,
        of_first_cluster = 0, of_current_cluster = 0, of_cursor = 0, of_file_size = 0,
        of_parent_cluster = dc, of_entry_idx = of_nat (slot_index 0 es)\<rparr>]"
    and "fat12_geom t = fat12_geom s" and "free_clusters t = free_clusters s"
proof -
  let ?e = "make_entry nm ex 0 0 0" and ?i = "of_nat (slot_index 0 es) :: u32"
  let ?T = "T(dc \<mapsto> insert_entry ?e es)"
  note par = parent_of_pathD [OF assms(1,3,7)]
  note st = volumeD(2) [OF assms(1) par(1)] and ho = volumeD(4) [OF assms(1,8)]
  obtain p where p: "dir_slot s dc ?i = Some p" using has_room_slot [OF ho assms(10)] by blast
  have e: "wf_dir_entry ?e" "de_name ?e ! 0 \<noteq> 0"
    using par(2,3) parent_name_first [OF assms(3,7)] by simp_all
  let ?u = "store_new dc es p ?e s"
  let ?t = "install_file k fn ?e dc ?i ?u"
  note entries = store_new_entries [OF st ho assms(9) p e]
  note keep = same_entries_keep [OF assms(1) entries]
  have disk: "same_disk ?u ?t" by simp
  have k: "k < 256" using assms(4,5) by (simp add: lowest_free_def)
  have files: "open_files ?t = (open_files s)[k := \<lparr>of_used = True, of_path = strlcpy_str fn 256,
        of_first_cluster = 0, of_current_cluster = 0, of_cursor = 0, of_file_size = 0,
        of_parent_cluster = dc, of_entry_idx = ?i\<rparr>]"
    using store_new_effect(4) [OF st ho assms(9) p e] by (simp add: open_files_install start_cluster_def)
  have f: "open_files ?t ! k = \<lparr>of_used = True, of_path = strlcpy_str fn 256,
        of_first_cluster = 0, of_current_cluster = 0, of_cursor = 0, of_file_size = 0,
        of_parent_cluster = dc, of_entry_idx = ?i\<rparr>" (is "_ = ?f")
    using k assms(4) unfolding files by simp
  have slot: "unat ?i = slot_index 0 es" "slot_index 0 es < length (insert_entry ?e es)"
    using slot_index_le [of es] assms(9) by (auto simp: unat_of_nat_u32 insert_entry_def)
  have ins: "insert_entry ?e es ! slot_index 0 es = ?e"
    using slot_index_full [of es] by (auto simp: insert_entry_def nth_append)
  have ent: "entry_of ?T ?f = ?e" using slot ins by (simp add: entry_of_def)
  then have at: "entry_at ?T ?f" using slot by (simp add: entry_at_def is_dir_def)
  have same: "?e\<lparr>de_first_cluster_low := 0, de_file_size := 0\<rparr> = ?e" by (simp add: make_entry_def)
  have "sync_entry ?T ?f = set_entry ?T ?f (?e\<lparr>de_first_cluster_low := 0, de_file_size := 0\<rparr>)"
    unfolding sync_entry_def ent by simp
  then have sync: "sync_entry ?T ?f = ?T" unfolding same using set_entry_id [OF at] unfolding ent by simp
  have dom: "?T d = None \<longleftrightarrow> T d = None" for d using assms(8) by simp
  have vol: "volume ?t ?T"
    using volume_store_new [OF assms(1,8,9) p e entry_closed_file] volume_same_disk [OF disk] by simp
  have "dirs_marked ?u ?T = dirs_marked ?u T" by (rule dirs_cong(2) [OF dom])
  then have marked: "dirs_marked ?t ?T"
    using keep(1) [OF assms(2)] own_chain_same_disk(2) [OF disk] by blast
  have own: "own_chain ?t ?T 0 []" by (simp add: own_chain_def file_chain_def dirs_avoid_def)
  show thesis
  proof (rule that [of ?t])
    show "fat12_open ideal_floppy fn s = Some (int k + 3, ?t)"
      by (rule fat12_open_new [OF assms(1,3,5-10) p])
    show "open_at ?t ?T k []"
      unfolding open_at_def f using vol marked own at sync k assms(4) files by simp
    show "fat12_geom ?t = fat12_geom s" using entries(2) same_diskD(1) [OF disk] by simp
    show "free_clusters ?t = free_clusters s" using keep(3) same_disk_keep [OF disk] by simp
  qed (rule files)
qed

section \<open>Reading back\<close>

lemma read_open_file:
  assumes "open_at s T i ks" and "of_cursor (open_files s ! i) = 0"
    and "unat count = unat (of_file_size (open_files s ! i))" and "unat count < 2147483648"
    and "unat count \<le> length dest"
  shows "fat12_read ideal_floppy (int i + 3) dest count s =
    Some ((int (unat count), put_bytes dest 0 (file_bytes s i ks)),
      upd_file i (\<lambda>f. f\<lparr>of_cursor := of_cursor f + of_nat (unat count)\<rparr>) s)"
proof -
  note o = open_atD [OF assms(1)]
  note ready = tree_readyD [OF volumeD(5) [OF o(1)]]
  have n: "read_length (unat count) 0 (unat count) (length (file_content s ks)) = unat count"
    using o(10) assms(3) by (simp add: read_length_def)
  show ?thesis
    using fat12_read_ideal [OF ready(1,4) o(3,4,5) own_chainD(1) [OF o(8)] assms(4,5)] n assms(2)
    by (simp add: read_effect_def Let_def assms(3) [symmetric] sub_bytes_def file_bytes_def)
qed

text \<open>Closing a file and opening it again.\<close>

lemma reopen_open_at:
  assumes "open_at s T i ks" and "lowest_free ((open_files s)[i := (open_files s ! i)\<lparr>of_used := False\<rparr>]) i"
    and "0 \<notin> set fn"
    and "lookup_path T (split_path fn) =
      Some (entry_of T (open_files s ! i), of_entry_idx (open_files s ! i), of_parent_cluster (open_files s ! i))"
  obtains t u where "fat12_close (int i + 3) s = Some (0, t)"
    and "fat12_open ideal_floppy fn t = Some (int i + 3, u)" and "open_at u T i ks"
    and "of_cursor (open_files u ! i) = 0"
    and "of_file_size (open_files u ! i) = of_file_size (open_files s ! i)"
    and "file_bytes u i ks = file_bytes s i ks"
proof -
  note o = open_atD [OF assms(1)]
  let ?f = "open_files s ! i" and ?e = "entry_of T (open_files s ! i)"
  let ?t = "upd_file i (\<lambda>f. f\<lparr>of_used := False\<rparr>) s"
  let ?u = "install_file i fn ?e (of_parent_cluster ?f) (of_entry_idx ?f) ?t"
  have disk: "same_disk s ?t" "same_disk ?t ?u" by simp_all
  then have disk': "same_disk s ?u" by (simp add: same_disk_def)
  note keep = own_chain_same_disk [OF disk']
  have vol: "volume ?t T" "volume ?u T" using o(1) volume_same_disk disk(1) disk' by blast+
  have small: "unat (of_first_cluster ?f) < 65536" by (rule file_chain_less [OF own_chainD(1) [OF o(8)]])
  then have first: "start_cluster ?e = of_first_cluster ?f"
    using open_at_entry(1) [OF assms(1)]
    by (simp add: start_cluster_def word_unat_eq_iff unsigned_ucast_eq take_bit_nat_eq_self)
  have f: "open_files ?u ! i = \<lparr>of_used = True, of_path = strlcpy_str fn 256,
     of_first_cluster = of_first_cluster ?f, of_current_cluster = of_first_cluster ?f, of_cursor = 0,
     of_file_size = of_file_size ?f, of_parent_cluster = of_parent_cluster ?f, of_entry_idx = of_entry_idx ?f\<rparr>"
    "length (open_files ?u) = 256"
    using o(3,4) first open_at_entry(2) [OF assms(1)] by (simp_all add: open_files_install)
  have ent: "entry_of T (open_files ?u ! i) = ?e" "entry_at T (open_files ?u ! i)"
    "sync_entry T (open_files ?u ! i) = T"
    using o(6,7) unfolding f by (simp_all add: entry_of_def entry_at_def sync_entry_def set_entry_def)
  have low: "lowest_free (open_files ?t) i" using assms(2) by (simp add: upd_file_def)
  have plain: "\<not> is_dir ?e" using o(6) by (simp add: entry_at_def)
  show thesis
  proof (rule that [of ?t ?u])
    show "fat12_close (int i + 3) s = Some (0, ?t)" by (rule fat12_close_used [OF o(3,4,5)])
    show "fat12_open ideal_floppy fn ?t = Some (int i + 3, ?u)"
      using fat12_open_existing [OF vol(1) assms(3) low assms(4)] plain by simp
    show "open_at ?u T i ks"
      unfolding open_at_def using vol(2) o keep ent f by simp
    show "file_bytes ?u i ks = file_bytes s i ks" unfolding file_bytes_def using keep(3) f by simp
  qed (simp_all add: f)
qed

section \<open>Create, write, read\<close>

lemma lowest_free_closed:
  assumes "lowest_free fs k" and "length fs' = length fs" and "\<And>j. j < k \<Longrightarrow> of_used (fs' ! j) = of_used (fs ! j)"
  shows "lowest_free (fs'[k := (fs' ! k)\<lparr>of_used := False\<rparr>]) k"
  using assms by (auto simp: lowest_free_def)

lemma create_write_read:
  assumes "volume s T" and "dirs_marked s T" and "0 \<notin> set fn" and "length (open_files s) = 256"
    and "lowest_free (open_files s) k" and "lookup_path T (split_path fn) = None"
    and "parent_of_path T (split_path fn) = Some (dc, nm, ex)" and "T dc = Some es"
    and "length es < 2147483647" and "has_room s dc es" and "nm ! 0 \<noteq> 0xE5"
    and "unat nbyte < 2147483648" and "unat nbyte \<le> length buf" and "unat nbyte \<le> length dest"
    and "unat nbyte \<le> card (free_clusters s) * unat (cluster_bytes (fat12_geom s))"
  shows "\<exists>t u v w x. fat12_open ideal_floppy fn s = Some (int k + 3, t)
    \<and> fat12_write ideal_floppy (int k + 3) buf nbyte t = Some (int (unat nbyte), u)
    \<and> fat12_close (int k + 3) u = Some (0, v)
    \<and> fat12_open ideal_floppy fn v = Some (int k + 3, w)
    \<and> fat12_read ideal_floppy (int k + 3) dest nbyte w =
        Some ((int (unat nbyte), put_bytes dest 0 (take (unat nbyte) buf)), x)"
proof (rule open_new_open_at [OF assms(1-11)])
  let ?e = "make_entry nm ex 0 0 0"
  let ?T = "T(dc \<mapsto> insert_entry ?e es)"
  fix t assume t: "fat12_open ideal_floppy fn s = Some (int k + 3, t)" "open_at t ?T k []"
    "open_files t = (open_files s)[k := \<lparr>of_used = True, of_path = strlcpy_str fn 256,
        of_first_cluster = 0, of_current_cluster = 0, of_cursor = 0, of_file_size = 0,
        of_parent_cluster = dc, of_entry_idx = of_nat (slot_index 0 es)\<rparr>]"
    "fat12_geom t = fat12_geom s" "free_clusters t = free_clusters s"
  note o = open_atD [OF t(2)]
  have k: "k < 256" by (rule o(4))
  let ?ft = "open_files t ! k"
  have ft: "of_cursor ?ft = 0" "of_file_size ?ft = 0" "of_parent_cluster ?ft = dc"
    "of_entry_idx ?ft = of_nat (slot_index 0 es)"
    using k assms(4) unfolding t(3) by simp_all
  have "\<exists>u ks. fat12_write ideal_floppy (int k + 3) buf nbyte t = Some (int (unat nbyte), u)
      \<and> written t ?T k [] (take (unat nbyte) buf) u ks"
    by (rule fat12_write_ideal [OF t(2) assms(12,13)]) (use ft t(4,5) assms(12,15) in simp_all)
  then obtain u ks where u: "fat12_write ideal_floppy (int k + 3) buf nbyte t = Some (int (unat nbyte), u)"
    "written t ?T k [] (take (unat nbyte) buf) u ks" by blast
  have g: "grown t ?T k [] u ks" using u(2) by (simp add: written_def)
  let ?fu = "open_files u ! k"
  let ?T' = "sync_entry ?T ?fu"
  note ou = grownD(1) [OF g] and place = same_place_entry [OF grownD(2) [OF g]]
  have bytes: "file_bytes u k ks = take (unat nbyte) buf"
  proof -
    have "file_bytes t k [] = []" using ft by (simp add: file_bytes_def)
    then show ?thesis using u(2) ft by (simp add: written_def put_bytes_def)
  qed
  then have size: "unat (of_file_size ?fu) = unat nbyte"
    using length_file_bytes [OF ou] assms(13) by simp
  have at: "entry_at ?T ?ft" by (rule o(6))
  have found: "lookup_path ?T (split_path fn) = Some (?e, of_entry_idx ?ft, of_parent_cluster ?ft)"
    using lookup_path_insert [OF assms(3,6,7,8,11), of 0 0 0] ft by simp
  have ent: "entry_of ?T ?ft = ?e"
  proof -
    have "unat (of_nat (slot_index 0 es) :: u32) = slot_index 0 es"
      using slot_index_le [of es] assms(9) by (simp add: unat_of_nat_u32)
    moreover have "insert_entry ?e es ! slot_index 0 es = ?e"
      using slot_index_full [of es] by (auto simp: insert_entry_def nth_append)
    ultimately show ?thesis using ft by (simp add: entry_of_def)
  qed
  have look: "lookup_path ?T' (split_path fn) = Some (entry_of ?T' ?fu, of_entry_idx ?fu, of_parent_cluster ?fu)"
  proof -
    let ?e' = "?e\<lparr>de_first_cluster_low := ucast (of_first_cluster ?fu), de_file_size := of_file_size ?fu\<rparr>"
    have T': "?T' = set_entry ?T ?ft ?e'" using place ent by (simp add: sync_entry_def)
    have pos: "of_entry_idx ?fu = of_entry_idx ?ft" "of_parent_cluster ?fu = of_parent_cluster ?ft"
      using grownD(2) [OF g] by (simp_all add: same_place_def)
    have "entry_of ?T' ?fu = ?e'" unfolding T' using place at by simp
    moreover have "lookup_path ?T' (split_path fn) = Some (?e', of_entry_idx ?ft, of_parent_cluster ?ft)"
      unfolding T'
      by (rule lookup_path_set_entry [OF o(1) at]) (use found ent in \<open>simp_all add: same_head_def\<close>)
    ultimately show ?thesis unfolding pos by simp
  qed
  have low: "lowest_free ((open_files u)[k := ?fu\<lparr>of_used := False\<rparr>]) k"
    using grownD(3) [OF g] open_atD(3) [OF ou] assms(4) t(3)
    by (intro lowest_free_closed [OF assms(5)]) simp_all
  show ?thesis
  proof (rule reopen_open_at [OF ou low assms(3) look])
    fix v w
    assume v: "fat12_close (int k + 3) u = Some (0, v)" "fat12_open ideal_floppy fn v = Some (int k + 3, w)"
      "open_at w ?T' k ks" "of_cursor (open_files w ! k) = 0"
      "of_file_size (open_files w ! k) = of_file_size ?fu" "file_bytes w k ks = file_bytes u k ks"
    have "unat nbyte = unat (of_file_size (open_files w ! k))" using v(5) size by simp
    from read_open_file [OF v(3,4) this assms(12,14)] v(1,2,6) t(1) u(1) bytes
    show ?thesis by auto
  qed
qed

end
