(* ===== verification/Demo_Write.thy ===== *)
theory Demo_Write
  imports Demo_Session Fat12_Roundtrip
begin

text \<open>The hypotheses of the properties of writing, on the small volume.\<close>

lemma demo_marked: "dirs_marked demo demo_tree"
proof -
  have c: "chain_nth (fat_entry demo) 4 n = Some k \<Longrightarrow> k = 4" for n k
    by (cases n) (auto simp: demo_table is_link_def)
  show ?thesis by (auto simp: dirs_marked_def demo_tree_def demo_table split: if_splits dest!: c)
qed

lemma demo_own: "own_chain demo demo_tree 2 [2, 3]"
  using demo_file_chain demo_file_in_fat demo_avoid
  by (simp add: own_chain_def demo_start demo_table)

lemma demo_free_card: "0 < card (free_clusters demo)"
proof -
  have "5 \<in> free_clusters demo" using demo_table_rest [of 5] demo_in_fat by (simp add: free_clusters_def)
  then show ?thesis by (auto simp: card_gt_0_iff)
qed

lemma demo_cluster_bytes: "unat (cluster_bytes demo_geom) = 512"
  by (simp add: unat_cluster_bytes demo_geom_def)

lemma demo_open_at: "open_at demo_open demo_tree 0 [2, 3]"
proof -
  note keep = own_chain_same_disk [OF demo_same_disk]
  have f: "entry_of demo_tree (open_files demo_open ! 0) = demo_a"
    unfolding demo_open_file by (simp add: entry_of_def demo_tree_def)
  have at: "entry_at demo_tree (open_files demo_open ! 0)"
    using f demo_is_dir(1) unfolding demo_open_file by (simp add: entry_at_def demo_tree_def)
  have "demo_a\<lparr>de_first_cluster_low := 2, de_file_size := 600\<rparr> = demo_a"
    by (simp add: demo_a_def make_entry_def)
  then have sync: "sync_entry demo_tree (open_files demo_open ! 0) = demo_tree"
    using set_entry_id [OF at] unfolding sync_entry_def f by (simp add: demo_open_file)
  have "length (file_content demo_open [2, 3]) = 1024" unfolding demo_content by simp
  then show ?thesis
    unfolding open_at_def
    using demo_open_volume demo_marked demo_own keep(1,2) at sync by (simp add: demo_open_file)
qed

lemma demo_open_free: "0 < card (free_clusters demo_open)"
  using demo_free_card same_disk_keep [OF demo_same_disk] by simp

section \<open>A volume whose table is full\<close>

definition demo_packed :: "image fat12_state" where
  "demo_packed = demo\<lparr>dev := demo_image(1 := replicate 512 0xFF)\<rparr>"

lemma demo_packed_ready: "fat_ready demo_packed"
  using demo_ready by (simp add: fat_ready_def on_ideal_def demo_packed_def)

lemma demo_packed_size: "fat_size demo_packed = 512"
  by (simp add: fat_size_def demo_packed_def demo_geom_def)

lemma demo_packed_entry:
  assumes "in_fat demo_packed k"
  shows "fat_entry demo_packed k \<noteq> 0"
proof -
  have k: "Suc (3 * k div 2) < 512" using assms by (simp add: in_table_def demo_packed_size)
  have b: "fat_byte demo_packed i = 0xFF" if "i < 512" for i
  proof -
    have "fat_sector demo_packed i = 1" using that by (simp add: fat_sector_def demo_packed_def demo_geom_def)
    then show ?thesis using that by (simp add: fat_byte_def demo_packed_def)
  qed
  have "u16_of_le 0xFF 0xFF = 0xFFFF" by (simp add: u16_of_le_def)
  then show ?thesis using k b by (simp add: get12_def)
qed

text \<open>The entry of cluster 390 would lie in the root directory, where there are zeros.\<close>

lemma demo_packed_behind: "fat_entry demo_packed 390 = 0"
  by code_simp

end
