(* ===== verification/Console.thy ===== *)
theory Console
  imports Prelude
begin

text \<open>
  The text console of the i386 build: the port accesses of \<open>x86/bios_tools.c\<close>, the VGA console
  of \<open>i386/vga_console.c\<close> and the serial line of \<open>x86/serial.c\<close>. The two port instructions are
  a parameter, the record \<open>port_ops\<close> over a state \<open>'h\<close> of the hardware. The text buffer is the
  list of its 2000 cells; an access outside them is \<open>None\<close>, and so is a serial line that never
  accepts a byte.
\<close>

section \<open>Ports\<close>

record 'h port_ops =
  p_inb :: "u16 \<Rightarrow> 'h \<Rightarrow> u8 \<times> 'h"
  p_outb :: "u16 \<Rightarrow> u8 \<Rightarrow> 'h \<Rightarrow> 'h"

definition io_wait :: "'h port_ops \<Rightarrow> 'h \<Rightarrow> 'h" where
  "io_wait P h = p_outb P 0x80 0 h"

section \<open>The VGA console\<close>

definition VGA_LINES :: nat where "VGA_LINES = 25"
definition VGA_WIDTH :: nat where "VGA_WIDTH = 80"

lemma vga_size [simp]: "VGA_LINES = 25" "VGA_WIDTH = 80"
  by (simp_all add: VGA_LINES_def VGA_WIDTH_def)

record 'h terminal =
  vga_terminal_row :: u32
  vga_terminal_column :: u32
  vga_terminal_color :: u8
  vga_terminal_buffer :: "u16 list"
  hw :: 'h

text \<open>Colours come as machine integers: nothing checks that they are among the sixteen.\<close>

definition vga_entry_color :: "u32 \<Rightarrow> u32 \<Rightarrow> u8" where
  "vga_entry_color fg bg = ucast (fg OR push_bit 4 bg)"

definition vga_entry :: "u8 \<Rightarrow> u8 \<Rightarrow> u16" where
  "vga_entry uc color = ucast uc OR push_bit 8 (ucast color)"

definition put_cell :: "nat \<Rightarrow> u16 \<Rightarrow> 'h terminal \<Rightarrow> 'h terminal option" where
  "put_cell index v t =
     (if index < length (vga_terminal_buffer t)
      then Some (t\<lparr>vga_terminal_buffer := (vga_terminal_buffer t)[index := v]\<rparr>) else None)"

definition vga_terminal_cls :: "'h terminal \<Rightarrow> 'h terminal option" where
  "vga_terminal_cls t =
     fold (\<lambda>index t. Option.bind t (\<lambda>t. put_cell index (vga_entry 0x20 (vga_terminal_color t)) t))
       [y * VGA_WIDTH + x. y \<leftarrow> [0..<VGA_LINES], x \<leftarrow> [0..<VGA_WIDTH]]
       (Some (t\<lparr>vga_terminal_row := 0, vga_terminal_column := 0\<rparr>))"

definition vga_terminal_setcolor :: "u32 \<Rightarrow> u32 \<Rightarrow> 'h terminal \<Rightarrow> 'h terminal" where
  "vga_terminal_setcolor fg_color bg_color t =
     t\<lparr>vga_terminal_color := vga_entry_color fg_color bg_color\<rparr>"

definition vga_terminal_enable_cursor ::
    "'h port_ops \<Rightarrow> u8 \<Rightarrow> u8 \<Rightarrow> 'h terminal \<Rightarrow> 'h terminal" where
  "vga_terminal_enable_cursor P cursor_start cursor_end t =
     (let h = p_outb P 0x3D4 0x0A (hw t);
          (b, h) = p_inb P 0x3D5 h;
          h = p_outb P 0x3D5 ((b AND 0xC0) OR cursor_start) h;
          h = p_outb P 0x3D4 0x0B h;
          (b, h) = p_inb P 0x3D5 h
      in t\<lparr>hw := p_outb P 0x3D5 ((b AND 0xE0) OR cursor_end) h\<rparr>)"

definition vga_terminal_cursor_position :: "'h port_ops \<Rightarrow> 'h \<Rightarrow> u16 \<times> 'h" where
  "vga_terminal_cursor_position P h =
     (let h = p_outb P 0x3D4 0x0F h;
          (lo, h) = p_inb P 0x3D5 h;
          h = p_outb P 0x3D4 0x0E h;
          (hi, h) = p_inb P 0x3D5 h
      in (ucast lo OR push_bit 8 (ucast hi), h))"

text \<open>Column and row of the hardware cursor; both pointers are given.\<close>

definition vga_terminal_get_cursor :: "'h port_ops \<Rightarrow> 'h \<Rightarrow> (u8 \<times> u8) \<times> 'h" where
  "vga_terminal_get_cursor P h =
     (let (pos, h) = vga_terminal_cursor_position P h in ((ucast (pos mod 80), ucast (pos div 80)), h))"

text \<open>The hardware cursor; the product is an \<open>int\<close> and its conversion to 16 bits wraps.\<close>

definition vga_terminal_update_cursor ::
    "'h port_ops \<Rightarrow> int \<Rightarrow> int \<Rightarrow> 'h terminal \<Rightarrow> 'h terminal option" where
  "vga_terminal_update_cursor P x y t = do {
     p \<leftarrow> cint (y * int VGA_WIDTH);
     p \<leftarrow> cint (p + x);
     let pos = (word_of_int p :: u16);
     let h = p_outb P 0x3D4 0x0F (hw t);
     let h = p_outb P 0x3D5 (ucast (pos AND 0xFF)) h;
     let h = p_outb P 0x3D4 0x0E h;
     Some (t\<lparr>hw := p_outb P 0x3D5 (ucast (drop_bit 8 pos AND 0xFF)) h\<rparr>)
   }"

text \<open>With \<open>CONFIG_RESET_CONSOLE\<close>; 7 and 0 are \<open>COLOR_LIGHT_GREY\<close> and \<open>COLOR_BLACK\<close>.\<close>

definition vga_terminal_initialize :: "'h terminal \<Rightarrow> 'h terminal option" where
  "vga_terminal_initialize t = vga_terminal_cls (t\<lparr>vga_terminal_color := vga_entry_color 7 0\<rparr>)"

definition vga_terminal_putentryat ::
    "u8 \<Rightarrow> u8 \<Rightarrow> u32 \<Rightarrow> u32 \<Rightarrow> 'h terminal \<Rightarrow> 'h terminal option" where
  "vga_terminal_putentryat c color x y t = put_cell (unat (y * 80 + x)) (vga_entry c color) t"

text \<open>The two loops of the scroll: every cell moves up one line, the last line is blanked.\<close>

definition scroll_up :: "u16 list \<Rightarrow> u16 list" where
  "scroll_up buf =
     fold (\<lambda>(dest_index, src_index) b. b[dest_index := b ! src_index])
       [((y - 1) * VGA_WIDTH + x, y * VGA_WIDTH + x). y \<leftarrow> [1..<VGA_LINES], x \<leftarrow> [0..<VGA_WIDTH]] buf"

definition vga_terminal_scroll :: "'h terminal \<Rightarrow> 'h terminal option" where
  "vga_terminal_scroll t =
     (if length (vga_terminal_buffer t) < VGA_LINES * VGA_WIDTH then None
      else fold (\<lambda>x t. Option.bind t
             (\<lambda>t. put_cell ((VGA_LINES - 1) * VGA_WIDTH + x) (vga_entry 0x20 (vga_terminal_color t)) t))
           [0..<VGA_WIDTH] (Some (t\<lparr>vga_terminal_buffer := scroll_up (vga_terminal_buffer t)\<rparr>)))"

text \<open>The end of \<open>putchar\<close> and of \<open>newline\<close>: the next row, scrolling at the last one.\<close>

definition vga_next_row :: "'h terminal \<Rightarrow> 'h terminal option" where
  "vga_next_row t = do {
     let t = t\<lparr>vga_terminal_column := 0, vga_terminal_row := vga_terminal_row t + 1\<rparr>;
     (if vga_terminal_row t = 25 then do {
        t \<leftarrow> vga_terminal_scroll t;
        Some (t\<lparr>vga_terminal_row := 24\<rparr>)
      } else Some t)
   }"

definition vga_sync_cursor :: "'h port_ops \<Rightarrow> 'h terminal \<Rightarrow> 'h terminal option" where
  "vga_sync_cursor P t =
     vga_terminal_update_cursor P (sint (vga_terminal_column t)) (sint (vga_terminal_row t)) t"

definition vga_terminal_putchar :: "'h port_ops \<Rightarrow> u8 \<Rightarrow> 'h terminal \<Rightarrow> 'h terminal option" where
  "vga_terminal_putchar P c t = do {
     t \<leftarrow> vga_terminal_putentryat c (vga_terminal_color t) (vga_terminal_column t)
            (vga_terminal_row t) t;
     let t = t\<lparr>vga_terminal_column := vga_terminal_column t + 1\<rparr>;
     t \<leftarrow> (if vga_terminal_column t = 80 then vga_next_row t else Some t);
     vga_sync_cursor P t
   }"

definition vga_terminal_newline :: "'h port_ops \<Rightarrow> 'h terminal \<Rightarrow> 'h terminal option" where
  "vga_terminal_newline P t = do {
     t \<leftarrow> vga_next_row t;
     vga_sync_cursor P t
   }"

definition vga_terminal_backspace :: "'h port_ops \<Rightarrow> 'h terminal \<Rightarrow> 'h terminal option" where
  "vga_terminal_backspace P t =
     (if vga_terminal_column t = 0 \<and> vga_terminal_row t = 0 then Some t
      else do {
        let t = (if vga_terminal_column t = 0
                 then t\<lparr>vga_terminal_row := vga_terminal_row t - 1, vga_terminal_column := 79\<rparr>
                 else t\<lparr>vga_terminal_column := vga_terminal_column t - 1\<rparr>);
        t \<leftarrow> put_cell (unat (vga_terminal_row t * 80 + vga_terminal_column t))
               (vga_entry 0x20 (vga_terminal_color t)) t;
        vga_sync_cursor P t
      })"

section \<open>The serial line\<close>

definition init_serial :: "'h port_ops \<Rightarrow> 'h \<Rightarrow> int \<times> 'h" where
  "init_serial P h =
     (let h = p_outb P 0x3F9 0x00 h;
          h = p_outb P 0x3FB 0x80 h;
          h = p_outb P 0x3F8 0x03 h;
          h = p_outb P 0x3F9 0x00 h;
          h = p_outb P 0x3FB 0x03 h;
          h = p_outb P 0x3FA 0xC7 h;
          h = p_outb P 0x3FC 0x0B h;
          h = p_outb P 0x3FC 0x1E h;
          h = p_outb P 0x3F8 0xAE h;
          (b, h) = p_inb P 0x3F8 h
      in if b \<noteq> 0xAE then (1, h) else (0, p_outb P 0x3FC 0x0F h))"

definition serial_received :: "'h port_ops \<Rightarrow> 'h \<Rightarrow> u8 \<times> 'h" where
  "serial_received P h = (let (b, h) = p_inb P 0x3FD h in (b AND 1, h))"

definition serial_sane_control_codes :: "u8 \<Rightarrow> u8" where
  "serial_sane_control_codes c = (if c = 0x0D then 0x0A else c)"

definition read_serial_right_now :: "'h port_ops \<Rightarrow> 'h \<Rightarrow> u8 \<times> 'h" where
  "read_serial_right_now P h = p_inb P 0x3F8 h"

definition is_transmit_empty :: "'h port_ops \<Rightarrow> 'h \<Rightarrow> u8 \<times> 'h" where
  "is_transmit_empty P h = (let (b, h) = p_inb P 0x3FD h in (b AND 0x20, h))"

partial_function (option) read_serial :: "'h port_ops \<Rightarrow> 'h \<Rightarrow> (u8 \<times> 'h) option" where
  "read_serial P h =
     (let (r, h) = serial_received P h
      in if r = 0 then read_serial P h else Some (read_serial_right_now P h))"

partial_function (option) write_serial :: "'h port_ops \<Rightarrow> u8 \<Rightarrow> 'h \<Rightarrow> 'h option" where
  "write_serial P a h =
     (let (r, h) = is_transmit_empty P h
      in if r = 0 then write_serial P a h else Some (p_outb P 0x3F8 a h))"

definition term_serial :: "'h port_ops \<Rightarrow> u8 \<Rightarrow> 'h terminal \<Rightarrow> 'h terminal option" where
  "term_serial P a t = do {
     h \<leftarrow> write_serial P a (hw t);
     Some (t\<lparr>hw := h\<rparr>)
   }"

section \<open>The screen stays consistent\<close>

text \<open>The cursor is on the screen and the buffer has its 2000 cells.\<close>

definition console_ok :: "'h terminal \<Rightarrow> bool" where
  "console_ok t \<longleftrightarrow>
     vga_terminal_row t < 25 \<and> vga_terminal_column t < 80 \<and> length (vga_terminal_buffer t) = 2000"

lemma console_okD:
  assumes "console_ok t"
  shows "unat (vga_terminal_row t) < 25" and "unat (vga_terminal_column t) < 80"
    and "length (vga_terminal_buffer t) = 2000"
  using assms by (simp_all add: console_ok_def word_less_nat_alt)

definition blank :: "'h terminal \<Rightarrow> u16" where
  "blank t = vga_entry 0x20 (vga_terminal_color t)"

lemma scroll_pairs:
  "[((y - 1) * VGA_WIDTH + x, y * VGA_WIDTH + x). y \<leftarrow> [1..<VGA_LINES], x \<leftarrow> [0..<VGA_WIDTH]] =
     map (\<lambda>i. (i, i + 80)) [0..<1920]"
proof -
  have "[((y - 1) * 80 + x, y * 80 + x). y \<leftarrow> [1..<Suc n], x \<leftarrow> [0..<80]] =
      map (\<lambda>i. (i, i + 80)) [0..<n * 80]" for n :: nat
  proof (induction n)
    case (Suc n)
    have "map (\<lambda>x. (n * 80 + x, Suc n * 80 + x)) [0..<80] = map (\<lambda>i. (i, i + 80)) [n * 80..<Suc n * 80]"
      by (rule nth_equalityI) simp_all
    moreover have "[0..<Suc n * 80] = [0..<n * 80] @ [n * 80..<Suc n * 80]"
      by (metis le_add1 mult_Suc add.commute upt_add_eq_append zero_le)
    ultimately show ?case using Suc by simp
  qed simp
  from this [of 24] show ?thesis by simp
qed

lemma shift_fold:
  "n + 80 \<le> length buf \<Longrightarrow>
     fold (\<lambda>(d, s) b. b[d := b ! s]) (map (\<lambda>i. (i, i + 80)) [0..<n]) buf =
       take n (drop 80 buf) @ drop n buf"
proof (induction n)
  case (Suc n)
  have "(take n (drop 80 buf) @ drop n buf)[n := (take n (drop 80 buf) @ drop n buf) ! (n + 80)] =
      take (Suc n) (drop 80 buf) @ drop (Suc n) buf"
  proof -
    have "length (take n (drop 80 buf)) = n" "length (take (Suc n) (drop 80 buf)) = Suc n"
      using Suc.prems by simp_all
    then show ?thesis
      using Suc.prems
      by (intro nth_equalityI)
        (simp_all add: nth_append nth_list_update less_Suc_eq add.commute del: length_take)
  qed
  with Suc show ?case by simp
qed simp

lemma scroll_up_eq: "length buf = 2000 \<Longrightarrow> scroll_up buf = drop 80 buf @ drop 1920 buf"
  unfolding scroll_up_def scroll_pairs by (subst shift_fold) simp_all

lemma fill_fold:
  "off + n \<le> length (vga_terminal_buffer t) \<Longrightarrow>
     fold (\<lambda>x t. Option.bind t (\<lambda>t. put_cell (off + x) (vga_entry 0x20 (vga_terminal_color t)) t))
       [0..<n] (Some t) =
     Some (t\<lparr>vga_terminal_buffer := put_bytes (vga_terminal_buffer t) off (replicate n (blank t))\<rparr>)"
proof (induction n)
  case (Suc n)
  then show ?case
    using put_bytes_snoc [of off "replicate n (blank t)" "vga_terminal_buffer t" "blank t"]
    by (simp add: put_cell_def blank_def replicate_append_same)
qed simp

text \<open>A scroll drops the first line and appends a blank one.\<close>

lemma vga_terminal_scroll_eq:
  assumes "length (vga_terminal_buffer t) = 2000"
  shows "vga_terminal_scroll t =
    Some (t\<lparr>vga_terminal_buffer := drop 80 (vga_terminal_buffer t) @ replicate 80 (blank t)\<rparr>)"
proof -
  let ?t = "t\<lparr>vga_terminal_buffer := drop 80 (vga_terminal_buffer t) @ drop 1920 (vga_terminal_buffer t)\<rparr>"
  have "vga_terminal_scroll t =
      Some (?t\<lparr>vga_terminal_buffer := put_bytes (vga_terminal_buffer ?t) 1920 (replicate 80 (blank ?t))\<rparr>)"
    using assms fill_fold [of 1920 80 ?t] by (simp add: vga_terminal_scroll_def scroll_up_eq)
  then show ?thesis using assms by (simp add: put_bytes_def blank_def)
qed

lemma vga_terminal_cls_eq:
  assumes "length (vga_terminal_buffer t) = 2000"
  shows "vga_terminal_cls t = Some (t\<lparr>vga_terminal_row := 0, vga_terminal_column := 0,
    vga_terminal_buffer := replicate 2000 (blank t)\<rparr>)"
proof -
  have "[y * 80 + x. y \<leftarrow> [0..<n], x \<leftarrow> [0..<80]] = [0..<n * 80]" for n :: nat
  proof (induction n)
    case (Suc n)
    have "map (\<lambda>x. n * 80 + x) [0..<80] = [n * 80..<Suc n * 80]"
      by (rule nth_equalityI) simp_all
    moreover have "[0..<Suc n * 80] = [0..<n * 80] @ [n * 80..<Suc n * 80]"
      by (metis le_add1 mult_Suc add.commute upt_add_eq_append zero_le)
    ultimately show ?case using Suc by simp
  qed simp
  from this [of 25] have cells: "[y * VGA_WIDTH + x. y \<leftarrow> [0..<VGA_LINES], x \<leftarrow> [0..<VGA_WIDTH]] = [0..<2000]"
    by simp
  let ?t = "t\<lparr>vga_terminal_row := 0, vga_terminal_column := 0\<rparr>"
  show ?thesis
    unfolding vga_terminal_cls_def cells
    using assms fill_fold [of 0 2000 ?t] by (simp add: put_bytes_def blank_def)
qed

section \<open>Every operation keeps the screen consistent\<close>

lemma vga_sync_cursor_eq:
  assumes "console_ok t"
  shows "\<exists>h. vga_sync_cursor P t = Some (t\<lparr>hw := h\<rparr>)"
proof -
  obtain r c where rc: "sint (vga_terminal_row t) = int r" "sint (vga_terminal_column t) = int c"
    and "r < 25" "c < 80"
    by (rule that [of "unat (vga_terminal_row t)" "unat (vga_terminal_column t)"])
      (use console_okD [OF assms] in \<open>simp_all add: sint_small\<close>)
  then have "cint (int r * 80) = Some (int r * 80)" "cint (int r * 80 + int c) = Some (int r * 80 + int c)"
    by simp_all
  then show ?thesis
    by (simp add: vga_sync_cursor_def vga_terminal_update_cursor_def rc Let_def del: cint_Some_iff)
      (intro exI, rule refl)
qed

text \<open>The cell under the cursor and the step to the next row, as total functions.\<close>

definition cursor_cell :: "'h terminal \<Rightarrow> nat" where
  "cursor_cell t = unat (vga_terminal_row t) * 80 + unat (vga_terminal_column t)"

definition next_row :: "'h terminal \<Rightarrow> 'h terminal" where
  "next_row t =
     (if vga_terminal_row t = 24
      then t\<lparr>vga_terminal_column := 0,
             vga_terminal_buffer := drop 80 (vga_terminal_buffer t) @ replicate 80 (blank t)\<rparr>
      else t\<lparr>vga_terminal_column := 0, vga_terminal_row := vga_terminal_row t + 1\<rparr>)"

definition put_glyph :: "u8 \<Rightarrow> 'h terminal \<Rightarrow> 'h terminal" where
  "put_glyph c t =
     (let t' = t\<lparr>vga_terminal_buffer :=
            (vga_terminal_buffer t)[cursor_cell t := vga_entry c (vga_terminal_color t)]\<rparr>
      in if vga_terminal_column t = 79 then next_row t'
         else t'\<lparr>vga_terminal_column := vga_terminal_column t + 1\<rparr>)"

definition rub_out :: "'h terminal \<Rightarrow> 'h terminal" where
  "rub_out t =
     (if vga_terminal_column t = 0 \<and> vga_terminal_row t = 0 then t
      else let t' = (if vga_terminal_column t = 0
                     then t\<lparr>vga_terminal_row := vga_terminal_row t - 1, vga_terminal_column := 79\<rparr>
                     else t\<lparr>vga_terminal_column := vga_terminal_column t - 1\<rparr>)
           in t'\<lparr>vga_terminal_buffer := (vga_terminal_buffer t)[cursor_cell t - 1 := blank t]\<rparr>)"

lemma unat_row_plus1: "unat (r :: u32) < 25 \<Longrightarrow> unat (r + 1) = Suc (unat r)"
  by (simp add: unat_add_u32)

lemma vga_next_row_eq:
  assumes "unat (vga_terminal_row t) < 25" and "length (vga_terminal_buffer t) = 2000"
  shows "vga_next_row t = Some (next_row t)"
proof -
  have "vga_terminal_row t + 1 = 25 \<longleftrightarrow> vga_terminal_row t = 24"
    by (simp add: eq_diff_eq [symmetric])
  then show ?thesis
    using assms(2) by (simp add: vga_next_row_def next_row_def blank_def vga_terminal_scroll_eq)
qed

lemma next_row_ok:
  assumes "unat (vga_terminal_row t) < 25" and "length (vga_terminal_buffer t) = 2000"
  shows "console_ok (next_row t)"
proof -
  have "unat (vga_terminal_row t + 1) < 25" if "vga_terminal_row t \<noteq> 24"
  proof -
    have "unat (vga_terminal_row t) \<noteq> 24" using that by (auto simp: word_unat_eq_iff)
    then show ?thesis using assms(1) unat_row_plus1 by simp
  qed
  then show ?thesis using assms by (auto simp: next_row_def console_ok_def word_less_nat_alt)
qed

lemma cursor_cell_word:
  assumes "console_ok t"
  shows "unat (vga_terminal_row t * 80 + vga_terminal_column t) = cursor_cell t"
    and "cursor_cell t < 2000"
proof -
  have "unat (vga_terminal_row t * 80) = unat (vga_terminal_row t) * 80"
    using console_okD [OF assms] by (subst unat_mult_u32) simp_all
  then show "unat (vga_terminal_row t * 80 + vga_terminal_column t) = cursor_cell t"
    using console_okD [OF assms] by (simp add: unat_add_u32 cursor_cell_def)
  show "cursor_cell t < 2000" using console_okD [OF assms] by (simp add: cursor_cell_def)
qed

lemma next_row_hw [simp]: "next_row (t\<lparr>hw := h\<rparr>) = (next_row t)\<lparr>hw := h\<rparr>"
  by (simp add: next_row_def blank_def)

lemma next_row_column [simp]: "next_row (t\<lparr>vga_terminal_column := x\<rparr>) = next_row t"
  by (simp add: next_row_def blank_def)

lemma console_ok_hw [simp]: "console_ok (t\<lparr>hw := h\<rparr>) = console_ok t"
  by (simp add: console_ok_def)

lemma put_glyph_ok: "console_ok t \<Longrightarrow> console_ok (put_glyph c t)"
proof -
  assume ok: "console_ok t"
  have "unat (vga_terminal_column t + 1) < 80" if "vga_terminal_column t \<noteq> 79"
  proof -
    have "unat (vga_terminal_column t) \<noteq> 79" using that by (auto simp: word_unat_eq_iff)
    then show ?thesis using console_okD(2) [OF ok] by (simp add: unat_add_u32)
  qed
  moreover have "console_ok (next_row (t\<lparr>vga_terminal_buffer :=
      (vga_terminal_buffer t)[cursor_cell t := vga_entry c (vga_terminal_color t)]\<rparr>))"
    using console_okD [OF ok] by (intro next_row_ok) simp_all
  ultimately show ?thesis
    using ok by (simp add: put_glyph_def Let_def) (simp add: console_ok_def word_less_nat_alt)
qed

text \<open>Each operation on a consistent screen, up to the hardware cursor.\<close>

lemma vga_terminal_putchar_eq:
  assumes "console_ok t"
  shows "\<exists>h. vga_terminal_putchar P c t = Some ((put_glyph c t)\<lparr>hw := h\<rparr>)"
proof -
  note ok = console_okD [OF assms] and cell = cursor_cell_word [OF assms]
  have put: "vga_terminal_putentryat c (vga_terminal_color t) (vga_terminal_column t)
      (vga_terminal_row t) t = Some (t\<lparr>vga_terminal_buffer :=
        (vga_terminal_buffer t)[cursor_cell t := vga_entry c (vga_terminal_color t)]\<rparr>)"
    using ok cell by (simp add: vga_terminal_putentryat_def put_cell_def)
  have "vga_terminal_column t + 1 = 80 \<longleftrightarrow> vga_terminal_column t = 79"
    by (simp add: eq_diff_eq [symmetric])
  then have "vga_terminal_putchar P c t = vga_sync_cursor P (put_glyph c t)"
    unfolding vga_terminal_putchar_def put
    using ok by (cases "vga_terminal_column t = 79")
      (simp_all add: put_glyph_def vga_next_row_eq Let_def)
  then show ?thesis using vga_sync_cursor_eq [OF put_glyph_ok [OF assms], of P c] by simp
qed

lemma vga_terminal_newline_eq:
  assumes "console_ok t"
  shows "\<exists>h. vga_terminal_newline P t = Some ((next_row t)\<lparr>hw := h\<rparr>)"
  using console_okD [OF assms] vga_sync_cursor_eq [OF next_row_ok, of t P]
  by (simp add: vga_terminal_newline_def vga_next_row_eq)

lemma rub_out_ok: "console_ok t \<Longrightarrow> console_ok (rub_out t)"
proof -
  assume ok: "console_ok t"
  have "unat (vga_terminal_row t - 1) < 25" if "vga_terminal_row t \<noteq> 0"
    using that console_okD(1) [OF ok] by (simp add: unat_sub word_le_nat_alt unat_gt_0 Suc_leI)
  moreover have "unat (vga_terminal_column t - 1) < 80" if "vga_terminal_column t \<noteq> 0"
    using that console_okD(2) [OF ok] by (simp add: unat_sub word_le_nat_alt unat_gt_0 Suc_leI)
  ultimately show ?thesis
    using ok by (auto simp: rub_out_def console_ok_def word_less_nat_alt Let_def)
qed

lemma vga_terminal_backspace_eq:
  assumes "console_ok t"
  shows "\<exists>h. vga_terminal_backspace P t = Some ((rub_out t)\<lparr>hw := h\<rparr>)"
proof (cases "vga_terminal_column t = 0 \<and> vga_terminal_row t = 0")
  case True
  then show ?thesis by (intro exI [of _ "hw t"]) (simp add: vga_terminal_backspace_def rub_out_def)
next
  case False
  let ?t = "if vga_terminal_column t = 0
    then t\<lparr>vga_terminal_row := vga_terminal_row t - 1, vga_terminal_column := 79\<rparr>
    else t\<lparr>vga_terminal_column := vga_terminal_column t - 1\<rparr>"
  have ok: "console_ok ?t"
    using rub_out_ok [OF assms] False by (auto simp: rub_out_def console_ok_def Let_def split: if_splits)
  have "cursor_cell ?t = cursor_cell t - 1"
  proof (cases "vga_terminal_column t = 0")
    case True
    then have "1 \<le> unat (vga_terminal_row t)" using False by (simp add: unat_gt_0 Suc_leI)
    then show ?thesis using True by (simp add: cursor_cell_def unat_sub word_le_nat_alt)
  next
    case col: False
    then have "1 \<le> unat (vga_terminal_column t)" by (simp add: unat_gt_0 Suc_leI)
    then show ?thesis using col by (simp add: cursor_cell_def unat_sub word_le_nat_alt)
  qed
  then have "put_cell (unat (vga_terminal_row ?t * 80 + vga_terminal_column ?t))
      (vga_entry 0x20 (vga_terminal_color ?t)) ?t = Some (rub_out t)"
    using cursor_cell_word [OF ok] console_okD(3) [OF ok] console_okD(3) [OF assms] False
    by (simp add: put_cell_def rub_out_def blank_def Let_def)
  then show ?thesis
    using vga_sync_cursor_eq [OF rub_out_ok [OF assms], of P]
    unfolding vga_terminal_backspace_def Let_def if_not_P [OF False] by simp
qed

section \<open>The serial line sends\<close>

text \<open>The transmitter becomes ready after finitely many polls of the line status register.\<close>

fun after_polls :: "'h port_ops \<Rightarrow> nat \<Rightarrow> 'h \<Rightarrow> 'h" where
  "after_polls P 0 h = h"
| "after_polls P (Suc n) h = after_polls P n (snd (p_inb P 0x3FD h))"

definition uart_ready :: "'h port_ops \<Rightarrow> bool" where
  "uart_ready P \<longleftrightarrow> (\<forall>h. \<exists>n. fst (p_inb P 0x3FD (after_polls P n h)) AND 0x20 \<noteq> 0)"

lemma write_serial_returns:
  assumes "uart_ready P"
  shows "\<exists>h'. write_serial P a h = Some h'"
proof -
  have "fst (p_inb P 0x3FD (after_polls P n h)) AND 0x20 \<noteq> 0 \<Longrightarrow> \<exists>h'. write_serial P a h = Some h'" for n
  proof (induction n arbitrary: h)
    case 0
    then show ?case by (subst write_serial.simps) (simp add: is_transmit_empty_def split_beta Let_def)
  next
    case (Suc n)
    then have "\<exists>h'. write_serial P a (snd (p_inb P 0x3FD h)) = Some h'" by simp
    then show ?case by (subst write_serial.simps) (simp add: is_transmit_empty_def split_beta Let_def)
  qed
  with assms show ?thesis unfolding uart_ready_def by blast
qed

lemma term_serial_eq: "uart_ready P \<Longrightarrow> \<exists>h. term_serial P a t = Some (t\<lparr>hw := h\<rparr>)"
  using write_serial_returns [of P a "hw t"] by (auto simp: term_serial_def)

end
