(* ===== verification/Str_Mem.thy ===== *)
theory Str_Mem
  imports Str
begin

text \<open>
  The remaining routines of \<open>kernel/str.c\<close>: the bounded concatenation, the conversion of an
  integer to decimal digits, and the three memory routines. As in \<open>Str\<close> an access outside an
  object is \<open>None\<close>, and so is the negation of the least \<open>int\<close> in \<open>itoa\<close>.
\<close>

section \<open>strconcat\<close>

text \<open>The copy loop at offset \<open>i\<close> of the destination; the list argument is the rest of the source.\<close>

fun strconcat_loop :: "bytes \<Rightarrow> nat \<Rightarrow> bytes \<Rightarrow> int \<Rightarrow> (bytes \<times> nat) option" where
  "strconcat_loop destination i [] lim = (if int i < lim then None else Some (destination, i))"
| "strconcat_loop destination i (c # source) lim =
     (if int i < lim \<and> c \<noteq> 0
      then if i < length destination
           then strconcat_loop (destination[i := c]) (Suc i) source lim else None
      else Some (destination, i))"

definition strconcat :: "bytes \<Rightarrow> bytes \<Rightarrow> u32 \<Rightarrow> (bytes \<times> nat) option" where
  "strconcat destination source n = do {
     len \<leftarrow> strlen destination;
     lim \<leftarrow> cint (sint n - 1);
     (destination, i) \<leftarrow> strconcat_loop destination len source lim;
     (if i < length destination then Some (destination[i := 0], i) else None)
   }"

section \<open>itoa\<close>

text \<open>The digit loop, least digit first; a character is stored as the byte of its code.\<close>

function itoa_digits :: "int \<Rightarrow> bytes \<Rightarrow> nat \<Rightarrow> (bytes \<times> nat) option" where
  "itoa_digits N str i =
     (if N > 0
      then if i < length str
           then itoa_digits (N div 10) (str[i := word_of_int (N mod 10 + 0x30)]) (Suc i) else None
      else Some (str, i))"
  by pat_completeness auto
termination by (relation "measure (\<lambda>(N, str, i). nat N)") auto

declare itoa_digits.simps [simp del]

text \<open>The reversal loop between the indices \<open>j\<close> and \<open>k\<close>.\<close>

function itoa_reverse :: "bytes \<Rightarrow> int \<Rightarrow> int \<Rightarrow> bytes" where
  "itoa_reverse str j k =
     (if j < k
      then let temp = str ! nat j;
               str = str[nat j := str ! nat k];
               str = str[nat k := temp]
           in itoa_reverse str (j + 1) (k - 1)
      else str)"
  by pat_completeness auto
termination by (relation "measure (\<lambda>(str, j, k). nat (k - j))") auto

declare itoa_reverse.simps [simp del]

definition itoa :: "int \<Rightarrow> bytes \<Rightarrow> bytes option" where
  "itoa N str =
     (if N = 0 then
        if 1 < length str then Some (str[0 := 0x30, 1 := 0]) else None
      else do {
        let sign = N;
        N \<leftarrow> (if N < 0 then cint (- N) else Some N);
        (str, i) \<leftarrow> itoa_digits N str 0;
        (str, i) \<leftarrow> (if sign < 0
                    then if i < length str then Some (str[i := 0x2D], Suc i) else None
                    else Some (str, i));
        (if i < length str then Some (itoa_reverse (str[i := 0]) 0 (int i - 1)) else None)
      })"

section \<open>Memory routines\<close>

text \<open>The loops advance both pointers; the offset \<open>i\<close> is common to them.\<close>

fun memcpy_loop :: "bytes \<Rightarrow> bytes \<Rightarrow> nat \<Rightarrow> nat \<Rightarrow> bytes option" where
  "memcpy_loop d s i 0 = Some d"
| "memcpy_loop d s i (Suc n) =
     (if i < length d \<and> i < length s then memcpy_loop (d[i := s ! i]) s (Suc i) n else None)"

definition memcpy :: "bytes \<Rightarrow> bytes \<Rightarrow> nat \<Rightarrow> bytes option" where
  "memcpy dest src n = memcpy_loop dest src 0 n"

fun memset_loop :: "bytes \<Rightarrow> u8 \<Rightarrow> nat \<Rightarrow> nat \<Rightarrow> bytes option" where
  "memset_loop p c i 0 = Some p"
| "memset_loop p c i (Suc n) =
     (if i < length p then memset_loop (p[i := c]) c (Suc i) n else None)"

definition memset :: "bytes \<Rightarrow> int \<Rightarrow> nat \<Rightarrow> bytes option" where
  "memset s c n = memset_loop s (word_of_int c) 0 n"

fun memcmp :: "bytes \<Rightarrow> bytes \<Rightarrow> nat \<Rightarrow> int option" where
  "memcmp s1 s2 0 = Some 0"
| "memcmp (a # s1) (b # s2) (Suc n) =
     (if a \<noteq> b then Some (uint a - uint b) else memcmp s1 s2 n)"
| "memcmp _ _ (Suc n) = None"

section \<open>Correctness of strconcat\<close>

lemma strconcat_loop_eq:
  assumes "0 \<in> set source" and "int i \<le> lim" and "lim < int (length destination)"
  shows "strconcat_loop destination i source lim =
    Some (put_bytes destination i (take (nat lim - i) (cstr source)),
          i + min (nat lim - i) (length (cstr source)))"
  using assms
proof (induction source arbitrary: destination i)
  case (Cons c source)
  show ?case
  proof (cases "int i < lim \<and> c \<noteq> 0")
    case True
    then have "nat lim - i = Suc (nat lim - Suc i)" by linarith
    with True Cons.IH [of "Suc i" "destination[i := c]"] Cons.prems show ?thesis
      by (simp add: cstr_def put_bytes_Cons)
  next
    case False
    then have "take (nat lim - i) (cstr (c # source)) = []" by (auto simp: cstr_def)
    moreover from this have "min (nat lim - i) (length (cstr (c # source))) = 0"
      by (metis length_0_conv length_take min.commute)
    ultimately show ?thesis using False by (auto simp del: take_eq_Nil)
  qed
qed simp

text \<open>
  A destination of at least \<open>n\<close> bytes that holds a string shorter than \<open>n\<close> afterwards holds the
  concatenation cut to \<open>n - 1\<close> characters, and the result is its length.
\<close>

lemma cstr_put_bytes_end:
  assumes "0 \<in> set d" and "0 \<notin> set ys" and "length (cstr d) + length ys < length d"
  shows "cstr ((put_bytes d (length (cstr d)) ys)[length (cstr d) + length ys := 0]) = cstr d @ ys"
proof -
  have take: "take (length (cstr d)) d = cstr d"
    unfolding cstr_def by (metis takeWhile_eq_take)
  have "(put_bytes d (length (cstr d)) ys)[length (cstr d) + length ys := 0] =
      (cstr d @ ys) @ 0 # drop (Suc (length (cstr d) + length ys)) d"
    using assms(3) take by (simp add: put_bytes_snoc) (simp add: put_bytes_def)
  moreover have "0 \<notin> set (cstr d @ ys)" using assms(2) cstr_nonzero by auto
  ultimately show ?thesis by (metis cstr_append_NUL)
qed

lemma strconcat_eq:
  assumes "0 \<in> set destination" and "0 \<in> set source" and "unat n \<le> length destination"
    and "length (cstr destination) < unat n" and "unat n < 2147483648"
  obtains d where "strconcat destination source n = Some (d, length (cstr d))"
    "cstr d = take (unat n - 1) (cstr destination @ cstr source)" "length d = length destination"
proof -
  let ?l = "length (cstr destination)" and ?k = "unat n - 1 - length (cstr destination)"
  let ?ys = "take ?k (cstr source)"
  have s: "sint n = int (unat n)" by (rule sint_small [OF assms(5)])
  have lim: "cint (sint n - 1) = Some (int (unat n) - 1)"
    unfolding s cint_Some_iff using assms(4,5) by linarith
  have nl: "nat (int (unat n) - 1) - ?l = ?k" by linarith
  have loop: "strconcat_loop destination ?l source (int (unat n) - 1) =
      Some (put_bytes destination ?l ?ys, ?l + length ?ys)"
  proof -
    have "int ?l \<le> int (unat n) - 1" "int (unat n) - 1 < int (length destination)"
      using assms(3,4) by linarith+
    from strconcat_loop_eq [OF assms(2) this] show ?thesis unfolding nl by (simp add: min.commute)
  qed
  have "length ?ys \<le> ?k" by simp
  then have room: "?l + length ?ys < length destination" using assms(3,4) by linarith
  let ?d = "(put_bytes destination ?l ?ys)[?l + length ?ys := 0]"
  have "0 \<notin> set ?ys" using cstr_nonzero by (metis in_set_takeD)
  from cstr_put_bytes_end [OF assms(1) this room]
  have c: "cstr ?d = cstr destination @ ?ys" .
  show thesis
  proof (rule that [of ?d])
    show "cstr ?d = take (unat n - 1) (cstr destination @ cstr source)"
      using c assms(4) by (simp add: take_append)
    show "length ?d = length destination" using room by simp
    show "strconcat destination source n = Some (?d, length (cstr ?d))"
      using assms(1) loop room c by (simp add: strconcat_def strlen_eq lim)
  qed
qed

section \<open>Correctness of itoa\<close>

text \<open>The decimal digits of a natural number, most significant first.\<close>

fun decimal :: "nat \<Rightarrow> bytes" where
  "decimal n = (if n < 10 then [of_nat (n + 48)] else decimal (n div 10) @ [of_nat (n mod 10 + 48)])"

declare decimal.simps [simp del]

definition decimal_int :: "int \<Rightarrow> bytes" where
  "decimal_int N = (if N < 0 then [0x2D] else []) @ decimal (nat \<bar>N\<bar>)"

text \<open>Reading the digits back.\<close>

definition of_decimal :: "bytes \<Rightarrow> nat" where
  "of_decimal ds = foldl (\<lambda>n c. 10 * n + (unat c - 48)) 0 ds"

lemma of_decimal_decimal: "of_decimal (decimal n) = n"
proof (induction n rule: decimal.induct)
  case (1 n)
  have d: "unat (of_nat (k + 48) :: u8) - 48 = k" if "k < 10" for k
    using that by (simp add: unat_of_nat take_bit_nat_eq_self del: of_nat_add)
  show ?case
  proof (cases "n < 10")
    case True
    with d [OF True] show ?thesis by (simp add: decimal.simps [of n] of_decimal_def)
  next
    case False
    have "foldl (\<lambda>n c. 10 * n + (unat c - 48)) 0 (decimal (n div 10)) = n div 10"
      using 1 [OF False] by (simp add: of_decimal_def)
    moreover have "unat (of_nat (n mod 10 + 48) :: u8) - 48 = n mod 10" by (rule d) simp
    ultimately show ?thesis using False by (simp add: decimal.simps [of n] of_decimal_def)
  qed
qed

lemma decimal_bounds: "n < 10 ^ k \<Longrightarrow> 0 < k \<Longrightarrow> length (decimal n) \<le> k"
proof (induction k arbitrary: n)
  case (Suc k)
  show ?case
  proof (cases "n < 10")
    case False
    then have "0 < k" using Suc.prems by (cases k) auto
    moreover have "n div 10 < 10 ^ k" using Suc.prems(1) by (simp add: less_mult_imp_div_less mult.commute)
    ultimately show ?thesis using False Suc.IH [of "n div 10"] by (simp add: decimal.simps [of n])
  qed (simp add: decimal.simps [of n])
qed simp

lemma decimal_nonempty: "decimal n \<noteq> []"
  by (simp add: decimal.simps [of n])

lemma itoa_digits_eq:
  "0 < n \<Longrightarrow> i + length (decimal n) \<le> length str \<Longrightarrow>
     itoa_digits (int n) str i =
       Some (put_bytes str i (rev (decimal n)), i + length (decimal n))"
proof (induction n arbitrary: str i rule: decimal.induct)
  case (1 n)
  have len: "i < length str" using 1(3) decimal_nonempty [of n] by (cases "decimal n") auto
  have c: "word_of_int (int n mod 10 + 48) = (of_nat (n mod 10 + 48) :: u8)"
    using of_int_of_nat_eq [of "n mod 10 + 48", where ?'a = "8 word"] by (simp add: zmod_int)
  have step: "itoa_digits (int n) str i =
      itoa_digits (int (n div 10)) (str[i := of_nat (n mod 10 + 48)]) (Suc i)"
    using 1(2) len c by (subst itoa_digits.simps) (simp add: zdiv_int del: of_nat_add)
  show ?case
  proof (cases "n < 10")
    case True
    then have "n div 10 = 0" "n mod 10 = n" by simp_all
    with True step len show ?thesis
      by (simp add: decimal.simps [of n] itoa_digits.simps [of 0] put_bytes_single)
  next
    case False
    then have "itoa_digits (int (n div 10)) (str[i := of_nat (n mod 10 + 48)]) (Suc i) =
        Some (put_bytes (str[i := of_nat (n mod 10 + 48)]) (Suc i) (rev (decimal (n div 10))),
              Suc i + length (decimal (n div 10)))"
      using 1(3) by (intro 1(1)) (simp_all add: decimal.simps [of n])
    with False step len show ?thesis by (simp add: decimal.simps [of n] put_bytes_Cons)
  qed
qed

text \<open>The reversal loop reverses a segment of the buffer.\<close>

lemma itoa_reverse_eq:
  "length ys = n \<Longrightarrow>
     itoa_reverse (xs @ ys @ zs) (int (length xs)) (int (length xs + n) - 1) = xs @ rev ys @ zs"
proof (induction n arbitrary: xs ys zs rule: less_induct)
  case (less n)
  show ?case
  proof (cases "n < 2")
    case True
    then have "ys = [] \<or> (\<exists>y. ys = [y])" using less.prems by (cases ys) auto
    then have "rev ys = ys" by auto
    with True show ?thesis by (subst itoa_reverse.simps) simp
  next
    case False
    then obtain a ms where ys: "ys = a # ms" "ms \<noteq> []" using less.prems
      by (cases ys) auto
    then obtain ms' b where ms: "ys = a # ms' @ [b]" by (metis rev_exhaust)
    then have n: "n = Suc (Suc (length ms'))" using less.prems by simp
    have k: "nat (int (length xs + n) - 1) = Suc (length xs + length ms')" using n by simp
    have b: "(xs @ ys @ zs) ! Suc (length xs + length ms') = b"
      using nth_append_length [of "xs @ a # ms'" b zs] by (simp add: ms)
    have "itoa_reverse (xs @ ys @ zs) (int (length xs)) (int (length xs + n) - 1) =
        itoa_reverse ((xs @ [b]) @ ms' @ a # zs) (int (length (xs @ [b])))
          (int (length (xs @ [b]) + length ms') - 1)"
      using n k b
      by (subst itoa_reverse.simps) (simp add: Let_def ms nth_append list_update_append add.commute)
    also have "\<dots> = (xs @ [b]) @ rev ms' @ a # zs" by (rule less.IH) (use n in simp_all)
    finally show ?thesis using ms by simp
  qed
qed

lemma itoa_eq:
  assumes "- 2147483648 < N" and "N < 2147483648" and "length (decimal_int N) < length str"
  shows "itoa N str = Some (put_bytes str 0 (decimal_int N @ [0]))"
proof (cases "N = 0")
  case True
  then have "1 < length str" using assms(3) by (simp add: decimal_int_def decimal.simps [of 0])
  then obtain a b r where "str = a # b # r" by (cases str; cases "tl str") auto
  then show ?thesis using True
    by (simp add: itoa_def decimal_int_def decimal.simps [of 0] put_bytes_def)
next
  case False
  obtain m where abs: "(if N < 0 then cint (- N) else Some N) = Some (int m)" and m: "0 < m"
    and dec: "decimal_int N = (if N < 0 then [0x2D] else []) @ decimal m"
    using assms(1,2) False that [of "nat \<bar>N\<bar>"] by (auto simp: decimal_int_def)
  let ?d = "decimal m"
  have len: "length ?d < length str" using assms(3) by (simp add: dec)
  have digits: "itoa_digits (int m) str 0 = Some (put_bytes str 0 (rev ?d), length ?d)"
    using itoa_digits_eq [of m 0 str] m len by simp
  let ?r = "rev ?d @ (if N < 0 then [0x2D] else [])"
  have r: "length ?r = length (decimal_int N)" "rev ?r = decimal_int N"
    by (simp_all add: dec)
  have sign: "(if N < 0 then if length ?d < length (put_bytes str 0 (rev ?d))
        then Some ((put_bytes str 0 (rev ?d))[length ?d := 0x2D], Suc (length ?d)) else None
      else Some (put_bytes str 0 (rev ?d), length ?d)) = Some (put_bytes str 0 ?r, length ?r)"
    using len put_bytes_snoc [of 0 "rev ?d" str "0x2D"] by simp
  have fin: "(put_bytes str 0 ?r)[length ?r := 0] = [] @ ?r @ 0 # drop (Suc (length ?r)) str"
    using assms(3) r(1) put_bytes_snoc [of 0 ?r str 0] by (simp add: put_bytes_def)
  have "itoa N str = Some (itoa_reverse ((put_bytes str 0 ?r)[length ?r := 0]) 0 (int (length ?r) - 1))"
    unfolding itoa_def using False abs digits sign r(1) assms(3) by (simp del: cint_Some_iff)
  also have "itoa_reverse ((put_bytes str 0 ?r)[length ?r := 0]) 0 (int (length ?r) - 1) =
      rev ?r @ 0 # drop (Suc (length ?r)) str"
    unfolding fin using itoa_reverse_eq [OF refl, of "[]" ?r] by simp
  finally show ?thesis using r by (simp add: put_bytes_def)
qed

text \<open>A buffer of twelve bytes is enough for every \<open>int\<close>.\<close>

lemma length_decimal_int:
  assumes "- 2147483648 \<le> N" and "N < 2147483648"
  shows "length (decimal_int N) \<le> 11"
proof -
  have "nat \<bar>N\<bar> < 10 ^ 10" using assms by simp
  from decimal_bounds [OF this] show ?thesis by (auto simp: decimal_int_def abs_if)
qed

lemma itoa_least: "itoa (- 2147483648) str = None"
  by (simp add: itoa_def cint_def)

section \<open>Correctness of the memory routines\<close>

lemma memcpy_loop_eq:
  "i + n \<le> length d \<Longrightarrow> i + n \<le> length s \<Longrightarrow>
     memcpy_loop d s i n = Some (put_bytes d i (sub_bytes s i n))"
proof (induction n arbitrary: d i)
  case (Suc n)
  have "sub_bytes s i (Suc n) = s ! i # sub_bytes s (Suc i) n"
    using Suc.prems by (simp add: sub_bytes_def Cons_nth_drop_Suc [symmetric])
  with Suc show ?case by (simp add: put_bytes_Cons)
qed (simp add: sub_bytes_def)

lemma memcpy_eq:
  "n \<le> length d \<Longrightarrow> n \<le> length s \<Longrightarrow> memcpy d s n = Some (put_bytes d 0 (take n s))"
  by (simp add: memcpy_def memcpy_loop_eq sub_bytes_def)

lemma memset_loop_eq:
  "i + n \<le> length p \<Longrightarrow> memset_loop p c i n = Some (put_bytes p i (replicate n c))"
  by (induction n arbitrary: p i) (simp_all add: put_bytes_Cons)

lemma memset_eq:
  "n \<le> length s \<Longrightarrow> memset s c n = Some (put_bytes s 0 (replicate n (word_of_int c)))"
  by (simp add: memset_def memset_loop_eq)

lemma memcmp_zero_iff:
  "n \<le> length s1 \<Longrightarrow> n \<le> length s2 \<Longrightarrow> memcmp s1 s2 n = Some 0 \<longleftrightarrow> take n s1 = take n s2"
  by (induction s1 s2 n rule: memcmp.induct) (auto simp flip: word_uint_eq_iff)

end
