(* ===== verification/Renderer.thy ===== *)
theory Renderer
  imports Console Str_Mem
begin

text \<open>
  The terminal layer above the two consoles: \<open>kernel/LineRenderer.c\<close>, the colours of
  \<open>kernel/LineColor.c\<close>, and the keyboard and serial input of \<open>x86/ps2_keyboard.c\<close> and
  \<open>kernel/LineInput.c\<close>, for the i386 build with both consoles and the PS/2 keyboard. Every
  character goes to the screen and then to the serial line.
\<close>

section \<open>Output\<close>

text \<open>A sequence of characters given to a function that writes one.\<close>

fun emit :: "(u8 \<Rightarrow> 's \<Rightarrow> 's option) \<Rightarrow> bytes \<Rightarrow> 's \<Rightarrow> 's option" where
  "emit f [] s = Some s"
| "emit f (c # cs) s = Option.bind (f c s) (emit f cs)"

lemma emit_append: "emit f (xs @ ys) s = Option.bind (emit f xs s) (emit f ys)"
  by (induction xs arbitrary: s) (simp_all split: bind_split)

text \<open>
  \<open>terminal_writeintcustom\<close> and \<open>terminal_writeint\<close>, the same function for \<open>func\<close> and for
  \<open>terminal_write_for_char\<close>: the recursion prints the leading digits first.
\<close>

function terminal_writeintcustom ::
    "(u8 \<Rightarrow> 's \<Rightarrow> 's option) \<Rightarrow> int \<Rightarrow> 's \<Rightarrow> 's option" where
  "terminal_writeintcustom func data s =
     (if data < 0 then do {
        s \<leftarrow> func 0x2D s;
        data \<leftarrow> cint (- data);
        s \<leftarrow> (if data div 10 \<noteq> 0 then terminal_writeintcustom func (data div 10) s else Some s);
        func (word_of_int (data mod 10 + 0x30)) s
      }
      else do {
        s \<leftarrow> (if data div 10 \<noteq> 0 then terminal_writeintcustom func (data div 10) s else Some s);
        func (word_of_int (data mod 10 + 0x30)) s
      })"
  by pat_completeness auto
termination by (relation "measure (\<lambda>(func, data, s). nat \<bar>data\<bar>)") auto

declare terminal_writeintcustom.simps [simp del]

definition terminal_putchar :: "'h port_ops \<Rightarrow> u8 \<Rightarrow> 'h terminal \<Rightarrow> 'h terminal option" where
  "terminal_putchar P c t = do {
     t \<leftarrow> vga_terminal_putchar P c t;
     term_serial P c t
   }"

definition terminal_newline :: "'h port_ops \<Rightarrow> 'h terminal \<Rightarrow> 'h terminal option" where
  "terminal_newline P t = do {
     t \<leftarrow> vga_terminal_newline P t;
     emit (term_serial P) [0x0D, 0x0A] t
   }"

definition terminal_backspace :: "'h port_ops \<Rightarrow> 'h terminal \<Rightarrow> 'h terminal option" where
  "terminal_backspace P t = do {
     t \<leftarrow> vga_terminal_backspace P t;
     emit (term_serial P) [0x08, 0x20, 0x08] t
   }"

definition terminal_tab :: "'h port_ops \<Rightarrow> 'h terminal \<Rightarrow> 'h terminal option" where
  "terminal_tab P t = emit (terminal_putchar P) [0x20, 0x20, 0x20, 0x20] t"

definition terminal_cls :: "'h port_ops \<Rightarrow> 'h terminal \<Rightarrow> 'h terminal option" where
  "terminal_cls P t = do {
     t \<leftarrow> vga_terminal_cls t;
     emit (term_serial P) [0x1B, 0x5B, 0x32, 0x4A, 0x1B, 0x5B, 0x31, 0x3B, 0x31, 0x48] t
   }"

definition terminal_write_for_char :: "'h port_ops \<Rightarrow> u8 \<Rightarrow> 'h terminal \<Rightarrow> 'h terminal option" where
  "terminal_write_for_char P c t =
     (if c = 0x08 then terminal_backspace P t
      else if c = 0x0A then terminal_newline P t
      else if c = 0x09 then terminal_tab P t
      else if c \<noteq> 0 then terminal_putchar P c t
      else Some t)"

definition terminal_write :: "'h port_ops \<Rightarrow> bytes \<Rightarrow> u32 \<Rightarrow> 'h terminal \<Rightarrow> 'h terminal option" where
  "terminal_write P data n t =
     (if length data < unat n then None
      else emit (terminal_write_for_char P) (take (unat n) data) t)"

definition terminal_writestring :: "'h port_ops \<Rightarrow> bytes \<Rightarrow> 'h terminal \<Rightarrow> 'h terminal option" where
  "terminal_writestring P data t = do {
     n \<leftarrow> strlen data;
     terminal_write P data (of_nat n) t
   }"

text \<open>With \<open>CONFIG_CURSOR_SMALL\<close>.\<close>

definition terminal_enable_cursor :: "'h port_ops \<Rightarrow> 'h terminal \<Rightarrow> 'h terminal" where
  "terminal_enable_cursor P t = vga_terminal_enable_cursor P 14 15 t"

definition terminal_initialize :: "'h port_ops \<Rightarrow> 'h terminal \<Rightarrow> 'h terminal option" where
  "terminal_initialize P t = do {
     t \<leftarrow> vga_terminal_initialize t;
     let (_, h) = init_serial P (hw t);
     Some (terminal_enable_cursor P (t\<lparr>hw := h\<rparr>))
   }"

text \<open>The coordinates are not checked; they become the row and the column as they are.\<close>

definition terminal_update_cursor ::
    "'h port_ops \<Rightarrow> int \<Rightarrow> int \<Rightarrow> 'h terminal \<Rightarrow> 'h terminal option" where
  "terminal_update_cursor P x y t = do {
     t \<leftarrow> vga_terminal_update_cursor P x y t;
     let t = t\<lparr>vga_terminal_row := word_of_int y, vga_terminal_column := word_of_int x\<rparr>;
     t \<leftarrow> emit (term_serial P) [0x1B, 0x5B] t;
     y1 \<leftarrow> cint (y + 1);
     t \<leftarrow> terminal_writeintcustom (term_serial P) y1 t;
     t \<leftarrow> term_serial P 0x3B t;
     x1 \<leftarrow> cint (x + 1);
     t \<leftarrow> terminal_writeintcustom (term_serial P) x1 t;
     term_serial P 0x48 t
   }"

section \<open>Colours\<close>

definition ansi :: "string \<Rightarrow> bytes" where
  "ansi s = 0x1B # 0x5B # map (\<lambda>c. of_nat (of_char c)) s"

definition ansi_fg_colors :: "bytes list" where
  "ansi_fg_colors = map ansi
     [''30m'', ''34m'', ''32m'', ''36m'', ''31m'', ''35m'', ''33m'', ''37m'',
      ''90m'', ''94m'', ''92m'', ''96m'', ''91m'', ''95m'', ''93m'', ''97m'']"

definition ansi_bg_colors :: "bytes list" where
  "ansi_bg_colors = map ansi
     [''40m'', ''44m'', ''42m'', ''46m'', ''41m'', ''45m'', ''43m'', ''47m'',
      ''100m'', ''104m'', ''102m'', ''106m'', ''101m'', ''105m'', ''103m'', ''107m'']"

definition terminal_setcolor ::
    "'h port_ops \<Rightarrow> u32 \<Rightarrow> u32 \<Rightarrow> 'h terminal \<Rightarrow> 'h terminal option" where
  "terminal_setcolor P fg_color bg_color t = do {
     let t = vga_terminal_setcolor fg_color bg_color t;
     t \<leftarrow> (if unat fg_color < length ansi_fg_colors
           then emit (term_serial P) (ansi_fg_colors ! unat fg_color) t else None);
     (if unat bg_color < length ansi_bg_colors
      then emit (term_serial P) (ansi_bg_colors ! unat bg_color) t else None)
   }"

definition terminal_resetcolor :: "'h port_ops \<Rightarrow> 'h terminal \<Rightarrow> 'h terminal option" where
  "terminal_resetcolor P t = emit (term_serial P) [0x1B, 0x5B, 0x30, 0x6D] (vga_terminal_setcolor 7 0 t)"

section \<open>Input\<close>

definition ascii_table :: bytes where
  "ascii_table =
     [0, 27] @ map (\<lambda>c. of_nat (of_char c)) ''1234567890-='' @ [8, 9]
     @ map (\<lambda>c. of_nat (of_char c)) ''qwertyuiop[]'' @ [10, 0]
     @ map (\<lambda>c. of_nat (of_char c)) ''asdfghjkl;'' @ [0x27, 0x60, 0, 0x5C]
     @ map (\<lambda>c. of_nat (of_char c)) ''zxcvbnm,./'' @ [0, 0x2A, 0, 0x20]"

definition shift_ascii_table :: bytes where
  "shift_ascii_table =
     [0, 27] @ map (\<lambda>c. of_nat (of_char c)) ''!@#$%^&*()_+'' @ [8, 9]
     @ map (\<lambda>c. of_nat (of_char c)) ''QWERTYUIOP{}'' @ [10, 0]
     @ map (\<lambda>c. of_nat (of_char c)) ''ASDFGHJKL:'' @ [0x22, 0x7E, 0, 0x7C]
     @ map (\<lambda>c. of_nat (of_char c)) ''ZXCVBNM<>?'' @ [0, 0x2A, 0, 0x20]"

text \<open>One scancode: the character, or 0, and the new value of \<open>is_shift_pressed\<close>.\<close>

definition ps2_kbd_keyboard_to_ascii :: "u8 \<Rightarrow> bool \<Rightarrow> u8 \<times> bool" where
  "ps2_kbd_keyboard_to_ascii scancode is_shift_pressed =
     (if scancode = 0x2A \<or> scancode = 0x36 then (0, True)
      else if scancode = 0xAA \<or> scancode = 0xB6 then (0, False)
      else if scancode AND 0x80 \<noteq> 0 then (0, is_shift_pressed)
      else if unat scancode < length ascii_table
      then (if is_shift_pressed then shift_ascii_table ! unat scancode
            else ascii_table ! unat scancode, is_shift_pressed)
      else (0, is_shift_pressed))"

partial_function (option) ps2_kbd_wait_kbd_write :: "'h port_ops \<Rightarrow> 'h \<Rightarrow> 'h option" where
  "ps2_kbd_wait_kbd_write P h =
     (let (b, h) = p_inb P 0x64 h
      in if b AND 0x02 \<noteq> 0 then ps2_kbd_wait_kbd_write P h else Some h)"

definition ps2_kbd_is_kbd_ready_to_read :: "'h port_ops \<Rightarrow> 'h \<Rightarrow> int \<times> 'h" where
  "ps2_kbd_is_kbd_ready_to_read P h =
     (let (b, h) = p_inb P 0x64 h in (if b AND 0x01 = 0 then 1 else 0, h))"

definition ps2_kbd_keyboard_init :: "'h port_ops \<Rightarrow> 'h \<Rightarrow> 'h option" where
  "ps2_kbd_keyboard_init P h = do {
     h \<leftarrow> ps2_kbd_wait_kbd_write P h;
     Some (p_outb P 0x60 0xF4 h)
   }"

definition ps2_kbd_keyboard_read_scancode_to_ascii_right_now ::
    "'h port_ops \<Rightarrow> bool \<times> 'h \<Rightarrow> u8 \<times> bool \<times> 'h" where
  "ps2_kbd_keyboard_read_scancode_to_ascii_right_now P sh =
     (let (shift, h) = sh;
          (scancode, h) = p_inb P 0x60 h;
          (c, shift) = ps2_kbd_keyboard_to_ascii scancode shift
      in (c, shift, h))"

text \<open>The variants that wait for the keyboard; the code does not call them.\<close>

partial_function (option) ps2_kbd_wait_kbd_read :: "'h port_ops \<Rightarrow> 'h \<Rightarrow> 'h option" where
  "ps2_kbd_wait_kbd_read P h =
     (let (b, h) = p_inb P 0x64 h
      in if b AND 0x01 = 0 then ps2_kbd_wait_kbd_read P h else Some h)"

definition ps2_kbd_keyboard_read_scancode :: "'h port_ops \<Rightarrow> 'h \<Rightarrow> (u8 \<times> 'h) option" where
  "ps2_kbd_keyboard_read_scancode P h = do {
     h \<leftarrow> ps2_kbd_wait_kbd_read P h;
     Some (p_inb P 0x60 h)
   }"

definition ps2_kbd_keyboard_read_scancode_to_ascii ::
    "'h port_ops \<Rightarrow> bool \<times> 'h \<Rightarrow> (u8 \<times> bool \<times> 'h) option" where
  "ps2_kbd_keyboard_read_scancode_to_ascii P sh = do {
     let (shift, h) = sh;
     (scancode, h) \<leftarrow> ps2_kbd_keyboard_read_scancode P h;
     let (c, shift) = ps2_kbd_keyboard_to_ascii scancode shift;
     Some (c, shift, h)
   }"

text \<open>\<open>get_char\<close> of \<open>LineInput.c\<close>: the keyboard first, then the serial line; it never waits.\<close>

definition get_char :: "'h port_ops \<Rightarrow> bool \<times> 'h \<Rightarrow> u8 \<times> bool \<times> 'h" where
  "get_char P sh =
     (let (shift, h) = sh;
          (ready, h) = ps2_kbd_is_kbd_ready_to_read P h;
          (c, shift, h) = (if ready = 0
             then ps2_kbd_keyboard_read_scancode_to_ascii_right_now P (shift, h) else (0, shift, h))
      in if ready = 0 \<and> c \<noteq> 0 then (c, shift, h)
         else let (ready, h) = serial_received P h
              in if ready \<noteq> 0
                 then let (c, h) = read_serial_right_now P h
                      in (serial_sane_control_codes c, shift, h)
                 else (0, shift, h))"

definition keyboard_init :: "'h port_ops \<Rightarrow> 'h \<Rightarrow> 'h option" where
  "keyboard_init P h = ps2_kbd_keyboard_init P h"

section \<open>Integers are printed in decimal\<close>

lemma writeint_nat: "terminal_writeintcustom func (int n) s = emit func (decimal n) s"
proof (induction n arbitrary: s rule: decimal.induct)
  case (1 n)
  have c: "word_of_int (int n mod 10 + 48) = (of_nat (n mod 10 + 48) :: u8)"
    using of_int_of_nat_eq [of "n mod 10 + 48", where ?'a = "8 word"] by (simp add: zmod_int)
  show ?case
  proof (cases "n < 10")
    case True
    then have "int n div 10 = 0" "n mod 10 = n" by simp_all
    with True c show ?thesis
      by (subst terminal_writeintcustom.simps) (simp add: decimal.simps [of n] split: bind_split)
  next
    case False
    then have "int n div 10 \<noteq> 0" by (simp add: div_eq_0_iff)
    moreover have "int n div 10 = int (n div 10)" by (simp add: zdiv_int)
    ultimately show ?thesis
      using False 1 [OF False] c
      by (subst terminal_writeintcustom.simps)
        (simp add: decimal.simps [of n] emit_append split: bind_split)
  qed
qed

lemma terminal_writeintcustom_eq:
  assumes "- 2147483648 < N" and "N < 2147483648"
  shows "terminal_writeintcustom func N s = emit func (decimal_int N) s"
proof (cases "N < 0")
  case True
  obtain n where n: "N = - int n" "0 < n" using True by (metis neg_int_cases)
  have "cint (int n) = Some (int n)" using assms n by simp
  moreover have "terminal_writeintcustom func (int n) s = do {
        s \<leftarrow> (if int n div 10 \<noteq> 0 then terminal_writeintcustom func (int n div 10) s else Some s);
        func (word_of_int (int n mod 10 + 0x30)) s
      }" for s
    by (subst terminal_writeintcustom.simps) simp
  ultimately have "terminal_writeintcustom func N s =
      Option.bind (func 0x2D s) (terminal_writeintcustom func (int n))"
    using n by (subst terminal_writeintcustom.simps) (simp add: split: bind_split)
  moreover have "terminal_writeintcustom func (int n) = emit func (decimal n)"
    by (rule ext) (rule writeint_nat)
  ultimately show ?thesis using n by (simp add: decimal_int_def)
next
  case False
  then obtain n where "N = int n" by (metis nat_eq_iff2 not_less)
  then show ?thesis by (simp add: decimal_int_def writeint_nat)
qed

section \<open>Writing keeps the screen consistent\<close>

text \<open>The effect of a character on the screen.\<close>

definition type_char :: "u8 \<Rightarrow> 'h terminal \<Rightarrow> 'h terminal" where
  "type_char c t =
     (if c = 0x08 then rub_out t
      else if c = 0x0A then next_row t
      else if c = 0x09 then put_glyph 0x20 (put_glyph 0x20 (put_glyph 0x20 (put_glyph 0x20 t)))
      else if c \<noteq> 0 then put_glyph c t else t)"

lemma screen_ops_hw [simp]:
  "put_glyph c (t\<lparr>hw := h\<rparr>) = (put_glyph c t)\<lparr>hw := h\<rparr>"
  "rub_out (t\<lparr>hw := h\<rparr>) = (rub_out t)\<lparr>hw := h\<rparr>"
  "type_char c (t\<lparr>hw := h\<rparr>) = (type_char c t)\<lparr>hw := h\<rparr>"
proof -
  have cell: "cursor_cell (t\<lparr>hw := h\<rparr>) = cursor_cell t" "blank (t\<lparr>hw := h\<rparr>) = blank t" for t :: "'a terminal" and h
    by (simp_all add: cursor_cell_def blank_def)
  have nr: "next_row (t\<lparr>hw := h, vga_terminal_buffer := b\<rparr>) =
      (next_row (t\<lparr>vga_terminal_buffer := b\<rparr>))\<lparr>hw := h\<rparr>" for t :: "'a terminal" and h b
    by (simp add: next_row_def blank_def)
  show p: "put_glyph c (t\<lparr>hw := h\<rparr>) = (put_glyph c t)\<lparr>hw := h\<rparr>" for c t and h :: 'a
    by (simp add: put_glyph_def Let_def cell nr)
  show r: "rub_out (t\<lparr>hw := h\<rparr>) = (rub_out t)\<lparr>hw := h\<rparr>"
    by (simp add: rub_out_def Let_def cell)
  show "type_char c (t\<lparr>hw := h\<rparr>) = (type_char c t)\<lparr>hw := h\<rparr>"
    by (simp add: type_char_def p r)
qed

lemma type_char_ok: "console_ok t \<Longrightarrow> console_ok (type_char c t)"
  using next_row_ok [of t] console_okD [of t] by (simp add: type_char_def put_glyph_ok rub_out_ok)

lemma emit_serial_eq:
  "uart_ready P \<Longrightarrow> \<exists>h. emit (term_serial P) cs t = Some (t\<lparr>hw := h\<rparr>)"
proof (induction cs arbitrary: t)
  case Nil
  show ?case by (intro exI [of _ "hw t"]) simp
next
  case (Cons c cs)
  from term_serial_eq [OF Cons.prems, of c t] obtain h where h: "term_serial P c t = Some (t\<lparr>hw := h\<rparr>)"
    by blast
  from Cons.IH [OF Cons.prems, of "t\<lparr>hw := h\<rparr>"] h show ?case by auto
qed

lemma terminal_putchar_eq:
  assumes "console_ok t" and "uart_ready P"
  shows "\<exists>h. terminal_putchar P c t = Some ((put_glyph c t)\<lparr>hw := h\<rparr>)"
proof -
  obtain h where "vga_terminal_putchar P c t = Some ((put_glyph c t)\<lparr>hw := h\<rparr>)"
    using vga_terminal_putchar_eq [OF assms(1)] by blast
  moreover obtain h' where "term_serial P c ((put_glyph c t)\<lparr>hw := h\<rparr>) = Some ((put_glyph c t)\<lparr>hw := h'\<rparr>)"
    using term_serial_eq [OF assms(2), of c "(put_glyph c t)\<lparr>hw := h\<rparr>"] by auto
  ultimately show ?thesis by (auto simp: terminal_putchar_def)
qed

lemma terminal_write_for_char_eq:
  assumes "console_ok t" and "uart_ready P"
  shows "\<exists>h. terminal_write_for_char P c t = Some ((type_char c t)\<lparr>hw := h\<rparr>)"
proof -
  have put: "\<exists>h'. terminal_putchar P c (t\<lparr>hw := h\<rparr>) = Some ((put_glyph c t)\<lparr>hw := h'\<rparr>)"
    if "console_ok t" for c h and t :: "'a terminal"
    using terminal_putchar_eq [OF _ assms(2), of "t\<lparr>hw := h\<rparr>" c] that by simp
  consider "c = 0x08" | "c = 0x0A" | "c = 0x09" | "c = 0" | "c \<notin> {0x08, 0x0A, 0x09, 0}" by auto
  then show ?thesis
  proof cases
    case 1
    obtain h where "vga_terminal_backspace P t = Some ((rub_out t)\<lparr>hw := h\<rparr>)"
      using vga_terminal_backspace_eq [OF assms(1)] by blast
    with 1 emit_serial_eq [OF assms(2), of "[0x08, 0x20, 0x08]" "(rub_out t)\<lparr>hw := h\<rparr>"] show ?thesis
      by (auto simp: terminal_write_for_char_def terminal_backspace_def type_char_def
          simp del: emit.simps)
  next
    case 2
    obtain h where "vga_terminal_newline P t = Some ((next_row t)\<lparr>hw := h\<rparr>)"
      using vga_terminal_newline_eq [OF assms(1)] by blast
    with 2 emit_serial_eq [OF assms(2), of "[0x0D, 0x0A]" "(next_row t)\<lparr>hw := h\<rparr>"] show ?thesis
      by (auto simp: terminal_write_for_char_def terminal_newline_def type_char_def
          simp del: emit.simps)
  next
    case 3
    let ?g = "put_glyph 0x20"
    obtain h1 where "terminal_putchar P 0x20 t = Some ((?g t)\<lparr>hw := h1\<rparr>)"
      using terminal_putchar_eq [OF assms] by blast
    moreover obtain h2 where "terminal_putchar P 0x20 ((?g t)\<lparr>hw := h1\<rparr>) = Some ((?g (?g t))\<lparr>hw := h2\<rparr>)"
      using put [of "?g t"] assms(1) put_glyph_ok by blast
    moreover obtain h3 where "terminal_putchar P 0x20 ((?g (?g t))\<lparr>hw := h2\<rparr>) =
        Some ((?g (?g (?g t)))\<lparr>hw := h3\<rparr>)"
      using put [of "?g (?g t)"] assms(1) put_glyph_ok by blast
    moreover obtain h4 where "terminal_putchar P 0x20 ((?g (?g (?g t)))\<lparr>hw := h3\<rparr>) =
        Some ((?g (?g (?g (?g t))))\<lparr>hw := h4\<rparr>)"
      using put [of "?g (?g (?g t))"] assms(1) put_glyph_ok by blast
    ultimately show ?thesis
      using 3 by (auto simp: terminal_write_for_char_def terminal_tab_def type_char_def)
  next
    case 4
    then show ?thesis
      by (intro exI [of _ "hw t"]) (simp add: terminal_write_for_char_def type_char_def)
  next
    case 5
    with terminal_putchar_eq [OF assms] show ?thesis
      by (simp add: terminal_write_for_char_def type_char_def)
  qed
qed

lemma emit_write_eq:
  assumes "uart_ready P"
  shows "console_ok t \<Longrightarrow> \<exists>h. emit (terminal_write_for_char P) cs t = Some ((fold type_char cs t)\<lparr>hw := h\<rparr>)"
proof (induction cs arbitrary: t)
  case Nil
  show ?case by (intro exI [of _ "hw t"]) simp
next
  case (Cons c cs)
  obtain h where h: "terminal_write_for_char P c t = Some ((type_char c t)\<lparr>hw := h\<rparr>)"
    using terminal_write_for_char_eq [OF Cons.prems assms] by blast
  have fold_hw: "fold type_char cs (t\<lparr>hw := h\<rparr>) = (fold type_char cs t)\<lparr>hw := h\<rparr>" for cs h and t :: "'a terminal"
    by (induction cs arbitrary: t) simp_all
  from Cons.IH [of "(type_char c t)\<lparr>hw := h\<rparr>"] Cons.prems h show ?case
    by (auto simp: type_char_ok fold_hw)
qed

lemma fold_type_char_ok: "console_ok t \<Longrightarrow> console_ok (fold type_char cs t)"
  by (induction cs arbitrary: t) (simp_all add: type_char_ok)

section \<open>The cursor can leave the screen\<close>

lemma vga_update_cursor_eq:
  assumes "\<bar>x\<bar> < 1000000" and "\<bar>y\<bar> < 1000000"
  shows "\<exists>h. vga_terminal_update_cursor P x y t = Some (t\<lparr>hw := h\<rparr>)"
proof -
  have "cint (y * 80) = Some (y * 80)" "cint (y * 80 + x) = Some (y * 80 + x)" using assms by auto
  then show ?thesis
    by (simp add: vga_terminal_update_cursor_def Let_def del: cint_Some_iff) (intro exI, rule refl)
qed

lemma terminal_update_cursor_eq:
  assumes "uart_ready P" and "\<bar>x\<bar> < 1000000" and "\<bar>y\<bar> < 1000000"
  shows "\<exists>h. terminal_update_cursor P x y t =
    Some (t\<lparr>vga_terminal_row := word_of_int y, vga_terminal_column := word_of_int x, hw := h\<rparr>)"
proof -
  let ?t = "t\<lparr>vga_terminal_row := word_of_int y, vga_terminal_column := word_of_int x\<rparr>"
  obtain h1 where h1: "vga_terminal_update_cursor P x y t = Some (t\<lparr>hw := h1\<rparr>)"
    using vga_update_cursor_eq [OF assms(2,3), where P = P and t = t] by blast
  have one: "cint (y + 1) = Some (y + 1)" "cint (x + 1) = Some (x + 1)" using assms(2,3) by auto
  have dec: "terminal_writeintcustom (term_serial P) (z + 1) s = emit (term_serial P) (decimal_int (z + 1)) s"
    if "\<bar>z\<bar> < 1000000" for z and s :: "'a terminal"
    using that by (intro terminal_writeintcustom_eq) auto
  have "terminal_update_cursor P x y t = emit (term_serial P)
      ([0x1B, 0x5B] @ decimal_int (y + 1) @ [0x3B] @ decimal_int (x + 1) @ [0x48])
        (t\<lparr>hw := h1, vga_terminal_row := word_of_int y, vga_terminal_column := word_of_int x\<rparr>)"
    unfolding terminal_update_cursor_def emit_append
    by (simp add: h1 one dec assms(2,3) Let_def del: cint_Some_iff split: bind_split)
  moreover have "t\<lparr>hw := h1, vga_terminal_row := word_of_int y, vga_terminal_column := word_of_int x\<rparr>
      = ?t\<lparr>hw := h1\<rparr>" by simp
  moreover obtain h where "emit (term_serial P)
      ([0x1B, 0x5B] @ decimal_int (y + 1) @ [0x3B] @ decimal_int (x + 1) @ [0x48]) (?t\<lparr>hw := h1\<rparr>)
      = Some (?t\<lparr>hw := h1\<rparr>\<lparr>hw := h\<rparr>)"
    using emit_serial_eq [OF assms(1)] by blast
  ultimately have "terminal_update_cursor P x y t = Some (?t\<lparr>hw := h1\<rparr>\<lparr>hw := h\<rparr>)" by (simp only:)
  then show ?thesis by auto
qed

end
