(* ===== verification/Memory.thy ===== *)
theory Memory
  imports Prelude
begin

text \<open>
  The heap of \<open>kernel/LineMemory.c\<close>: a range of memory tiled by blocks, each starting with a
  header, and the doubly linked list of the free ones. A pointer to a header is its address, with
  0 for \<open>NULL\<close>; the headers are a map from addresses. The two ends of the range are the linker's
  symbols. On i386 \<open>sizeof(block_header_t)\<close> is 16.
\<close>

section \<open>The operations\<close>

record block_header =
  bh_size :: u32
  is_free :: u8
  next_bh :: u32
  prev_bh :: u32

record heap =
  headers :: "u32 \<Rightarrow> block_header"
  free_list_head :: u32
  free_ram :: u32
  free_ram_end :: u32

definition ALIGN :: "u32 \<Rightarrow> u32" where
  "ALIGN n = (n + 15) AND NOT 15"

definition upd_header :: "u32 \<Rightarrow> (block_header \<Rightarrow> block_header) \<Rightarrow> heap \<Rightarrow> heap" where
  "upd_header b f h = h\<lparr>headers := (headers h)(b := f (headers h b))\<rparr>"

definition heap_init :: "heap \<Rightarrow> heap" where
  "heap_init h =
     (let start = ALIGN (free_ram h);
          end' = free_ram_end h AND NOT 15
      in if start \<ge> end' then h
         else (upd_header start (\<lambda>b. b\<lparr>bh_size := end' - start, is_free := 1, next_bh := 0, prev_bh := 0\<rparr>) h)
                \<lparr>free_list_head := start\<rparr>)"

definition remove_from_free_list :: "u32 \<Rightarrow> heap \<Rightarrow> heap" where
  "remove_from_free_list block h =
     (let b = headers h block;
          h = (if prev_bh b \<noteq> 0 then upd_header (prev_bh b) (\<lambda>p. p\<lparr>next_bh := next_bh b\<rparr>) h
               else h\<lparr>free_list_head := next_bh b\<rparr>);
          b = headers h block;
          h = (if next_bh b \<noteq> 0 then upd_header (next_bh b) (\<lambda>n. n\<lparr>prev_bh := prev_bh b\<rparr>) h else h)
      in upd_header block (\<lambda>b. b\<lparr>next_bh := 0, prev_bh := 0\<rparr>) h)"

definition add_to_free_list :: "u32 \<Rightarrow> heap \<Rightarrow> heap" where
  "add_to_free_list block h =
     (let h = upd_header block (\<lambda>b. b\<lparr>is_free := 1, next_bh := free_list_head h, prev_bh := 0\<rparr>) h;
          h = (if free_list_head h \<noteq> 0
               then upd_header (free_list_head h) (\<lambda>n. n\<lparr>prev_bh := block\<rparr>) h else h)
      in h\<lparr>free_list_head := block\<rparr>)"

text \<open>The body of the search loop for a block that is large enough.\<close>

definition take_block :: "u32 \<Rightarrow> u32 \<Rightarrow> heap \<Rightarrow> u32 \<times> heap" where
  "take_block cur total_requested h =
     (let h = remove_from_free_list cur h;
          h = upd_header cur (\<lambda>b. b\<lparr>is_free := 0\<rparr>) h;
          remaining = bh_size (headers h cur) - total_requested;
          h = (if remaining \<ge> 16 + 16
               then let h = upd_header cur (\<lambda>b. b\<lparr>bh_size := total_requested\<rparr>) h;
                        next_block = cur + total_requested;
                        h = upd_header next_block (\<lambda>b. b\<lparr>bh_size := remaining\<rparr>) h
                    in add_to_free_list next_block h
               else h)
      in (cur + 16, h))"

text \<open>\<open>None\<close> is a search that never ends, on a cyclic list.\<close>

partial_function (option) find_block :: "u32 \<Rightarrow> u32 \<Rightarrow> heap \<Rightarrow> (u32 \<times> heap) option" where
  "find_block total_requested cur h =
     (if cur = 0 then Some (0, h)
      else if bh_size (headers h cur) \<ge> total_requested then Some (take_block cur total_requested h)
      else find_block total_requested (next_bh (headers h cur)) h)"

definition kmalloc :: "u32 \<Rightarrow> heap \<Rightarrow> (u32 \<times> heap) option" where
  "kmalloc n h =
     (if n = 0 then Some (0, h) else find_block (ALIGN (n + 16)) (free_list_head h) h)"

definition coalesce :: "u32 \<Rightarrow> heap \<Rightarrow> heap" where
  "coalesce block h =
     (let heap_end = free_ram_end h;
          next_addr = block + bh_size (headers h block)
      in if next_addr < heap_end then
           if is_free (headers h next_addr) = 1
           then let h = remove_from_free_list next_addr h;
                    n = bh_size (headers h next_addr)
                in upd_header block (\<lambda>b. b\<lparr>bh_size := bh_size b + n\<rparr>) h
           else h
         else h)"

definition kfree :: "u32 \<Rightarrow> heap \<Rightarrow> heap" where
  "kfree ptr h =
     (if ptr = 0 then h
      else let block = ptr - 16
           in if is_free (headers h block) \<noteq> 0 then h
              else coalesce block (add_to_free_list block h))"

section \<open>Alignment\<close>

lemma and_not_15: "(x :: u32) AND NOT 15 = push_bit 4 (drop_bit 4 x)"
proof -
  have m: "(15 :: u32) = mask 4" by (simp add: mask_eq_exp_minus_1)
  show ?thesis unfolding m by (rule bit_word_eqI) (auto simp: bit_simps)
qed

lemma unat_and_not_15: "unat ((x :: u32) AND NOT 15) = unat x div 16 * 16"
proof -
  have d: "unat (drop_bit 4 x) = unat x div 16" by (simp add: unat_div drop_bit_eq_div)
  have "unat x div 16 * 16 \<le> unat x" by simp
  then have "unat x div 16 * 16 < 4294967296" using unat_u32_less [of x] by linarith
  then show ?thesis unfolding and_not_15 push_bit_eq_mult by (subst unat_mult_u32) (simp_all add: d)
qed

lemma unat_ALIGN: "unat n + 15 < 4294967296 \<Longrightarrow> unat (ALIGN n) = (unat n + 15) div 16 * 16"
  unfolding ALIGN_def unat_and_not_15 by (simp add: unat_add_u32)

text \<open>The request of a block, header included, when the addition does not wrap.\<close>

lemma unat_request:
  assumes "unat n + 31 < 4294967296"
  shows "unat (ALIGN (n + 16)) = (unat n + 31) div 16 * 16"
    and "unat n + 16 \<le> unat (ALIGN (n + 16))" and "16 dvd unat (ALIGN (n + 16))"
proof -
  have "unat (n + 16) = unat n + 16" using assms by (simp add: unat_add_u32)
  then show r: "unat (ALIGN (n + 16)) = (unat n + 31) div 16 * 16"
    using assms by (simp add: unat_ALIGN)
  show "16 dvd unat (ALIGN (n + 16))" unfolding r by simp
  show "unat n + 16 \<le> unat (ALIGN (n + 16))"
    unfolding r using div_mult_mod_eq [of "unat n + 31" 16] mod_less_divisor [of 16 "unat n + 31"]
    by linarith
qed

section \<open>The free list\<close>

text \<open>A segment of the list between the nodes \<open>p\<close> and \<open>n\<close>.\<close>

fun dseg :: "(u32 \<Rightarrow> block_header) \<Rightarrow> u32 \<Rightarrow> u32 list \<Rightarrow> u32 \<Rightarrow> bool" where
  "dseg H p [] n = True"
| "dseg H p (b # bs) n =
     (prev_bh (H b) = p \<and> next_bh (H b) = hd (bs @ [n]) \<and> dseg H b bs n)"

lemma dseg_append:
  "dseg H p (xs @ ys) n \<longleftrightarrow> dseg H p xs (hd (ys @ [n])) \<and> dseg H (last (p # xs)) ys n"
proof (induction xs arbitrary: p)
  case (Cons x xs)
  then show ?case by (cases xs) auto
qed simp

lemma dseg_cong:
  "(\<And>b. b \<in> set bs \<Longrightarrow> next_bh (H' b) = next_bh (H b) \<and> prev_bh (H' b) = prev_bh (H b)) \<Longrightarrow>
     dseg H' p bs n = dseg H p bs n"
  by (induction bs arbitrary: p) simp_all

lemma dseg_set_next:
  "distinct bs \<Longrightarrow> bs \<noteq> [] \<Longrightarrow> dseg H p bs n \<Longrightarrow>
     dseg (H(last bs := (H (last bs))\<lparr>next_bh := m\<rparr>)) p bs m"
proof (induction bs arbitrary: p)
  case (Cons b bs)
  show ?case
  proof (cases bs)
    case (Cons c cs)
    then have "last (b # bs) \<noteq> b" using Cons.prems(1) last_in_set [of bs] by auto
    with Cons Cons.IH [of b] Cons.prems show ?thesis by auto
  qed (use Cons.prems in auto)
qed simp

lemma dseg_set_prev:
  "distinct bs \<Longrightarrow> bs \<noteq> [] \<Longrightarrow> dseg H p bs n \<Longrightarrow>
     dseg (H(hd bs := (H (hd bs))\<lparr>prev_bh := q\<rparr>)) q bs n"
proof (induction bs)
  case (Cons b bs)
  then have "dseg (H(b := (H b)\<lparr>prev_bh := q\<rparr>)) b bs n"
    by (subst dseg_cong [where H = H]) auto
  with Cons.prems show ?case by (simp add: fun_upd_same del: fun_upd_apply)
qed simp

definition free_list :: "heap \<Rightarrow> u32 list \<Rightarrow> bool" where
  "free_list h fl \<longleftrightarrow>
     distinct fl \<and> 0 \<notin> set fl \<and> free_list_head h = hd (fl @ [0]) \<and> dseg (headers h) 0 fl 0"

lemma upd_header_simps [simp]:
  "headers (upd_header b f h) = (headers h)(b := f (headers h b))"
  "free_list_head (upd_header b f h) = free_list_head h"
  "free_ram (upd_header b f h) = free_ram h" "free_ram_end (upd_header b f h) = free_ram_end h"
  by (simp_all add: upd_header_def)

text \<open>Sizes and ends are not touched by the list operations; flags only as stated.\<close>

lemma remove_fields [simp]:
  "bh_size (headers (remove_from_free_list b h) x) = bh_size (headers h x)"
  "is_free (headers (remove_from_free_list b h) x) = is_free (headers h x)"
  "free_ram (remove_from_free_list b h) = free_ram h"
  "free_ram_end (remove_from_free_list b h) = free_ram_end h"
  by (simp_all add: remove_from_free_list_def Let_def)

lemma add_fields [simp]:
  "bh_size (headers (add_to_free_list b h) x) = bh_size (headers h x)"
  "is_free (headers (add_to_free_list b h) x) = (if x = b then 1 else is_free (headers h x))"
  "free_ram (add_to_free_list b h) = free_ram h"
  "free_ram_end (add_to_free_list b h) = free_ram_end h"
  by (simp_all add: add_to_free_list_def Let_def)

lemma remove_links_other:
  "x \<noteq> b \<Longrightarrow> x \<noteq> prev_bh (headers h b) \<Longrightarrow> prev_bh (headers h b) \<noteq> b \<Longrightarrow> x \<noteq> next_bh (headers h b) \<Longrightarrow>
     headers (remove_from_free_list b h) x = headers h x"
  by (simp add: remove_from_free_list_def Let_def)

lemma free_list_add:
  assumes "free_list h fl" and "b \<notin> set fl" and "b \<noteq> 0"
  shows "free_list (add_to_free_list b h) (b # fl)"
proof (cases fl)
  case Nil
  with assms show ?thesis by (simp add: free_list_def add_to_free_list_def Let_def)
next
  case (Cons c cs)
  let ?H = "headers (upd_header b (\<lambda>b. b\<lparr>is_free := 1, next_bh := free_list_head h, prev_bh := 0\<rparr>) h)"
  have "dseg ?H 0 fl 0"
    using assms by (subst dseg_cong [where H = "headers h"]) (auto simp: free_list_def)
  then have "dseg (?H(hd fl := (?H (hd fl))\<lparr>prev_bh := b\<rparr>)) b fl 0"
    using assms(1) Cons by (intro dseg_set_prev) (auto simp: free_list_def)
  with assms Cons show ?thesis
    by (auto simp: free_list_def add_to_free_list_def Let_def)
qed

lemma free_list_remove:
  assumes "free_list h (xs @ b # ys)"
  shows "free_list (remove_from_free_list b h) (xs @ ys)"
proof -
  let ?H = "headers h"
  have d: "distinct (xs @ b # ys)" and z: "0 \<notin> set (xs @ b # ys)"
    and hd: "free_list_head h = hd ((xs @ b # ys) @ [0])"
    and seg: "dseg ?H 0 xs b" "prev_bh (?H b) = last (0 # xs)" "next_bh (?H b) = hd (ys @ [0])"
      "dseg ?H b ys 0"
    using assms by (auto simp: free_list_def dseg_append)
  define p where "p = last (0 # xs)"
  define n where "n = hd (ys @ [0])"
  have last: "last xs \<noteq> 0 \<and> last xs \<noteq> b" if "xs \<noteq> []"
    using z d last_in_set [OF that] by fastforce
  have first: "hd ys \<noteq> 0 \<and> hd ys \<noteq> b" if "ys \<noteq> []"
    using z d hd_in_set [OF that] by fastforce
  have p: "p = 0 \<longleftrightarrow> xs = []" "xs \<noteq> [] \<Longrightarrow> p = last xs" "p \<noteq> b"
    using z last by (auto simp: p_def)
  have n: "n = 0 \<longleftrightarrow> ys = []" "ys \<noteq> [] \<Longrightarrow> n = hd ys" "n \<noteq> b"
    using z first by (auto simp: n_def hd_append)
  have links: "prev_bh (?H b) = p" "next_bh (?H b) = n" unfolding p_def n_def by (fact seg)+
  let ?H1 = "if p \<noteq> 0 then ?H(p := (?H p)\<lparr>next_bh := n\<rparr>) else ?H"
  let ?H2 = "if n \<noteq> 0 then ?H1(n := (?H1 n)\<lparr>prev_bh := p\<rparr>) else ?H1"
  let ?H3 = "?H2(b := (?H2 b)\<lparr>next_bh := 0, prev_bh := 0\<rparr>)"
  have H3: "headers (remove_from_free_list b h) = ?H3"
    using links p(3) [symmetric] n(3) [symmetric]
    by (cases "p = 0"; cases "n = 0")
      (simp_all add: remove_from_free_list_def Let_def fun_upd_other del: fun_upd_apply)
  have pys: "p \<notin> set ys" "n \<notin> set xs"
  proof -
    have "p \<in> insert 0 (set xs)" "n \<in> insert 0 (set ys)"
      by (simp_all add: p_def n_def hd_append)
    with d z show "p \<notin> set ys" "n \<notin> set xs" by auto
  qed
  have "dseg ?H1 0 xs n"
  proof (cases "xs = []")
    case False
    then show ?thesis using dseg_set_next [of xs ?H 0 b n] d seg(1) p by simp
  qed simp
  moreover have "dseg ?H3 0 xs n = dseg ?H1 0 xs n"
    using d pys by (intro dseg_cong) auto
  moreover have "dseg ?H1 b ys 0 = dseg ?H b ys 0"
    using pys by (intro dseg_cong) auto
  with seg(4) have "dseg ?H1 b ys 0" by simp
  then have "dseg ?H2 p ys 0"
    using dseg_set_prev [of ys ?H1 b 0 p] d n by (cases "ys = []") simp_all
  moreover have "dseg ?H3 p ys 0 = dseg ?H2 p ys 0"
    using d by (intro dseg_cong) auto
  ultimately have "dseg ?H3 0 (xs @ ys) 0" unfolding dseg_append p_def [symmetric] n_def [symmetric] by simp
  moreover have "free_list_head (remove_from_free_list b h) = hd ((xs @ ys) @ [0])"
    using hd links p n_def by (cases xs) (auto simp: remove_from_free_list_def Let_def)
  ultimately show ?thesis unfolding free_list_def H3 using d z by auto
qed

section \<open>The blocks tile the heap\<close>

abbreviation block_size :: "heap \<Rightarrow> u32 \<Rightarrow> nat" where
  "block_size h b \<equiv> unat (bh_size (headers h b))"

fun tiling :: "(u32 \<Rightarrow> nat) \<Rightarrow> nat \<Rightarrow> u32 list \<Rightarrow> nat \<Rightarrow> bool" where
  "tiling S a [] e = (a = e)"
| "tiling S a (b # bs) e =
     (unat b = a \<and> 16 \<le> S b \<and> 16 dvd S b \<and> tiling S (a + S b) bs e)"

lemma tiling_append: "tiling S a (xs @ ys) e \<longleftrightarrow> (\<exists>m. tiling S a xs m \<and> tiling S m ys e)"
  by (induction xs arbitrary: a) auto

lemma tiling_cong: "(\<And>b. b \<in> set bs \<Longrightarrow> S' b = S b) \<Longrightarrow> tiling S' a bs e = tiling S a bs e"
  by (induction bs arbitrary: a) simp_all

lemma tiling_bounds: "tiling S a bs e \<Longrightarrow> a \<le> e \<and> (\<forall>b \<in> set bs. a \<le> unat b \<and> unat b + S b \<le> e \<and> 16 \<le> S b)"
proof (induction bs arbitrary: a)
  case (Cons b bs)
  from Cons.IH [of "a + S b"] Cons.prems show ?case by fastforce
qed simp

lemma tiling_aligned: "tiling S a bs e \<Longrightarrow> 16 dvd a \<Longrightarrow> b \<in> set bs \<Longrightarrow> 16 dvd unat b"
  by (induction bs arbitrary: a) auto

lemma tiling_distinct: "tiling S a bs e \<Longrightarrow> distinct bs"
proof (induction bs arbitrary: a)
  case (Cons b bs)
  then have "distinct bs" "tiling S (a + S b) bs e" by auto
  with tiling_bounds [of S "a + S b" bs e] Cons.prems show ?case by fastforce
qed simp

lemma tiling_disjoint:
  "tiling S a bs e \<Longrightarrow> b \<in> set bs \<Longrightarrow> c \<in> set bs \<Longrightarrow> b \<noteq> c \<Longrightarrow>
     unat b + S b \<le> unat c \<or> unat c + S c \<le> unat b"
proof (induction bs arbitrary: a)
  case (Cons d bs)
  then have t: "unat d = a" "tiling S (a + S d) bs e" by auto
  show ?case
  proof (cases "b = d \<or> c = d")
    case True
    with tiling_bounds [OF t(2)] t(1) Cons.prems(2-4) show ?thesis by auto
  next
    case False
    with Cons.IH [OF t(2)] Cons.prems show ?thesis by auto
  qed
qed simp

section \<open>The invariant\<close>

text \<open>\<open>bs\<close> are the blocks in the order of their addresses, \<open>fl\<close> is the free list.\<close>

definition heap_inv :: "heap \<Rightarrow> u32 list \<Rightarrow> u32 list \<Rightarrow> bool" where
  "heap_inv h bs fl \<longleftrightarrow>
     0 < unat (free_ram h) \<and> 16 dvd unat (free_ram h) \<and> 16 dvd unat (free_ram_end h)
     \<and> tiling (block_size h) (unat (free_ram h)) bs (unat (free_ram_end h))
     \<and> free_list h fl \<and> set fl \<subseteq> set bs
     \<and> (\<forall>b \<in> set bs. is_free (headers h b) = (if b \<in> set fl then 1 else 0))"

lemma heap_invD:
  assumes "heap_inv h bs fl"
  shows "tiling (block_size h) (unat (free_ram h)) bs (unat (free_ram_end h))"
    and "free_list h fl" and "set fl \<subseteq> set bs" and "distinct bs" and "distinct fl"
    and "b \<in> set bs \<Longrightarrow> is_free (headers h b) = (if b \<in> set fl then 1 else 0)"
    and "b \<in> set bs \<Longrightarrow> b \<noteq> 0" and "b \<in> set bs \<Longrightarrow> 16 dvd unat b"
proof -
  show t: "tiling (block_size h) (unat (free_ram h)) bs (unat (free_ram_end h))"
    and "free_list h fl" and "set fl \<subseteq> set bs"
    and "b \<in> set bs \<Longrightarrow> is_free (headers h b) = (if b \<in> set fl then 1 else 0)"
    and "distinct fl"
    using assms by (simp_all add: heap_inv_def free_list_def)
  show "distinct bs" by (rule tiling_distinct [OF t])
  show "b \<in> set bs \<Longrightarrow> b \<noteq> 0"
    using tiling_bounds [OF t] assms by (auto simp: heap_inv_def)
  show "b \<in> set bs \<Longrightarrow> 16 dvd unat b"
    using tiling_aligned [OF t] assms by (simp add: heap_inv_def)
qed

text \<open>What the clients of the heap own: the address and the size of every allocated block.\<close>

definition allocated :: "heap \<Rightarrow> u32 list \<Rightarrow> u32 list \<Rightarrow> (u32 \<times> nat) set" where
  "allocated h bs fl = {(b, block_size h b) | b. b \<in> set bs \<and> b \<notin> set fl}"

lemma heap_init_inv:
  assumes "0 < unat (free_ram h)" and "16 dvd unat (free_ram h)" and "16 dvd unat (free_ram_end h)"
    and "free_ram h < free_ram_end h"
  shows "heap_inv (heap_init h) [free_ram h] [free_ram h]"
    and "block_size (heap_init h) (free_ram h) = unat (free_ram_end h) - unat (free_ram h)"
proof -
  have lt: "unat (free_ram h) < unat (free_ram_end h)" using assms(4) by (simp add: word_less_nat_alt)
  have gap: "unat (free_ram h) + 16 \<le> unat (free_ram_end h)"
    using lt assms(2,3) by (elim dvdE) simp
  then have "unat (free_ram h) + 15 < 4294967296" using unat_u32_less [of "free_ram_end h"] by linarith
  then have "unat (ALIGN (free_ram h)) = (unat (free_ram h) + 15) div 16 * 16" by (rule unat_ALIGN)
  also have "\<dots> = unat (free_ram h)" using assms(2) by (elim dvdE) simp
  finally have start: "ALIGN (free_ram h) = free_ram h" by (simp add: word_unat_eq_iff)
  have "unat (free_ram_end h AND NOT 15) = unat (free_ram_end h)"
    unfolding unat_and_not_15 using assms(3) by simp
  then have end': "free_ram_end h AND NOT 15 = free_ram_end h" by (rule word_unat_eq_iff [THEN iffD2])
  have sz: "unat (free_ram_end h - free_ram h) = unat (free_ram_end h) - unat (free_ram h)"
    using lt by (simp add: unat_sub word_le_nat_alt)
  have init: "heap_init h = (upd_header (free_ram h) (\<lambda>b. b\<lparr>bh_size := free_ram_end h - free_ram h,
      is_free := 1, next_bh := 0, prev_bh := 0\<rparr>) h)\<lparr>free_list_head := free_ram h\<rparr>"
    unfolding heap_init_def Let_def start end' using assms(4) by (simp add: not_le)
  show "block_size (heap_init h) (free_ram h) = unat (free_ram_end h) - unat (free_ram h)"
    by (simp add: init sz)
  have "16 dvd unat (free_ram_end h) - unat (free_ram h)" using assms(2,3) by simp
  then show "heap_inv (heap_init h) [free_ram h] [free_ram h]"
    using assms gap by (auto simp: heap_inv_def init sz free_list_def)
qed

section \<open>Allocation\<close>

lemma free_list_cong:
  assumes "free_list h fl" and "free_list_head h' = free_list_head h"
    and "\<And>b. b \<in> set fl \<Longrightarrow> next_bh (headers h' b) = next_bh (headers h b)
      \<and> prev_bh (headers h' b) = prev_bh (headers h b)"
  shows "free_list h' fl"
  using assms dseg_cong [of fl "headers h'" "headers h" 0 0] by (simp add: free_list_def)

lemma find_block_eq:
  assumes "dseg (headers h) p fl 0" and "0 \<notin> set fl"
  shows "find_block req (hd (fl @ [0])) h =
    (case List.find (\<lambda>b. req \<le> bh_size (headers h b)) fl of
       None \<Rightarrow> Some (0, h) | Some b \<Rightarrow> Some (take_block b req h))"
  using assms
proof (induction fl arbitrary: p)
  case Nil
  then show ?case by (subst find_block.simps) simp
next
  case (Cons b fl)
  then show ?case by (subst find_block.simps) auto
qed

lemma block_split:
  assumes "heap_inv h bs fl" and "b \<in> set fl"
  obtains us vs xs ys where "bs = us @ b # vs" "fl = xs @ b # ys" "b \<notin> set us" "b \<notin> set vs"
    "b \<notin> set xs" "b \<notin> set ys"
proof -
  have "b \<in> set bs" using assms heap_invD(3) by blast
  then obtain us vs where "bs = us @ b # vs" by (meson split_list)
  moreover obtain xs ys where "fl = xs @ b # ys" using assms(2) by (meson split_list)
  ultimately show thesis using that heap_invD(4,5) [OF assms(1)] by auto
qed

lemma free_list_after_remove:
  assumes "free_list h (xs @ b # ys)"
  shows "free_list (upd_header b (\<lambda>b. b\<lparr>is_free := 0\<rparr>) (remove_from_free_list b h)) (xs @ ys)"
proof (rule free_list_cong [OF free_list_remove [OF assms]])
  have "b \<notin> set (xs @ ys)" using assms by (simp add: free_list_def)
  then show "next_bh (headers (upd_header b (\<lambda>b. b\<lparr>is_free := 0\<rparr>) (remove_from_free_list b h)) c)
      = next_bh (headers (remove_from_free_list b h) c) \<and>
      prev_bh (headers (upd_header b (\<lambda>b. b\<lparr>is_free := 0\<rparr>) (remove_from_free_list b h)) c)
      = prev_bh (headers (remove_from_free_list b h) c)" if "c \<in> set (xs @ ys)" for c
    using that by auto
qed simp

text \<open>A block taken whole.\<close>

lemma take_block_whole:
  assumes "heap_inv h bs fl" and "b \<in> set fl" and "req \<le> bh_size (headers h b)"
    and "\<not> 32 \<le> bh_size (headers h b) - req"
  shows "\<exists>h' fl'. take_block b req h = (b + 16, h') \<and> heap_inv h' bs fl'
    \<and> set fl' = set fl - {b} \<and> (\<forall>x. block_size h' x = block_size h x)"
proof -
  obtain us vs xs ys where sp: "bs = us @ b # vs" "fl = xs @ b # ys" "b \<notin> set us" "b \<notin> set vs"
    "b \<notin> set xs" "b \<notin> set ys"
    by (rule block_split [OF assms(1,2)])
  let ?h = "upd_header b (\<lambda>b. b\<lparr>is_free := 0\<rparr>) (remove_from_free_list b h)"
  have size: "block_size ?h x = block_size h x" for x by simp
  have "take_block b req h = (b + 16, ?h)"
    using assms(4) by (simp add: take_block_def Let_def)
  moreover have "heap_inv ?h bs (xs @ ys)"
    unfolding heap_inv_def
  proof (intro conjI ballI)
    show "tiling (block_size ?h) (unat (free_ram ?h)) bs (unat (free_ram_end ?h))"
      using heap_invD(1) [OF assms(1)] size by simp
    show "free_list ?h (xs @ ys)"
      using heap_invD(2) [OF assms(1)] unfolding sp(2) by (rule free_list_after_remove)
    show "set (xs @ ys) \<subseteq> set bs" using heap_invD(3) [OF assms(1)] sp(2) by auto
    show "is_free (headers ?h c) = (if c \<in> set (xs @ ys) then 1 else 0)" if "c \<in> set bs" for c
      using heap_invD(6) [OF assms(1) that] sp by auto
  qed (use assms(1) in \<open>simp_all add: heap_inv_def\<close>)
  moreover have "set (xs @ ys) = set fl - {b}" using sp by auto
  ultimately show ?thesis using size by blast
qed

text \<open>A block that is split: its rest becomes a block of its own, first in the free list.\<close>

text \<open>The header of the remainder lies inside the block that is split, and on no other header.\<close>

lemma split_point:
  assumes "heap_inv h (us @ b # vs) fl" and "req \<le> bh_size (headers h b)"
    and "32 \<le> bh_size (headers h b) - req" and "16 \<le> unat req"
  shows "unat (bh_size (headers h b) - req) = block_size h b - unat req"
    and "unat req + 32 \<le> block_size h b"
    and "unat (b + req) = unat b + unat req"
    and "b + req \<notin> set us" and "b + req \<notin> set vs" and "b + req \<noteq> b" and "b + req \<noteq> 0"
proof -
  let ?S = "block_size h" and ?e = "unat (free_ram_end h)"
  have us: "tiling ?S (unat (free_ram h)) us (unat b)" and vs: "tiling ?S (unat b + ?S b) vs ?e"
    using heap_invD(1) [OF assms(1)] by (auto simp: tiling_append)
  show r: "unat (bh_size (headers h b) - req) = ?S b - unat req"
    using assms(2) by (simp add: unat_sub word_le_nat_alt)
  show le: "unat req + 32 \<le> ?S b" using assms(2,3) r by (simp add: word_le_nat_alt)
  have "unat b + ?S b \<le> ?e" using tiling_bounds [OF vs] by simp
  then show bn: "unat (b + req) = unat b + unat req"
    using le unat_u32_less [of "free_ram_end h"] by (intro unat_add_u32) linarith
  show "b + req \<notin> set us" using tiling_bounds [OF us] bn by fastforce
  show "b + req \<notin> set vs" using tiling_bounds [OF vs] bn le by fastforce
  show "b + req \<noteq> b" "b + req \<noteq> 0"
    using bn assms(4) unat_gt_0 [of "b + req"] by (auto simp: word_unat_eq_iff)
qed

text \<open>The heap after the split: the block is taken at the requested size, the remainder heads the free list.\<close>

lemma split_inv:
  fixes h :: heap and b req :: u32
  defines "h2 \<equiv> upd_header (b + req) (\<lambda>x. x\<lparr>bh_size := bh_size (headers h b) - req\<rparr>)
    (upd_header b (\<lambda>x. x\<lparr>bh_size := req\<rparr>) (upd_header b (\<lambda>x. x\<lparr>is_free := 0\<rparr>) (remove_from_free_list b h)))"
  defines "h' \<equiv> add_to_free_list (b + req) h2"
  assumes inv: "heap_inv h (us @ b # vs) (xs @ b # ys)" and fits: "req \<le> bh_size (headers h b)"
    "32 \<le> bh_size (headers h b) - req" "16 \<le> unat req" and dvd: "16 dvd unat req"
  shows "heap_inv h' (us @ b # (b + req) # vs) ((b + req) # xs @ ys)"
    and "block_size h' x = (if x = b + req then block_size h b - unat req
      else if x = b then unat req else block_size h x)"
proof -
  let ?S = "block_size h" and ?a = "unat (free_ram h)" and ?e = "unat (free_ram_end h)"
  note p = split_point [OF inv fits]
  have size: "block_size h' x = (if x = b + req then ?S b - unat req else if x = b then unat req else ?S x)" for x
    unfolding h'_def h2_def using p(1,6) by simp
  then show "block_size h' x = (if x = b + req then ?S b - unat req else if x = b then unat req else ?S x)" .
  have d: "distinct (us @ b # vs)" "distinct (xs @ b # ys)" using heap_invD(4,5) [OF inv] by auto
  have ends [simp]: "free_ram h' = free_ram h" "free_ram_end h' = free_ram_end h"
    unfolding h'_def h2_def by simp_all
  have sub: "set (xs @ b # ys) \<subseteq> set (us @ b # vs)" by (rule heap_invD(3) [OF inv])
  then have new: "b + req \<notin> set (xs @ ys)" using p(4-6) by auto
  have b: "b \<notin> set (xs @ ys)" using d by auto
  have "free_list (upd_header b (\<lambda>x. x\<lparr>is_free := 0\<rparr>) (remove_from_free_list b h)) (xs @ ys)"
    using heap_invD(2) [OF inv] by (rule free_list_after_remove)
  then have "free_list h2 (xs @ ys)" unfolding h2_def by (rule free_list_cong) (use new b in auto)
  then have fl: "free_list h' ((b + req) # xs @ ys)" unfolding h'_def using new p(7) by (rule free_list_add)
  have t: "tiling ?S ?a us (unat b)" "tiling ?S (unat b + ?S b) vs ?e" "16 dvd ?S b"
    using heap_invD(1) [OF inv] by (auto simp: tiling_append)
  show "heap_inv h' (us @ b # (b + req) # vs) ((b + req) # xs @ ys)"
    unfolding heap_inv_def
  proof (intro conjI ballI)
    have "tiling (block_size h') ?a us (unat b)"
      using t(1) p(4) d by (subst tiling_cong [where S = ?S]) (auto simp: size)
    moreover have "tiling (block_size h') (unat b + ?S b) vs ?e"
      using t(2) p(5) d by (subst tiling_cong [where S = ?S]) (auto simp: size)
    moreover have "16 dvd ?S b - unat req" using t(3) dvd by simp
    moreover have "unat b + unat req + (?S b - unat req) = unat b + ?S b" using p(2) by simp
    ultimately show "tiling (block_size h') (unat (free_ram h')) (us @ b # (b + req) # vs) (unat (free_ram_end h'))"
      unfolding tiling_append tiling.simps size
      using p(2,3,6) fits(3) dvd by (intro exI [of _ "unat b"]) simp
    show "free_list h' ((b + req) # xs @ ys)" by (rule fl)
    show "set ((b + req) # xs @ ys) \<subseteq> set (us @ b # (b + req) # vs)" using sub by auto
    show "is_free (headers h' c) = (if c \<in> set ((b + req) # xs @ ys) then 1 else 0)"
      if "c \<in> set (us @ b # (b + req) # vs)" for c
      unfolding h'_def h2_def using heap_invD(6) [OF inv, of c] d that p(6) by auto
  qed (use inv p(4-6) new in \<open>simp_all add: heap_inv_def\<close>)
qed

lemma take_block_split:
  assumes "heap_inv h bs fl" and "b \<in> set fl" and "req \<le> bh_size (headers h b)"
    and "32 \<le> bh_size (headers h b) - req" and "16 \<le> unat req" and "16 dvd unat req"
  shows "\<exists>h' bs' fl'. take_block b req h = (b + 16, h') \<and> heap_inv h' bs' fl'
    \<and> set bs' = insert (b + req) (set bs) \<and> set fl' = insert (b + req) (set fl - {b})
    \<and> b + req \<notin> set bs \<and> block_size h' b = unat req
    \<and> (\<forall>x. x \<noteq> b \<longrightarrow> x \<noteq> b + req \<longrightarrow> block_size h' x = block_size h x)"
proof -
  obtain us vs xs ys where sp: "bs = us @ b # vs" "fl = xs @ b # ys" "b \<notin> set us" "b \<notin> set vs"
    "b \<notin> set xs" "b \<notin> set ys"
    by (rule block_split [OF assms(1,2)])
  note inv = assms(1) [unfolded sp(1,2)]
  note out = split_point [OF inv assms(3-5)] and new = split_inv [OF inv assms(3-6)]
  have take: "take_block b req h = (b + 16, add_to_free_list (b + req)
      (upd_header (b + req) (\<lambda>x. x\<lparr>bh_size := bh_size (headers h b) - req\<rparr>)
        (upd_header b (\<lambda>x. x\<lparr>bh_size := req\<rparr>)
          (upd_header b (\<lambda>x. x\<lparr>is_free := 0\<rparr>) (remove_from_free_list b h)))))"
    using assms(4) by (simp add: take_block_def Let_def)
  have "set ((b + req) # xs @ ys) = insert (b + req) (set fl - {b})"
    "set (us @ b # (b + req) # vs) = insert (b + req) (set bs)" "b + req \<notin> set bs"
    using sp out by auto
  with new show ?thesis
    unfolding take using out(6) by (intro exI conjI) (assumption | simp)+
qed

text \<open>
  The result of \<open>kmalloc\<close> when the request does not wrap: \<open>NULL\<close> exactly when no free block is
  large enough, and otherwise a fresh aligned block that holds the request.
\<close>

lemma kmalloc_none:
  assumes "heap_inv h bs fl" and "n \<noteq> 0" and "\<forall>b \<in> set fl. bh_size (headers h b) < ALIGN (n + 16)"
  shows "kmalloc n h = Some (0, h)"
proof -
  have fl: "free_list_head h = hd (fl @ [0])" "dseg (headers h) 0 fl 0" "0 \<notin> set fl"
    using heap_invD(2) [OF assms(1)] by (simp_all add: free_list_def)
  have "List.find (\<lambda>b. ALIGN (n + 16) \<le> bh_size (headers h b)) fl = None"
    using assms(3) by (auto simp: find_None_iff not_le)
  with assms(2) find_block_eq [OF fl(2,3)] fl(1) show ?thesis by (simp add: kmalloc_def)
qed

lemma kmalloc_some:
  assumes "heap_inv h bs fl" and "n \<noteq> 0" and "unat n + 31 < 4294967296"
    and "\<not> (\<forall>b \<in> set fl. bh_size (headers h b) < ALIGN (n + 16))"
  shows "\<exists>p h' bs' fl' sz. kmalloc n h = Some (p, h') \<and> heap_inv h' bs' fl'
    \<and> p \<noteq> 0 \<and> 16 dvd unat p \<and> unat n + 16 \<le> sz
    \<and> (\<forall>sz'. (p - 16, sz') \<notin> allocated h bs fl)
    \<and> allocated h' bs' fl' = insert (p - 16, sz) (allocated h bs fl)"
proof -
  let ?req = "ALIGN (n + 16)"
  note req = unat_request [OF assms(3)]
  have fl: "free_list_head h = hd (fl @ [0])" "dseg (headers h) 0 fl 0" "0 \<notin> set fl"
    using heap_invD(2) [OF assms(1)] by (simp_all add: free_list_def)
  obtain b where b: "List.find (\<lambda>b. ?req \<le> bh_size (headers h b)) fl = Some b"
    using assms(4) by (cases "List.find (\<lambda>b. ?req \<le> bh_size (headers h b)) fl")
      (auto simp: find_None_iff not_le)
  then have bf: "b \<in> set fl" and le: "?req \<le> bh_size (headers h b)"
    by (auto simp: find_Some_iff)
  have call: "kmalloc n h = Some (take_block b ?req h)"
    using assms(2) find_block_eq [OF fl(2,3)] fl(1) b by (simp add: kmalloc_def)
  have bb: "b \<in> set bs" using heap_invD(3) [OF assms(1)] bf by auto
  have "unat b + block_size h b \<le> unat (free_ram_end h)" and "16 dvd unat b"
    using tiling_bounds [OF heap_invD(1) [OF assms(1)]] heap_invD(8) [OF assms(1)] bb by auto
  moreover have "unat n + 16 \<le> block_size h b" using le req(2) by (simp add: word_le_nat_alt)
  ultimately have p: "unat (b + 16) = unat b + 16" "16 dvd unat (b + 16)"
    using unat_u32_less [of "free_ram_end h"] by (simp_all add: unat_add_u32)
  have p0: "b + 16 \<noteq> 0" using p(1) by auto
  have fresh: "\<forall>sz'. (b, sz') \<notin> allocated h bs fl" using bf by (simp add: allocated_def)
  show ?thesis
  proof (cases "32 \<le> bh_size (headers h b) - ?req")
    case False
    obtain h' fl' where h': "take_block b ?req h = (b + 16, h')" "heap_inv h' bs fl'"
      "set fl' = set fl - {b}" "\<And>x. block_size h' x = block_size h x"
      using take_block_whole [OF assms(1) bf le False] by blast
    have "allocated h' bs fl' = insert (b, block_size h b) (allocated h bs fl)"
      using h'(3,4) bb bf by (auto simp: allocated_def)
    then show ?thesis
      using call h'(1,2) p(2) p0 fresh \<open>unat n + 16 \<le> block_size h b\<close>
      by (intro exI [of _ "b + 16"] exI [of _ h'] exI [of _ bs] exI [of _ fl'] exI [of _ "block_size h b"]) simp
  next
    case True
    have "16 \<le> unat ?req" using req(2) by simp
    then obtain h' bs' fl' where h': "take_block b ?req h = (b + 16, h')" "heap_inv h' bs' fl'"
      "set bs' = insert (b + ?req) (set bs)" "set fl' = insert (b + ?req) (set fl - {b})"
      "b + ?req \<notin> set bs" "block_size h' b = unat ?req"
      "\<And>x. x \<noteq> b \<Longrightarrow> x \<noteq> b + ?req \<Longrightarrow> block_size h' x = block_size h x"
      using take_block_split [OF assms(1) bf le True _ req(3)] by blast
    have "allocated h' bs' fl' = insert (b, unat ?req) (allocated h bs fl)"
    proof -
      have "x \<in> set bs' \<and> x \<notin> set fl' \<longleftrightarrow> x = b \<or> (x \<in> set bs \<and> x \<notin> set fl)" for x
        using h'(3,4,5) bb bf heap_invD(3) [OF assms(1)] by auto
      moreover have "block_size h' x = block_size h x" if "x \<in> set bs" "x \<notin> set fl" for x
        using that bf h'(5) by (intro h'(7)) auto
      ultimately show ?thesis using h'(6) by (auto simp: allocated_def)
    qed
    then show ?thesis
      using call h'(1,2) p(2) p0 fresh req(2)
      by (intro exI [of _ "b + 16"] exI [of _ h'] exI [of _ bs'] exI [of _ fl'] exI [of _ "unat ?req"]) simp
  qed
qed

section \<open>Release\<close>

lemma kfree_null [simp]: "kfree 0 h = h"
  by (simp add: kfree_def)

lemma kfree_free:
  assumes "heap_inv h bs fl" and "b \<in> set fl" and "b + 16 \<noteq> 0"
  shows "kfree (b + 16) h = h"
proof -
  have "b \<in> set bs" using assms(2) heap_invD(3) [OF assms(1)] by blast
  with heap_invD(6) [OF assms(1) this] assms(2,3) show ?thesis by (simp add: kfree_def)
qed

text \<open>The block alone, before the merge with its neighbour.\<close>

lemma add_block_inv:
  assumes "heap_inv h bs fl" and "b \<in> set bs" and "b \<notin> set fl"
  shows "heap_inv (add_to_free_list b h) bs (b # fl)"
  unfolding heap_inv_def
proof (intro conjI ballI)
  show "free_list (add_to_free_list b h) (b # fl)"
    by (rule free_list_add [OF heap_invD(2) [OF assms(1)] assms(3) heap_invD(7) [OF assms(1,2)]])
  show "is_free (headers (add_to_free_list b h) c) = (if c \<in> set (b # fl) then 1 else 0)"
    if "c \<in> set bs" for c
    using heap_invD(6) [OF assms(1) that] by simp
qed (use assms in \<open>simp_all add: heap_inv_def\<close>)

text \<open>Taking the right neighbour out of the free list and adding its size to the block merges the two.\<close>

lemma merge_inv:
  fixes h :: heap and b c :: u32
  defines "h' \<equiv> upd_header b (\<lambda>x. x\<lparr>bh_size := bh_size x + bh_size (headers h c)\<rparr>) (remove_from_free_list c h)"
  assumes inv: "heap_inv h (us @ b # c # ws) (xs @ c # ys)" and b: "b \<in> set (xs @ c # ys)"
    and sum: "unat (bh_size (headers h b) + bh_size (headers h c)) = block_size h b + block_size h c"
  shows "heap_inv h' (us @ b # ws) (xs @ ys)"
    and "allocated h' (us @ b # ws) (xs @ ys) = allocated h (us @ b # c # ws) (xs @ c # ys)"
proof -
  let ?S = "block_size h" and ?a = "unat (free_ram h)" and ?e = "unat (free_ram_end h)"
  have d: "distinct (us @ b # c # ws)" "distinct (xs @ c # ys)" using heap_invD(4,5) [OF inv] by auto
  have size: "block_size h' x = (if x = b then ?S b + ?S c else ?S x)" for x
    unfolding h'_def by (simp add: sum)
  have ends [simp]: "free_ram h' = free_ram h" "free_ram_end h' = free_ram_end h" unfolding h'_def by simp_all
  have "tiling ?S ?a (us @ b # c # ws) ?e" using heap_invD(1) [OF inv] .
  then have t: "tiling ?S ?a us (unat b)" "tiling ?S (unat b + ?S b + ?S c) ws ?e"
    "16 dvd ?S b" "16 \<le> ?S b" "16 dvd ?S c"
    by (auto simp: tiling_append)
  show "heap_inv h' (us @ b # ws) (xs @ ys)"
    unfolding heap_inv_def
  proof (intro conjI ballI)
    have "tiling (block_size h') ?a us (unat b)"
      using t(1) d by (subst tiling_cong [where S = ?S]) (auto simp: size)
    moreover have "tiling (block_size h') (unat b + (?S b + ?S c)) ws ?e"
      using t(2) d by (subst tiling_cong [where S = ?S]) (auto simp: size add.assoc)
    moreover have "16 \<le> block_size h' b" "16 dvd block_size h' b" "block_size h' b = ?S b + ?S c"
      unfolding size using t(3-5) by (simp_all add: dvd_add)
    ultimately show "tiling (block_size h') (unat (free_ram h')) (us @ b # ws) (unat (free_ram_end h'))"
      unfolding tiling_append tiling.simps by (intro exI [of _ "unat b"]) (simp add: add.assoc)
    have "free_list (remove_from_free_list c h) (xs @ ys)"
      using heap_invD(2) [OF inv] by (rule free_list_remove)
    then show "free_list h' (xs @ ys)" unfolding h'_def by (rule free_list_cong) auto
    show "set (xs @ ys) \<subseteq> set (us @ b # ws)" using heap_invD(3) [OF inv] d by auto
    show "is_free (headers h' x) = (if x \<in> set (xs @ ys) then 1 else 0)" if "x \<in> set (us @ b # ws)" for x
      unfolding h'_def using heap_invD(6) [OF inv, of x] that d by auto
  qed (use inv d in \<open>simp_all add: heap_inv_def\<close>)
  have "x \<in> set (us @ b # ws) \<and> x \<notin> set (xs @ ys)
      \<longleftrightarrow> x \<in> set (us @ b # c # ws) \<and> x \<notin> set (xs @ c # ys)" for x
    using b d by auto
  moreover have "block_size h' x = ?S x" if "x \<notin> set (xs @ c # ys)" for x using that b size by auto
  ultimately show "allocated h' (us @ b # ws) (xs @ ys) = allocated h (us @ b # c # ws) (xs @ c # ys)"
    unfolding allocated_def by (metis (no_types, lifting))
qed

lemma coalesce_inv:
  assumes "heap_inv h bs fl" and "b \<in> set fl"
  shows "\<exists>bs' fl'. heap_inv (coalesce b h) bs' fl' \<and> allocated (coalesce b h) bs' fl' = allocated h bs fl"
proof -
  obtain us vs where sp: "bs = us @ b # vs" "b \<notin> set us" "b \<notin> set vs"
    using block_split [OF assms] by metis
  let ?S = "block_size h" and ?a = "unat (free_ram h)" and ?e = "unat (free_ram_end h)"
  have t: "tiling ?S ?a (us @ b # vs) ?e" using heap_invD(1) [OF assms(1)] sp(1) by simp
  then have us: "tiling ?S ?a us (unat b)" and vs: "tiling ?S (unat b + ?S b) vs ?e"
    and Sb: "16 dvd ?S b" "16 \<le> ?S b"
    by (auto simp: tiling_append)
  have "unat b + ?S b \<le> ?e" using tiling_bounds [OF vs] by simp
  then have nxt: "unat (b + bh_size (headers h b)) = unat b + ?S b"
    using unat_u32_less [of "free_ram_end h"] by (intro unat_add_u32) linarith
  show ?thesis
  proof (cases vs)
    case Nil
    then have "\<not> b + bh_size (headers h b) < free_ram_end h"
      using vs nxt by (simp add: word_less_nat_alt)
    then have "coalesce b h = h" by (simp add: coalesce_def Let_def)
    with assms(1) show ?thesis by auto
  next
    case (Cons c ws)
    then have c: "c = b + bh_size (headers h b)" "tiling ?S (unat b + ?S b + ?S c) ws ?e"
      "16 dvd ?S c" "16 \<le> ?S c"
      using vs nxt by (auto simp: word_unat_eq_iff)
    have "unat b + ?S b + ?S c \<le> ?e" using tiling_bounds [OF c(2)] by simp
    then have less: "c < free_ram_end h" using nxt c(1,4) by (simp add: word_less_nat_alt)
    have cb: "c \<in> set bs" "c \<noteq> b" using sp Cons by auto
    show ?thesis
    proof (cases "c \<in> set fl")
      case False
      then have "is_free (headers h c) = 0" using heap_invD(6) [OF assms(1) cb(1)] by simp
      then have "coalesce b h = h" using c(1) by (simp add: coalesce_def Let_def)
      with assms(1) show ?thesis by auto
    next
      case True
      then obtain xs ys where fl: "fl = xs @ c # ys" by (meson split_list)
      have inv: "heap_inv h (us @ b # c # ws) (xs @ c # ys)" using assms(1) sp(1) Cons fl by simp
      have free: "is_free (headers h c) = 1" using heap_invD(6) [OF assms(1) cb(1)] True by simp
      have "unat (bh_size (headers h b) + bh_size (headers h c)) = ?S b + ?S c"
        using \<open>unat b + ?S b + ?S c \<le> ?e\<close> unat_u32_less [of "free_ram_end h"]
        by (intro unat_add_u32) linarith
      note merged = merge_inv [OF inv assms(2) [unfolded fl] this]
      have co: "coalesce b h = upd_header b (\<lambda>x. x\<lparr>bh_size := bh_size x + bh_size (headers h c)\<rparr>)
          (remove_from_free_list c h)"
        using less free c(1) by (simp add: coalesce_def Let_def)
      have lists: "bs = us @ b # c # ws" "fl = xs @ c # ys" using sp(1) Cons fl by simp_all
      show ?thesis unfolding co lists by (intro exI conjI) (rule merged)+
    qed
  qed
qed

lemma kfree_inv:
  assumes "heap_inv h bs fl" and "b \<in> set bs" and "b \<notin> set fl"
  shows "\<exists>bs' fl'. heap_inv (kfree (b + 16) h) bs' fl'
    \<and> allocated (kfree (b + 16) h) bs' fl' = allocated h bs fl - {(b, block_size h b)}"
proof -
  have "unat b + block_size h b \<le> unat (free_ram_end h)" "16 \<le> block_size h b"
    using tiling_bounds [OF heap_invD(1) [OF assms(1)]] assms(2) by auto
  moreover have "16 dvd unat (free_ram_end h)" using assms(1) by (simp add: heap_inv_def)
  ultimately have "unat b + 16 < 4294967296" using unat_u32_less [of "free_ram_end h"] by linarith
  then have "unat (b + 16) = unat b + 16" by (simp add: unat_add_u32)
  then have "b + 16 \<noteq> 0" by auto
  then have k: "kfree (b + 16) h = coalesce b (add_to_free_list b h)"
    using heap_invD(6) [OF assms(1,2)] assms(3) by (simp add: kfree_def)
  have "allocated (add_to_free_list b h) bs (b # fl) = allocated h bs fl - {(b, block_size h b)}"
    by (auto simp: allocated_def)
  with coalesce_inv [OF add_block_inv [OF assms]] show ?thesis unfolding k by simp
qed

section \<open>A request that wraps\<close>

text \<open>
  For the sizes from \<open>0xFFFFFFF0\<close> on, the size of the block wraps to at most 16 bytes and the
  first free block is used; for \<open>0xFFFFFFF0\<close> itself the block handed out stays in the free list.
\<close>

lemma kmalloc_wraps:
  assumes "heap_inv h bs fl" and "fl = b # fl'" and "32 \<le> bh_size (headers h b)"
  shows "\<exists>h'. kmalloc 0xFFFFFFF0 h = Some (b + 16, h') \<and> free_list_head h' = b
    \<and> is_free (headers h' b) = 1"
proof -
  have fl: "free_list_head h = b" "b \<noteq> 0"
    using heap_invD(2) [OF assms(1)] assms(2) by (auto simp: free_list_def)
  have req: "ALIGN (0xFFFFFFF0 + 16) = 0" by code_simp
  have "kmalloc 0xFFFFFFF0 h = Some (take_block b 0 h)"
    using fl unfolding kmalloc_def req by (subst find_block.simps) simp
  moreover have "take_block b 0 h = (b + 16, snd (take_block b 0 h))"
    by (simp add: take_block_def Let_def)
  moreover have "free_list_head (snd (take_block b 0 h)) = b"
    "is_free (headers (snd (take_block b 0 h)) b) = 1"
    using assms(3) by (simp_all add: take_block_def add_to_free_list_def Let_def)
  ultimately show ?thesis by metis
qed

end
