(* ===== verification/Filesystem.thy ===== *)
theory Filesystem
  imports Fat12_Ops Renderer Memory
begin

text \<open>
  The file system layer, \<open>kernel/LineFilesystem.c\<close>: every operation looks at the global
  \<open>has_working_drive\<close> and dispatches on the global \<open>fs\<close>. The state is the one the whole kernel
  shares: the globals of \<open>kernel/LineKernel.c\<close>, the state of \<open>fat12.c\<close> (which holds the global
  \<open>drive\<close>), the terminal and the heap.
\<close>

section \<open>The state of the kernel\<close>

datatype filesystemformat = nofilesystem | fat12

record ('d, 'h) kernel =
  files :: "'d fat12_state"
  cur_fs :: filesystemformat
  has_working_drive :: int
  cmdline_str :: bytes
  terminal :: "'h terminal"
  kheap :: heap

text \<open>An operation of a component, run on the state of the kernel.\<close>

definition on_files ::
    "('d fat12_state \<Rightarrow> ('a \<times> 'd fat12_state) option) \<Rightarrow> ('d, 'h) kernel
      \<Rightarrow> ('a \<times> ('d, 'h) kernel) option" where
  "on_files m k = do {
     (r, s) \<leftarrow> m (files k);
     Some (r, k\<lparr>files := s\<rparr>)
   }"

definition on_terminal ::
    "('h terminal \<Rightarrow> 'h terminal option) \<Rightarrow> ('d, 'h) kernel \<Rightarrow> ('d, 'h) kernel option" where
  "on_terminal m k = do {
     t \<leftarrow> m (terminal k);
     Some (k\<lparr>terminal := t\<rparr>)
   }"

section \<open>The operations\<close>

definition filesystem_name :: "filesystemformat \<Rightarrow> string" where
  "filesystem_name filesystem = (case filesystem of fat12 \<Rightarrow> ''FAT12'' | _ \<Rightarrow> ''(none)'')"

definition check_filesystem ::
    "'d floppy_ops \<Rightarrow> drivesformat \<Rightarrow> filesystemformat \<Rightarrow> ('d, 'h) kernel
      \<Rightarrow> (int \<times> ('d, 'h) kernel) option" where
  "check_filesystem F drives filesystem k =
     (case filesystem of
        fat12 \<Rightarrow> on_files (detect_fat12 F drives) k
      | _ \<Rightarrow> Some (-1, k))"

definition close_fileno :: "int \<Rightarrow> ('d, 'h) kernel \<Rightarrow> (int \<times> ('d, 'h) kernel) option" where
  "close_fileno fileno k =
     (if has_working_drive k \<noteq> 1 then Some (-32, k)
      else if fileno = 2 then Some (-5, k)
      else case cur_fs k of
        fat12 \<Rightarrow> on_files (fat12_close fileno) k
      | _ \<Rightarrow> Some (-1, k))"

definition open_fileno ::
    "'d floppy_ops \<Rightarrow> bytes \<Rightarrow> ('d, 'h) kernel \<Rightarrow> (int \<times> ('d, 'h) kernel) option" where
  "open_fileno F filename k =
     (if has_working_drive k \<noteq> 1 then Some (-32, k)
      else case cur_fs k of
        fat12 \<Rightarrow> on_files (fat12_open F filename) k
      | _ \<Rightarrow> Some (-1, k))"

definition rename_filepath ::
    "'d floppy_ops \<Rightarrow> bytes \<Rightarrow> bytes \<Rightarrow> ('d, 'h) kernel \<Rightarrow> (int \<times> ('d, 'h) kernel) option" where
  "rename_filepath F oldpath newpath k =
     (if has_working_drive k \<noteq> 1 then Some (-32, k)
      else case cur_fs k of
        fat12 \<Rightarrow> on_files (fat12_rename F oldpath newpath) k
      | _ \<Rightarrow> Some (-1, k))"

definition makedir ::
    "'d floppy_ops \<Rightarrow> bytes \<Rightarrow> ('d, 'h) kernel \<Rightarrow> (int \<times> ('d, 'h) kernel) option" where
  "makedir F path k =
     (if has_working_drive k \<noteq> 1 then Some (-32, k)
      else case cur_fs k of
        fat12 \<Rightarrow> on_files (fat12_makedir F path) k
      | _ \<Rightarrow> Some (-1, k))"

definition removedir ::
    "'d floppy_ops \<Rightarrow> bytes \<Rightarrow> ('d, 'h) kernel \<Rightarrow> (int \<times> ('d, 'h) kernel) option" where
  "removedir F path k =
     (if has_working_drive k \<noteq> 1 then Some (-32, k)
      else case cur_fs k of
        fat12 \<Rightarrow> on_files (fat12_removedir F path) k
      | _ \<Rightarrow> Some (-1, k))"

definition removefile ::
    "'d floppy_ops \<Rightarrow> bytes \<Rightarrow> ('d, 'h) kernel \<Rightarrow> (int \<times> ('d, 'h) kernel) option" where
  "removefile F filename k =
     (if has_working_drive k \<noteq> 1 then Some (-32, k)
      else case cur_fs k of
        fat12 \<Rightarrow> on_files (fat12_removefile F filename) k
      | _ \<Rightarrow> Some (-1, k))"

text \<open>Only a write can go to \<open>LINEOUT_FILENO\<close>, the terminal.\<close>

definition write_fileno ::
    "'h port_ops \<Rightarrow> 'd floppy_ops \<Rightarrow> int \<Rightarrow> bytes \<Rightarrow> u32 \<Rightarrow> ('d, 'h) kernel
      \<Rightarrow> (int \<times> ('d, 'h) kernel) option" where
  "write_fileno P F fileno buf nbyte k =
     (if fileno = 2 then do {
        k \<leftarrow> on_terminal (terminal_write P buf nbyte) k;
        Some (sint nbyte, k)
      }
      else if has_working_drive k \<noteq> 1 then Some (-32, k)
      else case cur_fs k of
        fat12 \<Rightarrow> on_files (fat12_write F fileno buf nbyte) k
      | _ \<Rightarrow> Some (-1, k))"

definition read_fileno ::
    "'d floppy_ops \<Rightarrow> int \<Rightarrow> bytes \<Rightarrow> u32 \<Rightarrow> ('d, 'h) kernel
      \<Rightarrow> ((int \<times> bytes) \<times> ('d, 'h) kernel) option" where
  "read_fileno F fileno buf count k =
     (if has_working_drive k \<noteq> 1 then Some ((-32, buf), k)
      else if fileno = 2 then Some ((-5, buf), k)
      else case cur_fs k of
        fat12 \<Rightarrow> on_files (fat12_read F fileno buf count) k
      | _ \<Rightarrow> Some ((-1, buf), k))"

definition list_contents ::
    "'d floppy_ops \<Rightarrow> bytes \<Rightarrow> contents list \<Rightarrow> nat \<Rightarrow> ('d, 'h) kernel
      \<Rightarrow> ((int \<times> contents list) \<times> ('d, 'h) kernel) option" where
  "list_contents F path fcontents count k =
     (if has_working_drive k \<noteq> 1 then Some ((-32, fcontents), k)
      else case cur_fs k of
        fat12 \<Rightarrow> on_files (fat12_listcontent F path fcontents count) k
      | _ \<Rightarrow> Some ((-1, fcontents), k))"

text \<open>The size is unsigned, and the drive is not looked at.\<close>

definition get_size :: "int \<Rightarrow> ('d, 'h) kernel \<Rightarrow> u32 option" where
  "get_size fileno k =
     (case cur_fs k of
        fat12 \<Rightarrow> fat12_get_size fileno (files k)
      | _ \<Rightarrow> Some (-1))"

lemmas file_operation_defs =
  close_fileno_def open_fileno_def rename_filepath_def makedir_def removedir_def removefile_def
  read_fileno_def list_contents_def

section \<open>What the layer promises\<close>

lemma no_working_drive:
  assumes "has_working_drive k \<noteq> 1"
  shows "close_fileno n k = Some (-32, k)" "open_fileno F p k = Some (-32, k)"
    "rename_filepath F p q k = Some (-32, k)" "makedir F p k = Some (-32, k)"
    "removedir F p k = Some (-32, k)" "removefile F p k = Some (-32, k)"
    "read_fileno F n buf count k = Some ((-32, buf), k)"
    "list_contents F p cs m k = Some ((-32, cs), k)"
    "n \<noteq> 2 \<Longrightarrow> write_fileno P F n buf count k = Some (-32, k)"
  using assms by (simp_all add: file_operation_defs write_fileno_def)

text \<open>A mounted drive: the operations are those of \<open>fat12.c\<close>.\<close>

definition mounted :: "('d, 'h) kernel \<Rightarrow> bool" where
  "mounted k \<longleftrightarrow> has_working_drive k = 1 \<and> cur_fs k = fat12"

lemma mounted_operations:
  assumes "mounted k"
  shows "open_fileno F p k = on_files (fat12_open F p) k"
    "rename_filepath F p q k = on_files (fat12_rename F p q) k"
    "makedir F p k = on_files (fat12_makedir F p) k"
    "removedir F p k = on_files (fat12_removedir F p) k"
    "removefile F p k = on_files (fat12_removefile F p) k"
    "list_contents F p cs m k = on_files (fat12_listcontent F p cs m) k"
    "get_size n k = fat12_get_size n (files k)"
    "n \<noteq> 2 \<Longrightarrow> close_fileno n k = on_files (fat12_close n) k"
    "n \<noteq> 2 \<Longrightarrow> read_fileno F n buf count k = on_files (fat12_read F n buf count) k"
    "n \<noteq> 2 \<Longrightarrow> write_fileno P F n buf count k = on_files (fat12_write F n buf count) k"
  using assms by (simp_all add: file_operation_defs write_fileno_def get_size_def mounted_def)

lemma on_files_Some: "m (files k) = Some (r, s) \<Longrightarrow> on_files m k = Some (r, k\<lparr>files := s\<rparr>)"
  by (simp add: on_files_def)

text \<open>The terminal is written whatever the drive, and nothing else changes.\<close>

text \<open>A number of bytes as the result of a call: from \<open>2 ^ 31\<close> on it is negative.\<close>

lemma sint_of_size: "sint (w :: u32) = (if unat w < 2 ^ 31 then int (unat w) else int (unat w) - 2 ^ 32)"
proof -
  define n where "n = unat w"
  have n: "n < 2 ^ 32" using unat_u32_less [of w] by (simp add: n_def)
  have w: "sint w = signed_take_bit 31 (int n)" by (simp add: n_def sint_uint)
  have "take_bit (Suc 31) (int n) = take_bit (Suc 31) (int n - 2 ^ 32)"
    by (simp add: take_bit_eq_mod)
  then have wrap: "signed_take_bit 31 (int n) = signed_take_bit 31 (int n - 2 ^ 32)"
    by (simp only: signed_take_bit_eq_iff_take_bit_eq)
  show ?thesis
  proof (cases "n < 2 ^ 31")
    case True
    then have "signed_take_bit 31 (int n) = int n" by (intro signed_take_bit_int_eq_self) simp_all
    then show ?thesis unfolding w n_def [symmetric] using True by simp
  next
    case False
    then have "signed_take_bit 31 (int n - 2 ^ 32) = int n - 2 ^ 32"
      using n by (intro signed_take_bit_int_eq_self) simp_all
    then show ?thesis unfolding w wrap n_def [symmetric] using False by simp
  qed
qed

lemma write_lineout:
  assumes "console_ok (terminal k)" and "uart_ready P" and "unat nbyte \<le> length buf"
  shows "\<exists>h. write_fileno P F 2 buf nbyte k = Some (sint nbyte,
    k\<lparr>terminal := (fold type_char (take (unat nbyte) buf) (terminal k))\<lparr>hw := h\<rparr>\<rparr>)"
proof -
  obtain h where "terminal_write P buf nbyte (terminal k) =
      Some ((fold type_char (take (unat nbyte) buf) (terminal k))\<lparr>hw := h\<rparr>)"
    using emit_write_eq [OF assms(2,1)] assms(3) unfolding terminal_write_def by (auto simp: not_less)
  then show ?thesis by (auto simp: write_fileno_def on_terminal_def)
qed

text \<open>
  The size is the exception to the first rule: without a drive, \<open>fat12.c\<close> is asked all the same,
  and without a file system the result is the largest \<open>size_t\<close>.
\<close>

lemma get_size_unguarded:
  "get_size n k = (if cur_fs k = fat12 then fat12_get_size n (files k) else Some 0xFFFFFFFF)"
  by (cases "cur_fs k") (simp_all add: get_size_def)

end
