(* ===== verification/Kernel.thy ===== *)
theory Kernel
  imports Filesystem
begin

text \<open>
  The start of the kernel: the multiboot entry (\<open>x86/prekernel.c\<close>), the command line, the drive
  part of \<open>initialize_start\<close> and the loop of \<open>kernel_main\<close> (\<open>kernel/LineKernel.c\<close>), and the system
  calls (\<open>kernel/syscall.c\<close>). A pointer argument of a call is the object it points to.
\<close>

section \<open>The command line\<close>

text \<open>A string literal, with its terminator.\<close>

definition literal :: "string \<Rightarrow> bytes" where
  "literal s = map (\<lambda>c. of_nat (of_char c)) s @ [0]"

definition handle_single_argument :: "bytes \<Rightarrow> ('d, 'h) kernel \<Rightarrow> ('d, 'h) kernel option" where
  "handle_single_argument arg k = do {
     r \<leftarrow> strcmp arg (literal ''drive=nodrive'');
     let k = (if r = 0 then k\<lparr>files := (files k)\<lparr>drive := nodrive\<rparr>\<rparr> else k);
     r \<leftarrow> strcmp arg (literal ''drive=fdrive1'');
     let k = (if r = 0 then k\<lparr>files := (files k)\<lparr>drive := fdrive1\<rparr>\<rparr> else k);
     r \<leftarrow> strcmp arg (literal ''fs=fat12'');
     let k = (if r = 0 then k\<lparr>cur_fs := fat12\<rparr> else k);
     r \<leftarrow> strcmp arg (literal ''fs=nofilesystem'');
     let k = (if r = 0 then k\<lparr>cur_fs := nofilesystem\<rparr> else k);
     Some k
   }"

text \<open>The inner loops: the first index from \<open>i\<close> whose character fails the test.\<close>

partial_function (option) scan :: "(u8 \<Rightarrow> bool) \<Rightarrow> bytes \<Rightarrow> nat \<Rightarrow> nat option" where
  "scan p buf i =
     (if length buf \<le> i then None
      else if p (buf ! i) then scan p buf (i + 1) else Some i)"

text \<open>The outer loop; the command line is cut into strings in place.\<close>

partial_function (option) parse_from ::
    "bytes \<Rightarrow> nat \<Rightarrow> ('d, 'h) kernel \<Rightarrow> (bytes \<times> ('d, 'h) kernel) option" where
  "parse_from cmdline token k =
     (if length cmdline \<le> token then None
      else if cmdline ! token = 0 then Some (cmdline, k)
      else do {
        token \<leftarrow> scan (\<lambda>c. c = 0x20) cmdline token;
        (if cmdline ! token = 0 then Some (cmdline, k)
         else do {
           let arg_start = token;
           token \<leftarrow> scan (\<lambda>c. c \<noteq> 0 \<and> c \<noteq> 0x20) cmdline token;
           let (cmdline, token) =
             (if cmdline ! token = 0x20 then (cmdline[token := 0], token + 1) else (cmdline, token));
           k \<leftarrow> handle_single_argument (drop arg_start cmdline) k;
           parse_from cmdline token k
         })
      })"

definition parse_cmdline ::
    "bytes option \<Rightarrow> ('d, 'h) kernel \<Rightarrow> (bytes option \<times> ('d, 'h) kernel) option" where
  "parse_cmdline cmdline k =
     (case cmdline of
        None \<Rightarrow> Some (None, k)
      | Some buf \<Rightarrow> do {
          (buf, k) \<leftarrow> parse_from buf 0 k;
          Some (Some buf, k)
        })"

section \<open>The entry\<close>

record multiboot_info =
  mbi_flags :: u32
  mbi_cmdline :: bytes

text \<open>
  The result says whether \<open>kernel_main\<close> is called, and in which state. The copy of the command line goes to a
  buffer of 100 bytes.
\<close>

definition multiboot_pre_main ::
    "u32 \<Rightarrow> multiboot_info \<Rightarrow> ('d, 'h) kernel \<Rightarrow> (bool \<times> ('d, 'h) kernel) option" where
  "multiboot_pre_main magic mbi k =
     (if magic \<noteq> 0x2BADB002 then Some (False, k)
      else do {
        k \<leftarrow> (if mbi_flags mbi AND 4 \<noteq> 0 then do {
                n \<leftarrow> strlen (mbi_cmdline mbi);
                (str, _) \<leftarrow> strlcpy (cmdline_str k) (mbi_cmdline mbi) (n + 1);
                (_, k) \<leftarrow> parse_cmdline (Some (mbi_cmdline mbi)) (k\<lparr>cmdline_str := str\<rparr>);
                Some k
              }
              else Some k);
        Some (True, k)
      })"

section \<open>The drive\<close>

definition kernel_printf :: "string \<Rightarrow> bytes list \<Rightarrow> ('d, 'h) kernel \<Rightarrow> ('d, 'h) kernel" where
  "kernel_printf fmt args k = k\<lparr>files := put_klog (Kmsg fmt [] args) (files k)\<rparr>"

abbreviation name_arg :: "string \<Rightarrow> bytes" where
  "name_arg s \<equiv> cstr (literal s)"

text \<open>The part of \<open>initialize_start\<close> under \<open>CONFIG_DRIVE\<close>.\<close>

definition initialize_drive ::
    "'h port_ops \<Rightarrow> 'd floppy_ops \<Rightarrow> ('d, 'h) kernel \<Rightarrow> ('d, 'h) kernel option" where
  "initialize_drive P F k = do {
     k \<leftarrow> on_terminal (terminal_writestring P (literal ''Initializing storage drive...\<newline>'')) k;
     (r, d) \<leftarrow> drive_init F (drive (files k)) (dev (files k));
     let k = k\<lparr>files := (files k)\<lparr>dev := d\<rparr>\<rparr>;
     (if r = 0 then do {
        let k = kernel_printf ''Drive %s initialized successfully.\<newline>''
                  [name_arg (drive_name (drive (files k)))] k;
        let k = kernel_printf ''Checking for %s filesystem...\<newline>''
                  [name_arg (filesystem_name (cur_fs k))] k;
        (r, k) \<leftarrow> check_filesystem F (drive (files k)) (cur_fs k) k;
        let k = k\<lparr>has_working_drive := r\<rparr>;
        Some (if has_working_drive k = 1
              then kernel_printf ''%s filesystem detected on %s.\<newline>''
                     [name_arg (filesystem_name (cur_fs k)), name_arg (drive_name (drive (files k)))] k
              else kernel_printf ''Filesystem not found.\<newline>'' [] k)
      }
      else Some (kernel_printf ''Failed to initialize drive %s.\<newline>''
                   [name_arg (drive_name (drive (files k)))] k))
   }"

text \<open>One turn of the loop of \<open>kernel_main\<close>; the flag is \<open>is_shift_pressed\<close> of the keyboard.\<close>

definition kernel_main_turn ::
    "'h port_ops \<Rightarrow> bool \<times> ('d, 'h) kernel \<Rightarrow> (bool \<times> ('d, 'h) kernel) option" where
  "kernel_main_turn P sk = do {
     let (shift, k) = sk;
     let (c, shift, h) = get_char P (shift, hw (terminal k));
     k \<leftarrow> on_terminal (terminal_write_for_char P c) (k\<lparr>terminal := (terminal k)\<lparr>hw := h\<rparr>\<rparr>);
     Some (shift, k)
   }"

section \<open>System calls\<close>

definition returning :: "int \<Rightarrow> 'k option \<Rightarrow> (int \<times> 'k) option" where
  "returning r m = Option.bind m (\<lambda>k. Some (r, k))"

definition sys_print2 where
  "sys_print2 P read k = returning 0 (on_terminal (terminal_writestring P read) k)"

definition sys_termcolor where
  "sys_termcolor P fg_color bg_color k = returning 0 (on_terminal (terminal_setcolor P fg_color bg_color) k)"

definition sys_termscolor where
  "sys_termscolor P k = returning 0 (on_terminal (terminal_resetcolor P) k)"

definition sys_termclear where
  "sys_termclear P k = returning 0 (on_terminal (terminal_cls P) k)"

definition sys_termcursor where
  "sys_termcursor P x y k = returning 0 (on_terminal (terminal_update_cursor P x y) k)"

definition sys_close where
  "sys_close fileno k = close_fileno fileno k"

definition sys_open where
  "sys_open F filename k = open_fileno F filename k"

definition sys_rename where
  "sys_rename F oldpath newpath k = rename_filepath F oldpath newpath k"

definition sys_makedir where
  "sys_makedir F path k = makedir F path k"

definition sys_removedir where
  "sys_removedir F path k = removedir F path k"

definition sys_write where
  "sys_write P F fileno buf nbyte k = write_fileno P F fileno buf nbyte k"

definition sys_remove where
  "sys_remove F filename k = removefile F filename k"

definition sys_read where
  "sys_read F fileno buf count k = read_fileno F fileno buf count k"

definition sys_list where
  "sys_list F path fcontents count k = list_contents F path fcontents count k"

definition sys_size :: "int \<Rightarrow> ('d, 'h) kernel \<Rightarrow> (int \<times> ('d, 'h) kernel) option" where
  "sys_size fileno k = do {
     n \<leftarrow> get_size fileno k;
     Some (sint n, k)
   }"

definition sys_alloc :: "u32 \<Rightarrow> ('d, 'h) kernel \<Rightarrow> (int \<times> ('d, 'h) kernel) option" where
  "sys_alloc n k = do {
     (p, h) \<leftarrow> kmalloc n (kheap k);
     Some (sint p, k\<lparr>kheap := h\<rparr>)
   }"

definition sys_free :: "u32 \<Rightarrow> ('d, 'h) kernel \<Rightarrow> (int \<times> ('d, 'h) kernel) option" where
  "sys_free ptr k = Some (0, k\<lparr>kheap := kfree ptr (kheap k)\<rparr>)"

section \<open>The meaning of the command line\<close>

text \<open>
  The specification: the arguments are the maximal runs of characters other than the space, and
  they take effect one after the other.
\<close>

definition set_drive :: "drivesformat \<Rightarrow> ('d, 'h) kernel \<Rightarrow> ('d, 'h) kernel" where
  "set_drive d k = k\<lparr>files := (files k)\<lparr>drive := d\<rparr>\<rparr>"

definition apply_argument :: "bytes \<Rightarrow> ('d, 'h) kernel \<Rightarrow> ('d, 'h) kernel" where
  "apply_argument w k =
     (if w = name_arg ''drive=nodrive'' then set_drive nodrive k
      else if w = name_arg ''drive=fdrive1'' then set_drive fdrive1 k
      else if w = name_arg ''fs=fat12'' then k\<lparr>cur_fs := fat12\<rparr>
      else if w = name_arg ''fs=nofilesystem'' then k\<lparr>cur_fs := nofilesystem\<rparr>
      else k)"

function words_of :: "bytes \<Rightarrow> bytes list" where
  "words_of s =
     (let s = dropWhile (\<lambda>c. c = 0x20) s
      in if s = [] then []
         else takeWhile (\<lambda>c. c \<noteq> 0x20) s # words_of (dropWhile (\<lambda>c. c \<noteq> 0x20) s))"
  by pat_completeness auto
termination
proof (relation "measure length")
  fix s x :: bytes
  assume x: "x = dropWhile (\<lambda>c. c = 0x20) s" "x \<noteq> []"
  have "hd x \<noteq> 0x20" using hd_dropWhile [of "\<lambda>c. c = 0x20" s] x by simp
  then have "length (dropWhile (\<lambda>c. c \<noteq> 0x20) x) < length x"
    using x(2) length_dropWhile_le [of "\<lambda>c. c \<noteq> 0x20" "tl x"] by (cases x) auto
  also have "length x \<le> length s" unfolding x(1) by (rule length_dropWhile_le)
  finally show "(dropWhile (\<lambda>c. c \<noteq> 0x20) x, s) \<in> measure length" by simp
qed simp

declare words_of.simps [simp del]

lemma words_of_Nil [simp]: "words_of [] = []"
  by (simp add: words_of.simps)

lemma words_of_spaces: "set sp \<subseteq> {0x20} \<Longrightarrow> words_of (sp @ s) = words_of s"
proof -
  assume "set sp \<subseteq> {0x20}"
  then have "dropWhile (\<lambda>c. c = 0x20) (sp @ s) = dropWhile (\<lambda>c. c = 0x20) s"
    by (subst dropWhile_append2) auto
  then show ?thesis by (subst (1 2) words_of.simps) simp
qed

lemma words_of_word:
  assumes "0x20 \<notin> set w" and "w \<noteq> []" and "s = [] \<or> hd s = 0x20"
  shows "words_of (w @ s) = w # words_of s"
proof -
  have "hd w \<noteq> 0x20" using assms(1,2) hd_in_set [of w] by metis
  then have "dropWhile (\<lambda>c. c = 0x20) (w @ s) = w @ s" using assms(2) by (cases w) auto
  moreover have "takeWhile (\<lambda>c. c \<noteq> 0x20) (w @ s) = w @ takeWhile (\<lambda>c. c \<noteq> 0x20) s"
    "dropWhile (\<lambda>c. c \<noteq> 0x20) (w @ s) = dropWhile (\<lambda>c. c \<noteq> 0x20) s"
    using assms(1) by (auto intro!: takeWhile_append2 dropWhile_append2)
  moreover have "takeWhile (\<lambda>c. c \<noteq> 0x20) s = []" "dropWhile (\<lambda>c. c \<noteq> 0x20) s = s"
    using assms(3) by (cases s; simp)+
  ultimately show ?thesis using assms(2) by (subst words_of.simps) simp
qed

lemma literal_NUL [simp]: "0 \<in> set (literal s)"
  by (simp add: literal_def)

lemma handle_single_argument_eq:
  assumes "0 \<in> set arg"
  shows "handle_single_argument arg k = Some (apply_argument (cstr arg) k)"
proof -
  obtain a b c d where r: "strcmp arg (literal ''drive=nodrive'') = Some a"
      "strcmp arg (literal ''drive=fdrive1'') = Some b" "strcmp arg (literal ''fs=fat12'') = Some c"
      "strcmp arg (literal ''fs=nofilesystem'') = Some d"
    using strcmp_from_defined [OF assms literal_NUL] unfolding strcmp_def by metis
  have z: "a = 0 \<longleftrightarrow> cstr arg = name_arg ''drive=nodrive''"
      "b = 0 \<longleftrightarrow> cstr arg = name_arg ''drive=fdrive1''"
      "c = 0 \<longleftrightarrow> cstr arg = name_arg ''fs=fat12''"
      "d = 0 \<longleftrightarrow> cstr arg = name_arg ''fs=nofilesystem''"
    using r strcmp_zero_iff [OF assms literal_NUL] by (metis option.inject)+
  have ne: "name_arg ''drive=nodrive'' \<noteq> name_arg ''drive=fdrive1''"
      "name_arg ''drive=nodrive'' \<noteq> name_arg ''fs=fat12''"
      "name_arg ''drive=nodrive'' \<noteq> name_arg ''fs=nofilesystem''"
      "name_arg ''drive=fdrive1'' \<noteq> name_arg ''fs=fat12''"
      "name_arg ''drive=fdrive1'' \<noteq> name_arg ''fs=nofilesystem''"
      "name_arg ''fs=fat12'' \<noteq> name_arg ''fs=nofilesystem''"
    by code_simp+
  show ?thesis
    unfolding handle_single_argument_def r bind.bind_lunit Let_def z
    using ne by (auto simp: apply_argument_def set_drive_def)
qed

lemma scan_eq:
  "i + length (takeWhile p (drop i buf)) < length buf \<Longrightarrow>
     scan p buf i = Some (i + length (takeWhile p (drop i buf)))"
proof (induction "length buf - i" arbitrary: i rule: less_induct)
  case less
  then have i: "i < length buf" by simp
  then have split: "drop i buf = buf ! i # drop (i + 1) buf" by (simp add: Cons_nth_drop_Suc)
  show ?case
  proof (cases "p (buf ! i)")
    case True
    then have "length (takeWhile p (drop i buf)) = Suc (length (takeWhile p (drop (i + 1) buf)))"
      by (simp add: split)
    with less i True show ?thesis by (subst scan.simps) simp
  next
    case False
    then have "takeWhile p (drop i buf) = []" by (simp add: split)
    with i False show ?thesis by (subst scan.simps) simp
  qed
qed

lemma scan_at:
  assumes "buf = pre @ w @ c # rest" and "\<forall>x \<in> set w. p x" and "\<not> p c"
  shows "scan p buf (length pre) = Some (length (pre @ w))"
proof -
  have "takeWhile p (drop (length pre) buf) = w" using assms by (simp add: takeWhile_append2)
  then show ?thesis using scan_eq [of "length pre" p buf] assms(1) by simp
qed

text \<open>The text from the token to the terminator, as spaces, a word, and the rest.\<close>

lemma split_word:
  fixes s :: bytes
  obtains sp w r where "s = sp @ w @ r" "set sp \<subseteq> {0x20}" "0x20 \<notin> set w" "w = [] \<longrightarrow> r = []"
    "r = [] \<or> hd r = 0x20"
proof -
  let ?sp = "takeWhile (\<lambda>c. c = (0x20 :: u8)) s" and ?x = "dropWhile (\<lambda>c. c = (0x20 :: u8)) s"
  let ?w = "takeWhile (\<lambda>c. c \<noteq> 0x20) ?x" and ?r = "dropWhile (\<lambda>c. c \<noteq> 0x20) ?x"
  have s: "s = ?sp @ ?w @ ?r" by simp
  have 1: "set ?sp \<subseteq> {0x20}" by (auto dest: set_takeWhileD)
  have 2: "0x20 \<notin> set ?w" using set_takeWhileD [of "0x20" "\<lambda>c. c \<noteq> 0x20" ?x] by blast
  have 4: "?r = [] \<or> hd ?r = 0x20" using hd_dropWhile [of "\<lambda>c. c \<noteq> 0x20" ?x] by blast
  have 3: "?w = [] \<longrightarrow> ?r = []"
  proof (cases ?x)
    case (Cons a xs)
    then have "a \<noteq> 0x20" using hd_dropWhile [of "\<lambda>c. c = 0x20" s] by simp
    with Cons show ?thesis by simp
  qed (simp only: dropWhile.simps takeWhile.simps simp_thms)
  show thesis using that [OF s 1 2 3 4] .
qed

text \<open>
  One turn of the loop in three situations: only spaces are left; the last word is parsed, with the
  terminator after it; a word is parsed and the space after it overwritten with a terminator.
\<close>

lemma parse_spaces:
  assumes "set sp \<subseteq> {0x20}"
  shows "parse_from (pre @ sp @ 0 # tail) (length pre) k = Some (pre @ sp @ 0 # tail, k)"
proof -
  let ?buf = "pre @ sp @ 0 # tail"
  have "scan (\<lambda>c. c = 0x20) ?buf (length pre) = Some (length (pre @ sp))"
    using assms by (intro scan_at [of _ pre sp 0 tail]) auto
  moreover have "?buf ! length (pre @ sp) = 0" by (metis append.assoc nth_append_length)
  ultimately show ?thesis by (subst parse_from.simps) simp
qed

text \<open>The scans of a turn that finds a word: it begins after the spaces and ends at a space or at the terminator.\<close>

lemma parse_scans:
  fixes pre sp w rest :: bytes and e :: u8
  assumes sp: "set sp \<subseteq> {0x20}" and w: "0x20 \<notin> set w" "0 \<notin> set w" "w \<noteq> []" and e: "e = 0 \<or> e = 0x20"
  defines "buf \<equiv> pre @ sp @ w @ e # rest"
  shows "\<not> length buf \<le> length pre" and "buf ! length pre \<noteq> 0"
    and "scan (\<lambda>c. c = 0x20) buf (length pre) = Some (length (pre @ sp))"
    and "buf ! length (pre @ sp) \<noteq> 0"
    and "scan (\<lambda>c. c \<noteq> 0 \<and> c \<noteq> 0x20) buf (length (pre @ sp)) = Some (length (pre @ sp @ w))"
    and "buf ! length (pre @ sp @ w) = e"
proof -
  obtain c w' where cw: "w = c # w'" using w(3) by (cases w) auto
  then have c: "c \<noteq> 0x20" "c \<noteq> 0" using w by auto
  show "\<not> length buf \<le> length pre" unfolding buf_def by simp
  show "buf ! length pre \<noteq> 0"
    unfolding buf_def cw using sp c(2) by (cases sp) (auto simp: nth_append)
  show "scan (\<lambda>c. c = 0x20) buf (length pre) = Some (length (pre @ sp))"
    unfolding buf_def using sp c(1) cw by (intro scan_at [of _ pre sp c "w' @ e # rest"]) auto
  show "buf ! length (pre @ sp) \<noteq> 0"
    unfolding buf_def cw using c(2) by (simp add: nth_append)
  have "\<forall>x \<in> set w. x \<noteq> 0 \<and> x \<noteq> 0x20" using w by auto
  then show "scan (\<lambda>c. c \<noteq> 0 \<and> c \<noteq> 0x20) buf (length (pre @ sp)) = Some (length (pre @ sp @ w))"
    using e scan_at [of buf "pre @ sp" w e rest "\<lambda>c. c \<noteq> 0 \<and> c \<noteq> 0x20"] unfolding buf_def by auto
  show "buf ! length (pre @ sp @ w) = e" unfolding buf_def by (simp add: nth_append)
qed

lemma parse_last_word:
  assumes "set sp \<subseteq> {0x20}" and "0x20 \<notin> set w" and "0 \<notin> set w" and "w \<noteq> []"
  shows "parse_from (pre @ sp @ w @ 0 # tail) (length pre) k =
    Some (pre @ sp @ w @ 0 # tail, apply_argument w k)"
proof -
  let ?buf = "pre @ sp @ w @ 0 # tail"
  have arg: "drop (length (pre @ sp)) ?buf = w @ 0 # tail" by simp
  have h: "handle_single_argument (w @ 0 # tail) k = Some (apply_argument w k)"
    using assms(3) by (simp add: handle_single_argument_eq)
  have fin: "parse_from ?buf (length (pre @ sp @ w)) k' = Some (?buf, k')" for k' :: "('a, 'b) kernel"
    using parse_spaces [of "[]" "pre @ sp @ w" tail k'] by simp
  show ?thesis
    unfolding parse_from.simps [of ?buf "length pre" k] Let_def
    using parse_scans [OF assms, of 0 pre tail]
    by (simp add: arg h fin del: length_append drop_append)
qed

lemma parse_word:
  assumes "set sp \<subseteq> {0x20}" and "0x20 \<notin> set w" and "0 \<notin> set w" and "w \<noteq> []"
  shows "parse_from (pre @ sp @ w @ 0x20 # r @ 0 # tail) (length pre) k =
    parse_from ((pre @ sp @ w @ [0]) @ r @ 0 # tail) (length (pre @ sp @ w @ [0])) (apply_argument w k)"
proof -
  let ?buf = "pre @ sp @ w @ 0x20 # r @ 0 # tail" and ?pre = "pre @ sp @ w @ [0]"
  let ?out = "?pre @ r @ 0 # tail" and ?e = "length (pre @ sp @ w)"
  have upd: "?buf[?e := 0] = ?out"
    using list_update_length [of "pre @ sp @ w" "0x20" "r @ 0 # tail" 0] by simp
  have arg: "drop (length (pre @ sp)) ?out = w @ 0 # r @ 0 # tail" by simp
  have h: "handle_single_argument (w @ 0 # r @ 0 # tail) k = Some (apply_argument w k)"
    using assms(3) by (simp add: handle_single_argument_eq)
  have next': "Suc ?e = length ?pre" by simp
  show ?thesis
    unfolding parse_from.simps [of ?buf "length pre" k] Let_def
    using parse_scans [OF assms, of "0x20" pre "r @ 0 # tail"]
    by (simp add: upd arg h next' del: length_append drop_append append_assoc)
qed

lemma parse_from_eq:
  "0 \<notin> set str \<Longrightarrow> \<exists>out. length out = length (pre @ str @ 0 # tail) \<and>
     parse_from (pre @ str @ 0 # tail) (length pre) k = Some (out, fold apply_argument (words_of str) k)"
proof (induction "length str" arbitrary: str pre k rule: less_induct)
  case less
  obtain sp w r where t: "str = sp @ w @ r" and sp: "set sp \<subseteq> {0x20}" and w: "0x20 \<notin> set w"
    and wr: "w = [] \<longrightarrow> r = []" and r: "r = [] \<or> hd r = 0x20"
    by (rule split_word [of str])
  have w0: "0 \<notin> set w" using less.prems t by simp
  have words: "words_of str = (if w = [] then [] else w # words_of r)"
    using words_of_spaces [OF sp] words_of_word [OF w _ r] wr unfolding t by auto
  consider "w = []" | "w \<noteq> []" "r = []" | r' where "w \<noteq> []" "r = 0x20 # r'"
    using r by (cases r) auto
  then show ?case
  proof cases
    case 1
    then show ?thesis using parse_spaces [OF sp, of pre tail k] t wr words by simp
  next
    case 2
    then show ?thesis using parse_last_word [OF sp w w0 2(1), of pre tail k] t words by simp
  next
    case 3
    have turn: "parse_from (pre @ str @ 0 # tail) (length pre) k =
        parse_from ((pre @ sp @ w @ [0]) @ r' @ 0 # tail) (length (pre @ sp @ w @ [0])) (apply_argument w k)"
      using parse_word [OF sp w w0 3(1), of pre r' tail k] t 3(2) by simp
    have "words_of r = words_of r'" using words_of_spaces [of "[0x20]" r'] 3(2) by simp
    moreover have "length r' < length str" "0 \<notin> set r'" using less.prems t 3(2) by auto
    note less.hyps [OF this, of "pre @ sp @ w @ [0]" "apply_argument w k"]
    ultimately show ?thesis unfolding turn using words 3 t by auto
  qed
qed

lemma parse_cmdline_eq:
  assumes "0 \<in> set buf"
  shows "\<exists>out. length out = length buf \<and>
    parse_cmdline (Some buf) k = Some (Some out, fold apply_argument (words_of (cstr buf)) k)"
proof -
  obtain str tail where buf: "buf = str @ 0 # tail" "0 \<notin> set str"
    using assms by (metis split_list_first)
  then show ?thesis
    using parse_from_eq [OF buf(2), of "[]" tail k] by (auto simp: parse_cmdline_def)
qed

section \<open>What the entry and the drive set up\<close>

text \<open>Arguments do not touch the buffer of the command line, the drive flag, or the device.\<close>

lemma apply_arguments_frame:
  "cmdline_str (fold apply_argument ws k) = cmdline_str k"
  "has_working_drive (fold apply_argument ws k) = has_working_drive k"
  "terminal (fold apply_argument ws k) = terminal k"
  "kheap (fold apply_argument ws k) = kheap k"
  "dev (files (fold apply_argument ws k)) = dev (files k)"
  by (induction ws arbitrary: k) (simp_all add: apply_argument_def set_drive_def)

text \<open>
  A command line of up to 99 characters is copied and parsed. A longer one makes \<open>strlcpy\<close> leave the
  buffer \<open>cmdline_str\<close>, because its third argument is the length of the source.
\<close>

lemma multiboot_fits:
  assumes "0 \<in> set (mbi_cmdline mbi)" and "length (cmdline_str k) = 100"
    and "mbi_flags mbi AND 4 \<noteq> 0" and "length (cstr (mbi_cmdline mbi)) < 100"
  shows "multiboot_pre_main 0x2BADB002 mbi k = Some (True,
    fold apply_argument (words_of (cstr (mbi_cmdline mbi)))
      (k\<lparr>cmdline_str := put_bytes (cmdline_str k) 0 (cstr (mbi_cmdline mbi) @ [0])\<rparr>))"
proof -
  let ?c = "mbi_cmdline mbi"
  have n: "strlen ?c = Some (length (cstr ?c))" using assms(1) by (simp add: strlen_eq)
  have "strlcpy_str ?c (length (cstr ?c) + 1) = cstr ?c" by (simp add: strlcpy_str_def)
  then have "strlcpy (cmdline_str k) ?c (length (cstr ?c) + 1) =
      Some (put_bytes (cmdline_str k) 0 (cstr ?c @ [0]), length (cstr ?c))"
    using strlcpy_eq [of ?c "length (cstr ?c) + 1" "cmdline_str k"] assms by simp
  moreover obtain out where "parse_cmdline (Some ?c)
      (k\<lparr>cmdline_str := put_bytes (cmdline_str k) 0 (cstr ?c @ [0])\<rparr>) = Some (Some out,
      fold apply_argument (words_of (cstr ?c)) (k\<lparr>cmdline_str := put_bytes (cmdline_str k) 0 (cstr ?c @ [0])\<rparr>))"
    using parse_cmdline_eq [OF assms(1)] by blast
  ultimately show ?thesis using n assms(3) by (simp add: multiboot_pre_main_def)
qed

lemma strlcpy_copy_overflow:
  assumes "length dst \<le> i + n" and "i \<le> length dst" and "n + 1 < m" and "i + n < length (cstr src)"
  shows "strlcpy_copy dst src m i = None"
  using assms
proof (induction n arbitrary: dst i m)
  case 0
  then obtain m' where m: "m = Suc m'" "m' \<noteq> 0" by (cases m) auto
  with 0 show ?case by simp
next
  case (Suc n)
  obtain m' where m: "m = Suc m'" "m' \<noteq> 0" "n + 1 < m'" using Suc.prems(3) by (cases m) auto
  have "i < length (cstr src)" using Suc.prems by simp
  then have "src ! i \<noteq> 0" by (rule nth_cstr_nonzero)
  show ?case
  proof (cases "length dst \<le> i")
    case False
    then have "strlcpy_copy (dst[i := src ! i]) src m' (Suc i) = None"
      using Suc.prems m(3) by (intro Suc.IH) simp_all
    with \<open>src ! i \<noteq> 0\<close> m show ?thesis by simp
  qed (use m in simp)
qed

lemma multiboot_overflow:
  assumes "0 \<in> set (mbi_cmdline mbi)" and "length (cmdline_str k) = 100"
    and "mbi_flags mbi AND 4 \<noteq> 0" and "100 \<le> length (cstr (mbi_cmdline mbi))"
  shows "multiboot_pre_main 0x2BADB002 mbi k = None"
proof -
  let ?c = "mbi_cmdline mbi"
  have "strlcpy (cmdline_str k) ?c (length (cstr ?c) + 1) = None"
  proof (cases "length (cstr ?c) = 100")
    case True
    with assms show ?thesis
      using strlcpy_copy_trunc [of ?c 101 0 "cmdline_str k"] by (simp add: strlcpy_def)
  next
    case False
    with assms show ?thesis
      using strlcpy_copy_overflow [of "cmdline_str k" 0 100 "length (cstr ?c) + 1" ?c]
      by (simp add: strlcpy_def)
  qed
  then show ?thesis using assms(1,3) by (simp add: multiboot_pre_main_def strlen_eq)
qed

text \<open>The drive is mounted exactly when its first sector is a FAT12 boot sector.\<close>

definition has_fat12 :: "image \<Rightarrow> bool" where
  "has_fat12 im \<longleftrightarrow>
     u16_of_le (im 0 ! 510) (im 0 ! 511) = 0xAA55 \<and> bpb_is_fat12 (bpb_of_bytes (im 0))"

lemma detect_fat12_ideal:
  assumes "on_ideal s"
  shows "\<exists>msgs. detect_fat12 ideal_floppy fdrive1 s =
    Some (if has_fat12 (dev s) then (1, s\<lparr>fat12_geom := geometry_of_bpb (bpb_of_bytes (dev s 0)), klog := msgs\<rparr>)
          else (0, s\<lparr>klog := msgs\<rparr>))"
  using assms by (auto simp: detect_fat12_def read_sector_on_def read_drive_sector_ideal
      has_fat12_def put_klog_def Let_def)

lemma writestring_literal:
  assumes "console_ok t" and "uart_ready P" and "length s < 1000"
  shows "\<exists>t'. terminal_writestring P (literal s) t = Some t' \<and> console_ok t'"
proof -
  have "length (cstr (literal s)) < length (literal s)" by (rule length_cstr_less) simp
  moreover have "length (literal s) \<le> 1000" using assms(3) by (simp add: literal_def)
  ultimately have "unat (of_nat (length (cstr (literal s))) :: u32) = length (cstr (literal s))"
    by (simp add: unsigned_of_nat take_bit_nat_eq_self)
  with emit_write_eq [OF assms(2,1)] fold_type_char_ok [OF assms(1)]
    \<open>length (cstr (literal s)) < length (literal s)\<close>
  show ?thesis
    by (fastforce simp: terminal_writestring_def terminal_write_def strlen_eq console_ok_def)
qed

lemma initialize_drive_mounts:
  assumes "on_ideal (files k)" and "console_ok (terminal k)" and "uart_ready P"
  shows "\<exists>k'. initialize_drive P ideal_floppy k = Some k' \<and> dev (files k') = dev (files k)
    \<and> (has_working_drive k' = 1 \<longleftrightarrow> cur_fs k = fat12 \<and> has_fat12 (dev (files k)))
    \<and> (has_working_drive k' = 1 \<longrightarrow> mounted k'
        \<and> fat12_geom (files k') = geometry_of_bpb (bpb_of_bytes (dev (files k) 0))
        \<and> wf_geom (fat12_geom (files k')))"
proof -
  obtain t where t: "terminal_writestring P (literal ''Initializing storage drive...\<newline>'') (terminal k) = Some t"
    using writestring_literal [OF assms(2,3), of "''Initializing storage drive...\<newline>''"] by auto
  have drv: "drive (files k) = fdrive1" using assms(1) by (simp add: on_ideal_def)
  have wf: "has_fat12 im \<Longrightarrow> wf_geom (geometry_of_bpb (bpb_of_bytes (im 0)))" for im
    by (rule geometry_of_bpb_wf) (simp add: has_fat12_def bpb_is_fat12_def)
  have ideal: "on_ideal (put_klog m s) = on_ideal s" "dev (put_klog m s) = dev s"
    "drive (put_klog m s) = drive s" "fat12_geom (put_klog m s) = fat12_geom s" for m and s :: "image fat12_state"
    by (simp_all add: put_klog_def on_ideal_def)
  show ?thesis
  proof (cases "cur_fs k")
    case nofilesystem
    with t drv show ?thesis
      by (simp add: initialize_drive_def on_terminal_def drive_init_def ideal_floppy_def
          kernel_printf_def check_filesystem_def ideal)
  next
    case fat12
    let ?s = "put_klog (Kmsg ''Checking for %s filesystem...\<newline>'' [] [name_arg (filesystem_name fat12)])
      (put_klog (Kmsg ''Drive %s initialized successfully.\<newline>'' [] [name_arg (drive_name fdrive1)]) (files k))"
    obtain msgs where d: "detect_fat12 ideal_floppy fdrive1 ?s =
      Some (if has_fat12 (dev ?s) then (1, ?s\<lparr>fat12_geom := geometry_of_bpb (bpb_of_bytes (dev ?s 0)), klog := msgs\<rparr>)
          else (0, ?s\<lparr>klog := msgs\<rparr>))"
      using detect_fat12_ideal [of ?s] assms(1) unfolding ideal by blast
    have di: "drive_init ideal_floppy fdrive1 im = Some (0, im)" for im
      by (simp add: drive_init_def ideal_floppy_def)
    show ?thesis
      using t drv fat12 d wf
      by (cases "has_fat12 (dev (files k))")
        (simp_all add: initialize_drive_def on_terminal_def di kernel_printf_def
          check_filesystem_def ideal mounted_def on_files_def)
  qed
qed

text \<open>A drive that cannot be initialised leaves the flag as it was.\<close>

lemma initialize_drive_none:
  assumes "drive (files k) = nodrive" and "console_ok (terminal k)" and "uart_ready P"
  shows "\<exists>k'. initialize_drive P F k = Some k' \<and> has_working_drive k' = has_working_drive k
    \<and> dev (files k') = dev (files k)"
  using writestring_literal [OF assms(2,3), of "''Initializing storage drive...\<newline>''"] assms(1)
  by (auto simp: initialize_drive_def on_terminal_def drive_init_def kernel_printf_def put_klog_def)

end
