(* ===== verification/LineRandom.thy ===== *)
theory LineRandom
  imports Prelude
begin

text \<open>
  The generator of \<open>kernel/LineRandom.c\<close>. Its state \<open>next\<close> is an \<open>unsigned long\<close>, a word whose
  length depends on the target: 32 bits on i386, 64 on x86_64 and riscv64.
\<close>

definition RAND_MAX :: nat where "RAND_MAX = 32767"

definition rand_seed :: "'w::len word" where
  "rand_seed = of_nat (sum_list (map of_char ''LINECORE''))"

definition rand_crand :: "'w::len word \<Rightarrow> int \<times> 'w word" where
  "rand_crand nxt =
     (let nxt = nxt * 1103515245 + 12345
      in (int (unat nxt div (RAND_MAX * 2 + 2) mod (RAND_MAX + 1)), nxt))"

datatype randtype = RAND_CRAND

definition get_rand_type :: randtype where
  "get_rand_type = RAND_CRAND"

definition rand :: "'w::len word \<Rightarrow> int \<times> 'w word" where
  "rand nxt = (case get_rand_type of RAND_CRAND \<Rightarrow> rand_crand nxt)"

text \<open>
  \<open>randtype_t\<close> has one enumerator, so the \<open>default\<close> of the switch in \<open>rand\<close> is not reached.
  \<open>rand_stream\<close>: the numbers of the first \<open>n\<close> calls.
\<close>

fun rand_stream :: "nat \<Rightarrow> 'w::len word \<Rightarrow> int list" where
  "rand_stream 0 nxt = []"
| "rand_stream (Suc n) nxt = (let (r, nxt) = rand nxt in r # rand_stream n nxt)"

section \<open>The range and the width\<close>

lemma rand_eq: "rand nxt = rand_crand nxt"
  by (simp add: rand_def get_rand_type_def)

lemma rand_range: "0 \<le> fst (rand nxt)" "fst (rand nxt) \<le> int RAND_MAX"
  by (simp_all add: rand_eq rand_crand_def RAND_MAX_def Let_def)

text \<open>Only the bits 16 to 30 of the state are used.\<close>

lemma rand_bits: "m div 65536 mod 32768 = (m mod 2 ^ 32) div 65536 mod (32768 :: nat)"
proof -
  have "m mod (65536 * 65536) = 65536 * (m div 65536 mod 65536) + m mod 65536"
    by (rule mod_mult2_eq)
  then have "(m mod 2 ^ 32) div 65536 = m div 65536 mod 65536" by simp
  then show ?thesis by (simp add: mod_mod_cancel)
qed

lemma narrow: "(ucast (of_nat n :: 64 word) :: 32 word) = of_nat n"
  by (simp add: unsigned_of_nat word_of_nat_eq_iff)

lemma rand_width:
  assumes "(ucast w :: 32 word) = v"
  shows "fst (rand (w :: 64 word)) = fst (rand (v :: 32 word))"
    and "(ucast (snd (rand w)) :: 32 word) = snd (rand v)"
proof -
  have step: "(ucast (w * 1103515245 + 12345) :: 32 word) = v * 1103515245 + 12345"
    using narrow [of "unat w * 1103515245 + 12345"] narrow [of "unat w"] assms by simp
  show "(ucast (snd (rand w)) :: 32 word) = snd (rand v)"
    using step by (simp add: rand_eq rand_crand_def Let_def)
  have "unat (v * 1103515245 + 12345) = unat (w * 1103515245 + 12345) mod 2 ^ 32"
    unfolding step [symmetric] by (simp add: unsigned_ucast_eq take_bit_eq_mod)
  then show "fst (rand w) = fst (rand v)"
    using rand_bits [of "unat (w * 1103515245 + 12345)"]
    by (simp add: rand_eq rand_crand_def Let_def RAND_MAX_def)
qed

text \<open>The targets draw the same numbers.\<close>

lemma rand_stream_width:
  "(ucast (w :: 64 word) :: 32 word) = v \<Longrightarrow> rand_stream n w = rand_stream n v"
proof (induction n arbitrary: w v)
  case (Suc n)
  from Suc.IH [OF rand_width(2) [OF Suc.prems]] rand_width(1) [OF Suc.prems] show ?case
    by (simp add: split_beta)
qed simp

text \<open>The state never repeats early because of the step: it is a permutation of the words.\<close>

lemma rand_step_inj: "inj (\<lambda>v :: 32 word. snd (rand v))"
proof (rule injI)
  fix v w :: "32 word" assume "snd (rand v) = snd (rand w)"
  then have "v * 1103515245 * 4005161829 = w * 1103515245 * 4005161829"
    by (simp add: rand_eq rand_crand_def Let_def)
  then have "v * (1103515245 * 4005161829) = w * (1103515245 * 4005161829)"
    by (simp only: mult.assoc)
  moreover have "1103515245 * 4005161829 = (1 :: 32 word)" by code_simp
  ultimately show "v = w" by (simp only: mult_1_right)
qed

end
