(* ===== verification/Demo_Kernel.thy ===== *)
theory Demo_Kernel
  imports Demo_Session Kernel LineRandom
begin

text \<open>A small heap and a kernel over the small volume, for the witnesses.\<close>

definition demo_ram :: heap where
  "demo_ram = \<lparr>headers = (\<lambda>_. \<lparr>bh_size = 0, is_free = 0, next_bh = 0, prev_bh = 0\<rparr>),
     free_list_head = 0, free_ram = 0x1000, free_ram_end = 0x2000\<rparr>"

definition demo_heap :: heap where
  "demo_heap = heap_init demo_ram"

lemma demo_heap_inv: "heap_inv demo_heap [0x1000] [0x1000]"
  using heap_init_inv(1) [of demo_ram] by (simp add: demo_heap_def demo_ram_def)

lemma demo_heap_size: "bh_size (headers demo_heap 0x1000) = 0x1000"
  using heap_init_inv(2) [of demo_ram]
  by (simp add: demo_heap_def demo_ram_def word_unat_eq_iff)

text \<open>The same range, with its only block allocated.\<close>

definition demo_heap1 :: heap where
  "demo_heap1 = \<lparr>headers = (\<lambda>_. \<lparr>bh_size = 0x1000, is_free = 0, next_bh = 0, prev_bh = 0\<rparr>),
     free_list_head = 0, free_ram = 0x1000, free_ram_end = 0x2000\<rparr>"

lemma demo_heap1_inv: "heap_inv demo_heap1 [0x1000] []"
  by (simp add: heap_inv_def demo_heap1_def free_list_def)

lemma demo_heap1_allocated: "allocated demo_heap1 [0x1000] [] - {(0x1000, block_size demo_heap1 0x1000)} = {}"
  by (auto simp: allocated_def)

text \<open>Ports on which every device is ready, and a kernel before the drive is checked.\<close>

definition demo_ports :: "unit port_ops" where
  "demo_ports = \<lparr>p_inb = (\<lambda>_ h. (0x20, h)), p_outb = (\<lambda>_ _ h. h)\<rparr>"

definition demo_kernel :: "(image, unit) kernel" where
  "demo_kernel = \<lparr>files = demo, cur_fs = fat12, has_working_drive = 0,
     cmdline_str = replicate 100 0,
     terminal = \<lparr>vga_terminal_row = 0, vga_terminal_column = 0, vga_terminal_color = 7,
       vga_terminal_buffer = replicate 2000 0x0720, hw = ()\<rparr>,
     kheap = demo_heap\<rparr>"

lemma demo_uart: "uart_ready demo_ports"
  unfolding uart_ready_def by (intro allI exI [of _ 0]) (simp add: demo_ports_def)

lemma demo_console: "console_ok (terminal demo_kernel)"
  by (simp add: demo_kernel_def console_ok_def)

lemma demo_names:
  "name_arg ''drive=fdrive1'' \<noteq> name_arg ''drive=nodrive''"
  "name_arg ''fs=fat12'' \<noteq> name_arg ''drive=nodrive''" "name_arg ''fs=fat12'' \<noteq> name_arg ''drive=fdrive1''"
  by code_simp+

end
