(* ===== verification/Driver_Refinement.thy ===== *)
theory Driver_Refinement
  imports Fat12_Ops
begin

text \<open>
  The file system over a driver that refines another one. \<open>kernel/fat12.c\<close> reaches the disk only
  through the two sector accesses of the drive layer, so every one of its operations behaves the
  same over two drivers whose accesses do. The locale \<open>driver_refinement\<close> states that contract,
  and \<open>sector_driver\<close> the one of a driver that stores sectors.
\<close>

section \<open>Runs that agree\<close>

text \<open>Whenever the first run returns, the second one returns a related result.\<close>

definition sim :: "('a \<Rightarrow> 'b \<Rightarrow> bool) \<Rightarrow> 'a option \<Rightarrow> 'b option \<Rightarrow> bool" where
  "sim Q m m' \<longleftrightarrow> (\<forall>x. m = Some x \<longrightarrow> (\<exists>y. m' = Some y \<and> Q x y))"

lemma simD: "sim Q m m' \<Longrightarrow> m = Some x \<Longrightarrow> \<exists>y. m' = Some y \<and> Q x y"
  by (simp add: sim_def)

lemma simI: "(\<And>x. m = Some x \<Longrightarrow> \<exists>y. m' = Some y \<and> Q x y) \<Longrightarrow> sim Q m m'"
  by (simp add: sim_def)

text \<open>The state of the file system over another device.\<close>

definition with_dev :: "'d \<Rightarrow> 'c fat12_state \<Rightarrow> 'd fat12_state" where
  "with_dev d s = \<lparr>drive = drive s, fat12_geom = fat12_geom s, open_files = open_files s,
     contents_filenames = contents_filenames s, contents_filename_idx = contents_filename_idx s,
     klog = klog s, dev = d, stack_buf = stack_buf s\<rparr>"

named_theorems dev_simps \<open>field accesses and updates of \<open>with_dev\<close>\<close>

lemma with_dev_fields [dev_simps]:
  "drive (with_dev d s) = drive s" "fat12_geom (with_dev d s) = fat12_geom s"
  "open_files (with_dev d s) = open_files s" "contents_filenames (with_dev d s) = contents_filenames s"
  "contents_filename_idx (with_dev d s) = contents_filename_idx s" "klog (with_dev d s) = klog s"
  "dev (with_dev d s) = d" "stack_buf (with_dev d s) = stack_buf s"
  by (simp_all add: with_dev_def)

lemma with_dev_updates [dev_simps]:
  "(with_dev d s)\<lparr>fat12_geom := g\<rparr> = with_dev d (s\<lparr>fat12_geom := g\<rparr>)"
  "(with_dev d s)\<lparr>open_files := fs\<rparr> = with_dev d (s\<lparr>open_files := fs\<rparr>)"
  "(with_dev d s)\<lparr>contents_filenames := ns\<rparr> = with_dev d (s\<lparr>contents_filenames := ns\<rparr>)"
  "(with_dev d s)\<lparr>contents_filename_idx := i\<rparr> = with_dev d (s\<lparr>contents_filename_idx := i\<rparr>)"
  "(with_dev d s)\<lparr>klog := l\<rparr> = with_dev d (s\<lparr>klog := l\<rparr>)"
  "(with_dev d s)\<lparr>dev := d'\<rparr> = with_dev d' s"
  "with_dev d (s\<lparr>dev := c\<rparr>) = with_dev d s"
  by (simp_all add: with_dev_def)

lemma with_dev_self [simp]: "with_dev (dev s) s = s"
  by (simp add: with_dev_def)

lemma with_dev_ops [dev_simps]:
  "put_klog m (with_dev d s) = with_dev d (put_klog m s)"
  "upd_file i f (with_dev d s) = with_dev d (upd_file i f s)"
  "install_file k fn e dc idx (with_dev d s) = with_dev d (install_file k fn e dc idx s)"
  "file_index n (with_dev d s) = file_index n s"
  by (simp_all add: put_klog_def upd_file_def install_file_def file_index_def dev_simps)

lemma dev_unchanged [dev_simps]:
  "dev (put_klog m s) = dev s" "dev (install_file k fn e dc idx s) = dev s"
  by (simp_all add: put_klog_def install_file_def)

definition follows :: "('d \<Rightarrow> 'c \<Rightarrow> bool) \<Rightarrow> 'c fat12_state \<Rightarrow> 'd fat12_state \<Rightarrow> bool" where
  "follows A s t \<longleftrightarrow> (\<exists>d. t = with_dev d s \<and> A d (dev s))"

abbreviation both :: "('d \<Rightarrow> 'c \<Rightarrow> bool) \<Rightarrow> 'a \<times> 'c fat12_state \<Rightarrow> 'a \<times> 'd fat12_state \<Rightarrow> bool" where
  "both A \<equiv> rel_prod (=) (follows A)"

text \<open>The rules follow the syntax of the operations.\<close>

named_theorems sim_intros \<open>introduction rules for runs that agree\<close>

lemma sim_return [sim_intros]:
  "A d (dev s) \<Longrightarrow> sim (both A) (Some (x, s)) (Some (x, with_dev d s))"
  "A d (dev s) \<Longrightarrow> sim (follows A) (Some s) (Some (with_dev d s))"
  "sim Q None m'"
  by (auto simp: sim_def follows_def)

lemma sim_if [sim_intros]:
  "(b \<Longrightarrow> sim Q m m') \<Longrightarrow> (\<not> b \<Longrightarrow> sim Q n n') \<Longrightarrow> sim Q (if b then m else n) (if b then m' else n')"
  by simp

lemma sim_option [sim_intros]:
  "(x = None \<Longrightarrow> sim Q m m') \<Longrightarrow> (\<And>a. x = Some a \<Longrightarrow> sim Q (f a) (f' a)) \<Longrightarrow>
     sim Q (case x of None \<Rightarrow> m | Some a \<Rightarrow> f a) (case x of None \<Rightarrow> m' | Some a \<Rightarrow> f' a)"
  by (cases x) simp_all

lemma sim_pair [sim_intros]:
  "(\<And>a b. x = (a, b) \<Longrightarrow> sim Q (f a b) (f' a b)) \<Longrightarrow>
     sim Q (case x of (a, b) \<Rightarrow> f a b) (case x of (a, b) \<Rightarrow> f' a b)"
  by (cases x) simp

lemma sim_bind_pure [sim_intros]:
  "(\<And>x. m = Some x \<Longrightarrow> sim Q (f x) (f' x)) \<Longrightarrow> sim Q (Option.bind m f) (Option.bind m f')"
  by (cases m) (simp_all add: sim_def)

lemma sim_pair_applied [sim_intros]:
  "(\<And>a b. x = (a, b) \<Longrightarrow> sim Q (f a b s) (f' a b t)) \<Longrightarrow>
     sim Q ((case x of (a, b) \<Rightarrow> f a b) s) ((case x of (a, b) \<Rightarrow> f' a b) t)"
  by (cases x) simp

lemma sim_bind:
  "sim (both A) m m' \<Longrightarrow> (\<And>x s d. A d (dev s) \<Longrightarrow> sim Q (f (x, s)) (f' (x, with_dev d s))) \<Longrightarrow>
     sim Q (Option.bind m f) (Option.bind m' f')"
  "sim (follows A) n n' \<Longrightarrow> (\<And>s d. A d (dev s) \<Longrightarrow> sim Q (g s) (g' (with_dev d s))) \<Longrightarrow>
     sim Q (Option.bind n g) (Option.bind n' g')"
  by (fastforce simp: sim_def follows_def bind_eq_Some_conv)+

section \<open>The contract\<close>

locale driver_refinement =
  fixes C :: "'c floppy_ops" and F :: "'d floppy_ops" and A :: "'d \<Rightarrow> 'c \<Rightarrow> bool"
  assumes read_refines: "A d c \<Longrightarrow>
      sim (\<lambda>(r, c) (r', d). r' = r \<and> A d c) (floppy_read_sector C lba buf c) (floppy_read_sector F lba buf d)"
    and write_refines: "A d c \<Longrightarrow>
      sim (\<lambda>(r, c) (r', d). r' = r \<and> A d c) (floppy_write_sector C lba buf c) (floppy_write_sector F lba buf d)"
begin

lemmas sim_bind_here [sim_intros] = sim_bind [where A = A]

lemma read_sector_sim [sim_intros]:
  assumes "A d (dev s)"
  shows "sim (both A) (read_sector_on C drv lba s) (read_sector_on F drv lba (with_dev d s))"
proof (rule simI)
  fix x assume x: "read_sector_on C drv lba s = Some x"
  show "\<exists>y. read_sector_on F drv lba (with_dev d s) = Some y \<and> both A x y"
  proof (cases drv)
    case nodrive
    then show ?thesis using x assms
      by (auto simp: read_sector_on_def read_drive_sector_def follows_def dev_simps)
  next
    case fdrive1
    then obtain r c where c: "floppy_read_sector C lba (stack_buf s) (dev s) = Some (r, c)" "x = (r, s\<lparr>dev := c\<rparr>)"
      using x by (auto simp: read_sector_on_def read_drive_sector_def bind_eq_Some_conv)
    from simD [OF read_refines [OF assms] c(1)] obtain d' where
      "floppy_read_sector F lba (stack_buf s) d = Some (r, d')" "A d' c" by auto
    then show ?thesis using fdrive1 c(2)
      by (auto simp: read_sector_on_def read_drive_sector_def follows_def dev_simps)
  qed
qed

lemma write_sector_sim [sim_intros]:
  assumes "A d (dev s)"
  shows "sim (both A) (write_sector C lba buf s) (write_sector F lba buf (with_dev d s))"
proof (rule simI)
  fix x assume x: "write_sector C lba buf s = Some x"
  show "\<exists>y. write_sector F lba buf (with_dev d s) = Some y \<and> both A x y"
  proof (cases "drive s")
    case nodrive
    then show ?thesis using x assms
      by (auto simp: write_sector_def write_drive_sector_def follows_def dev_simps)
  next
    case fdrive1
    then obtain r c where c: "floppy_write_sector C lba buf (dev s) = Some (r, c)" "x = (r, s\<lparr>dev := c\<rparr>)"
      using x by (auto simp: write_sector_def write_drive_sector_def bind_eq_Some_conv)
    from simD [OF write_refines [OF assms] c(1)] obtain d' where
      "floppy_write_sector F lba buf d = Some (r, d')" "A d' c" by auto
    then show ?thesis using fdrive1 c(2)
      by (auto simp: write_sector_def write_drive_sector_def follows_def dev_simps)
  qed
qed

section \<open>The table\<close>

lemma read_fat_bytes_sim [sim_intros]:
  "A d (dev s) \<Longrightarrow> sim (both A) (read_fat12_fat_bytes C off n s) (read_fat12_fat_bytes F off n (with_dev d s))"
proof (induction n arbitrary: off s d)
  case (Suc n)
  show ?case
    unfolding read_fat12_fat_bytes.simps Let_def dev_simps
    by (auto intro!: sim_intros Suc simp: dev_simps)
qed (auto intro: sim_intros)

lemma write_fat_copies_sim [sim_intros]:
  "A d (dev s) \<Longrightarrow> sim (follows A) (write_fat_copies C sec buf fs s) (write_fat_copies F sec buf fs (with_dev d s))"
  by (induction fs arbitrary: s d) (auto intro!: sim_intros simp: dev_simps Let_def)

lemma write_fat_bytes_sim [sim_intros]:
  "A d (dev s) \<Longrightarrow> sim (follows A) (write_fat12_fat_bytes C off bs s) (write_fat12_fat_bytes F off bs (with_dev d s))"
  by (induction bs arbitrary: off s d) (auto intro!: sim_intros simp: dev_simps Let_def)

lemma read_fat_entry_sim [sim_intros]:
  "A d (dev s) \<Longrightarrow> sim (both A) (fat12_read_fat_entry C c s) (fat12_read_fat_entry F c (with_dev d s))"
  unfolding fat12_read_fat_entry_def by (auto intro!: sim_intros simp: dev_simps Let_def)

lemma write_fat_entry_sim [sim_intros]:
  "A d (dev s) \<Longrightarrow> sim (follows A) (fat12_write_fat_entry C c v s) (fat12_write_fat_entry F c v (with_dev d s))"
  unfolding fat12_write_fat_entry_def by (auto intro!: sim_intros simp: dev_simps Let_def)

lemma allocate_from_sim:
  "A d (dev s) \<Longrightarrow> sim (both A) (allocate_from C cur c s) (allocate_from F cur c (with_dev d s))"
proof (induction "4080 - unat c" arbitrary: c s d rule: less_induct)
  case less
  have "4080 - unat (c + 1) < 4080 - unat c" if "c < 4080"
    using that by (simp add: word_less_nat_alt unat_word_ariths)
  with less show ?case
    by (subst (1 2) allocate_from.simps) (auto intro!: sim_intros simp: dev_simps)
qed

lemma allocate_sim [sim_intros]:
  "A d (dev s) \<Longrightarrow> sim (both A) (fat12_allocate_cluster C cur s) (fat12_allocate_cluster F cur (with_dev d s))"
  unfolding fat12_allocate_cluster_def by (rule allocate_from_sim)

lemma free_chain_sim [sim_intros]:
  "A d (dev s) \<Longrightarrow> sim (follows A) (fat12_free_cluster_chain C c s) (fat12_free_cluster_chain F c (with_dev d s))"
proof (rule simI)
  fix x assume A: "A d (dev s)" and run: "fat12_free_cluster_chain C c s = Some x"
  obtain G where G: "G = C" by simp
  have "fat12_free_cluster_chain G c s = Some x" using run G by simp
  then show "\<exists>y. fat12_free_cluster_chain F c (with_dev d s) = Some y \<and> follows A x y"
    using G A
  proof (induction G c s x arbitrary: d rule: fat12_free_cluster_chain.raw_induct [rotated, consumes 1, case_names step])
    case (step loop G c s x)
    then have IH: "A d (dev s) \<Longrightarrow> sim (follows A) (loop C c s) (fat12_free_cluster_chain F c (with_dev d s))"
      for c s d by (auto simp: sim_def)
    show ?case
      by (rule simD [OF _ step(2) [unfolded step(3)]], subst fat12_free_cluster_chain.simps)
        (auto intro!: sim_intros IH simp: dev_simps step)
  qed
qed

section \<open>Directories\<close>

lemma dir_walk_sim [sim_intros]:
  "A d (dev s) \<Longrightarrow> sim (both A) (dir_walk C c n s) (dir_walk F c n (with_dev d s))"
  by (induction n arbitrary: c s d) (auto intro!: sim_intros simp: dev_simps Let_def)

lemma read_dir_entry_sim [sim_intros]:
  "A d (dev s) \<Longrightarrow> sim (both A) (fat12_read_dir_entry C dc i s) (fat12_read_dir_entry F dc i (with_dev d s))"
  unfolding fat12_read_dir_entry_def by (auto intro!: sim_intros simp: dev_simps Let_def)

lemma zero_sectors_sim [sim_intros]:
  "A d (dev s) \<Longrightarrow> sim (follows A) (zero_sectors C c is s) (zero_sectors F c is (with_dev d s))"
  by (induction "is" arbitrary: s d) (auto intro!: sim_intros simp: dev_simps)

lemma dir_walk_extend_sim [sim_intros]:
  "A d (dev s) \<Longrightarrow> sim (both A) (dir_walk_extend C c n s) (dir_walk_extend F c n (with_dev d s))"
  by (induction n arbitrary: c s d) (auto intro!: sim_intros simp: dev_simps Let_def)

lemma put_dir_entry_sim [sim_intros]:
  "A d (dev s) \<Longrightarrow> sim (both A) (put_dir_entry_in C sec off e s) (put_dir_entry_in F sec off e (with_dev d s))"
  unfolding put_dir_entry_in_def by (auto intro!: sim_intros simp: dev_simps Let_def)

lemma write_dir_entry_sim [sim_intros]:
  "A d (dev s) \<Longrightarrow> sim (both A) (fat12_write_dir_entry C dc i e s) (fat12_write_dir_entry F dc i e (with_dev d s))"
  unfolding fat12_write_dir_entry_def by (auto intro!: sim_intros simp: dev_simps Let_def)

lemma find_in_dir_sim [sim_intros]:
  "A d (dev s) \<Longrightarrow> sim (both A) (find_in_dir C nm ex dc i s) (find_in_dir F nm ex dc i (with_dev d s))"
proof (rule simI)
  fix x assume A: "A d (dev s)" and run: "find_in_dir C nm ex dc i s = Some x"
  obtain G where G: "G = C" by simp
  have "find_in_dir G nm ex dc i s = Some x" using run G by simp
  then show "\<exists>y. find_in_dir F nm ex dc i (with_dev d s) = Some y \<and> both A x y"
    using G A
  proof (induction G nm ex dc i s x arbitrary: d rule: find_in_dir.raw_induct [rotated, consumes 1, case_names step])
    case (step loop G nm ex dc i s x)
    then have IH: "A d (dev s) \<Longrightarrow> sim (both A) (loop C nm ex dc i s) (find_in_dir F nm ex dc i (with_dev d s))"
      for nm ex dc i s d by (auto simp: sim_def)
    show ?case
      by (rule simD [OF _ step(2) [unfolded step(3)]], subst find_in_dir.simps)
        (auto intro!: sim_intros IH simp: dev_simps Let_def step)
  qed
qed

lemma find_slot_sim [sim_intros]:
  "A d (dev s) \<Longrightarrow> sim (both A) (find_slot C dc i s) (find_slot F dc i (with_dev d s))"
proof (rule simI)
  fix x assume A: "A d (dev s)" and run: "find_slot C dc i s = Some x"
  obtain G where G: "G = C" by simp
  have "find_slot G dc i s = Some x" using run G by simp
  then show "\<exists>y. find_slot F dc i (with_dev d s) = Some y \<and> both A x y"
    using G A
  proof (induction G dc i s x arbitrary: d rule: find_slot.raw_induct [rotated, consumes 1, case_names step])
    case (step loop G dc i s x)
    then have IH: "A d (dev s) \<Longrightarrow> sim (both A) (loop C dc i s) (find_slot F dc i (with_dev d s))"
      for dc i s d by (auto simp: sim_def)
    show ?case
      by (rule simD [OF _ step(2) [unfolded step(3)]], subst find_slot.simps)
        (auto intro!: sim_intros IH simp: dev_simps Let_def step)
  qed
qed

lemma create_entry_sim [sim_intros]:
  "A d (dev s) \<Longrightarrow> sim (both A) (fat12_create_entry C dc nm ex at fc sz s) (fat12_create_entry F dc nm ex at fc sz (with_dev d s))"
  unfolding fat12_create_entry_def by (auto intro!: sim_intros simp: dev_simps Let_def)

section \<open>Paths\<close>

lemma find_entry_loop_sim [sim_intros]:
  "A d (dev s) \<Longrightarrow> sim (both A) (find_entry_loop C path cm off dc s) (find_entry_loop F path cm off dc (with_dev d s))"
proof (rule simI)
  fix x assume A: "A d (dev s)" and run: "find_entry_loop C path cm off dc s = Some x"
  obtain G where G: "G = C" by simp
  have "find_entry_loop G path cm off dc s = Some x" using run G by simp
  then show "\<exists>y. find_entry_loop F path cm off dc (with_dev d s) = Some y \<and> both A x y"
    using G A
  proof (induction G path cm off dc s x arbitrary: d rule: find_entry_loop.raw_induct [rotated, consumes 1, case_names step])
    case (step loop G path cm off dc s x)
    then have IH: "A d (dev s) \<Longrightarrow> sim (both A) (loop C path cm off dc s) (find_entry_loop F path cm off dc (with_dev d s))"
      for path cm off dc s d by (auto simp: sim_def)
    show ?case
      by (rule simD [OF _ step(2) [unfolded step(3)]], subst find_entry_loop.simps)
        (auto intro!: sim_intros IH simp: dev_simps Let_def step)
  qed
qed

lemma find_entry_sim [sim_intros]:
  "A d (dev s) \<Longrightarrow> sim (both A) (fat12_find_entry C path s) (fat12_find_entry F path (with_dev d s))"
  unfolding fat12_find_entry_def by (auto intro!: sim_intros simp: dev_simps Let_def)

lemma resolve_parent_loop_sim [sim_intros]:
  "A d (dev s) \<Longrightarrow> sim (both A) (resolve_parent_loop C path cm off dc s) (resolve_parent_loop F path cm off dc (with_dev d s))"
proof (rule simI)
  fix x assume A: "A d (dev s)" and run: "resolve_parent_loop C path cm off dc s = Some x"
  obtain G where G: "G = C" by simp
  have "resolve_parent_loop G path cm off dc s = Some x" using run G by simp
  then show "\<exists>y. resolve_parent_loop F path cm off dc (with_dev d s) = Some y \<and> both A x y"
    using G A
  proof (induction G path cm off dc s x arbitrary: d rule: resolve_parent_loop.raw_induct [rotated, consumes 1, case_names step])
    case (step loop G path cm off dc s x)
    then have IH: "A d (dev s) \<Longrightarrow> sim (both A) (loop C path cm off dc s) (resolve_parent_loop F path cm off dc (with_dev d s))"
      for path cm off dc s d by (auto simp: sim_def)
    show ?case
      by (rule simD [OF _ step(2) [unfolded step(3)]], subst resolve_parent_loop.simps)
        (auto intro!: sim_intros IH simp: dev_simps Let_def step)
  qed
qed

lemma resolve_parent_sim [sim_intros]:
  "A d (dev s) \<Longrightarrow> sim (both A) (fat12_resolve_parent C path s) (fat12_resolve_parent F path (with_dev d s))"
  unfolding fat12_resolve_parent_def by (auto intro!: sim_intros simp: dev_simps Let_def)

section \<open>Open files\<close>

lemma open_sim [sim_intros]:
  "A d (dev s) \<Longrightarrow> sim (both A) (fat12_open C fn s) (fat12_open F fn (with_dev d s))"
  unfolding fat12_open_def by (auto intro!: sim_intros simp: dev_simps Let_def)

lemma read_loop_sim [sim_intros]:
  "A d (dev s) \<Longrightarrow> sim (both A) (fat12_read_loop C i count dest n s) (fat12_read_loop F i count dest n (with_dev d s))"
proof (rule simI)
  fix x assume A: "A d (dev s)" and run: "fat12_read_loop C i count dest n s = Some x"
  obtain G where G: "G = C" by simp
  have "fat12_read_loop G i count dest n s = Some x" using run G by simp
  then show "\<exists>y. fat12_read_loop F i count dest n (with_dev d s) = Some y \<and> both A x y"
    using G A
  proof (induction G i count dest n s x arbitrary: d rule: fat12_read_loop.raw_induct [rotated, consumes 1, case_names step])
    case (step loop G i count dest n s x)
    then have IH: "A d (dev s) \<Longrightarrow> sim (both A) (loop C i count dest n s) (fat12_read_loop F i count dest n (with_dev d s))"
      for i count dest n s d by (auto simp: sim_def)
    show ?case
      by (rule simD [OF _ step(2) [unfolded step(3)]], subst fat12_read_loop.simps)
        (auto intro!: sim_intros IH simp: dev_simps Let_def step)
  qed
qed

lemma read_sim [sim_intros]:
  "A d (dev s) \<Longrightarrow> sim (both A) (fat12_read C n buf count s) (fat12_read F n buf count (with_dev d s))"
  unfolding fat12_read_def by (auto intro!: sim_intros simp: dev_simps Let_def)

lemma update_dir_entry_sim [sim_intros]:
  "A d (dev s) \<Longrightarrow> sim (follows A) (update_dir_entry C i upd s) (update_dir_entry F i upd (with_dev d s))"
  unfolding update_dir_entry_def by (auto intro!: sim_intros simp: dev_simps Let_def)

lemma ensure_first_cluster_sim [sim_intros]:
  "A d (dev s) \<Longrightarrow> sim (both A) (ensure_first_cluster C i s) (ensure_first_cluster F i (with_dev d s))"
  unfolding ensure_first_cluster_def by (auto intro!: sim_intros simp: dev_simps Let_def)

lemma write_walk_sim [sim_intros]:
  "A d (dev s) \<Longrightarrow> sim (both A) (write_walk C c n s) (write_walk F c n (with_dev d s))"
  by (induction n arbitrary: c s d) (auto intro!: sim_intros simp: dev_simps Let_def)

lemma advance_cursor_sim [sim_intros]:
  "A d (dev s) \<Longrightarrow> sim (follows A) (advance_cursor C i n s) (advance_cursor F i n (with_dev d s))"
  unfolding advance_cursor_def by (auto intro!: sim_intros simp: dev_simps Let_def)

lemma write_loop_sim [sim_intros]:
  "A d (dev s) \<Longrightarrow> sim (both A) (fat12_write_loop C i src n m s) (fat12_write_loop F i src n m (with_dev d s))"
proof (rule simI)
  fix x assume A: "A d (dev s)" and run: "fat12_write_loop C i src n m s = Some x"
  obtain G where G: "G = C" by simp
  have "fat12_write_loop G i src n m s = Some x" using run G by simp
  then show "\<exists>y. fat12_write_loop F i src n m (with_dev d s) = Some y \<and> both A x y"
    using G A
  proof (induction G i src n m s x arbitrary: d rule: fat12_write_loop.raw_induct [rotated, consumes 1, case_names step])
    case (step loop G i src n m s x)
    then have IH: "A d (dev s) \<Longrightarrow> sim (both A) (loop C i src n m s) (fat12_write_loop F i src n m (with_dev d s))"
      for i src n m s d by (auto simp: sim_def)
    show ?case
      by (rule simD [OF _ step(2) [unfolded step(3)]], subst fat12_write_loop.simps)
        (auto intro!: sim_intros IH simp: dev_simps Let_def step)
  qed
qed

lemma write_sim [sim_intros]:
  "A d (dev s) \<Longrightarrow> sim (both A) (fat12_write C n buf count s) (fat12_write F n buf count (with_dev d s))"
  unfolding fat12_write_def by (auto intro!: sim_intros simp: dev_simps Let_def)

lemma close_sim [sim_intros]:
  "A d (dev s) \<Longrightarrow> sim (both A) (fat12_close n s) (fat12_close n (with_dev d s))"
  unfolding fat12_close_def by (auto intro!: sim_intros simp: dev_simps)

section \<open>The tree\<close>

lemma rename_sim [sim_intros]:
  "A d (dev s) \<Longrightarrow> sim (both A) (fat12_rename C p q s) (fat12_rename F p q (with_dev d s))"
  unfolding fat12_rename_def by (auto intro!: sim_intros simp: dev_simps Let_def)

lemma init_dir_cluster_sim [sim_intros]:
  "A d (dev s) \<Longrightarrow> sim (follows A) (fat12_init_dir_cluster C c dc s) (fat12_init_dir_cluster F c dc (with_dev d s))"
  unfolding fat12_init_dir_cluster_def by (auto intro!: sim_intros simp: dev_simps Let_def)

lemma makedir_sim [sim_intros]:
  "A d (dev s) \<Longrightarrow> sim (both A) (fat12_makedir C p s) (fat12_makedir F p (with_dev d s))"
  unfolding fat12_makedir_def by (auto intro!: sim_intros simp: dev_simps Let_def)

lemma dir_empty_loop_sim [sim_intros]:
  "A d (dev s) \<Longrightarrow> sim (both A) (dir_empty_loop C dc i s) (dir_empty_loop F dc i (with_dev d s))"
proof (rule simI)
  fix x assume A: "A d (dev s)" and run: "dir_empty_loop C dc i s = Some x"
  obtain G where G: "G = C" by simp
  have "dir_empty_loop G dc i s = Some x" using run G by simp
  then show "\<exists>y. dir_empty_loop F dc i (with_dev d s) = Some y \<and> both A x y"
    using G A
  proof (induction G dc i s x arbitrary: d rule: dir_empty_loop.raw_induct [rotated, consumes 1, case_names step])
    case (step loop G dc i s x)
    then have IH: "A d (dev s) \<Longrightarrow> sim (both A) (loop C dc i s) (dir_empty_loop F dc i (with_dev d s))"
      for dc i s d by (auto simp: sim_def)
    show ?case
      by (rule simD [OF _ step(2) [unfolded step(3)]], subst dir_empty_loop.simps)
        (auto intro!: sim_intros IH simp: dev_simps Let_def step)
  qed
qed

lemma is_dir_empty_sim [sim_intros]:
  "A d (dev s) \<Longrightarrow> sim (both A) (fat12_is_dir_empty C dc s) (fat12_is_dir_empty F dc (with_dev d s))"
  unfolding fat12_is_dir_empty_def by (auto intro!: sim_intros simp: dev_simps Let_def)

lemma remove_entry_sim [sim_intros]:
  "A d (dev s) \<Longrightarrow> sim (both A) (remove_entry C e i dc s) (remove_entry F e i dc (with_dev d s))"
  unfolding remove_entry_def by (auto intro!: sim_intros simp: dev_simps Let_def)

lemma removedir_sim [sim_intros]:
  "A d (dev s) \<Longrightarrow> sim (both A) (fat12_removedir C p s) (fat12_removedir F p (with_dev d s))"
  unfolding fat12_removedir_def by (auto intro!: sim_intros simp: dev_simps Let_def)

lemma removefile_sim [sim_intros]:
  "A d (dev s) \<Longrightarrow> sim (both A) (fat12_removefile C p s) (fat12_removefile F p (with_dev d s))"
  unfolding fat12_removefile_def by (auto intro!: sim_intros simp: dev_simps Let_def)

lemma list_dir_loop_sim [sim_intros]:
  "A d (dev s) \<Longrightarrow> sim (both A) (list_dir_loop C dc count i n cs s) (list_dir_loop F dc count i n cs (with_dev d s))"
proof (rule simI)
  fix x assume A: "A d (dev s)" and run: "list_dir_loop C dc count i n cs s = Some x"
  obtain G where G: "G = C" by simp
  have "list_dir_loop G dc count i n cs s = Some x" using run G by simp
  then show "\<exists>y. list_dir_loop F dc count i n cs (with_dev d s) = Some y \<and> both A x y"
    using G A
  proof (induction G dc count i n cs s x arbitrary: d rule: list_dir_loop.raw_induct [rotated, consumes 1, case_names step])
    case (step loop G dc count i n cs s x)
    then have IH: "A d (dev s) \<Longrightarrow> sim (both A) (loop C dc count i n cs s) (list_dir_loop F dc count i n cs (with_dev d s))"
      for dc count i n cs s d by (auto simp: sim_def)
    show ?case
      by (rule simD [OF _ step(2) [unfolded step(3)]], subst list_dir_loop.simps)
        (auto intro!: sim_intros IH simp: dev_simps Let_def store_filename_def step)
  qed
qed

lemma listcontent_sim [sim_intros]:
  "A d (dev s) \<Longrightarrow> sim (both A) (fat12_listcontent C p cs count s) (fat12_listcontent F p cs count (with_dev d s))"
  unfolding fat12_listcontent_def by (auto intro!: sim_intros simp: dev_simps Let_def store_filename_def)

lemma detect_sim [sim_intros]:
  "A d (dev s) \<Longrightarrow> sim (both A) (detect_fat12 C drv s) (detect_fat12 F drv (with_dev d s))"
  unfolding detect_fat12_def by (auto intro!: sim_intros simp: dev_simps Let_def)

end

section \<open>Drivers that store sectors\<close>

text \<open>
  The specification of a driver for the sectors \<open>reach\<close>: on them it works on an image, and an
  access outside them or with a buffer that is not one sector is not specified.
\<close>

definition checked_floppy :: "(u32 \<Rightarrow> bool) \<Rightarrow> image floppy_ops" where
  "checked_floppy reach = \<lparr>
     floppy_init = (\<lambda>im. Some (0, im)),
     floppy_read_sector = (\<lambda>lba buf im.
       if reach lba \<and> length buf = 512 then Some ((0, im lba), im) else None),
     floppy_write_sector = (\<lambda>lba buf im.
       if reach lba \<and> length buf = 512 then Some (0, im(lba := buf)) else None)\<rparr>"

text \<open>The ideal driver is one such driver, for any set of sectors.\<close>

interpretation ideal: driver_refinement "checked_floppy reach" ideal_floppy "\<lambda>d c. d = c" for reach
  by unfold_locales (auto simp: sim_def checked_floppy_def ideal_floppy_def)

definition driver_shows :: "('d \<Rightarrow> bool) \<Rightarrow> ('d \<Rightarrow> image) \<Rightarrow> (u32 \<Rightarrow> bool) \<Rightarrow> 'd \<Rightarrow> image \<Rightarrow> bool" where
  "driver_shows ready img reach d im \<longleftrightarrow> ready d \<and> (\<forall>l. reach l \<longrightarrow> img d l = im l)"

locale sector_driver =
  fixes F :: "'d floppy_ops" and ready :: "'d \<Rightarrow> bool" and img :: "'d \<Rightarrow> image" and reach :: "u32 \<Rightarrow> bool"
  assumes read_law: "ready d \<Longrightarrow> reach lba \<Longrightarrow> length buf = 512 \<Longrightarrow>
      \<exists>d'. floppy_read_sector F lba buf d = Some ((0, img d lba), d') \<and> ready d' \<and> (\<forall>l. reach l \<longrightarrow> img d' l = img d l)"
    and write_law: "ready d \<Longrightarrow> reach lba \<Longrightarrow> length buf = 512 \<Longrightarrow>
      \<exists>d'. floppy_write_sector F lba buf d = Some (0, d') \<and> ready d'
        \<and> (\<forall>l. reach l \<longrightarrow> img d' l = (if l = lba then buf else img d l))"

sublocale sector_driver \<subseteq> stored: driver_refinement "checked_floppy reach" F "driver_shows ready img reach"
proof
  fix d c lba buf assume d: "driver_shows ready img reach d c"
  show "sim (\<lambda>(r, c) (r', d). r' = r \<and> driver_shows ready img reach d c)
      (floppy_read_sector (checked_floppy reach) lba buf c) (floppy_read_sector F lba buf d)"
    using d read_law [of d lba buf] by (fastforce simp: sim_def checked_floppy_def driver_shows_def)
  show "sim (\<lambda>(r, c) (r', d). r' = r \<and> driver_shows ready img reach d c)
      (floppy_write_sector (checked_floppy reach) lba buf c) (floppy_write_sector F lba buf d)"
    using d write_law [of d lba buf] by (fastforce simp: sim_def checked_floppy_def driver_shows_def)
qed

section \<open>Sessions\<close>

text \<open>The calls of the file system layer into \<open>fat12.c\<close>, one after the other, with their results.\<close>

datatype fs_call =
    Open_file bytes
  | Close_file int
  | Read_file int bytes u32
  | Write_file int bytes u32
  | Rename_path bytes bytes
  | Make_dir bytes
  | Remove_dir bytes
  | Remove_file bytes
  | List_dir bytes "contents list" nat

datatype fs_result = Status int | Bytes_read int bytes | Listing int "contents list"

definition giving :: "('a \<Rightarrow> 'b) \<Rightarrow> ('a \<times> 's) option \<Rightarrow> ('b \<times> 's) option" where
  "giving f m = Option.bind m (\<lambda>(r, s). Some (f r, s))"

fun run_call :: "'d floppy_ops \<Rightarrow> fs_call \<Rightarrow> 'd fat12_state \<Rightarrow> (fs_result \<times> 'd fat12_state) option" where
  "run_call F (Open_file fn) s = giving Status (fat12_open F fn s)"
| "run_call F (Close_file n) s = giving Status (fat12_close n s)"
| "run_call F (Read_file n buf count) s = giving (\<lambda>(r, b). Bytes_read r b) (fat12_read F n buf count s)"
| "run_call F (Write_file n buf count) s = giving Status (fat12_write F n buf count s)"
| "run_call F (Rename_path p q) s = giving Status (fat12_rename F p q s)"
| "run_call F (Make_dir p) s = giving Status (fat12_makedir F p s)"
| "run_call F (Remove_dir p) s = giving Status (fat12_removedir F p s)"
| "run_call F (Remove_file p) s = giving Status (fat12_removefile F p s)"
| "run_call F (List_dir p cs count) s = giving (\<lambda>(r, c). Listing r c) (fat12_listcontent F p cs count s)"

fun run_calls :: "'d floppy_ops \<Rightarrow> fs_call list \<Rightarrow> 'd fat12_state \<Rightarrow> (fs_result list \<times> 'd fat12_state) option" where
  "run_calls F [] s = Some ([], s)"
| "run_calls F (c # cs) s = do {
     (r, s) \<leftarrow> run_call F c s;
     (rs, s) \<leftarrow> run_calls F cs s;
     Some (r # rs, s)
   }"

context driver_refinement
begin

lemma run_call_sim [sim_intros]:
  "A d (dev s) \<Longrightarrow> sim (both A) (run_call C c s) (run_call F c (with_dev d s))"
  by (cases c) (auto intro!: sim_intros simp: giving_def)

lemma run_calls_sim:
  "A d (dev s) \<Longrightarrow> sim (both A) (run_calls C cs s) (run_calls F cs (with_dev d s))"
  by (induction cs arbitrary: s d) (auto intro!: sim_intros)

end

lemma checked_run_ideal:
  assumes "run_calls (checked_floppy reach) cs s = Some (rs, s')"
  shows "run_calls ideal_floppy cs s = Some (rs, s')"
proof -
  have "\<exists>y. run_calls ideal_floppy cs (with_dev (dev s) s) = Some y \<and> both (\<lambda>d c. d = c) (rs, s') y"
    by (rule simD [OF ideal.run_calls_sim assms]) simp
  then show ?thesis by (auto simp: follows_def)
qed

text \<open>
  A session that stays on the sectors of a driver gives the results that it gives on the ideal
  drive, and leaves the files that it leaves there.
\<close>

context sector_driver
begin

lemma session_on_driver:
  assumes "driver_shows ready img reach d (dev s)" and "run_calls (checked_floppy reach) cs s \<noteq> None"
    and "run_calls ideal_floppy cs s = Some (rs, s')"
  shows "\<exists>d'. run_calls F cs (with_dev d s) = Some (rs, with_dev d' s') \<and> driver_shows ready img reach d' (dev s')"
proof -
  obtain x where x: "run_calls (checked_floppy reach) cs s = Some x" using assms(2) by auto
  then have "x = (rs, s')" using checked_run_ideal [of reach cs s] assms(3) by (cases x) simp
  then show ?thesis
    using simD [OF stored.run_calls_sim [OF assms(1)] x] by (auto simp: follows_def)
qed

end

end
