(* ===== verification/Interrupts.thy ===== *)
theory Interrupts
  imports Console Fat12_Layout
begin

text \<open>
  The descriptor tables and interrupts of the i386 build, \<open>i386/gdt.c\<close> and \<open>i386/idt.c\<close>, and the
  timer \<open>i386/timer.c\<close>. The processor and the devices are a parameter \<open>'h machine\<close>: port accesses,
  an interrupt that may come before an access to a variable that an interrupt handler shares, the
  \<open>hlt\<close> instruction, and the memory of the DMA buffer. The addresses of the assembly
  entries and of the tables are a parameter too. \<open>None\<close> is a call that never returns.
\<close>

section \<open>The machine\<close>

text \<open>The registers an interrupt entry hands to \<open>common_handler\<close>, \<open>struct regs\<close>.\<close>

record regs =
  r_ds :: u32
  r_edi :: u32
  r_esi :: u32
  r_ebp :: u32
  r_esp :: u32
  r_ebx :: u32
  r_edx :: u32
  r_ecx :: u32
  r_eax :: u32
  int_no :: u32
  err_code :: u32
  eip :: u32
  r_cs :: u32
  r_eflags :: u32
  r_useresp :: u32
  r_ss :: u32

record 'h machine =
  m_ports :: "'h port_ops"
  m_poll :: "'h \<Rightarrow> regs option \<times> 'h"
  m_hlt :: "'h \<Rightarrow> (regs \<times> 'h) option"
  m_load_dma :: "'h \<Rightarrow> bytes"
  m_store_dma :: "bytes \<Rightarrow> 'h \<Rightarrow> 'h"

record symbols =
  sym_isr :: "nat \<Rightarrow> u32"
  sym_irq :: "nat \<Rightarrow> u32"
  sym_syscall_handler :: u32
  sym_idt :: u32
  sym_gdt :: u32
  sym_dma_buffer :: u32

section \<open>The state\<close>

record idt_entry =
  ie_base_low :: u16
  ie_sel :: u16
  ie_always0 :: u8
  ie_flags :: u8
  ie_base_high :: u16

record gdt_entry =
  ge_limit_low :: u16
  ge_base_low :: u16
  ge_base_middle :: u8
  ge_access :: u8
  ge_granularity :: u8
  ge_base_high :: u8

text \<open>The operand of \<open>lidt\<close> and \<open>lgdt\<close>: limit and base.\<close>

record table_ptr =
  tp_limit :: u16
  tp_base :: u32

text \<open>The functions that the kernel installs as interrupt handlers.\<close>

datatype irq_handler = Timer_callback | Fdc_irq_handler

record 'h driver =
  idt :: "idt_entry list"
  idtp :: table_ptr
  gdt :: "gdt_entry list"
  gp :: table_ptr
  handlers :: "irq_handler option list"
  timer_ticks :: u32
  timer_frequency :: u32
  fdc_irq_fired :: bool
  dlog :: "kmsg list"
  mach :: 'h

definition in_port :: "'h machine \<Rightarrow> u16 \<Rightarrow> 'h driver \<Rightarrow> u8 \<times> 'h driver" where
  "in_port M p d = (let (b, h) = p_inb (m_ports M) p (mach d) in (b, d\<lparr>mach := h\<rparr>))"

definition out_port :: "'h machine \<Rightarrow> u16 \<Rightarrow> u8 \<Rightarrow> 'h driver \<Rightarrow> 'h driver" where
  "out_port M p b d = d\<lparr>mach := p_outb (m_ports M) p b (mach d)\<rparr>"

definition port_delay :: "'h machine \<Rightarrow> 'h driver \<Rightarrow> 'h driver" where
  "port_delay M d = d\<lparr>mach := io_wait (m_ports M) (mach d)\<rparr>"

definition dprintf :: "kmsg \<Rightarrow> 'h driver \<Rightarrow> 'h driver" where
  "dprintf m d = d\<lparr>dlog := dlog d @ [m]\<rparr>"

section \<open>The global descriptor table\<close>

definition gdt_entry_of :: "u32 \<Rightarrow> u32 \<Rightarrow> u8 \<Rightarrow> u8 \<Rightarrow> gdt_entry" where
  "gdt_entry_of base limit access gran = \<lparr>
     ge_limit_low = ucast (limit AND 0xFFFF),
     ge_base_low = ucast (base AND 0xFFFF),
     ge_base_middle = ucast (drop_bit 16 base AND 0xFF),
     ge_access = access,
     ge_granularity = ucast (drop_bit 16 limit AND 0x0F) OR (gran AND 0xF0),
     ge_base_high = ucast (drop_bit 24 base AND 0xFF)\<rparr>"

definition gdt_set_gate :: "nat \<Rightarrow> u32 \<Rightarrow> u32 \<Rightarrow> u8 \<Rightarrow> u8 \<Rightarrow> 'h driver \<Rightarrow> 'h driver" where
  "gdt_set_gate num base limit access gran d =
     d\<lparr>gdt := (gdt d)[num := gdt_entry_of base limit access gran]\<rparr>"

definition gdt_init :: "symbols \<Rightarrow> 'h driver \<Rightarrow> 'h driver" where
  "gdt_init syms d =
     (let d = d\<lparr>gp := \<lparr>tp_limit = 8 * 3 - 1, tp_base = sym_gdt syms\<rparr>\<rparr>;
          d = gdt_set_gate 0 0 0 0 0 d;
          d = gdt_set_gate 1 0 0xFFFFFFFF 0x9A 0xCF d
      in gdt_set_gate 2 0 0xFFFFFFFF 0x92 0xCF d)"

section \<open>The interrupt descriptor table\<close>

definition idt_entry_of :: "u32 \<Rightarrow> u16 \<Rightarrow> u8 \<Rightarrow> idt_entry" where
  "idt_entry_of base sel flags = \<lparr>
     ie_base_low = ucast (base AND 0xFFFF),
     ie_sel = sel,
     ie_always0 = 0,
     ie_flags = flags,
     ie_base_high = ucast (drop_bit 16 base AND 0xFFFF)\<rparr>"

definition idt_set_gate :: "nat \<Rightarrow> u32 \<Rightarrow> u16 \<Rightarrow> u8 \<Rightarrow> 'h driver \<Rightarrow> 'h driver" where
  "idt_set_gate num base sel flags d = d\<lparr>idt := (idt d)[num := idt_entry_of base sel flags]\<rparr>"

definition pic_remap :: "'h machine \<Rightarrow> 'h driver \<Rightarrow> 'h driver" where
  "pic_remap M d =
     fold (\<lambda>(p, b) d. port_delay M (out_port M p b d))
       [(0x20, 0x11), (0xA0, 0x11),
        (0x21, 0x20), (0xA1, 0x28),
        (0x21, 0x04), (0xA1, 0x02),
        (0x21, 0x01), (0xA1, 0x01),
        (0x21, 0x00), (0xA1, 0x00)] d"

definition idt_init :: "'h machine \<Rightarrow> symbols \<Rightarrow> 'h driver \<Rightarrow> 'h driver" where
  "idt_init M syms d =
     (let d = d\<lparr>idtp := \<lparr>tp_limit = 8 * 256 - 1, tp_base = sym_idt syms\<rparr>\<rparr>;
          d = fold (\<lambda>i d. (idt_set_gate i 0 0 0 d)\<lparr>handlers := (handlers d)[i := None]\<rparr>) [0..<256] d;
          d = pic_remap M d;
          d = fold (\<lambda>i. idt_set_gate i (sym_isr syms i) 0x08 0x8E) [0..<32] d;
          d = fold (\<lambda>i. idt_set_gate (32 + i) (sym_irq syms i) 0x08 0x8E) [0..<16] d
      in idt_set_gate 128 (sym_syscall_handler syms) 0x08 0xEF d)"

text \<open>The array of handlers has 256 elements; a store outside it is undefined.\<close>

definition idt_register_handler :: "int \<Rightarrow> irq_handler \<Rightarrow> 'h driver \<Rightarrow> 'h driver option" where
  "idt_register_handler num handler d =
     (if 0 \<le> num \<and> num < 256 then Some (d\<lparr>handlers := (handlers d)[nat num := Some handler]\<rparr>) else None)"

definition irq_install_handler :: "int \<Rightarrow> irq_handler \<Rightarrow> 'h driver \<Rightarrow> 'h driver option" where
  "irq_install_handler irq handler d =
     (if 0 \<le> 32 + irq \<and> 32 + irq < 256
      then Some (d\<lparr>handlers := (handlers d)[nat (32 + irq) := Some handler]\<rparr>) else None)"

definition irq_uninstall_handler :: "int \<Rightarrow> 'h driver \<Rightarrow> 'h driver option" where
  "irq_uninstall_handler irq d =
     (if 0 \<le> 32 + irq \<and> 32 + irq < 256
      then Some (d\<lparr>handlers := (handlers d)[nat (32 + irq) := None]\<rparr>) else None)"

definition exception_messages :: "string list" where
  "exception_messages = [
     ''Division By Zero'',
     ''Debug'',
     ''Non Maskable Interrupt'',
     ''Breakpoint'',
     ''Into Detected Overflow'',
     ''Out of Bounds'',
     ''Invalid Opcode'',
     ''No Coprocessor'',
     ''Double Fault'',
     ''Coprocessor Segment Overrun'',
     ''Bad TSS'',
     ''Segment Not Present'',
     ''Stack Fault'',
     ''General Protection Fault'',
     ''Page Fault'',
     ''Unknown Interrupt'',
     ''Coprocessor Fault'',
     ''Alignment Check'',
     ''Machine Check''] @ replicate 13 ''Reserved''"

section \<open>Handlers\<close>

definition timer_callback :: "regs \<Rightarrow> 'h driver \<Rightarrow> 'h driver" where
  "timer_callback r d = d\<lparr>timer_ticks := timer_ticks d + 1\<rparr>"

definition fdc_irq_handler :: "regs \<Rightarrow> 'h driver \<Rightarrow> 'h driver" where
  "fdc_irq_handler r d = d\<lparr>fdc_irq_fired := True\<rparr>"

definition call_handler :: "irq_handler \<Rightarrow> regs \<Rightarrow> 'h driver \<Rightarrow> 'h driver" where
  "call_handler f r d =
     (case f of Timer_callback \<Rightarrow> timer_callback r d | Fdc_irq_handler \<Rightarrow> fdc_irq_handler r d)"

text \<open>An exception panics, and \<open>panic\<close> never returns.\<close>

definition common_handler :: "'h machine \<Rightarrow> regs \<Rightarrow> 'h driver \<Rightarrow> 'h driver option" where
  "common_handler M r d =
     (if int_no r < 32 then None
      else if int_no r \<ge> 32 \<and> int_no r < 48 then
        let d = (case handlers d ! unat (int_no r) of None \<Rightarrow> d | Some handler \<Rightarrow> call_handler handler r d);
            d = (if int_no r \<ge> 40 then out_port M 0xA0 0x20 d else d)
        in Some (out_port M 0x20 0x20 d)
      else Some d)"

text \<open>An interrupt may come before an access to a shared variable, and one ends a \<open>hlt\<close>.\<close>

definition take_interrupt :: "'h machine \<Rightarrow> 'h driver \<Rightarrow> 'h driver option" where
  "take_interrupt M d =
     (case m_poll M (mach d) of
        (None, h) \<Rightarrow> Some (d\<lparr>mach := h\<rparr>)
      | (Some r, h) \<Rightarrow> common_handler M r (d\<lparr>mach := h\<rparr>))"

definition hlt :: "'h machine \<Rightarrow> 'h driver \<Rightarrow> 'h driver option" where
  "hlt M d =
     (case m_hlt M (mach d) of
        None \<Rightarrow> None
      | Some (r, h) \<Rightarrow> common_handler M r (d\<lparr>mach := h\<rparr>))"

section \<open>The timer\<close>

definition timer_init :: "'h machine \<Rightarrow> u32 \<Rightarrow> 'h driver \<Rightarrow> 'h driver option" where
  "timer_init M frequency d = do {
     let d = d\<lparr>timer_frequency := frequency\<rparr>;
     d \<leftarrow> irq_install_handler 0 Timer_callback d;
     (if frequency = 0 then None
      else do {
        let divisor = 1193182 div frequency;
        let d = out_port M 0x43 0x36 d;
        let d = out_port M 0x40 (ucast (divisor AND 0xFF)) d;
        Some (out_port M 0x40 (ucast (drop_bit 8 divisor AND 0xFF)) d)
      })
   }"

definition timer_get_ticks :: "'h machine \<Rightarrow> 'h driver \<Rightarrow> (u32 \<times> 'h driver) option" where
  "timer_get_ticks M d = do {
     d \<leftarrow> take_interrupt M d;
     Some (timer_ticks d, d)
   }"

partial_function (option) sleep_loop ::
    "'h machine \<Rightarrow> u32 \<Rightarrow> u32 \<Rightarrow> 'h driver \<Rightarrow> 'h driver option" where
  "sleep_loop M start ms d = do {
     (now, d) \<leftarrow> timer_get_ticks M d;
     (if now - start < ms then do {
        d \<leftarrow> hlt M d;
        sleep_loop M start ms d
      } else Some d)
   }"

definition sleep_ms :: "'h machine \<Rightarrow> u32 \<Rightarrow> 'h driver \<Rightarrow> 'h driver option" where
  "sleep_ms M ms d = do {
     (start, d) \<leftarrow> timer_get_ticks M d;
     sleep_loop M start ms d
   }"

section \<open>What the tables hold\<close>

text \<open>The address and the limit a descriptor stands for.\<close>

definition gate_base :: "idt_entry \<Rightarrow> u32" where
  "gate_base e = ucast (ie_base_low e) OR push_bit 16 (ucast (ie_base_high e))"

definition segment_base :: "gdt_entry \<Rightarrow> u32" where
  "segment_base e = ucast (ge_base_low e) OR push_bit 16 (ucast (ge_base_middle e))
     OR push_bit 24 (ucast (ge_base_high e))"

definition segment_limit :: "gdt_entry \<Rightarrow> u32" where
  "segment_limit e = ucast (ge_limit_low e) OR push_bit 16 (ucast (ge_granularity e AND 0x0F))"

lemma masks_u32: "(0xFFFF :: u32) = mask 16" "(0xFF :: u32) = mask 8" "(0x0F :: u32) = mask 4"
  by (simp_all add: mask_eq_exp_minus_1)

lemma masks_u8: "(0x0F :: u8) = mask 4" "(0xF0 :: u8) = push_bit 4 (mask 4)"
  by (simp_all add: mask_eq_exp_minus_1)

lemma gate_base_of [simp]: "gate_base (idt_entry_of base sel flags) = base"
  unfolding gate_base_def idt_entry_of_def masks_u32
  by (rule bit_word_eqI) (auto simp: bit_simps)

lemma segment_base_of [simp]: "segment_base (gdt_entry_of base limit access gran) = base"
  unfolding segment_base_def gdt_entry_of_def masks_u32
proof (rule bit_word_eqI)
  fix n assume "n < LENGTH(32)"
  then consider "n < 16" | "16 \<le> n \<and> n < 24" | "24 \<le> n \<and> n < 32" by fastforce
  then show "bit (ucast (ge_base_low \<lparr>ge_limit_low = ucast (limit AND mask 16),
        ge_base_low = ucast (base AND mask 16), ge_base_middle = ucast (drop_bit 16 base AND mask 8),
        ge_access = access, ge_granularity = ucast (drop_bit 16 limit AND mask 4) OR gran AND 0xF0,
        ge_base_high = ucast (drop_bit 24 base AND mask 8)\<rparr>)
      OR push_bit 16 (ucast (ge_base_middle \<lparr>ge_limit_low = ucast (limit AND mask 16),
        ge_base_low = ucast (base AND mask 16), ge_base_middle = ucast (drop_bit 16 base AND mask 8),
        ge_access = access, ge_granularity = ucast (drop_bit 16 limit AND mask 4) OR gran AND 0xF0,
        ge_base_high = ucast (drop_bit 24 base AND mask 8)\<rparr>))
      OR push_bit 24 (ucast (ge_base_high \<lparr>ge_limit_low = ucast (limit AND mask 16),
        ge_base_low = ucast (base AND mask 16), ge_base_middle = ucast (drop_bit 16 base AND mask 8),
        ge_access = access, ge_granularity = ucast (drop_bit 16 limit AND mask 4) OR gran AND 0xF0,
        ge_base_high = ucast (drop_bit 24 base AND mask 8)\<rparr>)) :: u32) n = bit base n"
    by cases (auto simp: bit_simps)
qed

text \<open>A limit has 20 bits.\<close>

lemma segment_limit_of [simp]: "segment_limit (gdt_entry_of base limit access gran) = limit AND 0xFFFFF"
proof -
  have m: "(0xFFFFF :: u32) = mask 20" by (simp add: mask_eq_exp_minus_1)
  show ?thesis
    unfolding segment_limit_def gdt_entry_of_def masks_u32 m masks_u8
    by (rule bit_word_eqI) (auto simp: bit_simps)
qed

lemma fold_set_gates:
  assumes "length (idt d) = 256" and "b + n \<le> 256"
  shows "fold (\<lambda>i. idt_set_gate (b + i) (f i) sel flags) [0..<n] d =
    d\<lparr>idt := map (\<lambda>j. if b \<le> j \<and> j < b + n then idt_entry_of (f (j - b)) sel flags else idt d ! j) [0..<256]\<rparr>"
  using assms(2)
proof (induction n)
  case 0
  have "map (\<lambda>j. if b \<le> j \<and> j < b + 0 then idt_entry_of (f (j - b)) sel flags else idt d ! j) [0..<256] = idt d"
    by (rule nth_equalityI) (use assms(1) in auto)
  then show ?case by (simp only: upt_0 fold_simps id_apply) simp
next
  case (Suc n)
  have "(map (\<lambda>j. if b \<le> j \<and> j < b + n then idt_entry_of (f (j - b)) sel flags else idt d ! j) [0..<256])
      [b + n := idt_entry_of (f n) sel flags] =
    map (\<lambda>j. if b \<le> j \<and> j < b + Suc n then idt_entry_of (f (j - b)) sel flags else idt d ! j) [0..<256]"
    using Suc.prems by (intro nth_equalityI) (auto simp: nth_list_update less_Suc_eq)
  with Suc show ?case by (simp add: idt_set_gate_def)
qed

text \<open>After \<open>idt_init\<close> the table has the 48 interrupt gates and the system call gate.\<close>

definition expected_gate :: "symbols \<Rightarrow> nat \<Rightarrow> idt_entry" where
  "expected_gate syms n =
     (if n < 32 then idt_entry_of (sym_isr syms n) 0x08 0x8E
      else if n < 48 then idt_entry_of (sym_irq syms (n - 32)) 0x08 0x8E
      else if n = 128 then idt_entry_of (sym_syscall_handler syms) 0x08 0xEF
      else idt_entry_of 0 0 0)"

lemma fold_clear_gates:
  assumes "length (idt d) = 256" and "length (handlers d) = 256" and "n \<le> 256"
  shows "fold (\<lambda>i d. (idt_set_gate i 0 0 0 d)\<lparr>handlers := (handlers d)[i := None]\<rparr>) [0..<n] d =
    d\<lparr>idt := replicate n (idt_entry_of 0 0 0) @ drop n (idt d), handlers := replicate n None @ drop n (handlers d)\<rparr>"
  using assms(3)
proof (induction n)
  case (Suc n)
  have upd: "(replicate n x @ drop n xs)[n := x] = replicate (Suc n) x @ drop (Suc n) xs"
    if "n < length xs" for x and xs :: "'z list"
    using that by (simp add: list_update_append upd_conv_take_nth_drop replicate_append_same [symmetric])
  show ?case
    using Suc assms(1,2) upd [of "idt d"] upd [of "handlers d"] by (simp add: idt_set_gate_def)
qed simp

lemma pic_remap_fields [simp]:
  "idt (pic_remap M d) = idt d" "handlers (pic_remap M d) = handlers d"
  "idtp (pic_remap M d) = idtp d" "timer_ticks (pic_remap M d) = timer_ticks d"
  "gdt (pic_remap M d) = gdt d" "gp (pic_remap M d) = gp d"
  by (simp_all add: pic_remap_def out_port_def port_delay_def)

lemma idt_init_effect:
  assumes "length (idt d) = 256" and "length (handlers d) = 256"
  shows "idt (idt_init M syms d) = map (expected_gate syms) [0..<256]"
    and "handlers (idt_init M syms d) = replicate 256 None"
    and "idtp (idt_init M syms d) = \<lparr>tp_limit = 2047, tp_base = sym_idt syms\<rparr>"
    and "gdt (idt_init M syms d) = gdt d" and "gp (idt_init M syms d) = gp d"
    and "mach (idt_init M syms d) = mach (pic_remap M d)"
proof -
  let ?d1 = "d\<lparr>idtp := \<lparr>tp_limit = 8 * 256 - 1, tp_base = sym_idt syms\<rparr>\<rparr>"
  let ?d2 = "?d1\<lparr>idt := replicate 256 (idt_entry_of 0 0 0), handlers := replicate 256 None\<rparr>"
  let ?d3 = "pic_remap M ?d2"
  let ?f = "\<lambda>j. if j < 32 then idt_entry_of (sym_isr syms j) 0x08 0x8E else idt_entry_of 0 0 0"
  let ?d4 = "?d3\<lparr>idt := map ?f [0..<256]\<rparr>"
  let ?h = "\<lambda>j. if 32 \<le> j \<and> j < 48 then idt_entry_of (sym_irq syms (j - 32)) 0x08 0x8E else ?f j"
  have one: "fold (\<lambda>i d. (idt_set_gate i 0 0 0 d)\<lparr>handlers := (handlers d)[i := None]\<rparr>) [0..<256] ?d1 = ?d2"
    using fold_clear_gates [of ?d1 256] assms by simp
  have two: "fold (\<lambda>i. idt_set_gate i (sym_isr syms i) 0x08 0x8E) [0..<32] ?d3 = ?d4"
    using fold_set_gates [of ?d3 0 32 "sym_isr syms"] by (simp cong: if_cong)
  have three: "fold (\<lambda>i. idt_set_gate (32 + i) (sym_irq syms i) 0x08 0x8E) [0..<16] ?d4 =
      ?d4\<lparr>idt := map ?h [0..<256]\<rparr>"
    using fold_set_gates [of ?d4 32 16 "sym_irq syms"] by (simp cong: if_cong)
  have all: "idt_init M syms d = idt_set_gate 128 (sym_syscall_handler syms) 0x08 0xEF (?d4\<lparr>idt := map ?h [0..<256]\<rparr>)"
    unfolding idt_init_def Let_def one two three ..
  show "idt (idt_init M syms d) = map (expected_gate syms) [0..<256]"
    unfolding all by (rule nth_equalityI) (auto simp: idt_set_gate_def nth_list_update expected_gate_def)
  show "handlers (idt_init M syms d) = replicate 256 None"
    "idtp (idt_init M syms d) = \<lparr>tp_limit = 2047, tp_base = sym_idt syms\<rparr>"
    "gdt (idt_init M syms d) = gdt d" "gp (idt_init M syms d) = gp d"
    "mach (idt_init M syms d) = mach (pic_remap M d)"
    unfolding all by (simp_all add: idt_set_gate_def pic_remap_def out_port_def port_delay_def)
qed

text \<open>After \<open>gdt_init\<close> the table has the null segment and flat code and data segments of 4 GB.\<close>

lemma gdt_init_effect:
  assumes "length (gdt d) = 3"
  shows "gdt (gdt_init syms d) = [gdt_entry_of 0 0 0 0, gdt_entry_of 0 0xFFFFFFFF 0x9A 0xCF,
      gdt_entry_of 0 0xFFFFFFFF 0x92 0xCF]"
    and "gp (gdt_init syms d) = \<lparr>tp_limit = 23, tp_base = sym_gdt syms\<rparr>"
    and "idt (gdt_init syms d) = idt d" and "handlers (gdt_init syms d) = handlers d"
    and "mach (gdt_init syms d) = mach d"
proof -
  obtain a b c where "gdt d = [a, b, c]" using assms by (auto simp: numeral_3_eq_3 length_Suc_conv)
  then show "gdt (gdt_init syms d) = [gdt_entry_of 0 0 0 0, gdt_entry_of 0 0xFFFFFFFF 0x9A 0xCF,
      gdt_entry_of 0 0xFFFFFFFF 0x92 0xCF]"
    by (simp add: gdt_init_def gdt_set_gate_def Let_def)
qed (simp_all add: gdt_init_def gdt_set_gate_def Let_def)

end
