(* ===== verification/Timer.thy ===== *)
theory Timer
  imports Interrupts
begin

text \<open>
  The waiting loops that depend on interrupts: \<open>sleep_ms\<close> of \<open>i386/timer.c\<close>. They end on a machine
  on which the timer interrupt keeps coming, a hypothesis about the devices: a measure of the
  hardware state bounds the other interrupts before the next timer interrupt.
\<close>

section \<open>One interrupt\<close>

text \<open>The registers at the entry of an interrupt taken in kernel code.\<close>

definition irq_regs :: "u32 \<Rightarrow> regs" where
  "irq_regs n = \<lparr>r_ds = 0x10, r_edi = 0, r_esi = 0, r_ebp = 0, r_esp = 0, r_ebx = 0, r_edx = 0, r_ecx = 0,
     r_eax = 0, int_no = n, err_code = 0, eip = 0, r_cs = 0x08, r_eflags = 0x202, r_useresp = 0, r_ss = 0\<rparr>"

lemma int_no_irq_regs [simp]: "int_no (irq_regs n) = n"
  by (simp add: irq_regs_def)

text \<open>What an interrupt other than an exception does to the state of the kernel.\<close>

definition after_interrupt :: "regs \<Rightarrow> 'h driver \<Rightarrow> 'h driver \<Rightarrow> bool" where
  "after_interrupt r d d' \<longleftrightarrow>
     idt d' = idt d \<and> idtp d' = idtp d \<and> gdt d' = gdt d \<and> gp d' = gp d \<and> handlers d' = handlers d
     \<and> timer_frequency d' = timer_frequency d \<and> dlog d' = dlog d
     \<and> (if int_no r < 48 \<and> handlers d ! unat (int_no r) = Some Timer_callback
        then timer_ticks d' = timer_ticks d + 1 else timer_ticks d' = timer_ticks d)
     \<and> (if int_no r < 48 \<and> handlers d ! unat (int_no r) = Some Fdc_irq_handler
        then fdc_irq_fired d' else fdc_irq_fired d' = fdc_irq_fired d)"

text \<open>The ends of interrupt that the controllers get.\<close>

definition send_eoi :: "'h machine \<Rightarrow> u32 \<Rightarrow> 'h \<Rightarrow> 'h" where
  "send_eoi M n h =
     (if n < 40 then p_outb (m_ports M) 0x20 0x20 h
      else if n < 48 then p_outb (m_ports M) 0x20 0x20 (p_outb (m_ports M) 0xA0 0x20 h)
      else h)"

lemma common_handler_irq:
  assumes "32 \<le> int_no r"
  shows "\<exists>d'. common_handler M r d = Some d' \<and> after_interrupt r d d'
    \<and> mach d' = send_eoi M (int_no r) (mach d)"
  using assms
  by (auto simp: common_handler_def after_interrupt_def send_eoi_def out_port_def call_handler_def
      timer_callback_def fdc_irq_handler_def Let_def word_less_nat_alt word_le_nat_alt split: option.split irq_handler.split)

lemma common_handler_exception: "int_no r < 32 \<Longrightarrow> common_handler M r d = None"
  by (simp add: common_handler_def)

section \<open>A machine whose clock ticks\<close>

text \<open>
  \<open>\<mu>\<close> bounds the interrupts before the next timer interrupt. No exception is raised, an end of
  interrupt brings no further one, and a \<open>hlt\<close> is always ended by an interrupt.
\<close>

definition steady_clock :: "'h machine \<Rightarrow> ('h \<Rightarrow> nat) \<Rightarrow> bool" where
  "steady_clock M \<mu> \<longleftrightarrow>
     (\<forall>h. \<mu> (snd (m_poll M h)) \<le> \<mu> h \<and> (\<forall>r. fst (m_poll M h) = Some r \<longrightarrow> 32 \<le> int_no r))
     \<and> (\<forall>h. \<exists>r h'. m_hlt M h = Some (r, h') \<and> 32 \<le> int_no r \<and> (int_no r = 32 \<or> \<mu> h' < \<mu> h))
     \<and> (\<forall>n h. \<mu> (send_eoi M n h) \<le> \<mu> h)"

text \<open>The state after some interrupts: only the clock and the flag of the floppy controller differ.\<close>

definition same_tables :: "'h driver \<Rightarrow> 'h driver \<Rightarrow> bool" where
  "same_tables d d' \<longleftrightarrow> idt d' = idt d \<and> handlers d' = handlers d \<and> dlog d' = dlog d"

lemma same_tables_refl [simp]: "same_tables d d"
  by (simp add: same_tables_def)

lemma same_tables_trans: "same_tables d e \<Longrightarrow> same_tables e f \<Longrightarrow> same_tables d f"
  by (simp add: same_tables_def)

lemma send_eoi_measure: "steady_clock M \<mu> \<Longrightarrow> \<mu> (send_eoi M n h) \<le> \<mu> h"
  by (simp add: steady_clock_def)

lemma take_interrupt_steady:
  assumes "steady_clock M \<mu>"
  obtains d' where "take_interrupt M d = Some d'" and "same_tables d d'" and "\<mu> (mach d') \<le> \<mu> (mach d)"
    and "timer_ticks d' = timer_ticks d \<or> timer_ticks d' = timer_ticks d + 1"
    and "fdc_irq_fired d \<Longrightarrow> fdc_irq_fired d'"
proof (cases "m_poll M (mach d)")
  case (Pair a h)
  have h: "\<mu> h \<le> \<mu> (mach d)" and vec: "\<And>r. a = Some r \<Longrightarrow> 32 \<le> int_no r"
    using assms Pair unfolding steady_clock_def by (metis fst_conv snd_conv)+
  show thesis
  proof (cases a)
    case None
    then show thesis using Pair h by (intro that [of "d\<lparr>mach := h\<rparr>"]) (simp_all add: take_interrupt_def same_tables_def)
  next
    case (Some r)
    obtain d' where d': "common_handler M r (d\<lparr>mach := h\<rparr>) = Some d'" "after_interrupt r (d\<lparr>mach := h\<rparr>) d'"
      "mach d' = send_eoi M (int_no r) h"
      using common_handler_irq [OF vec [OF Some], of M "d\<lparr>mach := h\<rparr>"] by auto
    have "\<mu> (mach d') \<le> \<mu> (mach d)" using send_eoi_measure [OF assms, of "int_no r" h] h d'(3) by simp
    then show thesis
      using d' Pair Some
      by (intro that [of d']) (auto simp: take_interrupt_def same_tables_def after_interrupt_def split: if_splits)
  qed
qed

lemma hlt_steady:
  assumes "steady_clock M \<mu>" and "handlers d ! 32 = Some Timer_callback"
  obtains d' where "hlt M d = Some d'" and "same_tables d d'"
    and "timer_ticks d' = timer_ticks d + 1 \<or> timer_ticks d' = timer_ticks d \<and> \<mu> (mach d') < \<mu> (mach d)"
    and "fdc_irq_fired d \<Longrightarrow> fdc_irq_fired d'"
proof -
  obtain r h where r: "m_hlt M (mach d) = Some (r, h)" "32 \<le> int_no r" "int_no r = 32 \<or> \<mu> h < \<mu> (mach d)"
    using assms(1) unfolding steady_clock_def by blast
  obtain d' where d': "common_handler M r (d\<lparr>mach := h\<rparr>) = Some d'" "after_interrupt r (d\<lparr>mach := h\<rparr>) d'"
    "mach d' = send_eoi M (int_no r) h"
    using common_handler_irq [OF r(2), of M "d\<lparr>mach := h\<rparr>"] by auto
  have "\<mu> (mach d') \<le> \<mu> h" using send_eoi_measure [OF assms(1)] d'(3) by simp
  then have "timer_ticks d' = timer_ticks d + 1 \<or> timer_ticks d' = timer_ticks d \<and> \<mu> (mach d') < \<mu> (mach d)"
    using r(3) d'(2) assms(2) by (auto simp: after_interrupt_def split: if_splits)
  then show thesis
    using d' r(1) by (intro that [of d']) (auto simp: hlt_def same_tables_def after_interrupt_def split: if_splits)
qed

section \<open>Sleeping\<close>

lemma unat_tick:
  assumes "unat (t - start :: u32) < 4294967295"
  shows "unat (t + 1 - start) = Suc (unat (t - start))"
proof -
  have eq: "t + 1 - start = (t - start) + 1" by simp
  show ?thesis unfolding eq using assms unat_add_u32 [of "t - start" 1] by simp
qed

lemma sleep_loop_ends:
  assumes "steady_clock M \<mu>" and "unat ms < 4294967294"
  shows "handlers d ! 32 = Some Timer_callback \<Longrightarrow> unat (timer_ticks d - start) \<le> unat ms \<Longrightarrow>
    \<exists>d'. sleep_loop M start ms d = Some d' \<and> same_tables d d' \<and> ms \<le> timer_ticks d' - start"
proof (induction "(unat ms - unat (timer_ticks d - start), \<mu> (mach d))" arbitrary: d
    rule: wf_induct_rule [OF wf_lex_prod [OF wf_less_than wf_less_than], case_names less])
  case less
  obtain e where e: "take_interrupt M d = Some e" "same_tables d e" "\<mu> (mach e) \<le> \<mu> (mach d)"
    "timer_ticks e = timer_ticks d \<or> timer_ticks e = timer_ticks d + 1"
    by (rule take_interrupt_steady [OF assms(1)])
  have now: "timer_get_ticks M d = Some (timer_ticks e, e)" using e(1) by (simp add: timer_get_ticks_def)
  have hand: "handlers e ! 32 = Some Timer_callback" using less.prems(1) e(2) by (simp add: same_tables_def)
  have le: "unat (timer_ticks d - start) \<le> unat (timer_ticks e - start)"
    using e(4) unat_tick [of "timer_ticks d" start] less.prems(2) assms(2) by auto
  show ?case
  proof (cases "timer_ticks e - start < ms")
    case False
    then have "sleep_loop M start ms d = Some e" using now by (subst sleep_loop.simps) simp
    with False e(2) show ?thesis by (auto simp: not_less)
  next
    case True
    then have lt: "unat (timer_ticks e - start) < unat ms" by (simp add: word_less_nat_alt)
    obtain f where f: "hlt M e = Some f" "same_tables e f"
      "timer_ticks f = timer_ticks e + 1 \<or> timer_ticks f = timer_ticks e \<and> \<mu> (mach f) < \<mu> (mach e)"
      by (rule hlt_steady [OF assms(1) hand])
    have tick: "unat (timer_ticks e + 1 - start) = Suc (unat (timer_ticks e - start))"
      using lt assms(2) by (intro unat_tick) linarith
    have "\<exists>d'. sleep_loop M start ms f = Some d' \<and> same_tables f d' \<and> ms \<le> timer_ticks d' - start"
    proof (rule less.hyps)
      show "((unat ms - unat (timer_ticks f - start), \<mu> (mach f)),
          unat ms - unat (timer_ticks d - start), \<mu> (mach d)) \<in> less_than <*lex*> less_than"
        using f(3) tick lt le e(3) by auto
      show "handlers f ! 32 = Some Timer_callback" using hand f(2) by (simp add: same_tables_def)
      show "unat (timer_ticks f - start) \<le> unat ms" using f(3) tick lt by auto
    qed
    then show ?thesis
      using now True f(1) e(2) f(2) by (subst sleep_loop.simps) (auto dest: same_tables_trans)
  qed
qed

lemma sleep_ms_ends:
  assumes "steady_clock M \<mu>" and "handlers d ! 32 = Some Timer_callback" and "unat ms < 4294967294"
  shows "\<exists>d' start. sleep_ms M ms d = Some d' \<and> same_tables d d'
    \<and> (start = timer_ticks d \<or> start = timer_ticks d + 1) \<and> ms \<le> timer_ticks d' - start"
proof -
  obtain e where e: "take_interrupt M d = Some e" "same_tables d e"
    "timer_ticks e = timer_ticks d \<or> timer_ticks e = timer_ticks d + 1"
    by (rule take_interrupt_steady [OF assms(1)])
  have "handlers e ! 32 = Some Timer_callback" using assms(2) e(2) by (simp add: same_tables_def)
  then obtain d' where "sleep_loop M (timer_ticks e) ms e = Some d'" "same_tables e d'"
    "ms \<le> timer_ticks d' - timer_ticks e"
    using sleep_loop_ends [OF assms(1,3), of e "timer_ticks e"] by auto
  then show ?thesis
    using e by (auto simp: sleep_ms_def timer_get_ticks_def dest: same_tables_trans)
qed

end
