(* ===== verification/Floppy.thy ===== *)
theory Floppy
  imports Timer
begin

text \<open>
  The floppy controller, \<open>i386/floppy.c\<close>, and the programming of its DMA channel, \<open>i386/dma.c\<close>.
  The buffer of the channel is memory that the devices write: it belongs to the machine. The
  three entry points are an instance of the \<open>floppy_ops\<close> of the drive layer.
\<close>

section \<open>The DMA channel\<close>

definition DMA_MODE_READ :: u8 where "DMA_MODE_READ = 0x46"
definition DMA_MODE_WRITE :: u8 where "DMA_MODE_WRITE = 0x4A"

text \<open>Port writes one after the other.\<close>

definition out_ports :: "'h machine \<Rightarrow> (u16 \<times> u8) list \<Rightarrow> 'h driver \<Rightarrow> 'h driver" where
  "out_ports M pbs d = fold (\<lambda>(p, b). out_port M p b) pbs d"

definition dma_program :: "u32 \<Rightarrow> u32 \<Rightarrow> u8 \<Rightarrow> (u16 \<times> u8) list" where
  "dma_program phys_addr count mode = [
     (0x0A, 0x04 OR 2),
     (0x0C, 0x00),
     (0x04, ucast (phys_addr AND 0xFF)),
     (0x04, ucast (drop_bit 8 phys_addr AND 0xFF)),
     (0x0C, 0x00),
     (0x05, ucast (count AND 0xFF)),
     (0x05, ucast (drop_bit 8 count AND 0xFF)),
     (0x81, ucast (drop_bit 16 phys_addr AND 0xFF)),
     (0x0B, mode),
     (0x0A, 0x00 OR 2)]"

definition floppy_dma_init ::
    "'h machine \<Rightarrow> u32 \<Rightarrow> u32 \<Rightarrow> u8 \<Rightarrow> 'h driver \<Rightarrow> 'h driver option" where
  "floppy_dma_init M buffer len mode d =
     (let phys_addr = buffer; count = len - 1 in
      if phys_addr + len > 0xFFFFFF then None
      else if drop_bit 16 phys_addr \<noteq> drop_bit 16 (phys_addr + count) then None
      else Some (out_ports M (dma_program phys_addr count mode) d))"

section \<open>The controller\<close>

definition FDC_DOR :: u16 where "FDC_DOR = 0x3F2"
definition FDC_MSR :: u16 where "FDC_MSR = 0x3F4"
definition FDC_FIFO :: u16 where "FDC_FIFO = 0x3F5"
definition FDC_CCR :: u16 where "FDC_CCR = 0x3F7"

definition READ_WRITE_TIMEOUT :: nat where
  "READ_WRITE_TIMEOUT = 100000"

text \<open>The loop of \<open>wait_for_fdc_irq\<close>; the flag and the clock are read with a possible interrupt.\<close>

partial_function (option) fdc_irq_loop ::
    "'h machine \<Rightarrow> u32 \<Rightarrow> u32 \<Rightarrow> 'h driver \<Rightarrow> (int \<times> 'h driver) option" where
  "fdc_irq_loop M start timeout_ms d = do {
     d \<leftarrow> take_interrupt M d;
     (if \<not> fdc_irq_fired d then do {
        (now, d) \<leftarrow> timer_get_ticks M d;
        (if now - start > timeout_ms then Some (-1, d)
         else do {
           d \<leftarrow> hlt M d;
           fdc_irq_loop M start timeout_ms d
         })
      } else do {
        d \<leftarrow> take_interrupt M d;
        Some (0, d\<lparr>fdc_irq_fired := False\<rparr>)
      })
   }"

definition wait_for_fdc_irq :: "'h machine \<Rightarrow> u32 \<Rightarrow> 'h driver \<Rightarrow> (int \<times> 'h driver) option" where
  "wait_for_fdc_irq M timeout_ms d = do {
     (start, d) \<leftarrow> timer_get_ticks M d;
     fdc_irq_loop M start timeout_ms d
   }"

text \<open>
  The polling loop of both transfers: the status bits are compared with \<open>want\<close>, and the result is
  the rest of \<open>timeout\<close>, which starts positive.
\<close>

fun fdc_poll :: "'h machine \<Rightarrow> u8 \<Rightarrow> nat \<Rightarrow> 'h driver \<Rightarrow> nat \<times> 'h driver" where
  "fdc_poll M want 0 d = (0, d)"
| "fdc_poll M want (Suc timeout) d =
     (let (b, d) = in_port M FDC_MSR d in
      if b AND 0xC0 \<noteq> want then
        if timeout > 0 then fdc_poll M want timeout (port_delay M d) else (0, d)
      else (Suc timeout, d))"

definition fdc_write :: "'h machine \<Rightarrow> u8 \<Rightarrow> 'h driver \<Rightarrow> 'h driver" where
  "fdc_write M val d =
     (let (timeout, d) = fdc_poll M 0x80 READ_WRITE_TIMEOUT d;
          d = (if timeout = 0 then dprintf (Kmsg ''FDC: write timeout!\<newline>'' [] []) d else d)
      in out_port M FDC_FIFO val d)"

definition fdc_read :: "'h machine \<Rightarrow> 'h driver \<Rightarrow> u8 \<times> 'h driver" where
  "fdc_read M d =
     (let (timeout, d) = fdc_poll M 0xC0 READ_WRITE_TIMEOUT d;
          d = (if timeout = 0 then dprintf (Kmsg ''FDC: read timeout!\<newline>'' [] []) d else d)
      in in_port M FDC_FIFO d)"

text \<open>Several bytes, one after the other.\<close>

definition fdc_write_all :: "'h machine \<Rightarrow> bytes \<Rightarrow> 'h driver \<Rightarrow> 'h driver" where
  "fdc_write_all M bs d = fold (fdc_write M) bs d"

fun fdc_read_all :: "'h machine \<Rightarrow> nat \<Rightarrow> 'h driver \<Rightarrow> bytes \<times> 'h driver" where
  "fdc_read_all M 0 d = ([], d)"
| "fdc_read_all M (Suc n) d =
     (let (b, d) = fdc_read M d; (bs, d) = fdc_read_all M n d in (b # bs, d))"

text \<open>The result is \<open>st0\<close> and \<open>cyl\<close>.\<close>

definition fdc_sense_interrupt :: "'h machine \<Rightarrow> 'h driver \<Rightarrow> (u8 \<times> u8) \<times> 'h driver" where
  "fdc_sense_interrupt M d =
     (let d = fdc_write M 0x08 d;
          (st0, d) = fdc_read M d;
          (cyl, d) = fdc_read M d
      in ((st0, cyl), d))"

definition fdc_reset :: "'h machine \<Rightarrow> 'h driver \<Rightarrow> 'h driver option" where
  "fdc_reset M d = do {
     d \<leftarrow> take_interrupt M d;
     let d = d\<lparr>fdc_irq_fired := False\<rparr>;
     let d = out_port M FDC_DOR 0x00 d;
     d \<leftarrow> sleep_ms M 10 d;
     let d = out_port M FDC_DOR 0x0C d;
     (_, d) \<leftarrow> wait_for_fdc_irq M 2000 d;
     let d = fold (\<lambda>i d. snd (fdc_sense_interrupt M d)) [0..<4] d;
     let d = out_port M FDC_CCR 0x00 d;
     Some (fdc_write_all M [0x03, 0xDF, 0x02] d)
   }"

text \<open>The drive number is 0 in every call.\<close>

definition fdc_motor :: "'h machine \<Rightarrow> u8 \<Rightarrow> bool \<Rightarrow> 'h driver \<Rightarrow> 'h driver option" where
  "fdc_motor M drv on d =
     (if on then
        let dor_val = ucast ((0x0C :: u32) OR push_bit (unat drv + 4) 1 OR ucast drv);
            d = out_port M FDC_DOR dor_val d
        in sleep_ms M 300 d
      else Some (out_port M FDC_DOR 0x0C d))"

definition fdc_recalibrate :: "'h machine \<Rightarrow> u8 \<Rightarrow> 'h driver \<Rightarrow> (int \<times> 'h driver) option" where
  "fdc_recalibrate M drv d = do {
     d \<leftarrow> fdc_motor M drv True d;
     let d = fdc_write_all M [0x07, drv] d;
     (r, d) \<leftarrow> wait_for_fdc_irq M 2000 d;
     (if r < 0 then do {
        d \<leftarrow> fdc_motor M drv False d;
        Some (-1, d)
      } else do {
        let ((st0, cyl), d) = fdc_sense_interrupt M d;
        d \<leftarrow> fdc_motor M drv False d;
        (if cyl \<noteq> 0 then Some (-2, d) else Some (0, d))
      })
   }"

definition fdc_seek :: "'h machine \<Rightarrow> u8 \<Rightarrow> u8 \<Rightarrow> u8 \<Rightarrow> 'h driver \<Rightarrow> (int \<times> 'h driver) option" where
  "fdc_seek M drv cylinder head d = do {
     d \<leftarrow> fdc_motor M drv True d;
     let d = fdc_write_all M [0x0F, push_bit 2 head OR drv, cylinder] d;
     (r, d) \<leftarrow> wait_for_fdc_irq M 2000 d;
     (if r < 0 then do {
        d \<leftarrow> fdc_motor M drv False d;
        Some (-1, d)
      } else do {
        let ((st0, cyl), d) = fdc_sense_interrupt M d;
        d \<leftarrow> fdc_motor M drv False d;
        (if cyl \<noteq> cylinder then Some (-2, d) else Some (0, d))
      })
   }"

definition fdc_transfer ::
    "'h machine \<Rightarrow> symbols \<Rightarrow> u8 \<Rightarrow> u8 \<Rightarrow> u8 \<Rightarrow> u8 \<Rightarrow> bool \<Rightarrow> 'h driver \<Rightarrow> (int \<times> 'h driver) option" where
  "fdc_transfer M syms drv cylinder head sector is_write d = do {
     let dma_mode = (if is_write then DMA_MODE_READ else DMA_MODE_WRITE);
     d \<leftarrow> floppy_dma_init M (sym_dma_buffer syms) 512 dma_mode d;
     d \<leftarrow> fdc_motor M drv True d;
     (r, d) \<leftarrow> fdc_seek M drv cylinder head d;
     (if r < 0 then do {
        d \<leftarrow> fdc_motor M drv False d;
        Some (-1, d)
      } else do {
        let d = fdc_write_all M
          [if is_write then 0x45 else 0x46, push_bit 2 head OR drv, cylinder, head, sector, 2, 18, 0x1B, 0xFF] d;
        (r, d) \<leftarrow> wait_for_fdc_irq M 2000 d;
        (if r < 0 then do {
           d \<leftarrow> fdc_motor M drv False d;
           Some (-2, d)
         } else do {
           let (st, d) = fdc_read_all M 7 d;
           d \<leftarrow> fdc_motor M drv False d;
           (if st ! 0 AND 0xC0 \<noteq> 0x00
            then Some (-3, dprintf (Kmsg ''FDC error: ST0=0x%02X ST1=0x%02X ST2=0x%02X\<newline>''
              [uint (st ! 0), uint (st ! 1), uint (st ! 2)] []) d)
            else Some (0, d))
         })
      })
   }"

section \<open>Sectors\<close>

text \<open>Cylinder, head and sector of a block, each in a byte.\<close>

definition chs_of_lba :: "u32 \<Rightarrow> u8 \<times> u8 \<times> u8" where
  "chs_of_lba lba = (ucast (lba div 36), ucast ((lba div 18) mod 2), ucast ((lba mod 18) + 1))"

text \<open>The three attempts of a read; a buffer that is too short is overrun.\<close>

fun read_attempts ::
    "'h machine \<Rightarrow> symbols \<Rightarrow> u8 \<Rightarrow> u8 \<Rightarrow> u8 \<Rightarrow> nat \<Rightarrow> bytes \<Rightarrow> 'h driver
      \<Rightarrow> ((int \<times> bytes) \<times> 'h driver) option" where
  "read_attempts M syms cyl head sec 0 out_buf d = Some ((-1, out_buf), d)"
| "read_attempts M syms cyl head sec (Suc n) out_buf d = do {
     (res, d) \<leftarrow> fdc_transfer M syms 0 cyl head sec False d;
     (if res = 0 then
        if length out_buf < 512 then None
        else Some ((0, put_bytes out_buf 0 (take 512 (m_load_dma M (mach d)))), d)
      else do {
        d \<leftarrow> fdc_reset M d;
        read_attempts M syms cyl head sec n out_buf d
      })
   }"

fun write_attempts ::
    "'h machine \<Rightarrow> symbols \<Rightarrow> u8 \<Rightarrow> u8 \<Rightarrow> u8 \<Rightarrow> nat \<Rightarrow> 'h driver \<Rightarrow> (int \<times> 'h driver) option" where
  "write_attempts M syms cyl head sec 0 d = Some (-1, d)"
| "write_attempts M syms cyl head sec (Suc n) d = do {
     (res, d) \<leftarrow> fdc_transfer M syms 0 cyl head sec True d;
     (if res = 0 then Some (0, d)
      else do {
        d \<leftarrow> fdc_reset M d;
        write_attempts M syms cyl head sec n d
      })
   }"

definition fdc_read_sector ::
    "'h machine \<Rightarrow> symbols \<Rightarrow> u32 \<Rightarrow> bytes \<Rightarrow> 'h driver \<Rightarrow> ((int \<times> bytes) \<times> 'h driver) option" where
  "fdc_read_sector M syms lba out_buf d =
     (let (cyl, head, sec) = chs_of_lba lba in read_attempts M syms cyl head sec 3 out_buf d)"

definition fdc_write_sector ::
    "'h machine \<Rightarrow> symbols \<Rightarrow> u32 \<Rightarrow> bytes \<Rightarrow> 'h driver \<Rightarrow> (int \<times> 'h driver) option" where
  "fdc_write_sector M syms lba in_buf d =
     (let (cyl, head, sec) = chs_of_lba lba in
      if length in_buf < 512 then None
      else write_attempts M syms cyl head sec 3 (d\<lparr>mach := m_store_dma M (take 512 in_buf) (mach d)\<rparr>))"

definition fdc_init :: "'h machine \<Rightarrow> 'h driver \<Rightarrow> (int \<times> 'h driver) option" where
  "fdc_init M d = do {
     d \<leftarrow> irq_install_handler 6 Fdc_irq_handler d;
     d \<leftarrow> fdc_reset M d;
     (r, d) \<leftarrow> fdc_recalibrate M 0 d;
     (if r < 0 then Some (-1, dprintf (Kmsg ''Floppy: calibration failed for drive fdrive1\<newline>'' [] []) d)
      else Some (0, dprintf (Kmsg ''Floppy: drive fdrive1 initialized.\<newline>'' [] []) d))
   }"

text \<open>The driver behind \<open>fdrive1\<close>.\<close>

definition floppy_driver :: "'h machine \<Rightarrow> symbols \<Rightarrow> 'h driver floppy_ops" where
  "floppy_driver M syms = \<lparr>
     floppy_init = fdc_init M,
     floppy_read_sector = fdc_read_sector M syms,
     floppy_write_sector = fdc_write_sector M syms\<rparr>"

section \<open>Cylinder, head and sector\<close>

lemma chs_of_lba_parts:
  assumes "chs_of_lba lba = (cyl, head, sec)"
  shows "unat cyl = unat lba div 36 mod 256" and "unat head = unat lba div 18 mod 2"
    and "unat sec = unat lba mod 18 + 1"
proof -
  have "unat (lba mod 18) < 18" by (simp add: unat_mod)
  then have s: "unat (lba mod 18 + 1) = unat lba mod 18 + 1"
    by (subst unat_add_u32) (simp_all add: unat_mod)
  show "unat cyl = unat lba div 36 mod 256" "unat head = unat lba div 18 mod 2"
    using assms by (auto simp: chs_of_lba_def unsigned_ucast_eq take_bit_eq_mod unat_div unat_mod)
  have "sec = ucast (lba mod 18 + 1)" using assms by (simp add: chs_of_lba_def)
  then have "unat sec = unat (lba mod 18 + 1) mod 256" by (simp add: unsigned_ucast_eq take_bit_eq_mod)
  moreover have "unat lba mod 18 + 1 < 256" using mod_less_divisor [of 18 "unat lba"] by simp
  ultimately show "unat sec = unat lba mod 18 + 1" unfolding s by simp
qed

text \<open>
  The three bytes are the block number in mixed radix, modulo 256 cylinders: a block behind them is
  a block before them.
\<close>

lemma chs_of_lba_block:
  assumes "chs_of_lba lba = (cyl, head, sec)"
  shows "(unat cyl * 2 + unat head) * 18 + (unat sec - 1) = unat lba mod 9216"
    and "unat head < 2" and "1 \<le> unat sec" and "unat sec \<le> 18"
proof -
  note p = chs_of_lba_parts [OF assms]
  have "unat lba mod 9216 = 36 * (unat lba div 36 mod 256) + unat lba mod 36"
    using mod_mult2_eq [of "unat lba" 36 256] by simp
  moreover have "unat lba mod 36 = 18 * (unat lba div 18 mod 2) + unat lba mod 18"
    using mod_mult2_eq [of "unat lba" 18 2] by simp
  ultimately show "(unat cyl * 2 + unat head) * 18 + (unat sec - 1) = unat lba mod 9216"
    using p by simp
  show "unat head < 2" "1 \<le> unat sec" using p(2,3) by simp_all
  show "unat sec \<le> 18" using p(3) mod_less_divisor [of 18 "unat lba"] by simp
qed

lemma chs_of_lba_eq_iff: "chs_of_lba l = chs_of_lba l' \<longleftrightarrow> unat l mod 9216 = unat l' mod 9216"
proof -
  obtain c h s where a: "chs_of_lba l = (c, h, s)" by (cases "chs_of_lba l")
  obtain c' h' s' where b: "chs_of_lba l' = (c', h', s')" by (cases "chs_of_lba l'")
  note x = chs_of_lba_block [OF a] and y = chs_of_lba_block [OF b]
  show ?thesis
  proof
    assume "chs_of_lba l = chs_of_lba l'"
    then show "unat l mod 9216 = unat l' mod 9216" using x(1) y(1) a b by simp
  next
    assume eq: "unat l mod 9216 = unat l' mod 9216"
    have uniq: "p = p' \<and> q = q'"
      if "p * m + q = p' * m + q'" "q < m" "q' < m" for p q p' q' m :: nat
      using that by (metis div_mult_self3 div_less mod_less mod_mult_self3 add.commute add_0 gr_implies_not0)
    have "unat c * 2 + unat h = unat c' * 2 + unat h' \<and> unat s - 1 = unat s' - 1"
      by (rule uniq [of _ 18]) (use eq x y in simp_all)
    moreover from this have "unat c = unat c' \<and> unat h = unat h'"
      by (intro uniq [of _ 2]) (use x(2) y(2) in simp_all)
    moreover have "unat s = unat s'" using calculation(1) x(3) y(3) by linarith
    ultimately show "chs_of_lba l = chs_of_lba l'" using a b by (simp add: word_unat_eq_iff)
  qed
qed

section \<open>Programming the DMA channel\<close>

text \<open>
  Channel 2 of the controller as its data sheet describes it: the address and the count are
  written byte by byte, the first byte after the flip-flop is cleared is the low one.
\<close>

record dma_channel =
  ch_high :: bool
  ch_addr :: u16
  ch_count :: u16
  ch_page :: u8
  ch_mode :: u8
  ch_masked :: bool

definition set_half :: "bool \<Rightarrow> u8 \<Rightarrow> u16 \<Rightarrow> u16" where
  "set_half high b w =
     (if high then (w AND 0x00FF) OR push_bit 8 (ucast b) else (w AND 0xFF00) OR ucast b)"

definition dma_out :: "u16 \<Rightarrow> u8 \<Rightarrow> dma_channel \<Rightarrow> dma_channel" where
  "dma_out p b c =
     (if p = 0x0A then if b AND 3 = 2 then c\<lparr>ch_masked := bit b 2\<rparr> else c
      else if p = 0x0B then if b AND 3 = 2 then c\<lparr>ch_mode := b\<rparr> else c
      else if p = 0x0C then c\<lparr>ch_high := False\<rparr>
      else if p = 0x04 then c\<lparr>ch_addr := set_half (ch_high c) b (ch_addr c), ch_high := \<not> ch_high c\<rparr>
      else if p = 0x05 then c\<lparr>ch_count := set_half (ch_high c) b (ch_count c), ch_high := \<not> ch_high c\<rparr>
      else if p = 0x81 then c\<lparr>ch_page := b\<rparr>
      else c)"

lemma set_halves:
  "set_half True (ucast (drop_bit 8 (w :: u32) AND 0xFF)) (set_half False (ucast (w AND 0xFF)) x) = ucast w"
proof -
  have m: "(0x00FF :: u16) = mask 8" "(0xFF00 :: u16) = push_bit 8 (mask 8)"
    by (simp_all add: mask_eq_exp_minus_1)
  show ?thesis
    unfolding set_half_def masks_u32 if_True if_False m
    by (rule bit_word_eqI) (auto simp: bit_simps)
qed

lemma mach_out_ports: "mach (out_ports M pbs d) = fold (\<lambda>(p, b). p_outb (m_ports M) p b) pbs (mach d)"
  unfolding out_ports_def
  by (induction pbs arbitrary: d) (auto simp: out_port_def)

lemma fold_dma_program:
  assumes "mode AND 3 = 2"
  shows "fold (\<lambda>(p, b). dma_out p b) (dma_program buffer count mode) c =
    \<lparr>ch_high = False, ch_addr = ucast buffer, ch_count = ucast count,
      ch_page = ucast (drop_bit 16 buffer), ch_mode = mode, ch_masked = False\<rparr>"
proof -
  have page: "(ucast (drop_bit 16 buffer AND 0xFF) :: u8) = ucast (drop_bit 16 buffer)"
    unfolding masks_u32 by (rule bit_word_eqI) (auto simp: bit_simps)
  show ?thesis
    using assms page by (cases c) (simp add: dma_program_def dma_out_def set_halves)
qed

end
