(* ===== verification/Floppy_Live.thy ===== *)
theory Floppy_Live
  imports Floppy
begin

text \<open>
  The floppy driver never hangs: while the clock of the machine ticks, every entry point of
  \<open>i386/floppy.c\<close> returns, whatever the controller answers. Every wait is bounded by the clock or
  by a counter, and a sector is tried three times.
\<close>

section \<open>The polling loops\<close>

text \<open>The handlers, the clock and the flag do not change while a port is accessed.\<close>

definition same_kernel :: "'h driver \<Rightarrow> 'h driver \<Rightarrow> bool" where
  "same_kernel d d' \<longleftrightarrow> handlers d' = handlers d \<and> idt d' = idt d"

lemma same_kernel_refl [simp]: "same_kernel d d"
  by (simp add: same_kernel_def)

lemma same_kernel_trans: "same_kernel d e \<Longrightarrow> same_kernel e f \<Longrightarrow> same_kernel d f"
  by (simp add: same_kernel_def)

lemma same_tables_kernel: "same_tables d d' \<Longrightarrow> same_kernel d d'"
  by (simp add: same_tables_def same_kernel_def)

named_theorems kernel_simps \<open>port accesses keep the kernel's tables\<close>

lemma same_kernel_out [kernel_simps]: "same_kernel d (out_port M p b e) = same_kernel d e"
  by (simp add: same_kernel_def out_port_def)

lemma same_kernel_out_ports [kernel_simps]: "same_kernel d (out_ports M pbs e) = same_kernel d e"
  unfolding out_ports_def by (induction pbs arbitrary: e) (simp_all add: split_beta kernel_simps)

lemma same_kernel_delay [kernel_simps]: "same_kernel d (port_delay M e) = same_kernel d e"
  by (simp add: same_kernel_def port_delay_def)

lemma same_kernel_log [kernel_simps]: "same_kernel d (dprintf m e) = same_kernel d e"
  by (simp add: same_kernel_def dprintf_def)

lemma same_kernel_in [kernel_simps]: "same_kernel d (snd (in_port M p e)) = same_kernel d e"
  by (simp add: same_kernel_def in_port_def split_beta)

lemma same_kernel_poll [kernel_simps]: "same_kernel d (snd (fdc_poll M want n e)) = same_kernel d e"
proof (induction n arbitrary: e)
  case (Suc n)
  then show ?case
    using same_kernel_in [of d M FDC_MSR e] by (simp add: split_beta kernel_simps)
qed simp

lemma same_kernel_write [kernel_simps]: "same_kernel d (fdc_write M b e) = same_kernel d e"
  by (simp add: fdc_write_def split_beta kernel_simps)

lemma same_kernel_read [kernel_simps]: "same_kernel d (snd (fdc_read M e)) = same_kernel d e"
  by (simp add: fdc_read_def split_beta kernel_simps)

lemma same_kernel_write_all [kernel_simps]: "same_kernel d (fdc_write_all M bs e) = same_kernel d e"
  unfolding fdc_write_all_def by (induction bs arbitrary: e) (simp_all add: kernel_simps)

lemma same_kernel_read_all [kernel_simps]: "same_kernel d (snd (fdc_read_all M n e)) = same_kernel d e"
proof (induction n arbitrary: e)
  case (Suc n)
  then show ?case by (simp add: split_beta kernel_simps)
qed simp

lemma length_fdc_read_all [simp]: "length (fst (fdc_read_all M n d)) = n"
  by (induction n arbitrary: d) (simp_all add: split_beta)

lemma same_kernel_sense [kernel_simps]:
  "same_kernel d (snd (fdc_sense_interrupt M e)) = same_kernel d e"
  by (simp add: fdc_sense_interrupt_def Let_def split_beta kernel_simps)

section \<open>Waiting for the controller\<close>

lemma timer_get_ticks_steady:
  assumes "steady_clock M \<mu>"
  obtains e where "timer_get_ticks M d = Some (timer_ticks e, e)" and "same_tables d e"
    and "\<mu> (mach e) \<le> \<mu> (mach d)" and "timer_ticks e = timer_ticks d \<or> timer_ticks e = timer_ticks d + 1"
proof (rule take_interrupt_steady [OF assms, of d])
  fix e assume "take_interrupt M d = Some e" "same_tables d e" "\<mu> (mach e) \<le> \<mu> (mach d)"
    "timer_ticks e = timer_ticks d \<or> timer_ticks e = timer_ticks d + 1"
  then show thesis by (intro that [of e]) (simp_all add: timer_get_ticks_def)
qed

lemma fdc_irq_loop_ends:
  assumes "steady_clock M \<mu>" and "unat timeout < 4294967290"
  shows "handlers d ! 32 = Some Timer_callback \<Longrightarrow> unat (timer_ticks d - start) \<le> unat timeout + 1 \<Longrightarrow>
    \<exists>r d'. fdc_irq_loop M start timeout d = Some (r, d') \<and> same_tables d d'
      \<and> (r = 0 \<and> \<not> fdc_irq_fired d' \<or> r = -1 \<and> timeout < timer_ticks d' - start)"
proof (induction "(unat timeout + 4 - unat (timer_ticks d - start), \<mu> (mach d))" arbitrary: d
    rule: wf_induct_rule [OF wf_lex_prod [OF wf_less_than wf_less_than], case_names less])
  case less
  obtain e where e: "take_interrupt M d = Some e" "same_tables d e" "\<mu> (mach e) \<le> \<mu> (mach d)"
    "timer_ticks e = timer_ticks d \<or> timer_ticks e = timer_ticks d + 1"
    by (rule take_interrupt_steady [OF assms(1)])
  have de: "unat (timer_ticks d - start) \<le> unat (timer_ticks e - start)"
    "unat (timer_ticks e - start) \<le> unat timeout + 2"
    using e(4) unat_tick [of "timer_ticks d" start] less.prems(2) assms(2) by auto
  show ?case
  proof (cases "fdc_irq_fired e")
    case True
    obtain f where f: "take_interrupt M e = Some f" "same_tables e f" by (rule take_interrupt_steady [OF assms(1)])
    have "fdc_irq_loop M start timeout d = Some (0, f\<lparr>fdc_irq_fired := False\<rparr>)"
      using e(1) True f(1) by (subst fdc_irq_loop.simps) simp
    moreover have "same_tables d (f\<lparr>fdc_irq_fired := False\<rparr>)"
      using e(2) f(2) by (simp add: same_tables_def)
    ultimately show ?thesis by auto
  next
    case False
    obtain f where f: "timer_get_ticks M e = Some (timer_ticks f, f)" "same_tables e f"
      "\<mu> (mach f) \<le> \<mu> (mach e)" "timer_ticks f = timer_ticks e \<or> timer_ticks f = timer_ticks e + 1"
      by (rule timer_get_ticks_steady [OF assms(1)])
    have ef: "unat (timer_ticks e - start) \<le> unat (timer_ticks f - start)"
      "unat (timer_ticks f - start) \<le> unat timeout + 3"
      using f(4) unat_tick [of "timer_ticks e" start] de(2) assms(2) by auto
    show ?thesis
    proof (cases "timeout < timer_ticks f - start")
      case True
      have "fdc_irq_loop M start timeout d = Some (-1, f)"
        using e(1) False f(1) True by (subst fdc_irq_loop.simps) simp
      then show ?thesis using True e(2) f(2) by (auto dest: same_tables_trans)
    next
      case not_yet: False
      then have le: "unat (timer_ticks f - start) \<le> unat timeout" by (simp add: word_less_nat_alt not_less)
      have hand: "handlers f ! 32 = Some Timer_callback"
        using less.prems(1) e(2) f(2) by (simp add: same_tables_def)
      obtain g where g: "hlt M f = Some g" "same_tables f g"
        "timer_ticks g = timer_ticks f + 1 \<or> timer_ticks g = timer_ticks f \<and> \<mu> (mach g) < \<mu> (mach f)"
        by (rule hlt_steady [OF assms(1) hand])
      have tick: "unat (timer_ticks f + 1 - start) = Suc (unat (timer_ticks f - start))"
        using le assms(2) by (intro unat_tick) linarith
      have "\<exists>r d'. fdc_irq_loop M start timeout g = Some (r, d') \<and> same_tables g d'
          \<and> (r = 0 \<and> \<not> fdc_irq_fired d' \<or> r = -1 \<and> timeout < timer_ticks d' - start)"
      proof (rule less.hyps)
        show "((unat timeout + 4 - unat (timer_ticks g - start), \<mu> (mach g)),
            unat timeout + 4 - unat (timer_ticks d - start), \<mu> (mach d)) \<in> less_than <*lex*> less_than"
          using g(3) tick le de ef e(3) f(3) by auto
        show "handlers g ! 32 = Some Timer_callback" using hand g(2) by (simp add: same_tables_def)
        show "unat (timer_ticks g - start) \<le> unat timeout + 1" using g(3) tick le by auto
      qed
      moreover have "fdc_irq_loop M start timeout d = fdc_irq_loop M start timeout g"
        using e(1) False f(1) not_yet g(1) by (subst fdc_irq_loop.simps) simp
      moreover have "same_tables d g" using same_tables_trans [OF same_tables_trans [OF e(2) f(2)] g(2)] .
      ultimately show ?thesis by (auto dest: same_tables_trans)
    qed
  qed
qed

lemma wait_for_fdc_irq_ends:
  assumes "steady_clock M \<mu>" and "handlers d ! 32 = Some Timer_callback" and "unat timeout < 4294967290"
  shows "\<exists>r d' start. wait_for_fdc_irq M timeout d = Some (r, d') \<and> same_tables d d'
    \<and> (start = timer_ticks d \<or> start = timer_ticks d + 1)
    \<and> (r = 0 \<and> \<not> fdc_irq_fired d' \<or> r = -1 \<and> timeout < timer_ticks d' - start)"
proof -
  obtain e where e: "timer_get_ticks M d = Some (timer_ticks e, e)" "same_tables d e"
    "timer_ticks e = timer_ticks d \<or> timer_ticks e = timer_ticks d + 1"
    by (rule timer_get_ticks_steady [OF assms(1)])
  have "handlers e ! 32 = Some Timer_callback" using assms(2) e(2) by (simp add: same_tables_def)
  then obtain r d' where "fdc_irq_loop M (timer_ticks e) timeout e = Some (r, d')" "same_tables e d'"
    "r = 0 \<and> \<not> fdc_irq_fired d' \<or> r = -1 \<and> timeout < timer_ticks d' - timer_ticks e"
    using fdc_irq_loop_ends [OF assms(1,3), of e "timer_ticks e"] by auto
  then show ?thesis using e by (auto simp: wait_for_fdc_irq_def dest: same_tables_trans)
qed

section \<open>The commands return\<close>

text \<open>\<open>comes_back d m\<close>: the computation returns and keeps the tables of the kernel.\<close>

definition comes_back :: "'h driver \<Rightarrow> ('a \<Rightarrow> 'h driver) \<Rightarrow> 'a option \<Rightarrow> bool" where
  "comes_back d st m \<longleftrightarrow> (\<exists>x. m = Some x \<and> same_kernel d (st x))"

lemma comes_back_Some [simp]: "comes_back d st (Some x) = same_kernel d (st x)"
  by (simp add: comes_back_def)

lemma comes_back_bind:
  assumes "comes_back d st m" and "\<And>x. m = Some x \<Longrightarrow> same_kernel d (st x) \<Longrightarrow> comes_back d st' (f x)"
  shows "comes_back d st' (Option.bind m f)"
  using assms by (auto simp: comes_back_def)

text \<open>The state a command starts from: the clock ticks and has its handler.\<close>

definition clock_runs :: "'h machine \<Rightarrow> 'h driver \<Rightarrow> bool" where
  "clock_runs M d \<longleftrightarrow> (\<exists>\<mu>. steady_clock M \<mu>) \<and> handlers d ! 32 = Some Timer_callback"

lemma sleep_comes_back:
  assumes "clock_runs M d" and "same_kernel d e" and "unat ms < 4294967294"
  shows "comes_back d id (sleep_ms M ms e)"
proof -
  obtain \<mu> where "steady_clock M \<mu>" "handlers e ! 32 = Some Timer_callback"
    using assms(1,2) by (auto simp: clock_runs_def same_kernel_def)
  from sleep_ms_ends [OF this assms(3)] show ?thesis
    using assms(2) same_tables_kernel same_kernel_trans unfolding comes_back_def by fastforce
qed

lemma wait_comes_back:
  assumes "clock_runs M d" and "same_kernel d e"
  shows "comes_back d snd (wait_for_fdc_irq M 2000 e)"
proof -
  obtain \<mu> where "steady_clock M \<mu>" "handlers e ! 32 = Some Timer_callback"
    using assms(1,2) by (auto simp: clock_runs_def same_kernel_def)
  from wait_for_fdc_irq_ends [OF this, of 2000] show ?thesis
    using assms(2) same_tables_kernel same_kernel_trans unfolding comes_back_def by fastforce
qed

lemma take_comes_back:
  assumes "clock_runs M d" and "same_kernel d e"
  shows "comes_back d id (take_interrupt M e)"
proof -
  obtain \<mu> where \<mu>: "steady_clock M \<mu>" using assms(1) by (auto simp: clock_runs_def)
  obtain f where "take_interrupt M e = Some f" "same_tables e f" by (rule take_interrupt_steady [OF \<mu>])
  then show ?thesis
    using assms(2) same_tables_kernel same_kernel_trans unfolding comes_back_def by fastforce
qed

lemma motor_comes_back:
  "clock_runs M d \<Longrightarrow> same_kernel d e \<Longrightarrow> comes_back d id (fdc_motor M drv on e)"
  by (simp add: fdc_motor_def Let_def kernel_simps sleep_comes_back)

lemmas come_back = sleep_comes_back wait_comes_back take_comes_back motor_comes_back

lemma reset_comes_back:
  assumes "clock_runs M d" and "same_kernel d e"
  shows "comes_back d id (fdc_reset M e)"
proof -
  have sense: "same_kernel d (fold (\<lambda>i d. snd (fdc_sense_interrupt M d)) is f) = same_kernel d f" for "is" :: "nat list" and f
    by (induction "is" arbitrary: f) (simp_all add: kernel_simps)
  show ?thesis
    unfolding fdc_reset_def Let_def
  proof (intro comes_back_bind [OF take_comes_back [OF assms]], goal_cases)
    case (1 f)
    then have "same_kernel d (out_port M FDC_DOR 0 (f\<lparr>fdc_irq_fired := False\<rparr>))"
      by (simp add: kernel_simps) (simp add: same_kernel_def)
    from sleep_comes_back [OF assms(1) this, of 10] show ?case
    proof (rule comes_back_bind, goal_cases)
      case 2
      then show ?case
        by (intro comes_back_bind [OF wait_comes_back [OF assms(1)]]) (simp_all add: kernel_simps split_beta sense)
    qed simp
  qed
qed

lemma seek_comes_back:
  assumes "clock_runs M d" and "same_kernel d e"
  shows "comes_back d snd (fdc_seek M drv cylinder head e)"
  unfolding fdc_seek_def Let_def split_beta
  by (rule comes_back_bind [OF motor_comes_back [OF assms]],
      rule comes_back_bind [OF wait_comes_back [OF assms(1)]])
    (auto simp: kernel_simps intro!: comes_back_bind [OF motor_comes_back [OF assms(1)]])

lemma recalibrate_comes_back:
  assumes "clock_runs M d" and "same_kernel d e"
  shows "comes_back d snd (fdc_recalibrate M drv e)"
  unfolding fdc_recalibrate_def Let_def split_beta
  by (rule comes_back_bind [OF motor_comes_back [OF assms]],
      rule comes_back_bind [OF wait_comes_back [OF assms(1)]])
    (auto simp: kernel_simps intro!: comes_back_bind [OF motor_comes_back [OF assms(1)]])

text \<open>The buffer lies below 16 MB and in one page of 64 KB.\<close>

definition dma_buffer_ok :: "symbols \<Rightarrow> bool" where
  "dma_buffer_ok syms \<longleftrightarrow> 4096 dvd unat (sym_dma_buffer syms) \<and> unat (sym_dma_buffer syms) < 0xFFFE00"

lemma dma_init_ok:
  assumes "dma_buffer_ok syms"
  shows "floppy_dma_init M (sym_dma_buffer syms) 512 mode d =
    Some (out_ports M (dma_program (sym_dma_buffer syms) 511 mode) d)"
proof -
  let ?b = "sym_dma_buffer syms"
  obtain k where k: "unat ?b = 4096 * k" "4096 * k < 0xFFFE00"
    using assms by (auto simp: dma_buffer_ok_def)
  have "unat (?b + 512) = 4096 * k + 512" "unat (?b + 511) = 4096 * k + 511"
    using k by (simp_all add: unat_add_u32)
  moreover have "(4096 * k + 511) div 65536 = 4096 * k div 65536"
    using div_mult2_eq [of "4096 * k + 511" 4096 16] div_mult2_eq [of "4096 * k" 4096 16] by simp
  ultimately have "\<not> ?b + 512 > 0xFFFFFF" "drop_bit 16 ?b = drop_bit 16 (?b + (512 - 1))"
    using k by (simp_all add: word_less_nat_alt word_unat_eq_iff drop_bit_eq_div unat_div)
  then show ?thesis by (simp add: floppy_dma_init_def Let_def)
qed

lemma transfer_comes_back:
  assumes "clock_runs M d" and "same_kernel d e" and "dma_buffer_ok syms"
  shows "comes_back d snd (fdc_transfer M syms drv cylinder head sector w e)"
proof -
  have k: "same_kernel d (out_ports M pbs e)" for pbs using assms(2) by (simp add: kernel_simps)
  show ?thesis
    unfolding fdc_transfer_def Let_def split_beta dma_init_ok [OF assms(3)] Option.bind_lunit
  proof (rule comes_back_bind [OF motor_comes_back [OF assms(1) k]], goal_cases)
    case (1 f)
    show ?case
    proof (rule comes_back_bind [OF seek_comes_back [OF assms(1)]], goal_cases)
      case (2 g)
      then show ?case
        by (cases "fst g < 0")
          (auto simp: kernel_simps intro!: comes_back_bind [OF motor_comes_back [OF assms(1)]]
            comes_back_bind [OF wait_comes_back [OF assms(1)]])
    qed (use 1 in simp)
  qed
qed

section \<open>The entry points return\<close>

lemma read_attempts_return:
  assumes "clock_runs M d" and "dma_buffer_ok syms" and "512 \<le> length buf"
  shows "same_kernel d e \<Longrightarrow> \<exists>r b d'. read_attempts M syms cyl head sec n buf e = Some ((r, b), d')
    \<and> same_kernel d d' \<and> (r = 0 \<and> b = put_bytes buf 0 (take 512 (m_load_dma M (mach d'))) \<or> r = -1 \<and> b = buf)"
proof (induction n arbitrary: e)
  case (Suc n)
  obtain res f where f: "fdc_transfer M syms 0 cyl head sec False e = Some (res, f)" "same_kernel d f"
    using transfer_comes_back [OF assms(1) Suc.prems assms(2), of 0 cyl head sec False] by (auto simp: comes_back_def)
  show ?case
  proof (cases "res = 0")
    case True
    then show ?thesis using f assms(3) by auto
  next
    case False
    obtain g where g: "fdc_reset M f = Some g" "same_kernel d g"
      using reset_comes_back [OF assms(1) f(2)] by (auto simp: comes_back_def)
    with False f Suc.IH [OF g(2)] show ?thesis by auto
  qed
qed simp

lemma write_attempts_return:
  assumes "clock_runs M d" and "dma_buffer_ok syms"
  shows "same_kernel d e \<Longrightarrow> \<exists>r d'. write_attempts M syms cyl head sec n e = Some (r, d')
    \<and> same_kernel d d' \<and> (r = 0 \<or> r = -1)"
proof (induction n arbitrary: e)
  case (Suc n)
  obtain res f where f: "fdc_transfer M syms 0 cyl head sec True e = Some (res, f)" "same_kernel d f"
    using transfer_comes_back [OF assms(1) Suc.prems assms(2), of 0 cyl head sec True] by (auto simp: comes_back_def)
  show ?case
  proof (cases "res = 0")
    case True
    then show ?thesis using f by auto
  next
    case False
    obtain g where g: "fdc_reset M f = Some g" "same_kernel d g"
      using reset_comes_back [OF assms(1) f(2)] by (auto simp: comes_back_def)
    with False f Suc.IH [OF g(2)] show ?thesis by auto
  qed
qed simp

lemma clock_runs_kept: "clock_runs M d \<Longrightarrow> same_kernel d e \<Longrightarrow> clock_runs M e"
  by (simp add: clock_runs_def same_kernel_def)

lemma fdc_read_sector_returns:
  assumes "clock_runs M d" and "dma_buffer_ok syms" and "512 \<le> length buf"
  shows "\<exists>r b d'. fdc_read_sector M syms lba buf d = Some ((r, b), d') \<and> clock_runs M d' \<and> same_kernel d d'
    \<and> (r = 0 \<and> b = put_bytes buf 0 (take 512 (m_load_dma M (mach d'))) \<or> r = -1 \<and> b = buf)"
proof -
  obtain cyl head sec where "chs_of_lba lba = (cyl, head, sec)" by (cases "chs_of_lba lba")
  then show ?thesis
    using read_attempts_return [OF assms same_kernel_refl, of cyl head sec 3] clock_runs_kept [OF assms(1)]
    by (auto simp: fdc_read_sector_def)
qed

lemma fdc_write_sector_returns:
  assumes "clock_runs M d" and "dma_buffer_ok syms" and "512 \<le> length buf"
  shows "\<exists>r d'. fdc_write_sector M syms lba buf d = Some (r, d') \<and> clock_runs M d' \<and> (r = 0 \<or> r = -1)"
proof -
  obtain cyl head sec where chs: "chs_of_lba lba = (cyl, head, sec)" by (cases "chs_of_lba lba")
  have "same_kernel d (d\<lparr>mach := m_store_dma M (take 512 buf) (mach d)\<rparr>)" by (simp add: same_kernel_def)
  from write_attempts_return [OF assms(1,2) this, of cyl head sec 3] show ?thesis
    using assms(3) chs clock_runs_kept [OF assms(1)] by (fastforce simp: fdc_write_sector_def)
qed

lemma fdc_init_returns:
  assumes "clock_runs M d" and "length (handlers d) = 256"
  shows "\<exists>r d'. fdc_init M d = Some (r, d') \<and> clock_runs M d' \<and> (r = 0 \<or> r = -1)
    \<and> handlers d' ! 38 = Some Fdc_irq_handler \<and> idt d' = idt d"
proof -
  let ?d = "d\<lparr>handlers := (handlers d)[38 := Some Fdc_irq_handler]\<rparr>"
  have inst: "irq_install_handler 6 Fdc_irq_handler d = Some ?d" by (simp add: irq_install_handler_def)
  have run: "clock_runs M ?d" using assms by (simp add: clock_runs_def)
  obtain e where e: "fdc_reset M ?d = Some e" "same_kernel ?d e"
    using reset_comes_back [OF run same_kernel_refl] by (auto simp: comes_back_def)
  obtain r f where f: "fdc_recalibrate M 0 e = Some (r, f)" "same_kernel ?d f"
    using recalibrate_comes_back [OF run e(2), of 0] by (auto simp: comes_back_def)
  have "same_kernel ?d (dprintf m f)" for m using f(2) by (simp add: kernel_simps)
  then have "clock_runs M (dprintf m f) \<and> handlers (dprintf m f) ! 38 = Some Fdc_irq_handler \<and> idt (dprintf m f) = idt d" for m
    using clock_runs_kept [OF run] assms(2) by (simp add: same_kernel_def)
  then show ?thesis using inst e(1) f(1) by (auto simp: fdc_init_def)
qed

section \<open>The motor after a seek\<close>

text \<open>Whatever the result, the last action of a seek is to switch the motors off.\<close>

lemma fdc_seek_stops_motor:
  assumes "fdc_seek M drv cylinder head d = Some (r, d')"
  shows "\<exists>e. d' = out_port M FDC_DOR 0x0C e"
  using assms by (auto simp: fdc_seek_def fdc_motor_def Let_def split_beta bind_eq_Some_conv split: if_splits)

text \<open>So a transfer issues its command with the motors off.\<close>

lemma fdc_transfer_motor_off:
  assumes "fdc_transfer M syms drv cylinder head sector w d = Some (r, d')" and "r \<noteq> -1"
  shows "\<exists>e t q. fdc_seek M drv cylinder head e = Some (q, out_port M FDC_DOR 0x0C t)
    \<and> wait_for_fdc_irq M 2000 (fdc_write_all M
        [if w then 0x45 else 0x46, push_bit 2 head OR drv, cylinder, head, sector, 2, 18, 0x1B, 0xFF]
        (out_port M FDC_DOR 0x0C t)) \<noteq> None"
proof -
  obtain d1 d2 q f where a: "floppy_dma_init M (sym_dma_buffer syms) 512 (if w then DMA_MODE_READ else DMA_MODE_WRITE) d = Some d1"
    "fdc_motor M drv True d1 = Some d2" "fdc_seek M drv cylinder head d2 = Some (q, f)" "\<not> q < 0"
    "wait_for_fdc_irq M 2000 (fdc_write_all M
        [if w then 0x45 else 0x46, push_bit 2 head OR drv, cylinder, head, sector, 2, 18, 0x1B, 0xFF] f) \<noteq> None"
    using assms by (auto simp: fdc_transfer_def Let_def split_beta bind_eq_Some_conv split: if_splits)
  obtain t where "f = out_port M FDC_DOR 0x0C t" using fdc_seek_stops_motor [OF a(3)] by blast
  then show ?thesis using a(3,5) by blast
qed

end
