(* ===== verification/Floppy_Controller.thy ===== *)
theory Floppy_Controller
  imports Floppy_Live
begin

text \<open>
  A floppy controller and the channel of the DMA controller that serves it, as their data sheets
  describe them, as far as \<open>i386/floppy.c\<close> uses them, and the answers the driver gets. It is a machine
  for the driver: a disk of 80 cylinders, an interrupt that comes \<open>latency\<close> timer interrupts after a
  command. How a board is built is a parameter: whether a command needs the motor, and which transfers
  the channel makes under a mode byte. On the 8237 the direction is in bits 2 and 3 of the mode.
\<close>

section \<open>The board\<close>

text \<open>The direction of a transfer: a read command of the floppy controller moves bytes to memory.\<close>

datatype transfer = To_memory | From_memory

record board =
  needs_motor :: bool
  moves :: "u8 \<Rightarrow> transfer \<Rightarrow> bool"

text \<open>
  The mode byte of the 8237: bits 6 and 7 both set make the channel a cascade, bit 5 counts the address
  down, bits 2 and 3 are 01 for a transfer to memory, 10 for one from memory, 00 for a verification,
  which moves nothing.
\<close>

definition moves_upwards :: "u8 \<Rightarrow> bool" where
  "moves_upwards mode \<longleftrightarrow> mode AND 0xC0 \<noteq> 0xC0 \<and> \<not> bit mode 5"

definition i8237_moves :: "u8 \<Rightarrow> transfer \<Rightarrow> bool" where
  "i8237_moves mode t \<longleftrightarrow> moves_upwards mode \<and> mode AND 0x0C = (case t of To_memory \<Rightarrow> 0x04 | From_memory \<Rightarrow> 0x08)"

text \<open>
  An obliging channel takes the direction from the floppy controller, whichever of the two the mode
  names; the other bits count as they do in the 8237.
\<close>

definition obliging_moves :: "u8 \<Rightarrow> transfer \<Rightarrow> bool" where
  "obliging_moves mode t \<longleftrightarrow> moves_upwards mode \<and> (mode AND 0x0C = 0x04 \<or> mode AND 0x0C = 0x08)"

definition documented_board :: "bool \<Rightarrow> board" where
  "documented_board motor = \<lparr>needs_motor = motor, moves = i8237_moves\<rparr>"

definition obliging_board :: board where
  "obliging_board = \<lparr>needs_motor = False, moves = obliging_moves\<rparr>"

section \<open>The controller\<close>

record controller =
  fc_dor :: u8
  fc_command :: bytes
  fc_result :: bytes
  fc_irq :: "nat option"
  fc_track :: u8
  fc_disk :: "u8 \<times> u8 \<times> u8 \<Rightarrow> bytes"
  fc_channel :: dma_channel
  fc_memory :: bytes

text \<open>The length of a command and the blocks that a disk has.\<close>

definition command_length :: "u8 \<Rightarrow> nat" where
  "command_length b =
     (if b AND 0x1F = 0x03 then 3 else if b AND 0x1F = 0x07 then 2 else if b AND 0x1F = 0x0F then 3
      else if b AND 0x1F = 0x05 then 9 else if b AND 0x1F = 0x06 then 9 else 1)"

definition on_disk :: "u8 \<times> u8 \<times> u8 \<Rightarrow> bool" where
  "on_disk chs = (case chs of (cyl, head, sec) \<Rightarrow> cyl < 80 \<and> head < 2 \<and> 1 \<le> sec \<and> sec \<le> 18)"

text \<open>The drive delivers the sector.\<close>

definition serves :: "board \<Rightarrow> controller \<Rightarrow> u8 \<times> u8 \<times> u8 \<Rightarrow> bool" where
  "serves bd c chs \<longleftrightarrow> on_disk chs \<and> (needs_motor bd \<longrightarrow> bit (fc_dor c) 4)"

text \<open>The channel moves 512 bytes from or to the buffer, in the direction the command needs.\<close>

definition channel_ready :: "board \<Rightarrow> u32 \<Rightarrow> transfer \<Rightarrow> dma_channel \<Rightarrow> bool" where
  "channel_ready bd buffer t ch \<longleftrightarrow>
     \<not> ch_masked ch \<and> ch_addr ch = ucast buffer \<and> ch_page ch = ucast (drop_bit 16 buffer) \<and> ch_count ch = 511
     \<and> moves bd (ch_mode ch) t"

text \<open>
  A command for a sector that the drive does not deliver ends with the flag for no data (04 in ST1),
  one that the channel does not serve with the flag for an overrun (10 in ST1); both terminate
  abnormally (40 in ST0), and no byte has moved.
\<close>

definition execute :: "board \<Rightarrow> u32 \<Rightarrow> nat \<Rightarrow> controller \<Rightarrow> controller" where
  "execute bd buffer latency c =
     (let cmd = fc_command c; op = hd cmd AND 0x1F; c = c\<lparr>fc_command := []\<rparr> in
      if op = 0x03 then c
      else if op = 0x07 then c\<lparr>fc_track := 0, fc_irq := Some latency\<rparr>
      else if op = 0x08 then c\<lparr>fc_result := [0x20, fc_track c]\<rparr>
      else if op = 0x0F then c\<lparr>fc_track := cmd ! 2, fc_irq := Some latency\<rparr>
      else if op = 0x05 \<or> op = 0x06 then
        let chs = (cmd ! 2, cmd ! 3, cmd ! 4) in
        if \<not> serves bd c chs \<or> fc_track c \<noteq> cmd ! 2 then
          c\<lparr>fc_result := [0x40, 0x04, 0, cmd ! 2, cmd ! 3, cmd ! 4, 2], fc_irq := Some latency\<rparr>
        else if \<not> channel_ready bd buffer (if op = 0x05 then From_memory else To_memory) (fc_channel c) then
          c\<lparr>fc_result := [0x40, 0x10, 0, cmd ! 2, cmd ! 3, cmd ! 4, 2], fc_irq := Some latency\<rparr>
        else
          let c = (if op = 0x05 then c\<lparr>fc_disk := (fc_disk c)(chs := fc_memory c)\<rparr>
                   else c\<lparr>fc_memory := fc_disk c chs\<rparr>)
          in c\<lparr>fc_result := [cmd ! 1 AND 0x07, 0, 0, cmd ! 2, cmd ! 3, cmd ! 4, 2], fc_irq := Some latency\<rparr>
      else c\<lparr>fc_result := [0x80]\<rparr>)"

definition controller_out :: "board \<Rightarrow> u32 \<Rightarrow> nat \<Rightarrow> u16 \<Rightarrow> u8 \<Rightarrow> controller \<Rightarrow> controller" where
  "controller_out bd buffer latency p b c =
     (if p = FDC_DOR then
        let c' = c\<lparr>fc_dor := b, fc_command := [], fc_result := []\<rparr> in
        if \<not> bit b 2 then c'\<lparr>fc_irq := None\<rparr>
        else if \<not> bit (fc_dor c) 2 then c'\<lparr>fc_irq := Some latency\<rparr>
        else c\<lparr>fc_dor := b\<rparr>
      else if p = FDC_FIFO then
        if fc_result c \<noteq> [] then c
        else
          let c = c\<lparr>fc_command := fc_command c @ [b]\<rparr> in
          if length (fc_command c) = command_length (hd (fc_command c)) then execute bd buffer latency c else c
      else c\<lparr>fc_channel := dma_out p b (fc_channel c)\<rparr>)"

definition controller_in :: "u16 \<Rightarrow> controller \<Rightarrow> u8 \<times> controller" where
  "controller_in p c =
     (if p = FDC_MSR then (if fc_result c \<noteq> [] then 0xD0 else if fc_command c \<noteq> [] then 0x90 else 0x80, c)
      else if p = FDC_FIFO then
        case fc_result c of [] \<Rightarrow> (0, c) | b # bs \<Rightarrow> (b, c\<lparr>fc_result := bs\<rparr>)
      else (0, c))"

text \<open>A \<open>hlt\<close> is ended by the interrupt of the controller when it is due, else by the timer.\<close>

definition controller_hlt :: "controller \<Rightarrow> (regs \<times> controller) option" where
  "controller_hlt c =
     (case fc_irq c of
        None \<Rightarrow> Some (irq_regs 32, c)
      | Some 0 \<Rightarrow> Some (irq_regs 38, c\<lparr>fc_irq := None\<rparr>)
      | Some (Suc n) \<Rightarrow> Some (irq_regs 32, c\<lparr>fc_irq := Some n\<rparr>))"

definition floppy_machine :: "board \<Rightarrow> u32 \<Rightarrow> nat \<Rightarrow> controller machine" where
  "floppy_machine bd buffer latency = \<lparr>
     m_ports = \<lparr>p_inb = controller_in, p_outb = controller_out bd buffer latency\<rparr>,
     m_poll = (\<lambda>c. (None, c)),
     m_hlt = controller_hlt,
     m_load_dma = fc_memory,
     m_store_dma = (\<lambda>b c. c\<lparr>fc_memory := b\<rparr>)\<rparr>"

section \<open>Its clock ticks\<close>

lemma dma_out_eoi [simp]: "dma_out 0x20 b c = c" "dma_out 0xA0 b c = c" "dma_out 0x80 b c = c"
  by (simp_all add: dma_out_def)

lemma fdc_ports [simp]:
  "FDC_DOR \<noteq> FDC_FIFO" "FDC_MSR \<noteq> FDC_FIFO" "FDC_FIFO \<noteq> FDC_DOR" "FDC_FIFO \<noteq> FDC_MSR" "FDC_CCR \<noteq> FDC_FIFO"
  "FDC_CCR \<noteq> FDC_DOR"
  by (simp_all add: FDC_DOR_def FDC_FIFO_def FDC_MSR_def FDC_CCR_def)

lemma send_eoi_floppy [simp]: "send_eoi (floppy_machine bd buffer latency) n c = c"
  by (simp add: send_eoi_def floppy_machine_def controller_out_def FDC_DOR_def FDC_FIFO_def)

lemma steady_floppy: "steady_clock (floppy_machine bd buffer latency) (\<lambda>c. if fc_irq c = None then 0 else 1)"
  unfolding steady_clock_def
proof (intro conjI allI)
  fix c
  show "\<exists>r h'. m_hlt (floppy_machine bd buffer latency) c = Some (r, h') \<and> 32 \<le> int_no r \<and>
      (int_no r = 32 \<or> (if fc_irq h' = None then 0 else 1) < (if fc_irq c = None then 0 else (1::nat)))"
  proof (cases "fc_irq c")
    case (Some n)
    then show ?thesis by (cases n) (simp_all add: floppy_machine_def controller_hlt_def)
  qed (simp add: floppy_machine_def controller_hlt_def)
next
  fix n and c :: controller
  show "(if fc_irq (send_eoi (floppy_machine bd buffer latency) n c) = None then 0 else 1) \<le>
      (if fc_irq c = None then 0 else (1::nat))" by simp
qed (auto simp: floppy_machine_def)

lemma take_floppy [simp]: "take_interrupt (floppy_machine bd buffer latency) d = Some d"
  by (simp add: take_interrupt_def floppy_machine_def)

lemma ticks_floppy [simp]: "timer_get_ticks (floppy_machine bd buffer latency) d = Some (timer_ticks d, d)"
  by (simp add: timer_get_ticks_def)

section \<open>Interrupts\<close>

definition floppy_handlers :: "'h driver \<Rightarrow> bool" where
  "floppy_handlers d \<longleftrightarrow> handlers d ! 32 = Some Timer_callback \<and> handlers d ! 38 = Some Fdc_irq_handler"

lemma hlt_floppy:
  assumes "floppy_handlers d"
  shows "fc_irq (mach d) = None \<Longrightarrow> hlt (floppy_machine bd buffer latency) d = Some (d\<lparr>timer_ticks := timer_ticks d + 1\<rparr>)"
    and "fc_irq (mach d) = Some (Suc n) \<Longrightarrow> hlt (floppy_machine bd buffer latency) d =
      Some (d\<lparr>timer_ticks := timer_ticks d + 1, mach := (mach d)\<lparr>fc_irq := Some n\<rparr>\<rparr>)"
    and "fc_irq (mach d) = Some 0 \<Longrightarrow> hlt (floppy_machine bd buffer latency) d =
      Some (d\<lparr>fdc_irq_fired := True, mach := (mach d)\<lparr>fc_irq := None\<rparr>\<rparr>)"
  using assms
  by (simp_all add: hlt_def floppy_machine_def controller_hlt_def common_handler_def floppy_handlers_def
      call_handler_def timer_callback_def fdc_irq_handler_def out_port_def controller_out_def FDC_DOR_def FDC_FIFO_def)

lemma sleep_loop_floppy:
  assumes "unat ms < 4294967294"
  shows "floppy_handlers d \<Longrightarrow> fc_irq (mach d) = None \<Longrightarrow> unat (timer_ticks d - start) \<le> unat ms \<Longrightarrow>
    sleep_loop (floppy_machine bd buffer latency) start ms d = Some (d\<lparr>timer_ticks := start + ms\<rparr>)"
proof (induction "unat ms - unat (timer_ticks d - start)" arbitrary: d)
  case 0
  then have "unat (timer_ticks d - start) = unat ms" by simp
  then have "timer_ticks d - start = ms" by (simp add: word_unat_eq_iff)
  then have "timer_ticks d = start + ms" by (simp add: diff_eq_eq add.commute)
  then show ?case by (subst sleep_loop.simps) simp
next
  case (Suc n)
  let ?e = "d\<lparr>timer_ticks := timer_ticks d + 1\<rparr>"
  have lt: "unat (timer_ticks d - start) < unat ms" using Suc.hyps(2) by linarith
  then have tick: "unat (timer_ticks d + 1 - start) = Suc (unat (timer_ticks d - start))"
    using assms by (intro unat_tick) linarith
  have "sleep_loop (floppy_machine bd buffer latency) start ms ?e = Some (?e\<lparr>timer_ticks := start + ms\<rparr>)"
    by (rule Suc.hyps(1)) (use Suc.hyps(2) Suc.prems tick lt in \<open>simp_all add: floppy_handlers_def\<close>)
  then show ?case
    using lt hlt_floppy(1) [OF Suc.prems(1,2)] by (subst sleep_loop.simps) (simp add: word_less_nat_alt)
qed

lemma sleep_floppy:
  assumes "floppy_handlers d" and "fc_irq (mach d) = None" and "unat ms < 4294967294"
  shows "sleep_ms (floppy_machine bd buffer latency) ms d = Some (d\<lparr>timer_ticks := timer_ticks d + ms\<rparr>)"
  using sleep_loop_floppy [OF assms(3,1,2), of "timer_ticks d"] by (simp add: sleep_ms_def)

text \<open>The interrupt is awaited for as long as the controller takes.\<close>

lemma irq_loop_floppy:
  assumes "unat timeout < 4294967290"
  shows "floppy_handlers d \<Longrightarrow> \<not> fdc_irq_fired d \<Longrightarrow> fc_irq (mach d) = Some n \<Longrightarrow>
    unat (timer_ticks d - start) + n \<le> unat timeout \<Longrightarrow>
    fdc_irq_loop (floppy_machine bd buffer latency) start timeout d =
      Some (0, d\<lparr>timer_ticks := timer_ticks d + of_nat n, mach := (mach d)\<lparr>fc_irq := None\<rparr>\<rparr>)"
proof (induction n arbitrary: d)
  case 0
  have "\<not> timeout < timer_ticks d - start" using 0 by (simp add: word_less_nat_alt)
  then show ?case
    using 0 hlt_floppy(3) [OF 0(1,3)] by (subst fdc_irq_loop.simps, simp, subst fdc_irq_loop.simps) simp
next
  case (Suc n)
  let ?e = "d\<lparr>timer_ticks := timer_ticks d + 1, mach := (mach d)\<lparr>fc_irq := Some n\<rparr>\<rparr>"
  have le: "unat (timer_ticks d - start) < unat timeout" using Suc.prems(4) by simp
  then have tick: "unat (timer_ticks d + 1 - start) = Suc (unat (timer_ticks d - start))"
    using assms by (intro unat_tick) linarith
  have "fdc_irq_loop (floppy_machine bd buffer latency) start timeout ?e =
      Some (0, ?e\<lparr>timer_ticks := timer_ticks ?e + of_nat n, mach := (mach ?e)\<lparr>fc_irq := None\<rparr>\<rparr>)"
    by (rule Suc.IH) (use Suc.prems tick in \<open>simp_all add: floppy_handlers_def\<close>)
  moreover have "\<not> timeout < timer_ticks d - start" using le by (simp add: word_less_nat_alt)
  ultimately show ?case
    using hlt_floppy(2) [OF Suc.prems(1,3)] Suc.prems(2) by (subst fdc_irq_loop.simps) (simp add: add.assoc)
qed

lemma wait_floppy:
  assumes "floppy_handlers d" and "\<not> fdc_irq_fired d" and "fc_irq (mach d) = Some latency" and "latency \<le> 2000"
  shows "wait_for_fdc_irq (floppy_machine bd buffer latency') 2000 d =
    Some (0, d\<lparr>timer_ticks := timer_ticks d + of_nat latency, mach := (mach d)\<lparr>fc_irq := None\<rparr>\<rparr>)"
  using irq_loop_floppy [OF _ assms(1-3), of 2000 "timer_ticks d"] assms(4)
  by (simp add: wait_for_fdc_irq_def)

section \<open>Bytes\<close>

lemma timeout_positive [simp]: "0 < READ_WRITE_TIMEOUT" "READ_WRITE_TIMEOUT \<noteq> 0"
  by (simp_all add: READ_WRITE_TIMEOUT_def)

lemma poll_floppy:
  assumes "fst (controller_in FDC_MSR (mach d)) AND 0xC0 = want" and "0 < n"
  shows "fdc_poll (floppy_machine bd buffer latency) want n d = (n, d)"
proof -
  obtain b where b: "controller_in FDC_MSR (mach d) = (b, mach d)"
    by (auto simp: controller_in_def)
  then have "b AND 0xC0 = want" using assms(1) by simp
  moreover obtain k where k: "n = Suc k" using assms(2) by (cases n) auto
  ultimately show ?thesis unfolding k using b by (simp add: in_port_def floppy_machine_def)
qed

lemma write_floppy:
  assumes "fc_result (mach d) = []"
  shows "fdc_write (floppy_machine bd buffer latency) b d =
    d\<lparr>mach := controller_out bd buffer latency FDC_FIFO b (mach d)\<rparr>"
proof -
  have "fdc_poll (floppy_machine bd buffer latency) 0x80 READ_WRITE_TIMEOUT d = (READ_WRITE_TIMEOUT, d)"
    by (rule poll_floppy) (use assms in \<open>simp_all add: controller_in_def\<close>)
  then show ?thesis by (simp add: fdc_write_def out_port_def floppy_machine_def)
qed

lemma read_floppy:
  assumes "fc_result (mach d) = b # bs"
  shows "fdc_read (floppy_machine bd buffer latency) d = (b, d\<lparr>mach := (mach d)\<lparr>fc_result := bs\<rparr>\<rparr>)"
proof -
  have "fdc_poll (floppy_machine bd buffer latency) 0xC0 READ_WRITE_TIMEOUT d = (READ_WRITE_TIMEOUT, d)"
    by (rule poll_floppy) (use assms in \<open>simp_all add: controller_in_def\<close>)
  then show ?thesis
    using assms by (simp add: fdc_read_def in_port_def floppy_machine_def controller_in_def)
qed

lemma read_all_floppy:
  "fc_result (mach d) = bs \<Longrightarrow> fdc_read_all (floppy_machine bd buffer latency) (length bs) d =
    (bs, d\<lparr>mach := (mach d)\<lparr>fc_result := []\<rparr>\<rparr>)"
proof (induction bs arbitrary: d)
  case (Cons b bs)
  have "fdc_read_all (floppy_machine bd buffer latency) (length bs) (d\<lparr>mach := (mach d)\<lparr>fc_result := bs\<rparr>\<rparr>) =
      (bs, d\<lparr>mach := (mach d)\<lparr>fc_result := []\<rparr>\<rparr>)"
    using Cons.IH [of "d\<lparr>mach := (mach d)\<lparr>fc_result := bs\<rparr>\<rparr>"] by simp
  then show ?case using read_floppy [OF Cons.prems] by simp
qed simp

text \<open>A whole command: its bytes are collected, the last one starts it.\<close>

lemma command_bytes:
  assumes "cmd0 @ cmd \<noteq> []"
    and "fc_result (mach d) = []" and "fc_command (mach d) = cmd0"
    and "length cmd0 + length cmd < command_length (hd (cmd0 @ cmd))"
  shows "fdc_write_all (floppy_machine bd buffer latency) cmd d = d\<lparr>mach := (mach d)\<lparr>fc_command := cmd0 @ cmd\<rparr>\<rparr>"
  using assms
proof (induction cmd arbitrary: cmd0 d)
  case Nil
  then show ?case by (simp add: fdc_write_all_def)
next
  case (Cons b cmd)
  let ?e = "d\<lparr>mach := (mach d)\<lparr>fc_command := cmd0 @ [b]\<rparr>\<rparr>"
  have h: "hd ((cmd0 @ [b]) @ cmd) = hd (cmd0 @ b # cmd)" "hd (cmd0 @ [b]) = hd (cmd0 @ b # cmd)"
    by (cases cmd0; simp)+
  have "fdc_write (floppy_machine bd buffer latency) b d = ?e"
    using write_floppy [OF Cons.prems(2)] Cons.prems(2-4) h(2) by (simp add: controller_out_def Let_def)
  moreover have "fdc_write_all (floppy_machine bd buffer latency) cmd ?e =
      ?e\<lparr>mach := (mach ?e)\<lparr>fc_command := (cmd0 @ [b]) @ cmd\<rparr>\<rparr>"
    by (rule Cons.IH) (use Cons.prems h in simp_all)
  ultimately show ?case by (simp add: fdc_write_all_def)
qed

lemma command_floppy:
  assumes "fc_result (mach d) = []" and "fc_command (mach d) = []"
    and "length cmd = command_length (hd cmd)"
  shows "fdc_write_all (floppy_machine bd buffer latency) cmd d =
    d\<lparr>mach := execute bd buffer latency ((mach d)\<lparr>fc_command := cmd\<rparr>)\<rparr>"
proof -
  have pos: "0 < command_length (hd cmd)" by (simp add: command_length_def)
  then have ne: "cmd \<noteq> []" using assms(3) by auto
  let ?e = "d\<lparr>mach := (mach d)\<lparr>fc_command := butlast cmd\<rparr>\<rparr>"
  have first: "fdc_write_all (floppy_machine bd buffer latency) (butlast cmd) d = ?e"
  proof (cases "butlast cmd = []")
    case True
    then show ?thesis using assms(2) by (simp add: fdc_write_all_def)
  next
    case False
    then have "hd (butlast cmd) = hd cmd" by (cases cmd) (auto split: if_splits)
    then show ?thesis using False assms pos command_bytes [of "[]" "butlast cmd" d bd buffer latency] by simp
  qed
  have "fdc_write (floppy_machine bd buffer latency) (last cmd) ?e = d\<lparr>mach := execute bd buffer latency ((mach d)\<lparr>fc_command := cmd\<rparr>)\<rparr>"
    using write_floppy [of ?e bd buffer latency "last cmd"] assms ne pos by (simp add: controller_out_def Let_def)
  moreover have "fdc_write_all (floppy_machine bd buffer latency) (butlast cmd @ [last cmd]) d =
      fdc_write (floppy_machine bd buffer latency) (last cmd) (fdc_write_all (floppy_machine bd buffer latency) (butlast cmd) d)"
    by (simp add: fdc_write_all_def)
  ultimately show ?thesis using ne first by simp
qed

end
