(* ===== verification/Floppy_Refines.thy ===== *)
theory Floppy_Refines
  imports Floppy_Controller
begin

text \<open>
  The floppy driver on the controller of theory \<open>Floppy_Controller\<close>: each command of
  \<open>i386/floppy.c\<close> with its result, up to the sectors, for every board: when it makes the transfers
  under the modes of the driver, the driver refines a disk of 2880 sectors, else every access fails.
\<close>

section \<open>Ready for a command\<close>

definition controller_idle :: "controller \<Rightarrow> bool" where
  "controller_idle c \<longleftrightarrow> fc_irq c = None \<and> fc_command c = [] \<and> fc_result c = [] \<and> bit (fc_dor c) 2"

definition floppy_ready :: "controller driver \<Rightarrow> bool" where
  "floppy_ready d \<longleftrightarrow> floppy_handlers d \<and> \<not> fdc_irq_fired d \<and> controller_idle (mach d)"

lemma floppy_readyD:
  assumes "floppy_ready d"
  shows "floppy_handlers d" "\<not> fdc_irq_fired d" "fc_irq (mach d) = None" "fc_command (mach d) = []"
    "fc_result (mach d) = []" "bit (fc_dor (mach d)) 2" "controller_idle (mach d)"
  using assms by (simp_all add: floppy_ready_def controller_idle_def)

lemma floppy_handlers_upd [simp]:
  "floppy_handlers (d\<lparr>timer_ticks := t\<rparr>) = floppy_handlers d"
  "floppy_handlers (d\<lparr>mach := c\<rparr>) = floppy_handlers d"
  "floppy_handlers (d\<lparr>fdc_irq_fired := b\<rparr>) = floppy_handlers d"
  "floppy_handlers (dprintf m d) = floppy_handlers d"
  by (simp_all add: floppy_handlers_def dprintf_def)

lemma floppy_ready_upd [simp]:
  "floppy_ready (d\<lparr>timer_ticks := t\<rparr>) = floppy_ready d"
  "floppy_ready (dprintf m d) = floppy_ready d"
  by (simp_all add: floppy_ready_def, simp add: dprintf_def)

lemma floppy_ready_mach: "floppy_ready d \<Longrightarrow> controller_idle c \<Longrightarrow> floppy_ready (d\<lparr>mach := c\<rparr>)"
  by (simp add: floppy_ready_def)

lemma dor_bits [simp]: "bit (0x1C :: u8) 2" "bit (0x0C :: u8) 2"
  by (simp_all add: bit_iff_odd)

lemma controller_idle_upd [simp]:
  "controller_idle (c\<lparr>fc_track := t\<rparr>) = controller_idle c"
  "controller_idle (c\<lparr>fc_channel := h\<rparr>) = controller_idle c"
  "controller_idle (c\<lparr>fc_memory := m\<rparr>) = controller_idle c"
  "controller_idle (c\<lparr>fc_disk := k\<rparr>) = controller_idle c"
  "controller_idle c \<Longrightarrow> controller_idle (c\<lparr>fc_dor := 0x1C\<rparr>)"
  "controller_idle c \<Longrightarrow> controller_idle (c\<lparr>fc_dor := 0x0C\<rparr>)"
  by (simp_all add: controller_idle_def)

lemma controller_idle_again:
  "fc_command c = [] \<Longrightarrow> bit (fc_dor c) 2 \<Longrightarrow> controller_idle (c\<lparr>fc_irq := None, fc_result := []\<rparr>)"
  by (simp add: controller_idle_def)

section \<open>Motor, recalibrate, seek\<close>

lemma motor_on_floppy:
  assumes "floppy_ready d"
  shows "fdc_motor (floppy_machine bd buffer latency) 0 True d =
    Some (d\<lparr>timer_ticks := timer_ticks d + 300, mach := (mach d)\<lparr>fc_dor := 0x1C\<rparr>\<rparr>)"
proof -
  note r = floppy_readyD [OF assms]
  have "out_port (floppy_machine bd buffer latency) FDC_DOR 0x1C d = d\<lparr>mach := (mach d)\<lparr>fc_dor := 0x1C\<rparr>\<rparr>"
    using r(6) by (simp add: out_port_def floppy_machine_def controller_out_def)
  then show ?thesis
    using sleep_floppy [of "d\<lparr>mach := (mach d)\<lparr>fc_dor := 0x1C\<rparr>\<rparr>" 300 bd buffer latency] r(1,3)
    by (simp add: fdc_motor_def)
qed

lemma motor_off_floppy:
  assumes "bit (fc_dor (mach d)) 2"
  shows "fdc_motor (floppy_machine bd buffer latency) 0 False d = Some (d\<lparr>mach := (mach d)\<lparr>fc_dor := 0x0C\<rparr>\<rparr>)"
  using assms by (simp add: fdc_motor_def out_port_def floppy_machine_def controller_out_def)

lemma sense_floppy:
  assumes "fc_result (mach d) = []" and "fc_command (mach d) = []"
  shows "fdc_sense_interrupt (floppy_machine bd buffer latency) d = ((0x20, fc_track (mach d)), d)"
proof -
  have "fdc_write (floppy_machine bd buffer latency) 8 d =
      d\<lparr>mach := (mach d)\<lparr>fc_result := [0x20, fc_track (mach d)]\<rparr>\<rparr>"
    using command_floppy [OF assms, of "[8]" bd buffer latency] assms(2)
    by (simp add: command_length_def fdc_write_all_def execute_def Let_def)
  then show ?thesis
    using read_floppy [of "d\<lparr>mach := (mach d)\<lparr>fc_result := [0x20, fc_track (mach d)]\<rparr>\<rparr>" "0x20" "[fc_track (mach d)]"]
      read_floppy [of "d\<lparr>mach := (mach d)\<lparr>fc_result := [fc_track (mach d)]\<rparr>\<rparr>" "fc_track (mach d)" "[]"] assms(1)
    by (simp add: fdc_sense_interrupt_def)
qed

lemma seek_floppy:
  assumes "floppy_ready d" and "latency \<le> 2000"
  shows "\<exists>t. fdc_seek (floppy_machine bd buffer latency) 0 cyl head d =
    Some (0, d\<lparr>timer_ticks := t, mach := (mach d)\<lparr>fc_track := cyl, fc_dor := 0x0C\<rparr>\<rparr>)"
proof -
  note r = floppy_readyD [OF assms(1)]
  let ?d1 = "d\<lparr>timer_ticks := timer_ticks d + 300, mach := (mach d)\<lparr>fc_dor := 0x1C\<rparr>\<rparr>"
  let ?d2 = "?d1\<lparr>mach := (mach ?d1)\<lparr>fc_track := cyl, fc_irq := Some latency\<rparr>\<rparr>"
  let ?d3 = "?d2\<lparr>timer_ticks := timer_ticks ?d2 + of_nat latency, mach := (mach ?d2)\<lparr>fc_irq := None\<rparr>\<rparr>"
  have "fdc_write_all (floppy_machine bd buffer latency) [0x0F, push_bit 2 head OR 0, cyl] ?d1 = ?d2"
    using command_floppy [of ?d1 "[0x0F, push_bit 2 head OR 0, cyl]"] r(4,5)
    by (simp add: command_length_def execute_def Let_def)
  moreover have "wait_for_fdc_irq (floppy_machine bd buffer latency) 2000 ?d2 = Some (0, ?d3)"
    using wait_floppy [of ?d2 latency] r(1,2) assms(2) by simp
  ultimately show ?thesis
    using motor_on_floppy [OF assms(1), of bd buffer latency] sense_floppy [of ?d3 bd buffer latency]
      motor_off_floppy [of ?d3 bd buffer latency] r(3,4,5)
    by (intro exI [of _ "timer_ticks ?d3"]) (simp add: fdc_seek_def)
qed

lemma recalibrate_floppy:
  assumes "floppy_ready d" and "latency \<le> 2000"
  shows "\<exists>t. fdc_recalibrate (floppy_machine bd buffer latency) 0 d =
    Some (0, d\<lparr>timer_ticks := t, mach := (mach d)\<lparr>fc_track := 0, fc_dor := 0x0C\<rparr>\<rparr>)"
proof -
  note r = floppy_readyD [OF assms(1)]
  let ?d1 = "d\<lparr>timer_ticks := timer_ticks d + 300, mach := (mach d)\<lparr>fc_dor := 0x1C\<rparr>\<rparr>"
  let ?d2 = "?d1\<lparr>mach := (mach ?d1)\<lparr>fc_track := 0, fc_irq := Some latency\<rparr>\<rparr>"
  let ?d3 = "?d2\<lparr>timer_ticks := timer_ticks ?d2 + of_nat latency, mach := (mach ?d2)\<lparr>fc_irq := None\<rparr>\<rparr>"
  have "fdc_write_all (floppy_machine bd buffer latency) [0x07, 0] ?d1 = ?d2"
    using command_floppy [of ?d1 "[0x07, 0]"] r(4,5)
    by (simp add: command_length_def execute_def Let_def)
  moreover have "wait_for_fdc_irq (floppy_machine bd buffer latency) 2000 ?d2 = Some (0, ?d3)"
    using wait_floppy [of ?d2 latency] r(1,2) assms(2) by simp
  ultimately show ?thesis
    using motor_on_floppy [OF assms(1), of bd buffer latency] sense_floppy [of ?d3 bd buffer latency]
      motor_off_floppy [of ?d3 bd buffer latency] r(3,4,5)
    by (intro exI [of _ "timer_ticks ?d3"]) (simp add: fdc_recalibrate_def)
qed

section \<open>Reset\<close>

text \<open>A reset needs no idle controller: it makes one.\<close>

lemma fold_sense:
  assumes "fc_result (mach d) = []" and "fc_command (mach d) = []"
  shows "fold (\<lambda>i d. snd (fdc_sense_interrupt (floppy_machine bd buffer latency) d)) is d = d"
  by (induction "is") (simp_all add: sense_floppy [OF assms])

lemma reset_floppy:
  assumes "floppy_handlers d" and "latency \<le> 2000"
  shows "\<exists>t ch. fdc_reset (floppy_machine bd buffer latency) d = Some (d\<lparr>fdc_irq_fired := False, timer_ticks := t,
    mach := (mach d)\<lparr>fc_dor := 0x0C, fc_command := [], fc_result := [], fc_irq := None, fc_channel := ch\<rparr>\<rparr>)"
proof -
  let ?c1 = "(mach d)\<lparr>fc_dor := 0, fc_command := [], fc_result := [], fc_irq := None\<rparr>"
  let ?d1 = "d\<lparr>fdc_irq_fired := False, mach := ?c1\<rparr>"
  let ?d2 = "?d1\<lparr>timer_ticks := timer_ticks d + 10\<rparr>"
  let ?d3 = "?d2\<lparr>mach := (mach ?d2)\<lparr>fc_dor := 0x0C, fc_irq := Some latency\<rparr>\<rparr>"
  let ?d4 = "?d3\<lparr>timer_ticks := timer_ticks ?d3 + of_nat latency, mach := (mach ?d3)\<lparr>fc_irq := None\<rparr>\<rparr>"
  let ?d5 = "?d4\<lparr>mach := (mach ?d4)\<lparr>fc_channel := dma_out FDC_CCR 0 (fc_channel (mach d))\<rparr>\<rparr>"
  have one: "out_port (floppy_machine bd buffer latency) FDC_DOR 0 (d\<lparr>fdc_irq_fired := False\<rparr>) = ?d1"
    by (simp add: out_port_def floppy_machine_def controller_out_def Let_def)
  have two: "sleep_ms (floppy_machine bd buffer latency) 10 ?d1 = Some ?d2"
    using sleep_floppy [of ?d1 10 bd buffer latency] assms(1) by simp
  have three: "out_port (floppy_machine bd buffer latency) FDC_DOR 0x0C ?d2 = ?d3"
    by (simp add: out_port_def floppy_machine_def controller_out_def Let_def)
  have four: "wait_for_fdc_irq (floppy_machine bd buffer latency) 2000 ?d3 = Some (0, ?d4)"
    using wait_floppy [of ?d3 latency] assms by simp
  have polls: "fold (\<lambda>i d. snd (fdc_sense_interrupt (floppy_machine bd buffer latency) d)) [0..<4] ?d4 = ?d4"
    by (rule fold_sense) simp_all
  have five: "out_port (floppy_machine bd buffer latency) FDC_CCR 0 ?d4 = ?d5"
    by (simp add: out_port_def floppy_machine_def controller_out_def)
  have six: "fdc_write_all (floppy_machine bd buffer latency) [0x03, 0xDF, 0x02] ?d5 = ?d5"
    using command_floppy [of ?d5 "[0x03, 0xDF, 0x02]"] by (simp add: command_length_def execute_def Let_def)
  have "fdc_reset (floppy_machine bd buffer latency) d = Some ?d5"
    unfolding fdc_reset_def take_floppy Option.bind_lunit Let_def one two three four prod.case polls five six ..
  then show ?thesis by (intro exI [of _ "timer_ticks ?d5"] exI [of _ "fc_channel (mach ?d5)"]) simp
qed

section \<open>A transfer\<close>

text \<open>The channel is programmed for the buffer.\<close>

lemma fold_controller_out:
  assumes "\<And>p b. (p, b) \<in> set pbs \<Longrightarrow> p \<noteq> FDC_DOR \<and> p \<noteq> FDC_FIFO"
  shows "fold (\<lambda>(p, b). controller_out bd buffer latency p b) pbs c =
    c\<lparr>fc_channel := fold (\<lambda>(p, b). dma_out p b) pbs (fc_channel c)\<rparr>"
  using assms
proof (induction pbs arbitrary: c)
  case (Cons pb pbs)
  obtain p b where pb: "pb = (p, b)" by (cases pb)
  have "controller_out bd buffer latency p b c = c\<lparr>fc_channel := dma_out p b (fc_channel c)\<rparr>"
    using Cons.prems [of p b] pb by (simp add: controller_out_def)
  moreover have "fold (\<lambda>(p, b). controller_out bd buffer latency p b) pbs c' =
      c'\<lparr>fc_channel := fold (\<lambda>(p, b). dma_out p b) pbs (fc_channel c')\<rparr>" for c'
    by (rule Cons.IH) (use Cons.prems in auto)
  ultimately show ?case using pb by simp
qed simp

lemma out_ports_mach: "out_ports M pbs d = d\<lparr>mach := fold (\<lambda>(p, b). p_outb (m_ports M) p b) pbs (mach d)\<rparr>"
  unfolding out_ports_def by (induction pbs arbitrary: d) (auto simp: out_port_def)

definition buffer_channel :: "u32 \<Rightarrow> u8 \<Rightarrow> dma_channel" where
  "buffer_channel buffer mode = \<lparr>ch_high = False, ch_addr = ucast buffer, ch_count = 511,
     ch_page = ucast (drop_bit 16 buffer), ch_mode = mode, ch_masked = False\<rparr>"

lemma buffer_channel_ready [simp]:
  "channel_ready bd buffer t (buffer_channel buffer mode) \<longleftrightarrow> moves bd mode t"
  by (simp add: channel_ready_def buffer_channel_def)

lemma dma_program_floppy:
  assumes "mode AND 3 = 2"
  shows "out_ports (floppy_machine bd buffer latency) (dma_program buffer 511 mode) d =
    d\<lparr>mach := (mach d)\<lparr>fc_channel := buffer_channel buffer mode\<rparr>\<rparr>"
proof -
  have "fold (\<lambda>(p, b). controller_out bd buffer latency p b) (dma_program buffer 511 mode) (mach d) =
      (mach d)\<lparr>fc_channel := buffer_channel buffer mode\<rparr>"
    using fold_dma_program [OF assms, of buffer 511 "fc_channel (mach d)"]
    by (subst fold_controller_out) (auto simp: dma_program_def FDC_DOR_def FDC_FIFO_def buffer_channel_def)
  then show ?thesis by (simp add: out_ports_mach floppy_machine_def)
qed

text \<open>What a transfer leaves on the disk and in the buffer.\<close>

definition transferred :: "bool \<Rightarrow> u8 \<times> u8 \<times> u8 \<Rightarrow> controller \<Rightarrow> controller" where
  "transferred w chs c =
     (if w then c\<lparr>fc_disk := (fc_disk c)(chs := fc_memory c)\<rparr> else c\<lparr>fc_memory := fc_disk c chs\<rparr>)"

lemma serves_command [simp]: "serves bd (c\<lparr>fc_command := cmd\<rparr>) chs = serves bd c chs"
  by (simp add: serves_def)

text \<open>The read or write command, from its first byte to the last result byte.\<close>

definition transfer_command :: "bool \<Rightarrow> u8 \<Rightarrow> u8 \<Rightarrow> u8 \<Rightarrow> bytes" where
  "transfer_command w cyl head sec =
     [if w then 0x45 else 0x46, push_bit 2 head OR 0, cyl, head, sec, 2, 18, 0x1B, 0xFF]"

text \<open>What stops a transfer: nothing, the sector (04 in ST1) or the channel (10 in ST1).\<close>

definition transfer_fault :: "board \<Rightarrow> u32 \<Rightarrow> bool \<Rightarrow> u8 \<times> u8 \<times> u8 \<Rightarrow> controller \<Rightarrow> u8 option" where
  "transfer_fault bd buffer w chs c =
     (if \<not> serves bd c chs then Some 0x04
      else if \<not> channel_ready bd buffer (if w then From_memory else To_memory) (fc_channel c) then Some 0x10
      else None)"

definition transfer_result :: "u8 option \<Rightarrow> u8 \<Rightarrow> u8 \<Rightarrow> u8 \<Rightarrow> bytes" where
  "transfer_result fault cyl head sec =
     (case fault of None \<Rightarrow> [push_bit 2 head AND 0x07, 0, 0] | Some st1 \<Rightarrow> [0x40, st1, 0]) @ [cyl, head, sec, 2]"

lemma transfer_result_simps [simp]:
  "length (transfer_result fault cyl head sec) = 7"
  "transfer_result fault cyl head sec ! 0 AND 0xC0 = (if fault = None then 0 else 0x40)"
  by (simp_all add: transfer_result_def and.assoc split: option.split)

text \<open>The controller and its result after a transfer with or without a fault.\<close>

definition after_command :: "u8 option \<Rightarrow> bool \<Rightarrow> u8 \<times> u8 \<times> u8 \<Rightarrow> controller \<Rightarrow> controller" where
  "after_command fault w chs c = (if fault = None then transferred w chs c else c)"

lemma after_command_fields [simp]:
  "fc_irq (after_command fault w chs c) = fc_irq c" "fc_result (after_command fault w chs c) = fc_result c"
  "fc_dor (after_command fault w chs c) = fc_dor c" "fc_command (after_command fault w chs c) = fc_command c"
  by (simp_all add: after_command_def transferred_def)

lemma execute_transfer:
  assumes "fc_command c = []" and "fc_track c = cyl"
  shows "execute bd buffer latency (c\<lparr>fc_command := transfer_command w cyl head sec\<rparr>) =
    (after_command (transfer_fault bd buffer w (cyl, head, sec) c) w (cyl, head, sec) c)
      \<lparr>fc_result := transfer_result (transfer_fault bd buffer w (cyl, head, sec) c) cyl head sec, fc_irq := Some latency\<rparr>"
  using assms
  by (cases w) (simp_all add: execute_def transferred_def transfer_command_def transfer_result_def
      after_command_def transfer_fault_def Let_def)

lemma transfer_command_floppy:
  fixes cyl head sec :: u8 and bd :: board and buffer :: u32 and w :: bool and c :: controller
  assumes "floppy_ready d" and "latency \<le> 2000" and "mach d = c" and "fc_track c = cyl"
  defines "fault \<equiv> transfer_fault bd buffer w (cyl, head, sec) c"
  shows "\<exists>t. wait_for_fdc_irq (floppy_machine bd buffer latency) 2000
      (fdc_write_all (floppy_machine bd buffer latency) (transfer_command w cyl head sec) d) =
    Some (0, d\<lparr>timer_ticks := t, mach := (after_command fault w (cyl, head, sec) c)
      \<lparr>fc_result := transfer_result fault cyl head sec\<rparr>\<rparr>)
    \<and> fdc_read_all (floppy_machine bd buffer latency) 7
      (d\<lparr>timer_ticks := t, mach := (after_command fault w (cyl, head, sec) c)
        \<lparr>fc_result := transfer_result fault cyl head sec\<rparr>\<rparr>) =
    (transfer_result fault cyl head sec, d\<lparr>timer_ticks := t, mach := after_command fault w (cyl, head, sec) c\<rparr>)"
proof -
  let ?M = "floppy_machine bd buffer latency"
  note r = floppy_readyD [OF assms(1), unfolded assms(3)]
  let ?cmd = "transfer_command w cyl head sec" and ?res = "transfer_result fault cyl head sec"
  let ?c = "after_command fault w (cyl, head, sec) c"
  let ?d1 = "d\<lparr>mach := ?c\<lparr>fc_result := ?res, fc_irq := Some latency\<rparr>\<rparr>"
  let ?d2 = "d\<lparr>timer_ticks := timer_ticks d + of_nat latency, mach := ?c\<lparr>fc_result := ?res\<rparr>\<rparr>"
  have op: "hd ?cmd AND 0x1F = (if w then 0x05 else 0x06)" by (simp add: transfer_command_def)
  have "length ?cmd = command_length (hd ?cmd)"
    unfolding command_length_def op by (simp add: transfer_command_def)
  then have command: "fdc_write_all ?M ?cmd d = ?d1"
    using r(4,5) assms(3) command_floppy [of d ?cmd bd buffer latency] execute_transfer [OF r(4) assms(4)]
    by (simp add: fault_def)
  have c: "fc_irq ?c = None" "fc_result ?c = []" using r(3,5) by simp_all
  have wait: "wait_for_fdc_irq ?M 2000 ?d1 = Some (0, ?d2)"
    using wait_floppy [of ?d1 latency] r(1,2) assms(2) c by simp
  have "fdc_read_all ?M 7 ?d2 = (?res, d\<lparr>timer_ticks := timer_ticks d + of_nat latency, mach := ?c\<rparr>)"
    using read_all_floppy [of ?d2 ?res bd buffer latency] c(2) by simp
  then show ?thesis
    unfolding command wait by (intro exI [of _ "timer_ticks d + of_nat latency"]) simp
qed

text \<open>
  When the board makes the transfers of a read or a write: the driver programs the channel with mode
  4A for a read and 46 for a write, and sends the command with the motor off.
\<close>

definition board_does :: "board \<Rightarrow> bool \<Rightarrow> bool" where
  "board_does bd w \<longleftrightarrow> \<not> needs_motor bd \<and> moves bd (if w then 0x46 else 0x4A) (if w then From_memory else To_memory)"

lemma board_does_documented [simp]: "\<not> board_does (documented_board motor) w"
  by (simp add: board_does_def documented_board_def i8237_moves_def)

lemma board_does_obliging [simp]: "board_does obliging_board w"
  by (simp add: board_does_def obliging_board_def obliging_moves_def moves_upwards_def bit_iff_odd)

lemma transfer_floppy:
  fixes w :: bool and cyl :: u8
  assumes "floppy_ready d" and "latency \<le> 2000" and "dma_buffer_ok syms"
  defines "mode \<equiv> if w then DMA_MODE_READ else DMA_MODE_WRITE"
  defines "c \<equiv> (mach d)\<lparr>fc_channel := buffer_channel (sym_dma_buffer syms) mode, fc_track := cyl, fc_dor := 0x0C\<rparr>"
  shows "\<exists>t m. fdc_transfer (floppy_machine bd (sym_dma_buffer syms) latency) syms 0 cyl head sec w d =
    Some (if board_does bd w \<and> on_disk (cyl, head, sec)
      then (0, d\<lparr>timer_ticks := t, mach := transferred w (cyl, head, sec) c\<rparr>)
      else (-3, dprintf m (d\<lparr>timer_ticks := t, mach := c\<rparr>)))"
proof -
  note r = floppy_readyD [OF assms(1)]
  let ?M = "floppy_machine bd (sym_dma_buffer syms) latency"
  let ?ch = "buffer_channel (sym_dma_buffer syms) mode"
  let ?d1 = "d\<lparr>mach := (mach d)\<lparr>fc_channel := ?ch\<rparr>\<rparr>"
  have mode: "mode AND 3 = 2" by (simp add: mode_def DMA_MODE_READ_def DMA_MODE_WRITE_def)
  have dma: "floppy_dma_init ?M (sym_dma_buffer syms) 512 mode d = Some ?d1"
    using dma_init_ok [OF assms(3), of ?M mode d] dma_program_floppy [OF mode] by simp
  have ready1: "floppy_ready ?d1" using assms(1) by (simp add: floppy_ready_def)
  let ?d2 = "?d1\<lparr>timer_ticks := timer_ticks d + 300, mach := (mach ?d1)\<lparr>fc_dor := 0x1C\<rparr>\<rparr>"
  have motor: "fdc_motor ?M 0 True ?d1 = Some ?d2" using motor_on_floppy [OF ready1, of bd "sym_dma_buffer syms" latency] by simp
  have ready2: "floppy_ready ?d2" using ready1 by (simp add: floppy_ready_def)
  obtain t where seek: "fdc_seek ?M 0 cyl head ?d2 = Some (0, d\<lparr>timer_ticks := t, mach := c\<rparr>)"
    using seek_floppy [OF ready2 assms(2), of bd "sym_dma_buffer syms" cyl head] by (auto simp: c_def)
  let ?d3 = "d\<lparr>timer_ticks := t, mach := c\<rparr>"
  have ready3: "floppy_ready ?d3" using assms(1) by (simp add: floppy_ready_def c_def)
  let ?fault = "transfer_fault bd (sym_dma_buffer syms) w (cyl, head, sec) c"
  let ?res = "transfer_result ?fault cyl head sec" and ?c4 = "after_command ?fault w (cyl, head, sec) c"
  obtain u where wait: "wait_for_fdc_irq ?M 2000 (fdc_write_all ?M (transfer_command w cyl head sec) ?d3) =
      Some (0, ?d3\<lparr>timer_ticks := u, mach := ?c4\<lparr>fc_result := ?res\<rparr>\<rparr>)"
    and read: "fdc_read_all ?M 7 (?d3\<lparr>timer_ticks := u, mach := ?c4\<lparr>fc_result := ?res\<rparr>\<rparr>) =
      (?res, ?d3\<lparr>timer_ticks := u, mach := ?c4\<rparr>)"
    using transfer_command_floppy [OF ready3 assms(2), of c cyl bd "sym_dma_buffer syms" w head sec] by (auto simp: c_def)
  let ?d4 = "?d3\<lparr>timer_ticks := u, mach := ?c4\<rparr>"
  have off: "fdc_motor ?M 0 False ?d4 = Some ?d4"
    using motor_off_floppy [of ?d4 bd "sym_dma_buffer syms" latency] by (simp add: c_def)
  have ok: "?fault = None \<longleftrightarrow> board_does bd w \<and> on_disk (cyl, head, sec)"
    by (auto simp: transfer_fault_def serves_def c_def bit_iff_odd mode_def board_does_def
        DMA_MODE_READ_def DMA_MODE_WRITE_def)
  have zero: "(0::int) < 0 \<longleftrightarrow> False" by simp
  let ?msg = "Kmsg ''FDC error: ST0=0x%02X ST1=0x%02X ST2=0x%02X\<newline>''
    [uint (?res ! 0), uint (?res ! 1), uint (?res ! 2)] []"
  have "fdc_transfer ?M syms 0 cyl head sec w d =
      (if ?res ! 0 AND 0xC0 \<noteq> 0 then Some (-3, dprintf ?msg ?d4) else Some (0, ?d4))"
    unfolding fdc_transfer_def Let_def mode_def [symmetric] dma Option.bind_lunit motor seek prod.case
      zero if_False wait [unfolded transfer_command_def] read off ..
  then show ?thesis
    unfolding transfer_result_simps by (intro exI [of _ u] exI [of _ ?msg]) (simp add: ok after_command_def)
qed

section \<open>Sectors\<close>

lemma floppy_ready_reset:
  assumes "floppy_handlers d"
  shows "floppy_ready (d\<lparr>fdc_irq_fired := False, timer_ticks := t,
    mach := c\<lparr>fc_dor := 0x0C, fc_command := [], fc_result := [], fc_irq := None, fc_channel := ch\<rparr>\<rparr>)"
  using assms by (simp add: floppy_ready_def controller_idle_def)

lemma floppy_ready_transferred:
  assumes "floppy_ready d"
  shows "floppy_ready (d\<lparr>timer_ticks := t, mach := transferred w chs ((mach d)\<lparr>fc_channel := ch, fc_track := cyl, fc_dor := 0x0C\<rparr>)\<rparr>)"
    and "floppy_handlers (dprintf m (d\<lparr>timer_ticks := t, mach := c\<rparr>))"
  using floppy_readyD [OF assms] by (simp_all add: floppy_ready_def transferred_def)

text \<open>A failed attempt leaves a ready controller and the same disk and buffer.\<close>

lemma failed_transfer_floppy:
  assumes "floppy_ready d" and "latency \<le> 2000" and "dma_buffer_ok syms"
    and "\<not> (board_does bd w \<and> on_disk (cyl, head, sec))"
  obtains e d' where "fdc_transfer (floppy_machine bd (sym_dma_buffer syms) latency) syms 0 cyl head sec w d = Some (-3, e)"
    and "fdc_reset (floppy_machine bd (sym_dma_buffer syms) latency) e = Some d'" and "floppy_ready d'"
    and "fc_disk (mach d') = fc_disk (mach d)"
proof -
  define c where "c = (mach d)\<lparr>fc_channel := buffer_channel (sym_dma_buffer syms)
    (if w then DMA_MODE_READ else DMA_MODE_WRITE), fc_track := cyl, fc_dor := 0x0C\<rparr>"
  obtain t m where tr: "fdc_transfer (floppy_machine bd (sym_dma_buffer syms) latency) syms 0 cyl head sec w d =
      Some (-3, dprintf m (d\<lparr>timer_ticks := t, mach := c\<rparr>))"
    using transfer_floppy [OF assms(1-3), of bd cyl head sec w] assms(4)
    unfolding c_def [symmetric] if_not_P [OF assms(4)] by blast
  let ?e = "dprintf m (d\<lparr>timer_ticks := t, mach := c\<rparr>)"
  have h: "floppy_handlers ?e" by (rule floppy_ready_transferred(2) [OF assms(1)])
  obtain u ch where "fdc_reset (floppy_machine bd (sym_dma_buffer syms) latency) ?e =
      Some (?e\<lparr>fdc_irq_fired := False, timer_ticks := u,
        mach := (mach ?e)\<lparr>fc_dor := 0x0C, fc_command := [], fc_result := [], fc_irq := None, fc_channel := ch\<rparr>\<rparr>)"
    using reset_floppy [OF h assms(2)] by blast
  from that [OF tr this floppy_ready_reset [OF h]] show thesis by (simp add: dprintf_def c_def)
qed

lemma read_attempts_fail:
  assumes "latency \<le> 2000" and "dma_buffer_ok syms" and "\<not> (board_does bd False \<and> on_disk (cyl, head, sec))"
  shows "floppy_ready d \<Longrightarrow> \<exists>d'. read_attempts (floppy_machine bd (sym_dma_buffer syms) latency) syms cyl head sec n buf d =
    Some ((-1, buf), d') \<and> floppy_ready d' \<and> fc_disk (mach d') = fc_disk (mach d)"
proof (induction n arbitrary: d)
  case (Suc n)
  obtain e f where f: "fdc_transfer (floppy_machine bd (sym_dma_buffer syms) latency) syms 0 cyl head sec False d = Some (-3, e)"
    "fdc_reset (floppy_machine bd (sym_dma_buffer syms) latency) e = Some f" "floppy_ready f" "fc_disk (mach f) = fc_disk (mach d)"
    by (rule failed_transfer_floppy [OF Suc.prems assms])
  with Suc.IH [OF f(3)] show ?case by auto
qed simp

lemma write_attempts_fail:
  assumes "latency \<le> 2000" and "dma_buffer_ok syms" and "\<not> (board_does bd True \<and> on_disk (cyl, head, sec))"
  shows "floppy_ready d \<Longrightarrow> \<exists>d'. write_attempts (floppy_machine bd (sym_dma_buffer syms) latency) syms cyl head sec n d =
    Some (-1, d') \<and> floppy_ready d' \<and> fc_disk (mach d') = fc_disk (mach d)"
proof (induction n arbitrary: d)
  case (Suc n)
  obtain e f where f: "fdc_transfer (floppy_machine bd (sym_dma_buffer syms) latency) syms 0 cyl head sec True d = Some (-3, e)"
    "fdc_reset (floppy_machine bd (sym_dma_buffer syms) latency) e = Some f" "floppy_ready f" "fc_disk (mach f) = fc_disk (mach d)"
    by (rule failed_transfer_floppy [OF Suc.prems assms])
  with Suc.IH [OF f(3)] show ?case by auto
qed simp

text \<open>The disk of the controller by block number.\<close>

definition disk_sectors :: "controller \<Rightarrow> image" where
  "disk_sectors c = (\<lambda>lba. fc_disk c (chs_of_lba lba))"

definition disk_reachable :: "board \<Rightarrow> bool \<Rightarrow> u32 \<Rightarrow> bool" where
  "disk_reachable bd w lba \<longleftrightarrow> board_does bd w \<and> on_disk (chs_of_lba lba)"

lemma read_sector_floppy:
  assumes "floppy_ready d" and "latency \<le> 2000" and "dma_buffer_ok syms"
    and "length buf = 512" and "wf_image (disk_sectors (mach d))"
  shows "\<exists>d'. fdc_read_sector (floppy_machine bd (sym_dma_buffer syms) latency) syms lba buf d =
    Some (if disk_reachable bd False lba then (0, disk_sectors (mach d) lba) else (-1, buf), d')
    \<and> floppy_ready d' \<and> fc_disk (mach d') = fc_disk (mach d)"
proof -
  let ?M = "floppy_machine bd (sym_dma_buffer syms) latency"
  obtain cyl head sec where chs: "chs_of_lba lba = (cyl, head, sec)" by (cases "chs_of_lba lba")
  show ?thesis
  proof (cases "disk_reachable bd False lba")
    case False
    then have "\<not> (board_does bd False \<and> on_disk (cyl, head, sec))" using chs by (simp add: disk_reachable_def)
    from read_attempts_fail [OF assms(2,3) this assms(1), of 3 buf] show ?thesis
      using False chs by (simp add: fdc_read_sector_def)
  next
    case True
    let ?s = "disk_sectors (mach d) lba"
    have s: "fc_disk (mach d) (cyl, head, sec) = ?s" "length ?s = 512"
      using chs wf_image_length [OF assms(5), of lba] by (simp_all add: disk_sectors_def)
    define c where "c = (mach d)\<lparr>fc_channel := buffer_channel (sym_dma_buffer syms) DMA_MODE_WRITE, fc_track := cyl, fc_dor := 0x0C\<rparr>"
    obtain t where t: "fdc_transfer ?M syms 0 cyl head sec False d =
        Some (0, d\<lparr>timer_ticks := t, mach := transferred False (cyl, head, sec) c\<rparr>)"
      using transfer_floppy [OF assms(1-3), of bd cyl head sec False] True chs
      by (auto simp: disk_reachable_def c_def)
    have "read_attempts ?M syms cyl head sec 3 buf d =
        Some ((0, ?s), d\<lparr>timer_ticks := t, mach := transferred False (cyl, head, sec) c\<rparr>)"
      using t assms(4) s by (simp add: numeral_3_eq_3 floppy_machine_def transferred_def c_def put_bytes_def)
    moreover have "floppy_ready (d\<lparr>timer_ticks := t, mach := transferred False (cyl, head, sec) c\<rparr>)"
      unfolding c_def by (rule floppy_ready_transferred(1) [OF assms(1)])
    ultimately show ?thesis
      using True chs by (simp add: fdc_read_sector_def c_def transferred_def)
  qed
qed

lemma write_sector_floppy:
  assumes "floppy_ready d" and "latency \<le> 2000" and "dma_buffer_ok syms" and "length buf = 512"
  shows "\<exists>d'. fdc_write_sector (floppy_machine bd (sym_dma_buffer syms) latency) syms lba buf d =
    Some (if disk_reachable bd True lba then 0 else -1, d') \<and> floppy_ready d'
    \<and> fc_disk (mach d') = (if disk_reachable bd True lba then (fc_disk (mach d))(chs_of_lba lba := buf) else fc_disk (mach d))"
proof -
  let ?M = "floppy_machine bd (sym_dma_buffer syms) latency"
  obtain cyl head sec where chs: "chs_of_lba lba = (cyl, head, sec)" by (cases "chs_of_lba lba")
  let ?d = "d\<lparr>mach := (mach d)\<lparr>fc_memory := buf\<rparr>\<rparr>"
  have ready: "floppy_ready ?d" using assms(1) by (simp add: floppy_ready_def)
  have start: "fdc_write_sector ?M syms lba buf d = write_attempts ?M syms cyl head sec 3 ?d"
    using chs assms(4) by (simp add: fdc_write_sector_def floppy_machine_def)
  show ?thesis
  proof (cases "disk_reachable bd True lba")
    case False
    then have "\<not> (board_does bd True \<and> on_disk (cyl, head, sec))" using chs by (simp add: disk_reachable_def)
    from write_attempts_fail [OF assms(2,3) this ready, of 3] show ?thesis
      using False start by simp
  next
    case True
    define c where "c = (mach ?d)\<lparr>fc_channel := buffer_channel (sym_dma_buffer syms) DMA_MODE_READ, fc_track := cyl, fc_dor := 0x0C\<rparr>"
    obtain t where t: "fdc_transfer ?M syms 0 cyl head sec True ?d =
        Some (0, ?d\<lparr>timer_ticks := t, mach := transferred True (cyl, head, sec) c\<rparr>)"
      using transfer_floppy [OF ready assms(2,3), of bd cyl head sec True] True chs
      by (auto simp: disk_reachable_def c_def)
    have "write_attempts ?M syms cyl head sec 3 ?d =
        Some (0, ?d\<lparr>timer_ticks := t, mach := transferred True (cyl, head, sec) c\<rparr>)"
      using t by (simp add: numeral_3_eq_3)
    moreover have "floppy_ready (?d\<lparr>timer_ticks := t, mach := transferred True (cyl, head, sec) c\<rparr>)"
      unfolding c_def by (rule floppy_ready_transferred(1) [OF ready])
    ultimately show ?thesis
      using True chs start by (intro exI [of _ "?d\<lparr>timer_ticks := t, mach := transferred True (cyl, head, sec) c\<rparr>"])
        (simp add: c_def transferred_def)
  qed
qed

lemma init_floppy:
  assumes "handlers d ! 32 = Some Timer_callback" and "length (handlers d) = 256" and "latency \<le> 2000"
  shows "\<exists>d'. fdc_init (floppy_machine bd buffer latency) d = Some (0, d') \<and> floppy_ready d'
    \<and> fc_disk (mach d') = fc_disk (mach d)"
proof -
  let ?M = "floppy_machine bd buffer latency"
  let ?d = "d\<lparr>handlers := (handlers d)[38 := Some Fdc_irq_handler]\<rparr>"
  have inst: "irq_install_handler 6 Fdc_irq_handler d = Some ?d" by (simp add: irq_install_handler_def)
  have h: "floppy_handlers ?d" using assms(1,2) by (simp add: floppy_handlers_def)
  obtain t ch where r: "fdc_reset ?M ?d = Some (?d\<lparr>fdc_irq_fired := False, timer_ticks := t,
      mach := (mach ?d)\<lparr>fc_dor := 0x0C, fc_command := [], fc_result := [], fc_irq := None, fc_channel := ch\<rparr>\<rparr>)"
    using reset_floppy [OF h assms(3)] by blast
  then obtain e where e: "fdc_reset ?M ?d = Some e" "floppy_ready e" "fc_disk (mach e) = fc_disk (mach d)"
    using floppy_ready_reset [OF h, where t = t and c = "mach ?d" and ch = ch] by auto
  obtain u where u: "fdc_recalibrate ?M 0 e =
      Some (0, e\<lparr>timer_ticks := u, mach := (mach e)\<lparr>fc_track := 0, fc_dor := 0x0C\<rparr>\<rparr>)"
    using recalibrate_floppy [OF e(2) assms(3)] by blast
  have "floppy_ready (e\<lparr>timer_ticks := u, mach := (mach e)\<lparr>fc_track := 0, fc_dor := 0x0C\<rparr>\<rparr>)"
    using e(2) by (simp add: floppy_ready_def)
  then show ?thesis using inst e(1,3) u by (simp add: fdc_init_def) (simp add: dprintf_def)
qed

end
