(* ===== verification/Floppy_Files.thy ===== *)
theory Floppy_Files
  imports Driver_Refinement Floppy_Refines
begin

text \<open>
  The file system of \<open>kernel/fat12.c\<close> over the driver of \<open>i386/floppy.c\<close>: on a controller as in
  theory \<open>Floppy_Controller\<close> whose board makes the transfers under the modes the driver programs, the
  driver stores the 2880 sectors of a disk, so a session that stays on the disk runs as it does on the
  ideal drive. On a board that refuses them, as the documented one, it is a drive that fails.
\<close>

lemma on_disk_chs: "on_disk (chs_of_lba lba) \<longleftrightarrow> unat lba mod 9216 < 2880"
proof -
  obtain c h s where chs: "chs_of_lba lba = (c, h, s)" by (cases "chs_of_lba lba")
  note b = chs_of_lba_block [OF chs]
  have "unat c < 80 \<longleftrightarrow> (unat c * 2 + unat h) * 18 + (unat s - 1) < 2880"
  proof
    assume "unat c < 80"
    then have "unat c * 2 + unat h \<le> 159" using b(2) by simp
    then have "(unat c * 2 + unat h) * 18 \<le> 159 * 18" by (rule mult_le_mono1)
    then show "(unat c * 2 + unat h) * 18 + (unat s - 1) < 2880" using b(3,4) by simp
  qed simp
  then show ?thesis
    using b unfolding chs on_disk_def by (simp add: word_less_nat_alt word_le_nat_alt)
qed

text \<open>What the driver shows: the disk of the controller by block number, when it is ready.\<close>

definition floppy_idle :: "symbols \<Rightarrow> nat \<Rightarrow> controller driver \<Rightarrow> bool" where
  "floppy_idle syms latency d \<longleftrightarrow>
     floppy_ready d \<and> wf_image (disk_sectors (mach d)) \<and> dma_buffer_ok syms \<and> latency \<le> 2000"

definition floppy_serves :: "board \<Rightarrow> symbols \<Rightarrow> nat \<Rightarrow> controller driver \<Rightarrow> bool" where
  "floppy_serves bd syms latency d \<longleftrightarrow> floppy_idle syms latency d \<and> board_does bd False \<and> board_does bd True"

definition floppy_sectors :: "controller driver \<Rightarrow> image" where
  "floppy_sectors d = disk_sectors (mach d)"

definition on_floppy :: "u32 \<Rightarrow> bool" where
  "on_floppy lba \<longleftrightarrow> unat lba < 2880"

abbreviation emulated_floppy :: "board \<Rightarrow> symbols \<Rightarrow> nat \<Rightarrow> controller driver floppy_ops" where
  "emulated_floppy bd syms latency \<equiv>
     floppy_driver (floppy_machine bd (sym_dma_buffer syms) latency) syms"

interpretation floppy: sector_driver "emulated_floppy bd syms latency" "floppy_serves bd syms latency"
    floppy_sectors on_floppy for bd syms latency
proof
  fix d lba and buf :: bytes
  assume d: "floppy_serves bd syms latency d" and lba: "on_floppy lba" and buf: "length buf = 512"
  note serves = d [unfolded floppy_serves_def floppy_idle_def]
  have reach: "disk_reachable bd w lba" for w
    using lba serves by (cases w) (simp_all add: disk_reachable_def on_disk_chs on_floppy_def)
  obtain d' where r: "fdc_read_sector (floppy_machine bd (sym_dma_buffer syms) latency) syms lba buf d =
      Some ((0, floppy_sectors d lba), d')" "floppy_ready d'" "fc_disk (mach d') = fc_disk (mach d)"
    using read_sector_floppy [of d latency syms buf bd lba] serves buf reach by (auto simp: floppy_sectors_def)
  then show "\<exists>d'. floppy_read_sector (emulated_floppy bd syms latency) lba buf d = Some ((0, floppy_sectors d lba), d')
      \<and> floppy_serves bd syms latency d' \<and> (\<forall>l. on_floppy l \<longrightarrow> floppy_sectors d' l = floppy_sectors d l)"
    using serves by (auto simp: floppy_driver_def floppy_serves_def floppy_idle_def floppy_sectors_def disk_sectors_def)
  obtain e where w: "fdc_write_sector (floppy_machine bd (sym_dma_buffer syms) latency) syms lba buf d = Some (0, e)"
    "floppy_ready e" "fc_disk (mach e) = (fc_disk (mach d))(chs_of_lba lba := buf)"
    using write_sector_floppy [of d latency syms buf bd lba] serves buf reach by auto
  have "wf_image (disk_sectors (mach e))"
    using serves buf w(3) by (simp add: wf_image_def disk_sectors_def)
  moreover have "floppy_sectors e l = (if l = lba then buf else floppy_sectors d l)" if "on_floppy l" for l
    using that lba w(3)
    by (simp add: floppy_sectors_def disk_sectors_def chs_of_lba_eq_iff on_floppy_def word_unat_eq_iff)
  ultimately show "\<exists>d'. floppy_write_sector (emulated_floppy bd syms latency) lba buf d = Some (0, d')
      \<and> floppy_serves bd syms latency d'
      \<and> (\<forall>l. on_floppy l \<longrightarrow> floppy_sectors d' l = (if l = lba then buf else floppy_sectors d l))"
    using serves w by (auto simp: floppy_driver_def floppy_serves_def floppy_idle_def)
qed

section \<open>A board that refuses the transfers\<close>

text \<open>
  On a board that makes neither transfer the driver is a drive that fails: every access gives -1 and
  leaves the disk and the caller's buffer alone. So it is on the documented board, where the modes of
  the driver name the other direction.
\<close>

definition failing_floppy :: "image floppy_ops" where
  "failing_floppy = \<lparr>
     floppy_init = (\<lambda>im. Some (0, im)),
     floppy_read_sector = (\<lambda>lba buf im. if length buf = 512 then Some ((-1, buf), im) else None),
     floppy_write_sector = (\<lambda>lba buf im. if length buf = 512 then Some (-1, im) else None)\<rparr>"

definition floppy_refuses :: "board \<Rightarrow> symbols \<Rightarrow> nat \<Rightarrow> controller driver \<Rightarrow> image \<Rightarrow> bool" where
  "floppy_refuses bd syms latency d im \<longleftrightarrow>
     floppy_idle syms latency d \<and> floppy_sectors d = im \<and> \<not> board_does bd False \<and> \<not> board_does bd True"

interpretation refused: driver_refinement failing_floppy "emulated_floppy bd syms latency"
    "floppy_refuses bd syms latency" for bd syms latency
proof
  fix d im lba buf
  assume d: "floppy_refuses bd syms latency d im"
  note idle = d [unfolded floppy_refuses_def floppy_idle_def]
  have reach: "\<not> disk_reachable bd w lba" for w
    using idle by (cases w) (simp_all add: disk_reachable_def)
  show "sim (\<lambda>(r, c) (r', d). r' = r \<and> floppy_refuses bd syms latency d c)
      (floppy_read_sector failing_floppy lba buf im) (floppy_read_sector (emulated_floppy bd syms latency) lba buf d)"
    using read_sector_floppy [of d latency syms buf bd lba] idle reach
    by (fastforce simp: sim_def failing_floppy_def floppy_driver_def floppy_refuses_def floppy_idle_def
        floppy_sectors_def disk_sectors_def)
  show "sim (\<lambda>(r, c) (r', d). r' = r \<and> floppy_refuses bd syms latency d c)
      (floppy_write_sector failing_floppy lba buf im) (floppy_write_sector (emulated_floppy bd syms latency) lba buf d)"
    using write_sector_floppy [of d latency syms buf bd lba] idle reach
    by (fastforce simp: sim_def failing_floppy_def floppy_driver_def floppy_refuses_def floppy_idle_def
        floppy_sectors_def disk_sectors_def)
qed

text \<open>A drive that fails keeps its disk.\<close>

interpretation failing: driver_refinement failing_floppy failing_floppy "\<lambda>d c. d = im \<and> c = im" for im
  by unfold_locales (auto simp: sim_def failing_floppy_def)

lemma failing_keeps:
  assumes "run_calls failing_floppy cs s = Some (rs, s')"
  shows "dev s' = dev s"
proof -
  have "dev s = dev s \<and> dev s = dev s" by simp
  from simD [OF failing.run_calls_sim [OF this] assms] show ?thesis by (auto simp: follows_def)
qed

lemma session_refused:
  assumes "floppy_idle syms latency d" and "floppy_sectors d = dev s" and "run_calls failing_floppy cs s = Some (rs, s')"
    and "\<not> board_does bd False" and "\<not> board_does bd True"
  shows "\<exists>d'. run_calls (emulated_floppy bd syms latency) cs (with_dev d s) = Some (rs, with_dev d' s')
    \<and> floppy_idle syms latency d' \<and> floppy_sectors d' = floppy_sectors d"
proof -
  have "floppy_refuses bd syms latency d (dev s)" using assms by (simp add: floppy_refuses_def)
  from simD [OF refused.run_calls_sim [OF this] assms(3)] failing_keeps [OF assms(3)] assms(2) show ?thesis
    by (auto simp: follows_def floppy_refuses_def)
qed

end
