(* ===== verification/Boot.thy ===== *)
theory Boot
  imports Kernel Floppy_Files
begin

text \<open>
  The whole start of the i386 kernel, \<open>initialize_start\<close> and \<open>kernel_main\<close> of \<open>kernel/LineKernel.c\<close> with
  \<open>we_are_running\<close> of \<open>kernel/version.c\<close>, over the floppy driver: the order in which the terminal, the heap, the
  descriptor tables, the timer, the keyboard and the drive are initialised. The ports of the
  console and the machine of the floppy driver are two parameters. \<open>syscall_init\<close> is empty on i386,
  and \<open>sti\<close> has no effect on the model: interrupts come at \<open>hlt\<close> and before shared variables.
\<close>

section \<open>The start\<close>

definition VERSION :: string where
  "VERSION = ''0.1.0.983''"

definition ARCH :: string where
  "ARCH = ''i386''"

definition say :: "'h port_ops \<Rightarrow> string \<Rightarrow> ('d, 'h) kernel \<Rightarrow> ('d, 'h) kernel option" where
  "say P str = on_terminal (terminal_writestring P (literal str))"

definition on_driver :: "('c driver \<Rightarrow> 'c driver) \<Rightarrow> ('c driver, 'h) kernel \<Rightarrow> ('c driver, 'h) kernel" where
  "on_driver f k = k\<lparr>files := (files k)\<lparr>dev := f (dev (files k))\<rparr>\<rparr>"

definition we_are_running :: "'h port_ops \<Rightarrow> ('d, 'h) kernel \<Rightarrow> ('d, 'h) kernel option" where
  "we_are_running P k = do {
     k \<leftarrow> say P (''Target: '' @ ARCH) k;
     say P ''\<newline>\<newline>'' k
   }"

text \<open>Terminal and heap, the part before \<open>ARCH_i386\<close>.\<close>

definition initialize_console :: "'h port_ops \<Rightarrow> ('d, 'h) kernel \<Rightarrow> ('d, 'h) kernel option" where
  "initialize_console P k = do {
     k \<leftarrow> on_terminal (terminal_initialize P) k;
     k \<leftarrow> say P (''Booting LineKernel v'' @ VERSION @ ''...\<newline>\<newline>'') k;
     k \<leftarrow> say P ''LineRenderer initialized.\<newline>'' k;
     k \<leftarrow> say P ''Command line: '' k;
     k \<leftarrow> on_terminal (terminal_writestring P (cmdline_str k)) k;
     k \<leftarrow> say P ''\<newline>'' k;
     say P ''Memory allocation initialized.\<newline>'' (k\<lparr>kheap := heap_init (kheap k)\<rparr>)
   }"

text \<open>Descriptor tables and timer, the part under \<open>ARCH_i386\<close>.\<close>

definition initialize_interrupts ::
    "'h port_ops \<Rightarrow> 'c machine \<Rightarrow> symbols \<Rightarrow> ('c driver, 'h) kernel \<Rightarrow> ('c driver, 'h) kernel option" where
  "initialize_interrupts P M syms k = do {
     k \<leftarrow> say P ''GDT initialized.\<newline>'' (on_driver (gdt_init syms) k);
     k \<leftarrow> say P ''IDT initialized.\<newline>'' (on_driver (idt_init M syms) k);
     d \<leftarrow> timer_init M 1000 (dev (files k));
     k \<leftarrow> say P ''System Timer (PIT) initialized at 1000Hz.\<newline>'' (on_driver (\<lambda>_. d) k);
     say P ''Interrupts enabled.\<newline>'' k
   }"

definition initialize_start ::
    "'h port_ops \<Rightarrow> 'c machine \<Rightarrow> symbols \<Rightarrow> ('c driver, 'h) kernel \<Rightarrow> ('c driver, 'h) kernel option" where
  "initialize_start P M syms k = do {
     k \<leftarrow> initialize_console P k;
     k \<leftarrow> initialize_interrupts P M syms k;
     h \<leftarrow> keyboard_init P (hw (terminal k));
     k \<leftarrow> say P ''Keyboard input initialized.\<newline>'' (k\<lparr>terminal := (terminal k)\<lparr>hw := h\<rparr>\<rparr>);
     k \<leftarrow> initialize_drive P (floppy_driver M syms) k;
     say P ''Syscalls initialized.\<newline>'' k
   }"

text \<open>\<open>kernel_main\<close> up to its loop, whose turns are \<open>kernel_main_turn\<close>.\<close>

definition kernel_main_start ::
    "'h port_ops \<Rightarrow> 'c machine \<Rightarrow> symbols \<Rightarrow> ('c driver, 'h) kernel \<Rightarrow> ('c driver, 'h) kernel option" where
  "kernel_main_start P M syms k = do {
     k \<leftarrow> initialize_start P M syms k;
     k \<leftarrow> say P ''Core services initialized.\<newline>\<newline>'' k;
     we_are_running P k
   }"

section \<open>The messages\<close>

text \<open>\<open>yields m E\<close>: the run returns, in a state that satisfies \<open>E\<close>.\<close>

definition yields :: "'a option \<Rightarrow> ('a \<Rightarrow> bool) \<Rightarrow> bool" where
  "yields m E \<longleftrightarrow> (\<exists>x. m = Some x \<and> E x)"

lemma yields_Some [simp]: "yields (Some x) E = E x"
  by (simp add: yields_def)

lemma yields_bind: "yields m E \<Longrightarrow> (\<And>x. m = Some x \<Longrightarrow> E x \<Longrightarrow> yields (f x) E') \<Longrightarrow> yields (Option.bind m f) E'"
  by (auto simp: yields_def)

lemma yields_mono: "yields m E \<Longrightarrow> (\<And>x. E x \<Longrightarrow> E' x) \<Longrightarrow> yields m E'"
  by (auto simp: yields_def)

text \<open>The terminal of the kernel changes, and nothing else.\<close>

definition only_terminal :: "('d, 'h) kernel \<Rightarrow> ('d, 'h) kernel \<Rightarrow> bool" where
  "only_terminal k k' \<longleftrightarrow> console_ok (terminal k') \<and> k' = k\<lparr>terminal := terminal k'\<rparr>"

lemma only_terminalD:
  assumes "only_terminal k k'"
  shows "console_ok (terminal k')" "files k' = files k" "cur_fs k' = cur_fs k" "kheap k' = kheap k"
    "has_working_drive k' = has_working_drive k" "cmdline_str k' = cmdline_str k"
proof -
  obtain t where "k' = k\<lparr>terminal := t\<rparr>" "console_ok t" using assms unfolding only_terminal_def by blast
  then show "console_ok (terminal k')" "files k' = files k" "cur_fs k' = cur_fs k" "kheap k' = kheap k"
    "has_working_drive k' = has_working_drive k" "cmdline_str k' = cmdline_str k" by simp_all
qed

lemma only_terminal_upd:
  assumes "only_terminal k k'"
  shows "only_terminal (k\<lparr>kheap := h\<rparr>) (k'\<lparr>kheap := h\<rparr>)" "only_terminal (k\<lparr>files := s\<rparr>) (k'\<lparr>files := s\<rparr>)"
    "only_terminal k (k'\<lparr>terminal := (terminal k')\<lparr>hw := w\<rparr>\<rparr>)"
    "console_ok t \<Longrightarrow> only_terminal k (k'\<lparr>terminal := t\<rparr>)"
proof -
  obtain t' where "k' = k\<lparr>terminal := t'\<rparr>" "console_ok t'" using assms unfolding only_terminal_def by blast
  then show "only_terminal (k\<lparr>kheap := h\<rparr>) (k'\<lparr>kheap := h\<rparr>)" "only_terminal (k\<lparr>files := s\<rparr>) (k'\<lparr>files := s\<rparr>)"
    "only_terminal k (k'\<lparr>terminal := (terminal k')\<lparr>hw := w\<rparr>\<rparr>)"
    "console_ok t \<Longrightarrow> only_terminal k (k'\<lparr>terminal := t\<rparr>)"
    by (simp_all add: only_terminal_def)
qed

lemma on_driver_only_terminal:
  "only_terminal k k' \<Longrightarrow> only_terminal (on_driver f k) (on_driver f k')"
  using only_terminal_upd(2) [of k k'] only_terminalD(2) [of k k'] by (simp add: on_driver_def)

lemma writestring_yields:
  assumes "only_terminal k k'" and "uart_ready P" and "0 \<in> set s" and "length s < 4294967296"
  shows "yields (on_terminal (terminal_writestring P s) k') (only_terminal k)"
proof -
  have "length (cstr s) < length s" by (rule length_cstr_less [OF assms(3)])
  moreover from this have "unat (of_nat (length (cstr s)) :: u32) = length (cstr s)"
    using assms(4) by (simp add: unsigned_of_nat take_bit_nat_eq_self)
  ultimately obtain t where "terminal_writestring P s (terminal k') = Some t" "console_ok t"
    using emit_write_eq [OF assms(2) only_terminalD(1) [OF assms(1)]]
      fold_type_char_ok [OF only_terminalD(1) [OF assms(1)]] assms(3)
    by (fastforce simp: terminal_writestring_def terminal_write_def strlen_eq console_ok_def)
  then show ?thesis using only_terminal_upd(4) [OF assms(1)] by (simp add: on_terminal_def)
qed

lemma say_yields:
  "only_terminal k k' \<Longrightarrow> uart_ready P \<Longrightarrow> length s < 1000 \<Longrightarrow> yields (say P s k') (only_terminal k)"
  unfolding say_def by (rule writestring_yields) (simp_all add: literal_def)

section \<open>Console and heap\<close>

lemma terminal_initialize_ok:
  assumes "length (vga_terminal_buffer t) = 2000"
  shows "\<exists>t'. terminal_initialize P t = Some t' \<and> console_ok t'"
  using assms by (simp add: terminal_initialize_def vga_terminal_initialize_def vga_terminal_cls_eq
      terminal_enable_cursor_def vga_terminal_enable_cursor_def split_beta Let_def console_ok_def)

lemma initialize_console_yields:
  assumes "length (vga_terminal_buffer (terminal k)) = 2000" and "uart_ready P"
    and "0 \<in> set (cmdline_str k)" and "length (cmdline_str k) < 4294967296"
  shows "yields (initialize_console P k) (only_terminal (k\<lparr>kheap := heap_init (kheap k)\<rparr>))"
proof -
  obtain t where t: "terminal_initialize P (terminal k) = Some t" "console_ok t"
    using terminal_initialize_ok [OF assms(1)] by blast
  have init: "on_terminal (terminal_initialize P) k = Some (k\<lparr>terminal := t\<rparr>)" "only_terminal k (k\<lparr>terminal := t\<rparr>)"
    using t by (simp_all add: on_terminal_def only_terminal_def)
  have msg: "yields (say P s k') (only_terminal k)" if "only_terminal k k'" "length s < 1000" for s k'
    by (rule say_yields [OF that(1) assms(2) that(2)])
  have cmd: "yields (on_terminal (terminal_writestring P (cmdline_str k')) k') (only_terminal k)"
    if "only_terminal k k'" for k'
    using writestring_yields [OF that assms(2-4)] only_terminalD(6) [OF that] by simp
  have last: "yields (say P ''Memory allocation initialized.\<newline>'' (k'\<lparr>kheap := heap_init (kheap k')\<rparr>))
      (only_terminal (k\<lparr>kheap := heap_init (kheap k)\<rparr>))" if "only_terminal k k'" for k'
    using say_yields [OF only_terminal_upd(1) [OF that, of "heap_init (kheap k')"] assms(2)] only_terminalD(4) [OF that] by simp
  show ?thesis
    unfolding initialize_console_def init(1) Option.bind_lunit
    by (rule yields_bind [OF msg [OF init(2)]], simp add: VERSION_def)
      (intro yields_bind [OF msg] yields_bind [OF cmd] last, simp_all)
qed

section \<open>Interrupts and keyboard\<close>

lemma on_driver_simps [simp]:
  "dev (files (on_driver f k)) = f (dev (files k))" "on_driver g (on_driver f k) = on_driver (\<lambda>d. g (f d)) k"
  "cur_fs (on_driver f k) = cur_fs k" "drive (files (on_driver f k)) = drive (files k)"
  "stack_buf (files (on_driver f k)) = stack_buf (files k)"
  "has_working_drive (on_driver f k) = has_working_drive k"
  by (simp_all add: on_driver_def)

lemma initialize_interrupts_yields:
  assumes "only_terminal k0 k" and "uart_ready P"
    and "timer_init M 1000 (idt_init M syms (gdt_init syms (dev (files k0)))) = Some d"
  shows "yields (initialize_interrupts P M syms k) (only_terminal (on_driver (\<lambda>_. d) k0))"
proof -
  note step = say_yields [OF on_driver_only_terminal assms(2)]
  let ?k1 = "on_driver (gdt_init syms) k0" and ?k2 = "on_driver (\<lambda>d. idt_init M syms (gdt_init syms d)) k0"
  have one: "yields (say P ''GDT initialized.\<newline>'' (on_driver (gdt_init syms) k)) (only_terminal ?k1)"
    by (rule step [OF assms(1)]) simp
  have two: "yields (say P ''IDT initialized.\<newline>'' (on_driver (idt_init M syms) k')) (only_terminal ?k2)"
    if "only_terminal ?k1 k'" for k'
    using step [OF that, of "''IDT initialized.\<newline>''" "idt_init M syms"] by simp
  have three: "yields (timer_init M 1000 (dev (files k'))) (\<lambda>d'. d' = d)" if "only_terminal ?k2 k'" for k'
    using only_terminalD(2) [OF that] assms(3) by (simp add: yields_def)
  have four: "yields (say P ''System Timer (PIT) initialized at 1000Hz.\<newline>'' (on_driver (\<lambda>_. d) k'))
      (only_terminal (on_driver (\<lambda>_. d) k0))" if "only_terminal ?k2 k'" for k'
    using step [OF that, of "''System Timer (PIT) initialized at 1000Hz.\<newline>''" "\<lambda>_. d"] by simp
  have five: "yields (say P ''Interrupts enabled.\<newline>'' k') (only_terminal (on_driver (\<lambda>_. d) k0))"
    if "only_terminal (on_driver (\<lambda>_. d) k0) k'" for k'
    by (rule say_yields [OF that assms(2)]) simp
  show ?thesis
    unfolding initialize_interrupts_def
  proof (intro yields_bind [OF one] yields_bind [OF two] yields_bind [OF three] five, assumption+, goal_cases)
    case (1 k1 k2 d')
    then show ?case using yields_bind [OF four [OF 1(4)] five] by simp
  qed
qed

text \<open>The controller of the keyboard takes a command after finitely many polls of its status.\<close>

fun kbd_polls :: "'h port_ops \<Rightarrow> nat \<Rightarrow> 'h \<Rightarrow> 'h" where
  "kbd_polls P 0 h = h"
| "kbd_polls P (Suc n) h = kbd_polls P n (snd (p_inb P 0x64 h))"

definition kbd_ready :: "'h port_ops \<Rightarrow> bool" where
  "kbd_ready P \<longleftrightarrow> (\<forall>h. \<exists>n. fst (p_inb P 0x64 (kbd_polls P n h)) AND 0x02 = 0)"

lemma keyboard_init_returns:
  assumes "kbd_ready P"
  shows "\<exists>h'. keyboard_init P h = Some h'"
proof -
  have "fst (p_inb P 0x64 (kbd_polls P n h)) AND 0x02 = 0 \<Longrightarrow> \<exists>h'. ps2_kbd_wait_kbd_write P h = Some h'" for n
  proof (induction n arbitrary: h)
    case 0
    then show ?case by (subst ps2_kbd_wait_kbd_write.simps) (simp add: split_beta Let_def)
  next
    case (Suc n)
    then show ?case by (subst ps2_kbd_wait_kbd_write.simps) (auto simp: split_beta Let_def)
  qed
  with assms obtain h' where "ps2_kbd_wait_kbd_write P h = Some h'" unfolding kbd_ready_def by blast
  then show ?thesis by (simp add: keyboard_init_def ps2_kbd_keyboard_init_def)
qed

section \<open>The driver after the start\<close>

lemma timer_init_eq:
  assumes "length (handlers d) = 256"
  shows "\<exists>h. timer_init M 1000 d = Some (d\<lparr>timer_frequency := 1000,
    handlers := (handlers d)[32 := Some Timer_callback], mach := h\<rparr>)"
  using assms by (simp add: timer_init_def irq_install_handler_def out_port_def Let_def) (rule exI, rule refl)

text \<open>What \<open>gdt_init\<close>, \<open>idt_init\<close> and \<open>timer_init\<close> leave.\<close>

definition tables_ready :: "symbols \<Rightarrow> 'h driver \<Rightarrow> bool" where
  "tables_ready syms d \<longleftrightarrow>
     idt d = map (expected_gate syms) [0..<256] \<and> handlers d ! 32 = Some Timer_callback"

lemma boot_driver:
  assumes "length (idt d) = 256" and "length (handlers d) = 256"
  shows "\<exists>d'. timer_init M 1000 (idt_init M syms (gdt_init syms d)) = Some d' \<and> tables_ready syms d'
    \<and> length (handlers d') = 256"
proof -
  let ?d = "idt_init M syms (gdt_init syms d)"
  have "length (idt (gdt_init syms d)) = 256" "length (handlers (gdt_init syms d)) = 256"
    using assms by (simp_all add: gdt_init_def gdt_set_gate_def Let_def)
  from idt_init_effect(1,2) [OF this, of M syms] timer_init_eq [of ?d M] show ?thesis
    by (auto simp: tables_ready_def)
qed

section \<open>The drive\<close>

lemma fc_disk_out: "p \<noteq> FDC_FIFO \<Longrightarrow> fc_disk (controller_out bd buffer latency p b c) = fc_disk c"
  by (simp add: controller_out_def Let_def)

lemma boot_disk:
  assumes "timer_init (floppy_machine bd buffer latency) 1000
      (idt_init (floppy_machine bd buffer latency) syms (gdt_init syms d)) = Some d'"
    and "length (idt d) = 256" and "length (handlers d) = 256"
  shows "fc_disk (mach d') = fc_disk (mach d)"
proof -
  have "length (idt (gdt_init syms d)) = 256" "length (handlers (gdt_init syms d)) = 256"
    "mach (gdt_init syms d) = mach d"
    using assms by (simp_all add: gdt_init_def gdt_set_gate_def Let_def)
  with idt_init_effect [OF this(1,2), of "floppy_machine bd buffer latency" syms] assms(1) show ?thesis
    by (auto simp: timer_init_def irq_install_handler_def pic_remap_def port_delay_def io_wait_def out_port_def
        floppy_machine_def fc_disk_out FDC_FIFO_def Let_def)
qed

text \<open>The detection over the floppy driver: one sector is read.\<close>

text \<open>What the detection keeps of the state of the file system.\<close>

definition kept_files :: "'d fat12_state \<Rightarrow> 'd fat12_state \<Rightarrow> bool" where
  "kept_files s t \<longleftrightarrow> drive t = drive s \<and> open_files t = open_files s
     \<and> contents_filenames t = contents_filenames s \<and> contents_filename_idx t = contents_filename_idx s
     \<and> length (stack_buf t) = 512"

lemma detect_floppy:
  assumes "floppy_ready (dev s)" and "latency \<le> 2000" and "dma_buffer_ok syms"
    and "length (stack_buf s) = 512" and "wf_image (disk_sectors (mach (dev s)))"
  shows "\<exists>r t. detect_fat12 (floppy_driver (floppy_machine bd (sym_dma_buffer syms) latency) syms) fdrive1 s = Some (r, t)
    \<and> (r = 1 \<longleftrightarrow> board_does bd False \<and> has_fat12 (disk_sectors (mach (dev s))))
    \<and> (r = 1 \<longrightarrow> fat12_geom t = geometry_of_bpb (bpb_of_bytes (disk_sectors (mach (dev s)) 0)))
    \<and> floppy_ready (dev t) \<and> fc_disk (mach (dev t)) = fc_disk (mach (dev s)) \<and> idt (dev t) = idt (dev s)
    \<and> kept_files s t"
proof -
  have clock: "clock_runs (floppy_machine bd (sym_dma_buffer syms) latency) (dev s)"
    using floppy_readyD(1) [OF assms(1)] steady_floppy by (auto simp: clock_runs_def floppy_handlers_def)
  have reach: "disk_reachable bd False 0 \<longleftrightarrow> board_does bd False" by (simp add: disk_reachable_def on_disk_chs)
  obtain d where d: "fdc_read_sector (floppy_machine bd (sym_dma_buffer syms) latency) syms 0 (stack_buf s) (dev s) =
      Some (if board_does bd False then (0, disk_sectors (mach (dev s)) 0) else (-1, stack_buf s), d)"
    "floppy_ready d" "fc_disk (mach d) = fc_disk (mach (dev s))"
    using read_sector_floppy [OF assms(1-3,4,5), of bd 0] unfolding reach by blast
  moreover have "idt d = idt (dev s)"
    using fdc_read_sector_returns [OF clock assms(3), of "stack_buf s" 0] d(1) assms(4)
    by (auto simp: same_kernel_def)
  ultimately show ?thesis
    using assms(4,5) by (auto simp: detect_fat12_def read_sector_on_def read_drive_sector_def floppy_driver_def
        has_fat12_def put_klog_def Let_def kept_files_def wf_image_def)
qed

lemma drive_init_floppy:
  assumes "handlers d ! 32 = Some Timer_callback" and "length (handlers d) = 256" and "latency \<le> 2000"
  shows "\<exists>d'. drive_init (floppy_driver (floppy_machine bd buffer latency) syms) fdrive1 d = Some (0, d')
    \<and> floppy_ready d' \<and> fc_disk (mach d') = fc_disk (mach d) \<and> idt d' = idt d"
proof -
  have "clock_runs (floppy_machine bd buffer latency) d"
    using assms(1) steady_floppy by (auto simp: clock_runs_def)
  from fdc_init_returns [OF this assms(2)] init_floppy [OF assms, of bd buffer] show ?thesis
    by (auto simp: drive_init_def floppy_driver_def)
qed

lemma initialize_drive_yields:
  assumes "only_terminal k0 k" and "uart_ready P" and "drive (files k0) = fdrive1"
    and "length (stack_buf (files k0)) = 512" and "latency \<le> 2000" and "dma_buffer_ok syms"
    and "handlers (dev (files k0)) ! 32 = Some Timer_callback" and "length (handlers (dev (files k0))) = 256"
    and "wf_image (disk_sectors (mach (dev (files k0))))"
  defines "im \<equiv> disk_sectors (mach (dev (files k0)))"
  shows "yields (initialize_drive P (floppy_driver (floppy_machine bd (sym_dma_buffer syms) latency) syms) k)
    (\<lambda>k'. console_ok (terminal k') \<and> floppy_ready (dev (files k'))
      \<and> fc_disk (mach (dev (files k'))) = fc_disk (mach (dev (files k0))) \<and> idt (dev (files k')) = idt (dev (files k0))
      \<and> (has_working_drive k' = 1 \<longleftrightarrow> cur_fs k0 = fat12 \<and> board_does bd False \<and> has_fat12 im)
      \<and> (has_working_drive k' = 1 \<longrightarrow> fat12_geom (files k') = geometry_of_bpb (bpb_of_bytes (im 0)))
      \<and> kept_files (files k0) (files k') \<and> cur_fs k' = cur_fs k0 \<and> kheap k' = kheap k0)"
proof -
  let ?F = "floppy_driver (floppy_machine bd (sym_dma_buffer syms) latency) syms"
  obtain k1 where k1: "say P ''Initializing storage drive...\<newline>'' k = Some k1" "only_terminal k0 k1"
    using say_yields [OF assms(1,2), of "''Initializing storage drive...\<newline>''"] by (auto simp: yields_def)
  note same = only_terminalD [OF k1(2)]
  obtain d where d: "drive_init ?F fdrive1 (dev (files k0)) = Some (0, d)" "floppy_ready d"
    "fc_disk (mach d) = fc_disk (mach (dev (files k0)))" "idt d = idt (dev (files k0))"
    using drive_init_floppy [OF assms(7,8,5), of bd "sym_dma_buffer syms" syms] by blast
  have im: "disk_sectors (mach d) = im" using d(3) by (simp add: disk_sectors_def im_def)
  have log: "dev (put_klog m s) = dev s" "drive (put_klog m s) = drive s" "stack_buf (put_klog m s) = stack_buf s"
    "fat12_geom (put_klog m s) = fat12_geom s" "kept_files u (put_klog m s) = kept_files u s" for m u and s :: "controller driver fat12_state"
    by (simp_all add: put_klog_def kept_files_def)
  let ?s = "put_klog (Kmsg ''Checking for %s filesystem...\<newline>'' [] [name_arg (filesystem_name (cur_fs k0))])
    (put_klog (Kmsg ''Drive %s initialized successfully.\<newline>'' [] [name_arg (drive_name fdrive1)]) ((files k0)\<lparr>dev := d\<rparr>))"
  note start = k1(1) [unfolded say_def] same d(1) assms(3)
  show ?thesis
  proof (cases "cur_fs k0")
    case nofilesystem
    with start d show ?thesis
      using assms(4) by (simp add: initialize_drive_def yields_def kernel_printf_def check_filesystem_def log kept_files_def put_klog_def)
  next
    case fat12
    obtain r t where t: "detect_fat12 ?F fdrive1 ?s = Some (r, t)" "r = 1 \<longleftrightarrow> board_does bd False \<and> has_fat12 im"
      "r = 1 \<longrightarrow> fat12_geom t = geometry_of_bpb (bpb_of_bytes (im 0))"
      "floppy_ready (dev t)" "fc_disk (mach (dev t)) = fc_disk (mach d)" "idt (dev t) = idt d"
      "kept_files (files k0) t"
      using detect_floppy [of ?s latency syms bd] d(2) assms(4-6,9) im by (auto simp: log im_def kept_files_def put_klog_def)
    with start d fat12 show ?thesis
      by (cases "r = 1") (auto simp: initialize_drive_def yields_def kernel_printf_def check_filesystem_def
          on_files_def log Let_def)
  qed
qed

section \<open>The kernel starts\<close>

text \<open>What the image of the kernel and the hardware have to be at the entry of \<open>kernel_main\<close>.\<close>

definition bootable :: "'h port_ops \<Rightarrow> symbols \<Rightarrow> nat \<Rightarrow> (controller driver, 'h) kernel \<Rightarrow> bool" where
  "bootable P syms latency k \<longleftrightarrow>
     uart_ready P \<and> kbd_ready P
     \<and> length (vga_terminal_buffer (terminal k)) = 2000
     \<and> 0 \<in> set (cmdline_str k) \<and> length (cmdline_str k) < 4294967296
     \<and> length (idt (dev (files k))) = 256 \<and> length (handlers (dev (files k))) = 256
     \<and> length (stack_buf (files k)) = 512 \<and> wf_image (disk_sectors (mach (dev (files k))))
     \<and> dma_buffer_ok syms \<and> latency \<le> 2000"

lemma initialize_start_yields:
  assumes "bootable P syms latency k" and "drive (files k) = fdrive1"
  defines "im \<equiv> disk_sectors (mach (dev (files k)))"
  shows "yields (initialize_start P (floppy_machine bd (sym_dma_buffer syms) latency) syms k)
    (\<lambda>k'. console_ok (terminal k') \<and> tables_ready syms (dev (files k')) \<and> floppy_ready (dev (files k'))
      \<and> fc_disk (mach (dev (files k'))) = fc_disk (mach (dev (files k)))
      \<and> (has_working_drive k' = 1 \<longleftrightarrow> cur_fs k = fat12 \<and> board_does bd False \<and> has_fat12 im)
      \<and> (has_working_drive k' = 1 \<longrightarrow> fat12_geom (files k') = geometry_of_bpb (bpb_of_bytes (im 0)))
      \<and> kept_files (files k) (files k') \<and> cur_fs k' = cur_fs k \<and> kheap k' = heap_init (kheap k))"
    (is "yields _ ?E")
proof -
  let ?M = "floppy_machine bd (sym_dma_buffer syms) latency"
  let ?k1 = "k\<lparr>kheap := heap_init (kheap k)\<rparr>"
  note b = assms(1) [unfolded bootable_def]
  have con: "yields (initialize_console P k) (only_terminal ?k1)"
    using b by (intro initialize_console_yields) simp_all
  obtain d where d: "timer_init ?M 1000 (idt_init ?M syms (gdt_init syms (dev (files ?k1)))) = Some d"
    "tables_ready syms d" "length (handlers d) = 256"
    using boot_driver [of "dev (files k)" ?M syms] b by auto
  have disk: "fc_disk (mach d) = fc_disk (mach (dev (files k)))"
    using boot_disk [OF d(1)] b by simp
  then have im: "disk_sectors (mach d) = im" by (simp add: disk_sectors_def im_def)
  let ?k2 = "on_driver (\<lambda>_. d) ?k1"
  have int: "yields (initialize_interrupts P ?M syms k') (only_terminal ?k2)" if "only_terminal ?k1 k'" for k'
    by (rule initialize_interrupts_yields [OF that _ d(1)]) (use b in simp)
  have kbd: "yields (keyboard_init P h) (\<lambda>_. True)" for h
    using keyboard_init_returns b by (auto simp: yields_def)
  have sayk: "yields (say P ''Keyboard input initialized.\<newline>'' (k'\<lparr>terminal := (terminal k')\<lparr>hw := h\<rparr>\<rparr>)) (only_terminal ?k2)"
    if "only_terminal ?k2 k'" for k' h
    by (rule say_yields [OF only_terminal_upd(3) [OF that]]) (use b in simp_all)
  have drv: "yields (initialize_drive P (floppy_driver ?M syms) k') ?E" if "only_terminal ?k2 k'" for k'
  proof (rule yields_mono [OF initialize_drive_yields [OF that, where latency = latency]])
    show "wf_image (disk_sectors (mach (dev (files ?k2))))" using b im by (simp add: im_def)
  qed (use assms(2) b d(2,3) disk in \<open>auto simp: tables_ready_def floppy_ready_def floppy_handlers_def disk_sectors_def im_def on_driver_def kept_files_def\<close>)
  have fin: "yields (say P ''Syscalls initialized.\<newline>'' k') ?E" if "?E k'" for k'
  proof -
    have "only_terminal k' k'" using that by (simp add: only_terminal_def)
    then have "yields (say P ''Syscalls initialized.\<newline>'' k') (only_terminal k')"
      using b by (intro say_yields) simp_all
    then show ?thesis using that by (elim yields_mono) (simp add: only_terminalD)
  qed
  show ?thesis
    unfolding initialize_start_def
    by (intro yields_bind [OF con] yields_bind [OF int] yields_bind [OF kbd] yields_bind [OF sayk]
        yields_bind [OF drv] fin)
qed

lemma kernel_main_start_yields:
  assumes "bootable P syms latency k" and "drive (files k) = fdrive1"
  defines "im \<equiv> disk_sectors (mach (dev (files k)))"
  shows "yields (kernel_main_start P (floppy_machine bd (sym_dma_buffer syms) latency) syms k)
    (\<lambda>k'. console_ok (terminal k') \<and> tables_ready syms (dev (files k')) \<and> floppy_ready (dev (files k'))
      \<and> fc_disk (mach (dev (files k'))) = fc_disk (mach (dev (files k)))
      \<and> (has_working_drive k' = 1 \<longleftrightarrow> cur_fs k = fat12 \<and> board_does bd False \<and> has_fat12 im)
      \<and> (has_working_drive k' = 1 \<longrightarrow> fat12_geom (files k') = geometry_of_bpb (bpb_of_bytes (im 0)))
      \<and> kept_files (files k) (files k') \<and> cur_fs k' = cur_fs k \<and> kheap k' = heap_init (kheap k))"
    (is "yields _ ?E")
proof -
  have msg: "yields (say P s k') ?E" if "?E k'" "length s < 1000" for s k'
  proof -
    have "only_terminal k' k'" using that by (simp add: only_terminal_def)
    then have "yields (say P s k') (only_terminal k')"
      using assms(1) that(2) by (intro say_yields) (simp_all add: bootable_def)
    then show ?thesis using that(1) by (elim yields_mono) (simp add: only_terminalD)
  qed
  have start: "yields (initialize_start P (floppy_machine bd (sym_dma_buffer syms) latency) syms k) ?E"
    unfolding im_def by (rule initialize_start_yields [OF assms(1,2)])
  show ?thesis
    unfolding kernel_main_start_def we_are_running_def
    by (intro yields_bind [OF start] yields_bind [OF msg] msg) (simp_all add: ARCH_def)
qed

end
