(* ===== verification/Demo_Machine.thy ===== *)
theory Demo_Machine
  imports Demo_Write Demo_Kernel Boot
begin

text \<open>A floppy controller with the small volume in it, for the witnesses.\<close>

definition demo_syms :: symbols where
  "demo_syms = \<lparr>sym_isr = (\<lambda>n. 0x100000 + 16 * of_nat n), sym_irq = (\<lambda>n. 0x100200 + 16 * of_nat n),
     sym_syscall_handler = 0x100400, sym_idt = 0x110000, sym_gdt = 0x111000, sym_dma_buffer = 0x112000\<rparr>"

definition demo_chip :: controller where
  "demo_chip = \<lparr>fc_dor = 0x0C, fc_command = [], fc_result = [], fc_irq = None, fc_track = 0,
     fc_disk = (\<lambda>(cyl, head, sec). demo_image (of_nat ((unat cyl * 2 + unat head) * 18 + (unat sec - 1)))),
     fc_channel = \<lparr>ch_high = False, ch_addr = 0, ch_count = 0, ch_page = 0, ch_mode = 0, ch_masked = True\<rparr>,
     fc_memory = replicate 512 0\<rparr>"

definition demo_driver :: "controller driver" where
  "demo_driver = \<lparr>idt = replicate 256 (idt_entry_of 0 0 0), idtp = \<lparr>tp_limit = 0, tp_base = 0\<rparr>,
     gdt = replicate 3 (gdt_entry_of 0 0 0 0), gp = \<lparr>tp_limit = 0, tp_base = 0\<rparr>,
     handlers = (replicate 256 None)[32 := Some Timer_callback, 38 := Some Fdc_irq_handler],
     timer_ticks = 0xFFFFFFFF, timer_frequency = 1000, fdc_irq_fired = False, dlog = [], mach = demo_chip\<rparr>"

text \<open>The same kernel state over another device.\<close>

definition demo_driver_on :: "'h \<Rightarrow> 'h driver" where
  "demo_driver_on h = \<lparr>idt = replicate 256 (idt_entry_of 0 0 0), idtp = \<lparr>tp_limit = 0, tp_base = 0\<rparr>,
     gdt = replicate 3 (gdt_entry_of 0 0 0 0), gp = \<lparr>tp_limit = 0, tp_base = 0\<rparr>,
     handlers = replicate 256 None, timer_ticks = 0, timer_frequency = 1000, fdc_irq_fired = False,
     dlog = [], mach = h\<rparr>"

lemma demo_driver_on_mach [simp]: "mach (demo_driver_on h) = h"
  by (simp add: demo_driver_on_def)

abbreviation demo_machine :: "controller machine" where
  "demo_machine \<equiv> floppy_machine obliging_board 0x112000 3"

lemma demo_buffer [simp]: "sym_dma_buffer demo_syms = 0x112000"
  by (simp add: demo_syms_def)

lemma demo_dma: "dma_buffer_ok demo_syms"
  by (simp add: dma_buffer_ok_def)

lemma demo_driver_mach [simp]: "mach demo_driver = demo_chip"
  by (simp add: demo_driver_def)

lemma demo_driver_ready: "floppy_ready demo_driver"
  by (simp add: floppy_ready_def floppy_handlers_def controller_idle_def demo_driver_def demo_chip_def)

lemma demo_clock: "clock_runs (floppy_machine bd buffer latency) demo_driver"
  using steady_floppy by (auto simp: clock_runs_def demo_driver_def)

lemma demo_disk:
  assumes "unat lba < 2880"
  shows "floppy_sectors demo_driver lba = demo_image lba"
proof -
  obtain c h s where chs: "chs_of_lba lba = (c, h, s)" by (cases "chs_of_lba lba")
  have "(unat c * 2 + unat h) * 18 + (unat s - 1) = unat lba"
    using chs_of_lba_block(1) [OF chs] assms by simp
  then have "of_nat ((unat c * 2 + unat h) * 18 + (unat s - 1)) = lba" by (simp only: of_nat_unat) simp
  then show ?thesis by (simp add: floppy_sectors_def disk_sectors_def demo_chip_def chs)
qed

lemma demo_image_wf: "wf_image demo_image"
  using demo_ready by (simp add: fat_ready_def on_ideal_def)

lemma demo_disk_wf: "wf_image (disk_sectors (mach demo_driver))"
  using demo_image_wf by (simp add: wf_image_def disk_sectors_def demo_chip_def split: prod.split)

lemma demo_idle: "floppy_idle demo_syms 3 demo_driver"
  using demo_driver_ready demo_disk_wf demo_dma by (simp add: floppy_idle_def)

lemma demo_serves: "floppy_serves obliging_board demo_syms 3 demo_driver"
  using demo_idle by (simp add: floppy_serves_def)

text \<open>A session that opens, reads and closes a file, on the sectors of the disk.\<close>

abbreviation on_disk_floppy :: "image floppy_ops" where
  "on_disk_floppy \<equiv> checked_floppy on_floppy"

text \<open>States that differ from the small volume only where the session does not look.\<close>

definition demo_like :: "image fat12_state \<Rightarrow> bool" where
  "demo_like s \<longleftrightarrow> drive s = fdrive1 \<and> fat12_geom s = demo_geom \<and> open_files s = replicate 256 unused_file
     \<and> length (stack_buf s) = 512 \<and> dev s 2 = demo_image 2 \<and> dev s 3 = demo_image 3"

lemma demo_like_demo: "demo_like demo"
  by (simp add: demo_like_def demo_def)

lemma demo_checked_entry:
  assumes "demo_like s"
  shows "fat12_read_dir_entry on_disk_floppy 0 0 s = Some (Some demo_a, s)"
proof -
  have "dir_entry_of_bytes (sub_bytes (demo_image 2) 0 32) = demo_a" by code_simp
  with assms show ?thesis
    by (simp add: demo_like_def fat12_read_dir_entry_def demo_geom_def read_sector_on_def
        read_drive_sector_def checked_floppy_def on_floppy_def)
qed

lemma demo_checked_found:
  assumes "demo_like s"
  shows "fat12_find_entry on_disk_floppy (chars ''/A.TXT'') s = Some (Some (demo_a, 0, 0), s)"
proof -
  have path: "get_next_path_component (chars ''/A.TXT'') 0 = (Some (chars ''A.TXT''), 6)"
    "get_next_path_component (chars ''/A.TXT'') 6 = (None, 6)"
    "to_fat12_name (chars ''A.TXT'') = (chars ''A       '', chars ''TXT'')"
    by code_simp+
  have entry: "de_name demo_a ! 0 \<noteq> 0" "de_name demo_a ! 0 \<noteq> 0xE5" "de_attr demo_a \<noteq> 0x0F"
    "match_fat12_name demo_a (chars ''A       '') (chars ''TXT'')"
    by code_simp+
  have "find_in_dir on_disk_floppy (chars ''A       '') (chars ''TXT'') 0 0 s = Some (Some (demo_a, 0), s)"
    by (subst find_in_dir.simps) (simp add: demo_checked_entry [OF assms] entry)
  then show ?thesis
    unfolding fat12_find_entry_def path by (simp, subst find_entry_loop.simps) (simp add: path)
qed

abbreviation demo_opened :: "image fat12_state \<Rightarrow> image fat12_state" where
  "demo_opened s \<equiv> install_file 0 (chars ''/A.TXT'') demo_a 0 0 s"

lemma demo_checked_open:
  assumes "demo_like s"
  shows "fat12_open on_disk_floppy (chars ''/A.TXT'') s = Some (3, demo_opened s)"
proof -
  have "first_unused (replicate 256 unused_file) 0 = 3" "de_attr demo_a AND 0x10 = 0" by code_simp+
  then show ?thesis using assms by (simp add: fat12_open_def demo_checked_found demo_like_def)
qed

lemma demo_checked_read:
  assumes "demo_like s"
  shows "fat12_read on_disk_floppy 3 (replicate 4 0) 4 (demo_opened s) =
    Some ((4, replicate 4 0x41), upd_file 0 (\<lambda>f. f\<lparr>of_cursor := of_cursor f + 4\<rparr>) (demo_opened s))"
proof -
  have f: "open_files (demo_opened s) ! 0 = open_files demo_open ! 0" "length (open_files (demo_opened s)) = 256"
    using assms by (simp_all add: demo_open_def install_file_def demo_like_def demo_def)
  have g: "fat12_geom (demo_opened s) = demo_geom"
    using assms by (simp add: install_file_def demo_like_def)
  have index: "file_index 3 (demo_opened s) = Some (Some 0)"
    using demo_open_file(1) f by (simp add: file_index_def cint_def MAX_OPEN_FILES_def)
  have read: "read_sector on_disk_floppy 3 (demo_opened s) = Some ((0, replicate 512 0x41), demo_opened s)"
    using assms by (simp add: demo_like_def install_file_def read_sector_on_def read_drive_sector_def
        checked_floppy_def on_floppy_def demo_image_def)
  have sec: "cluster_sector demo_geom 2 0 = 3" "cluster_bytes demo_geom = 512"
    by (simp_all add: cluster_sector_def cluster_bytes_def demo_geom_def)
  have bytes: "put_bytes (replicate 4 0) 0 (sub_bytes (replicate 512 0x41) 0 4) = replicate 4 (0x41 :: u8)"
    by code_simp
  show ?thesis
    unfolding fat12_read_def index
    by (subst fat12_read_loop.simps, simp add: f demo_open_file(1) g sec read bytes Let_def)
      (subst fat12_read_loop.simps, simp add: upd_file_def f demo_open_file(1))
qed

abbreviation demo_calls :: "fs_call list" where
  "demo_calls \<equiv> [Open_file (chars ''/A.TXT''), Read_file 3 (replicate 4 0) 4]"

abbreviation demo_after_read :: "image fat12_state \<Rightarrow> image fat12_state" where
  "demo_after_read s \<equiv> upd_file 0 (\<lambda>f. f\<lparr>of_cursor := of_cursor f + 4\<rparr>) (demo_opened s)"

lemma demo_checked_session:
  "demo_like s \<Longrightarrow> run_calls on_disk_floppy demo_calls s =
    Some ([Status 3, Bytes_read 4 (replicate 4 0x41)], demo_after_read s)"
  by (simp add: giving_def demo_checked_open demo_checked_read)

lemma demo_ideal_session:
  "demo_like s \<Longrightarrow> run_calls ideal_floppy demo_calls s =
    Some ([Status 3, Bytes_read 4 (replicate 4 0x41)], demo_after_read s)"
  by (rule checked_run_ideal [OF demo_checked_session])

text \<open>A session on a drive that fails: the file is not found.\<close>

lemma demo_failing_entry: "demo_like s \<Longrightarrow> fat12_read_dir_entry failing_floppy 0 0 s = Some (None, s)"
  by (simp add: demo_like_def fat12_read_dir_entry_def demo_geom_def read_sector_on_def read_drive_sector_def
      failing_floppy_def)

lemma demo_failing_session:
  assumes "demo_like s"
  shows "run_call failing_floppy (Remove_file (chars ''/A.TXT'')) s = Some (Status (-9), s)"
proof -
  have path: "get_next_path_component (chars ''/A.TXT'') 0 = (Some (chars ''A.TXT''), 6)"
    "get_next_path_component (chars ''/A.TXT'') 6 = (None, 6)"
    "to_fat12_name (chars ''A.TXT'') = (chars ''A       '', chars ''TXT'')"
    by code_simp+
  have "find_in_dir failing_floppy (chars ''A       '') (chars ''TXT'') 0 0 s = Some (None, s)"
    by (subst find_in_dir.simps) (simp add: demo_failing_entry [OF assms])
  then have "fat12_find_entry failing_floppy (chars ''/A.TXT'') s = Some (None, s)"
    unfolding fat12_find_entry_def path by (simp, subst find_entry_loop.simps) (simp add: path)
  then show ?thesis by (simp add: fat12_removefile_def giving_def)
qed

section \<open>A machine before the start\<close>

text \<open>The same disk with a boot sector, and a kernel whose tables are empty.\<close>

definition demo_boot_sector :: bytes where
  "demo_boot_sector = (replicate 512 0)[11 := 0, 12 := 2, 13 := 1, 14 := 1, 16 := 1, 17 := 16, 21 := 0xF0,
     22 := 1, 24 := 18, 26 := 2, 54 := 0x46, 55 := 0x41, 56 := 0x54, 57 := 0x31, 58 := 0x32,
     510 := 0x55, 511 := 0xAA]"

definition demo_cold_chip :: controller where
  "demo_cold_chip = demo_chip\<lparr>fc_dor := 0, fc_disk := (fc_disk demo_chip)((0, 0, 1) := demo_boot_sector)\<rparr>"

definition demo_cold_driver :: "controller driver" where
  "demo_cold_driver = demo_driver\<lparr>handlers := replicate 256 None, mach := demo_cold_chip\<rparr>"

definition demo_cold_kernel :: "(controller driver, unit) kernel" where
  "demo_cold_kernel = \<lparr>files = with_dev demo_cold_driver demo, cur_fs = fat12, has_working_drive = 0,
     cmdline_str = replicate 100 0, terminal = terminal demo_kernel, kheap = demo_ram\<rparr>"

lemma demo_boot_fat12: "has_fat12 (disk_sectors demo_cold_chip)"
proof -
  have "chs_of_lba 0 = (0, 0, 1)" by (simp add: chs_of_lba_def)
  then have "disk_sectors demo_cold_chip 0 = demo_boot_sector" by (simp add: disk_sectors_def demo_cold_chip_def)
  moreover have "u16_of_le (demo_boot_sector ! 510) (demo_boot_sector ! 511) = 0xAA55"
    "bpb_is_fat12 (bpb_of_bytes demo_boot_sector)" by code_simp+
  ultimately show ?thesis by (simp add: has_fat12_def)
qed

lemma demo_kbd: "kbd_ready demo_ports"
  unfolding kbd_ready_def by (intro allI exI [of _ 0]) (simp add: demo_ports_def)

lemma demo_cold_wf: "wf_image (disk_sectors demo_cold_chip)"
  using demo_disk_wf by (simp add: wf_image_def disk_sectors_def demo_cold_chip_def demo_boot_sector_def)

lemma demo_bootable: "bootable demo_ports demo_syms 3 demo_cold_kernel"
  using demo_uart demo_kbd demo_cold_wf demo_dma
  by (simp add: bootable_def demo_cold_kernel_def demo_cold_driver_def demo_driver_def demo_kernel_def
      with_dev_def demo_def)

lemma demo_cold_fields:
  "drive (files demo_cold_kernel) = fdrive1" "cur_fs demo_cold_kernel = fat12"
  "mach (dev (files demo_cold_kernel)) = demo_cold_chip"
  by (simp_all add: demo_cold_kernel_def demo_cold_driver_def with_dev_def)

text \<open>The geometry in the boot sector is that of the small volume, so the started kernel sees its files.\<close>

lemma demo_boot_geometry: "geometry_of_bpb (bpb_of_bytes (disk_sectors demo_cold_chip 0)) = demo_geom"
proof -
  have "chs_of_lba 0 = (0, 0, 1)" by (simp add: chs_of_lba_def)
  then have "disk_sectors demo_cold_chip 0 = demo_boot_sector" by (simp add: disk_sectors_def demo_cold_chip_def)
  moreover have "geometry_of_bpb (bpb_of_bytes demo_boot_sector) = demo_geom" by code_simp
  ultimately show ?thesis by simp
qed

lemma demo_booted:
  assumes "fat12_geom s = demo_geom" and "kept_files (files demo_cold_kernel) s"
  shows "demo_like (with_dev (disk_sectors demo_cold_chip) s)"
proof -
  have "chs_of_lba 2 \<noteq> (0, 0, 1)" "chs_of_lba 3 \<noteq> (0, 0, 1)" by (simp_all add: chs_of_lba_def)
  then have "disk_sectors demo_cold_chip l = demo_image l" if "l = 2 \<or> l = 3" for l
    using demo_disk [of l] that
    by (auto simp: floppy_sectors_def disk_sectors_def demo_cold_chip_def demo_driver_mach)
  then show ?thesis
    using assms by (simp add: demo_like_def kept_files_def with_dev_def demo_cold_kernel_def demo_def)
qed

end
