(* ===== verification/Fat12_List.thy ===== *)
theory Fat12_List
  imports Fat12_Session
begin

text \<open>
  The listing of a directory by \<open>fat12_listcontent\<close> of \<open>kernel/fat12.c\<close>: the visible entries in
  their order, each name in one of the 64 buffers of the ring \<open>contents_filenames\<close>. A listing of at
  most 64 entries keeps all its names; with more the first ones are overwritten.
\<close>

section \<open>The ring of names\<close>

definition ring_ok :: "'d fat12_state \<Rightarrow> bool" where
  "ring_ok s \<longleftrightarrow> length (contents_filenames s) = 64 \<and> contents_filename_idx s < 64
     \<and> (\<forall>b \<in> set (contents_filenames s). length b = 32)"

definition short_name :: "fat12_dir_entry \<Rightarrow> bytes" where
  "short_name e = from_fat12_name (de_name e) (de_ext e)"

lemma length_short_name: "length (short_name e) \<le> 12"
  using unpadded_length_le [of "de_name e" 8] unpadded_length_le [of "de_ext e" 3]
  by (auto simp: short_name_def from_fat12_name_def Let_def)

lemma store_filename_eq:
  "store_filename e s = (contents_filename_idx s,
     s\<lparr>contents_filename_idx := (contents_filename_idx s + 1) mod 64,
       contents_filenames := (contents_filenames s)[contents_filename_idx s :=
         put_bytes (contents_filenames s ! contents_filename_idx s) 0 (short_name e @ [0])]\<rparr>)"
  by (simp add: store_filename_def short_name_def Let_def)

lemma same_disk_store_filename [simp]: "same_disk s (snd (store_filename e s))"
  by (simp add: same_disk_def store_filename_eq)

lemma same_disk_trans: "same_disk s t \<Longrightarrow> same_disk t u \<Longrightarrow> same_disk s u"
  by (simp add: same_disk_def)

lemma same_disk_refl [simp]: "same_disk s s"
  by (simp add: same_disk_def)

lemma ring_ok_store_filename:
  assumes "ring_ok s"
  shows "ring_ok (snd (store_filename e s))"
proof -
  have "length (put_bytes b 0 (short_name e @ [0])) = 32" if "b \<in> set (contents_filenames s)" for b
    using assms that length_short_name [of e] by (simp add: ring_ok_def put_bytes_def)
  moreover have "contents_filenames s ! contents_filename_idx s \<in> set (contents_filenames s)"
    using assms by (simp add: ring_ok_def)
  ultimately show ?thesis
    using assms set_update_subset_insert [of "contents_filenames s"]
    by (fastforce simp: ring_ok_def store_filename_eq)
qed

section \<open>The entries of a listing\<close>

definition visible_entry :: "fat12_dir_entry \<Rightarrow> bool" where
  "visible_entry e \<longleftrightarrow> \<not> hidden_entry e"

definition content_of :: "fat12_dir_entry \<Rightarrow> nat \<Rightarrow> contents" where
  "content_of e b = \<lparr>ct_type = (if is_dir e then DIRECTORY else FILE), ct_filename = Some b\<rparr>"

fun list_entries ::
    "fat12_dir_entry list \<Rightarrow> nat \<Rightarrow> contents list \<Rightarrow> 'd fat12_state \<Rightarrow> contents list \<times> 'd fat12_state" where
  "list_entries [] p cs s = (cs, s)"
| "list_entries (e # es) p cs s =
     (let (b, s) = store_filename e s in list_entries es (Suc p) (cs[p := content_of e b]) s)"

lemma list_entries_contents:
  "contents_filename_idx s < 64 \<Longrightarrow> p + length es \<le> length cs \<Longrightarrow>
     length (fst (list_entries es p cs s)) = length cs
     \<and> (\<forall>q < length cs. fst (list_entries es p cs s) ! q =
         (if p \<le> q \<and> q < p + length es
          then content_of (es ! (q - p)) ((contents_filename_idx s + (q - p)) mod 64) else cs ! q))"
proof (induction es arbitrary: p cs s)
  case (Cons e es)
  let ?k = "contents_filename_idx s" and ?s = "snd (store_filename e s)"
  have step: "list_entries (e # es) p cs s = list_entries es (Suc p) (cs[p := content_of e ?k]) ?s"
    by (simp add: store_filename_eq)
  have idx: "contents_filename_idx ?s = Suc ?k mod 64" by (simp add: store_filename_eq)
  have k: "(Suc ?k mod 64 + (q - Suc p)) mod 64 = (?k + (q - p)) mod 64" if lt: "p < q" for q
  proof -
    obtain d where "q = Suc p + d" using less_imp_Suc_add [OF lt] by auto
    then show ?thesis by (simp add: mod_add_left_eq)
  qed
  have ok: "Suc p + length es \<le> length (cs[p := content_of e ?k])" using Cons.prems by simp
  have "contents_filename_idx ?s < 64" unfolding idx by simp
  note IH = Cons.IH [OF this ok, unfolded idx]
  show ?case
    unfolding step
  proof (intro conjI allI impI)
    show "length (fst (list_entries es (Suc p) (cs[p := content_of e ?k]) ?s)) = length cs" using IH by simp
    fix q assume q: "q < length cs"
    consider "q < p" | "q = p" | "p < q" by linarith
    then show "fst (list_entries es (Suc p) (cs[p := content_of e ?k]) ?s) ! q =
        (if p \<le> q \<and> q < p + length (e # es) then content_of ((e # es) ! (q - p)) ((?k + (q - p)) mod 64) else cs ! q)"
    proof cases
      case 3
      then have "(e # es) ! (q - p) = es ! (q - Suc p)" by (simp add: nth_Cons')
      with IH q 3 k [OF 3] show ?thesis by (simp only: length_list_update) simp
    qed (use IH q Cons.prems in simp_all)
  qed
qed auto

text \<open>Up to 64 names do not meet in the ring.\<close>

lemma ring_apart:
  assumes "k < 64" and "i < j" and "j < 64"
  shows "(k + i) mod 64 \<noteq> (k + j) mod (64 :: nat)"
proof
  assume "(k + i) mod 64 = (k + j) mod 64"
  then have "64 dvd (k + j) - (k + i)" using assms(2) by (intro mod_eq_dvd_iff_nat [THEN iffD1]) simp_all
  then show False using assms by (auto dest: dvd_imp_le)
qed

lemma list_entries_names:
  "ring_ok s \<Longrightarrow> length es \<le> 64 \<Longrightarrow>
     ring_ok (snd (list_entries es p cs s)) \<and> same_disk s (snd (list_entries es p cs s))
    \<and> open_files (snd (list_entries es p cs s)) = open_files s
    \<and> (\<forall>i < length es. \<exists>r. contents_filenames (snd (list_entries es p cs s)) !
          ((contents_filename_idx s + i) mod 64) = short_name (es ! i) @ 0 # r)
    \<and> (\<forall>b < 64. (\<forall>i < length es. b \<noteq> (contents_filename_idx s + i) mod 64) \<longrightarrow>
          contents_filenames (snd (list_entries es p cs s)) ! b = contents_filenames s ! b)"
proof (induction es arbitrary: p cs s)
  case (Cons e es)
  let ?k = "contents_filename_idx s" and ?s = "snd (store_filename e s)"
  let ?cs = "cs[p := content_of e ?k]"
  let ?u = "snd (list_entries es (Suc p) ?cs ?s)"
  have step: "snd (list_entries (e # es) p cs s) = ?u" by (simp add: store_filename_eq)
  have idx: "contents_filename_idx ?s = Suc ?k mod 64" and files: "open_files ?s = open_files s"
    by (simp_all add: store_filename_eq)
  have ring: "?k < 64" "length (contents_filenames s) = 64" using Cons.prems(1) by (simp_all add: ring_ok_def)
  have k: "(Suc ?k mod 64 + i) mod 64 = (?k + Suc i) mod 64" for i by (simp add: mod_add_left_eq)
  have here: "contents_filenames ?s ! ?k = short_name e @ 0 # drop (Suc (length (short_name e))) (contents_filenames s ! ?k)"
    and there: "b \<noteq> ?k \<Longrightarrow> contents_filenames ?s ! b = contents_filenames s ! b" for b
    using ring by (simp_all add: store_filename_eq put_bytes_def)
  have "length es \<le> 64" using Cons.prems(2) by simp
  note IH = Cons.IH [where s = ?s and p = "Suc p" and cs = ?cs, OF ring_ok_store_filename [OF Cons.prems(1)] this,
    unfolded idx k files]
  have new: "?k \<noteq> (?k + Suc i) mod 64" if "i < length es" for i
    using ring_apart [OF ring(1), of 0 "Suc i"] ring(1) that Cons.prems(2) by simp
  have first: "contents_filenames ?u ! ?k = contents_filenames ?s ! ?k"
    using IH ring(1) new by blast
  show ?case
    unfolding step
  proof (intro conjI allI impI)
    show "ring_ok ?u" "open_files ?u = open_files s" using IH by blast+
    show "same_disk s ?u" using IH same_disk_trans [OF same_disk_store_filename] by blast
    show "\<exists>r. contents_filenames ?u ! ((?k + i) mod 64) = short_name ((e # es) ! i) @ 0 # r"
      if "i < length (e # es)" for i
    proof (cases i)
      case 0
      then show ?thesis using first here ring(1) by simp
    next
      case (Suc j)
      then show ?thesis using IH that by simp
    qed
    fix b assume b: "b < 64" "\<forall>i < length (e # es). b \<noteq> (?k + i) mod 64"
    have "b \<noteq> ?k" using b(2) ring(1) by (auto dest: spec [of _ 0])
    moreover have "\<forall>i < length es. b \<noteq> (?k + Suc i) mod 64" using b(2) by auto
    ultimately show "contents_filenames ?u ! b = contents_filenames s ! b" using IH b(1) there by simp
  qed
qed simp

section \<open>The loop\<close>

lemma same_disk_dir:
  assumes "same_disk s t" and "dir_ready s dc" and "dir_holds s dc es"
  shows "dir_ready t dc" and "dir_holds t dc es"
  using assms same_diskD [OF assms(1)] by (simp_all add: dir_ready_def dir_holds_def)

lemma list_dir_from:
  "dir_ready t dc \<Longrightarrow> dir_holds t dc es \<Longrightarrow> i \<le> length es \<Longrightarrow> p \<le> count \<Longrightarrow> count \<le> length cs \<Longrightarrow>
    list_dir_loop ideal_floppy dc count (of_nat i) p cs t =
      (let vs = take (count - p) (filter visible_entry (drop i es)); (cs', t') = list_entries vs p cs t
       in Some ((p + length vs, cs'), t'))"
proof (induction "length es - i" arbitrary: i p cs t)
  case 0
  then show ?case
    using dir_holds_end [OF 0(3)]
    by (subst list_dir_loop.simps) (auto simp: disk_simps split: option.split)
next
  case (Suc n)
  then have i: "i < length es" by simp
  then have drop: "drop i es = es ! i # drop (Suc i) es" by (simp add: Cons_nth_drop_Suc)
  have nxt: "of_nat i + 1 = (of_nat (Suc i) :: u32)" by simp
  have rest: "n = length es - Suc i" "Suc i \<le> length es" using Suc.hyps(2) i by simp_all
  note e = dir_holds_nth [OF Suc.prems(2) i]
  show ?case
  proof (cases "p < count")
    case False
    then show ?thesis using Suc.prems(4) by (subst list_dir_loop.simps) simp
  next
    case True
    show ?thesis
    proof (cases "hidden_entry (es ! i)")
      case hidden: True
      then have "list_dir_loop ideal_floppy dc count (of_nat i) p cs t =
          list_dir_loop ideal_floppy dc count (of_nat (Suc i)) p cs t"
        using True Suc.prems(1) e by (subst list_dir_loop.simps) (simp add: disk_simps nxt del: of_nat_Suc)
      with Suc.hyps(1) [OF rest(1) Suc.prems(1,2) rest(2) Suc.prems(4,5)] hidden show ?thesis
        by (simp add: drop visible_entry_def)
    next
      case visible: False
      let ?t = "snd (store_filename (es ! i) t)"
        and ?cs = "cs[p := content_of (es ! i) (contents_filename_idx t)]"
      have put: "put_content cs p \<lparr>ct_type = (if de_attr (es ! i) AND 0x10 \<noteq> 0 then DIRECTORY else FILE),
          ct_filename = Some (contents_filename_idx t)\<rparr> = Some ?cs"
        using True Suc.prems(5) by (simp add: put_content_def content_of_def is_dir_def)
      have "list_dir_loop ideal_floppy dc count (of_nat i) p cs t =
          list_dir_loop ideal_floppy dc count (of_nat (Suc i)) (p + 1) ?cs ?t"
        using True visible Suc.prems(1) e put
        by (subst list_dir_loop.simps)
          (simp add: disk_simps nxt split_beta store_filename_eq [of "es ! i" t] del: of_nat_Suc)
      moreover have "p + 1 \<le> count" "count \<le> length ?cs" using True Suc.prems(5) by simp_all
      moreover have "take (count - p) (es ! i # vs) = es ! i # take (count - (p + 1)) vs" for vs
        using True by (simp add: take_Cons')
      moreover note same_disk_dir [OF same_disk_store_filename [of t "es ! i"] Suc.prems(1,2)]
      ultimately show ?thesis
        using Suc.hyps(1) [OF rest(1) _ _ rest(2), where p = "p + 1" and cs = ?cs and t = ?t] visible
        by (simp add: drop visible_entry_def split_beta Let_def)
          (simp add: store_filename_eq [of "es ! i" t])
    qed
  qed
qed

section \<open>The operation\<close>

text \<open>The directory that a path names for a listing; the root is named by three spellings.\<close>

definition listed_dir :: "dir_tree \<Rightarrow> bytes \<Rightarrow> u32 option" where
  "listed_dir T path =
     (if is_root_path path then Some 0
      else case lookup_path T (split_path path) of
        None \<Rightarrow> None
      | Some (e, _, _) \<Rightarrow> if is_dir e then Some (start_cluster e) else None)"

lemma fat12_listcontent_ideal:
  assumes "volume s T" and "0 \<notin> set path" and "listed_dir T path = Some dc" and "T dc = Some es"
    and "count \<le> length cs" and "count \<le> 64" and "ring_ok s"
  defines "vs \<equiv> take count (filter visible_entry es)"
  shows "\<exists>cs' t. fat12_listcontent ideal_floppy path cs count s = Some ((0, cs'), t)
    \<and> same_disk s t \<and> open_files t = open_files s \<and> ring_ok t \<and> length cs' = length cs
    \<and> (\<forall>i < length vs. ct_type (cs' ! i) = (if is_dir (vs ! i) then DIRECTORY else FILE)
        \<and> (\<exists>b r. ct_filename (cs' ! i) = Some b \<and> contents_filenames t ! b = short_name (vs ! i) @ 0 # r))
    \<and> (length vs < count \<longrightarrow> ct_filename (cs' ! length vs) = None)
    \<and> (\<forall>i < length cs. length vs < i \<longrightarrow> cs' ! i = cs ! i)"
proof -
  let ?cs = "fst (list_entries vs 0 cs s)" and ?t = "snd (list_entries vs 0 cs s)"
  note dir = tree_holdsD [OF volumeD(1) [OF assms(1)] assms(4)]
  have len: "length vs \<le> count" "length vs \<le> length cs" "length vs \<le> 64"
    using assms(5,6) by (simp_all add: vs_def)
  have loop: "list_dir_loop ideal_floppy dc count 0 0 cs s = Some ((length vs, ?cs), ?t)"
    using list_dir_from [OF dir, of 0 0 count cs] assms(5) by (simp add: vs_def split_beta Let_def)
  have idx: "contents_filename_idx s < 64" using assms(7) by (simp add: ring_ok_def)
  have "0 + length vs \<le> length cs" using len(2) by simp
  note cont = list_entries_contents [OF idx this]
  note names = list_entries_names [OF assms(7) len(3), of 0 cs]
  define cs' where "cs' = (if length vs < count
    then ?cs[length vs := (?cs ! length vs)\<lparr>ct_filename := None\<rparr>] else ?cs)"
  have ended: "terminate_list (length vs) count ?cs = Some cs'"
    using assms(5) cont by (simp add: terminate_list_def cs'_def)
  have run: "fat12_listcontent ideal_floppy path cs count s = Some ((0, cs'), ?t)"
  proof (cases "is_root_path path")
    case True
    then show ?thesis using assms(3) loop ended by (simp add: fat12_listcontent_def listed_dir_def)
  next
    case False
    then obtain e i d where "lookup_path T (split_path path) = Some (e, i, d)" "is_dir e" "start_cluster e = dc"
      using assms(3) by (auto simp: listed_dir_def split: option.splits if_splits)
    with False loop ended fat12_find_entry_tree [OF volumeD(1) [OF assms(1)] assms(2)] show ?thesis
      by (simp add: fat12_listcontent_def is_dir_def start_cluster_def)
  qed
  have first: "cs' ! i = content_of (vs ! i) ((contents_filename_idx s + i) mod 64)" if "i < length vs" for i
    using cont that len(2) by (simp add: cs'_def)
  show ?thesis
  proof (intro exI conjI)
    show "fat12_listcontent ideal_floppy path cs count s = Some ((0, cs'), ?t)" by (rule run)
    show "same_disk s ?t" "open_files ?t = open_files s" "ring_ok ?t" using names by blast+
    show "length cs' = length cs" using cont by (simp add: cs'_def)
    show "\<forall>i < length vs. ct_type (cs' ! i) = (if is_dir (vs ! i) then DIRECTORY else FILE)
        \<and> (\<exists>b r. ct_filename (cs' ! i) = Some b \<and> contents_filenames ?t ! b = short_name (vs ! i) @ 0 # r)"
      using names first by (simp add: content_of_def)
    show "length vs < count \<longrightarrow> ct_filename (cs' ! length vs) = None"
      using cont assms(5) by (simp add: cs'_def)
    show "\<forall>i < length cs. length vs < i \<longrightarrow> cs' ! i = cs ! i"
      using cont by (auto simp: cs'_def)
  qed
qed

end
