(* ===== verification/Fat12_Remove.thy ===== *)
theory Fat12_Remove
  imports Fat12_Session
begin

text \<open>
  The removal of an empty directory by \<open>fat12_removedir\<close> of \<open>kernel/fat12.c\<close>: its clusters are free,
  its entry is deleted and it is no longer a node of the tree.
\<close>

section \<open>Stores in the table and behind it\<close>

lemma fat_sector_before:
  assumes "fat_ready s" and "num_fats (fat12_geom s) \<noteq> 0" and "i < fat_size s"
    and "unat (root_dir_start_sector (fat12_geom s)) \<le> unat sec"
  shows "sec \<noteq> fat_sector s i" and "sec \<notin> set (fat_copies s (fat_sector s i))"
proof -
  let ?g = "fat12_geom s"
  have i: "i < 4294967296" "i div 512 < unat (sectors_per_fat ?g)"
    using assms(3) fat_size_less [of s] by (auto simp: fat_size_def)
  have "unat (num_fats ?g) \<noteq> 0" using assms(2) by (simp add: unat_eq_zero)
  then have "1 * unat (sectors_per_fat ?g) \<le> unat (num_fats ?g) * unat (sectors_per_fat ?g)"
    by (intro mult_le_mono1) linarith
  then have "i div 512 < unat (num_fats ?g) * unat (sectors_per_fat ?g)" using i(2) by linarith
  then have "unat (fat_sector s i) < unat (root_dir_start_sector ?g)"
    using assms(1) i(1) by (simp add: unat_fat_sector unat_root_dir_start)
  then show "sec \<noteq> fat_sector s i" using assms(4) by auto
  show "sec \<notin> set (fat_copies s (fat_sector s i))"
    using unat_fat_copies(2) [OF assms(1,3), of sec] assms(4) by auto
qed

text \<open>A store in the table and one in a slot behind it commute.\<close>

lemma put_fat_byte_put_slot:
  assumes "fat_ready s" and "num_fats (fat12_geom s) \<noteq> 0" and "i < fat_size s"
    and "unat (root_dir_start_sector (fat12_geom s)) \<le> unat (fst p)"
  shows "put_fat_byte (put_slot s p e) i b = put_slot (put_fat_byte s i b) p e"
    and "fat_byte (put_slot s p e) i = fat_byte s i"
proof -
  note apart = fat_sector_before [OF assms]
  have sec: "fat_sector (put_slot s p e) i = fat_sector s i"
    "fat_copies (put_slot s p e) = fat_copies s"
    by (simp_all add: fat_sector_def fat_copies_def fun_eq_iff)
  show "fat_byte (put_slot s p e) i = fat_byte s i"
    using apart(1) by (simp add: fat_byte_def sec) (simp add: put_slot_def)
  show "put_fat_byte (put_slot s p e) i b = put_slot (put_fat_byte s i b) p e"
    using apart unfolding put_fat_byte_def sec Let_def
    by (auto simp: put_slot_def store_all_def fun_eq_iff)
qed

lemma put_fat_entry_put_slot:
  assumes "fat_ready s" and "num_fats (fat12_geom s) \<noteq> 0" and "in_fat s k"
    and "unat (root_dir_start_sector (fat12_geom s)) \<le> unat (fst p)"
  shows "put_fat_entry (put_slot s p e) k v = put_slot (put_fat_entry s k v) p e"
  using assms by (simp add: set12_def Let_def put_fat_byte_put_slot in_table_def)

lemma free_entries_put_slot:
  "fat_ready s \<Longrightarrow> num_fats (fat12_geom s) \<noteq> 0 \<Longrightarrow> \<forall>k \<in> set ks. in_fat s k \<Longrightarrow>
     unat (root_dir_start_sector (fat12_geom s)) \<le> unat (fst p) \<Longrightarrow>
     free_entries put_fat_entry ks (put_slot s p e) = put_slot (free_entries put_fat_entry ks s) p e"
proof (induction ks arbitrary: s)
  case (Cons k ks)
  have "same_behind s (put_fat_entry s k 0)" by (intro same_behind_put_fat_entry) (use Cons.prems in simp_all)
  with Cons show ?case
    by (simp add: put_fat_entry_put_slot same_behindD fat.ok_put fat.valid_put)
qed simp

section \<open>A directory leaves the tree\<close>

text \<open>No visible entry of the tree is for the directory \<open>d\<close>, one entry excepted.\<close>

definition only_entry :: "dir_tree \<Rightarrow> u32 \<Rightarrow> u32 \<Rightarrow> nat \<Rightarrow> bool" where
  "only_entry T d dc j \<longleftrightarrow>
     (\<forall>dc' es i. T dc' = Some es \<longrightarrow> dc' \<noteq> d \<longrightarrow> i < length es \<longrightarrow> (dc', i) \<noteq> (dc, j) \<longrightarrow>
        \<not> is_deleted (es ! i) \<longrightarrow> de_attr (es ! i) \<noteq> 0x0F \<longrightarrow> is_dir (es ! i) \<longrightarrow> start_cluster (es ! i) \<noteq> d)"

lemma volume_drop:
  assumes "volume s T" and "d \<noteq> 0"
    and "\<And>dc es e. T dc = Some es \<Longrightarrow> dc \<noteq> d \<Longrightarrow> e \<in> set es \<Longrightarrow>
      \<not> is_deleted e \<Longrightarrow> de_attr e \<noteq> 0x0F \<Longrightarrow> is_dir e \<Longrightarrow> start_cluster e \<noteq> d"
  shows "volume s (T(d := None))"
proof -
  have "tree_holds s (T(d := None))"
    unfolding tree_holds_def
  proof (intro conjI allI impI ballI)
    show "(T(d := None)) 0 \<noteq> None" using assms(2) volumeD(1) [OF assms(1)] by (simp add: tree_holds_def)
    fix dc es assume "(T(d := None)) dc = Some es"
    then have dc: "T dc = Some es" "dc \<noteq> d" by (auto split: if_splits)
    show "dir_ready s dc" "dir_holds s dc es" using tree_holdsD [OF volumeD(1) [OF assms(1)] dc(1)] by simp_all
    fix e assume e: "e \<in> set es" "\<not> is_deleted e" "de_attr e \<noteq> 0x0F" "is_dir e"
    have "T (start_cluster e) \<noteq> None"
      using tree_holds_closed [OF volumeD(1) [OF assms(1)] dc(1) e(1)] e by (simp add: entry_closed_def)
    with assms(3) [OF dc e] show "(T(d := None)) (start_cluster e) \<noteq> None" by simp
  qed
  then show ?thesis using volumeD(2,3) [OF assms(1)] unfolding volume_def by (auto split: if_splits)
qed

text \<open>A directory whose chain is not freed keeps its slots.\<close>

lemma dir_slot_free_entries:
  assumes "dir_store s dc" and "\<forall>k \<in> set ks. in_fat s k"
    and "\<And>n k. dc \<noteq> 0 \<Longrightarrow> chain_nth (fat_entry s) (unat dc) n = Some k \<Longrightarrow> k \<notin> set ks"
  shows "dir_slot (free_entries put_fat_entry ks s) dc i = dir_slot s dc i"
proof -
  note st = dir_storeD [OF assms(1)]
  note ready = tree_readyD [OF st(1)]
  note g = same_behindD(1) [OF same_behind_free_entries [OF ready(1,3) assms(2)]]
  show ?thesis
  proof (cases "dc = 0")
    case True
    then show ?thesis by (simp add: dir_slot_def Let_def g)
  next
    case False
    then have link: "is_link (unat dc)" "in_fat s (unat dc)" using st(2) by (simp_all add: dir_cluster_ok_def)
    have "fat_entry (free_entries put_fat_entry ks s) k = fat_entry s k"
      if "chain_nth (fat_entry s) (unat dc) m = Some k" for m k
      using fat.get_free_entries [OF ready(1) chain_nth_in_fat [OF ready(5) link that] assms(2)]
        assms(3) [OF False that] by simp
    then have "chain_nth (fat_entry (free_entries put_fat_entry ks s)) (unat dc) n =
        chain_nth (fat_entry s) (unat dc) n" for n
      by (rule chain_nth_agree)
    then show ?thesis using False by (simp add: dir_slot_def Let_def g)
  qed
qed

text \<open>The chains of the directories do not depend on the slots.\<close>

lemma chain_put_slot:
  assumes "volume s T" and "T d \<noteq> None" and "d \<noteq> 0"
    and "unat (root_dir_start_sector (fat12_geom s)) \<le> unat (fst p)"
  shows "chain_nth (fat_entry (put_slot s p e)) (unat d) n = chain_nth (fat_entry s) (unat d) n"
proof (rule chain_nth_agree)
  note sd = dir_storeD [OF volumeD(2) [OF assms(1,2)]]
  have "is_link (unat d)" "in_fat s (unat d)" using sd(2) assms(3) by (simp_all add: dir_cluster_ok_def)
  from chain_nth_in_fat [OF tree_readyD(5) [OF sd(1)] this] assms(4)
  show "fat_entry (put_slot s p e) k = fat_entry s k" if "chain_nth (fat_entry s) (unat d) m = Some k" for m k
    using that by (intro fat_entry_put_slot [OF sd(1)]) blast+
qed

text \<open>The only entry of a directory is deleted, and the directory leaves the tree.\<close>

lemma volume_unlink:
  assumes "volume s T" and "T dc = Some es" and "j < length es" and "dir_slot s dc (of_nat j) = Some p"
    and "wf_dir_entry (es ! j)" and "d \<noteq> 0" and "dc \<noteq> d" and "only_entry T d dc j"
  shows "volume (put_slot s p (mark_deleted (es ! j))) (T(d := None, dc \<mapsto> es[j := mark_deleted (es ! j)]))"
proof -
  let ?del = "mark_deleted (es ! j)"
  have v1: "volume (put_slot s p ?del) (T(dc \<mapsto> es[j := ?del]))"
    using assms(5) by (intro volume_put_slot [OF assms(1-4)]) simp_all
  have "volume (put_slot s p ?del) ((T(dc \<mapsto> es[j := ?del]))(d := None))"
  proof (rule volume_drop [OF v1 assms(6)])
    fix dc' es' x
    assume x: "(T(dc \<mapsto> es[j := ?del])) dc' = Some es'" "dc' \<noteq> d" "x \<in> set es'"
      "\<not> is_deleted x" "de_attr x \<noteq> 0x0F" "is_dir x"
    then obtain i where i: "i < length es'" "x = es' ! i" by (auto simp: in_set_conv_nth)
    show "start_cluster x \<noteq> d"
    proof (cases "dc' = dc")
      case True
      then have "es' = es[j := ?del]" using x(1) by simp
      moreover from this have "i \<noteq> j" using i x(4) assms(3,5) by auto
      ultimately show ?thesis using assms(2,8) i x True unfolding only_entry_def by auto
    next
      case False
      then have "T dc' = Some es'" using x(1) by simp
      with False show ?thesis using assms(8) i x unfolding only_entry_def by blast
    qed
  qed
  then show ?thesis using assms(7) by (simp add: fun_upd_twist)
qed

section \<open>The removal\<close>

lemma fat12_removedir_ideal:
  assumes "volume s T" and "0 \<notin> set path" and "lookup_path T (split_path path) = Some (e, idx, dc)"
    and "is_dir e" and "start_cluster e = d" and "T d = Some ds" and "list_all hidden_entry ds"
    and "d \<noteq> 0" and "dc \<noteq> d" and "only_entry T d dc (unat idx)"
    and "fat_chain (fat_entry s) (unat d) ks" and "\<forall>k \<in> set ks. in_fat s k"
    and "dirs_avoid s (T(d := None)) (set ks)"
  shows "\<exists>t es j. fat12_removedir ideal_floppy path s = Some (0, t)
    \<and> T dc = Some es \<and> j < length es \<and> e = es ! j
    \<and> volume t (T(d := None, dc \<mapsto> es[j := mark_deleted e])) \<and> open_files t = open_files s
    \<and> (\<forall>k. in_fat s k \<longrightarrow> fat_entry t k = (if k \<in> set ks then 0 else fat_entry s k))"
proof -
  obtain es j where es: "T dc = Some es" "j < length es" "e = es ! j" "idx = of_nat j"
    by (rule lookup_pathD [OF assms(1,3)])
  obtain p where p: "dir_slot s dc (of_nat j) = Some p" "wf_dir_entry e" "dir_ready s dc"
    using volume_entry [OF assms(1) es(1,2)] es(3) by blast
  have dc: "T dc \<noteq> None" using es(1) by simp
  note store = volumeD(2) [OF assms(1) dc]
  note st = dir_storeD [OF store]
  note ready = tree_readyD [OF st(1)]
  note behind = dir_slot_behind_fat [OF st(1,2) p(1)]
  let ?del = "mark_deleted e" and ?fr = "free_entries put_fat_entry ks"
  have j: "unat idx = j"
    using es(2,4) volumeD(4) [OF assms(1) es(1)] by (simp add: dir_holds_def unat_of_nat_u32)
  have v2: "volume (put_slot s p ?del) (T(d := None, dc \<mapsto> es[j := ?del]))"
    using volume_unlink [OF assms(1) es(1,2) p(1) _ assms(8,9)] assms(10) p(2) j es(3) by simp
  have entry: "fat_entry (put_slot s p ?del) k = fat_entry s k" if "in_fat s k" for k
    by (rule fat_entry_put_slot [OF st(1) that behind(1)])
  have avoid: "dirs_avoid (put_slot s p ?del) (T(d := None, dc \<mapsto> es[j := ?del])) (set ks)"
    using assms(13) chain_put_slot [OF assms(1) _ _ behind(1)] dc assms(9)
    unfolding dirs_avoid_def by (auto split: if_splits)
  have v3: "volume (?fr (put_slot s p ?del)) (T(d := None, dc \<mapsto> es[j := ?del]))"
    using volume_free_entries [OF v2 _ avoid] assms(12) by simp
  have comm: "?fr (put_slot s p ?del) = put_slot (?fr s) p ?del"
    by (rule free_entries_put_slot [OF ready(1,3) assms(12) behind(1)])
  have "is_link (unat d)"
    using dir_storeD(2) [OF volumeD(2) [OF assms(1)], of d] assms(6,8) by (simp add: dir_cluster_ok_def)
  then have d: "2 \<le> d" "unat d < 65536"
    using assms(5) unat_u16_less by (auto simp: is_link_def word_le_nat_alt start_cluster_def)
  have free: "fat12_free_cluster_chain ideal_floppy d s = Some (?fr s)"
    by (rule free_cluster_chain_of_chain [OF ready(1) d(2) assms(11,12)])
  have "k \<notin> set ks" if "dc \<noteq> 0" "chain_nth (fat_entry s) (unat dc) n = Some k" for n k
  proof -
    have "(T(d := None)) dc \<noteq> None" using assms(9) dc by simp
    with assms(13) that show ?thesis unfolding dirs_avoid_def by blast
  qed
  from dir_slot_free_entries [OF store assms(12) this] p(1)
  have slot: "dir_slot (?fr s) dc (of_nat j) = Some p" by simp
  have "dir_ready (?fr s) dc"
    using p(3) same_behindD(1) [OF same_behind_free_entries [OF ready(1,3) assms(12)]]
      fat.ok_free_entries [OF ready(1)] by (simp add: dir_ready_def)
  note stored = fat12_write_dir_entry_ideal [OF this slot]
  have run: "remove_entry ideal_floppy e idx dc s = Some (0, put_slot (?fr s) p ?del)"
    using d(1) free stored es(4) assms(5) by (simp add: remove_entry_def start_cluster_def)
  have "fat12_removedir ideal_floppy path s = Some (0, put_slot (?fr s) p ?del)"
    using fat12_find_entry_tree [OF volumeD(1) [OF assms(1)] assms(2)] assms(3,4,5,7) run
      fat12_is_dir_empty_ideal [OF tree_holdsD [OF volumeD(1) [OF assms(1)] assms(6)]]
    by (simp add: fat12_removedir_def is_dir_def start_cluster_def)
  moreover have "fat_entry (put_slot (?fr s) p ?del) k = (if k \<in> set ks then 0 else fat_entry s k)"
    if "in_fat s k" for k
    unfolding comm [symmetric]
    using fat.get_free_entries [of "put_slot s p ?del" k ks] tree_readyD(1) [OF volumeD(5) [OF v2]]
      that assms(12) entry by simp
  moreover have "open_files (put_slot (?fr s) p ?del) = open_files s"
    using same_behindD(2) [OF same_behind_free_entries [OF ready(1,3) assms(12)]] by simp
  ultimately show ?thesis using v3 comm es by auto
qed

end
