(* ===== verification/Fat12_Rename.thy ===== *)
theory Fat12_Rename
  imports Fat12_Session
begin

text \<open>
  \<open>fat12_rename\<close> of \<open>kernel/fat12.c\<close> on a volume: a new entry with the attributes, the first cluster
  and the size of the old one, the parent entry of a moved directory, and the old entry deleted.
\<close>

section \<open>A new entry in the tree\<close>

lemma create_in_tree:
  assumes "volume s T" and "T dc = Some es" and "length es < 2147483647" and "has_room s dc es"
    and "length nm = 8" and "length ex = 3" and "nm ! 0 \<noteq> 0" and "entry_closed T (make_entry nm ex a c z)"
  shows "\<exists>t. fat12_create_entry ideal_floppy dc nm ex a c z s =
      Some ((int (slot_index 0 es), Some (make_entry nm ex a c z)), t)
    \<and> volume t (T(dc \<mapsto> insert_entry (make_entry nm ex a c z) es)) \<and> open_files t = open_files s
    \<and> fat_size t = fat_size s \<and> (\<forall>k. in_fat s k \<longrightarrow> fat_entry t k = fat_entry s k)"
proof -
  let ?e = "make_entry nm ex a c z"
  have dc: "T dc \<noteq> None" using assms(2) by simp
  note st = volumeD(2) [OF assms(1) dc] and ho = volumeD(4) [OF assms(1,2)]
  obtain p where p: "dir_slot s dc (of_nat (slot_index 0 es)) = Some p" by (rule has_room_slot [OF ho assms(4)])
  have e: "wf_dir_entry ?e" "de_name ?e ! 0 \<noteq> 0" using assms(5-7) by simp_all
  have "fat_size (store_new dc es p ?e s) = fat_size s"
    by (simp add: store_new_def fat_size_def split: option.split)
  moreover note store_new_effect(3,4) [OF st ho assms(3) p e]
  ultimately show ?thesis
    using fat12_create_entry_room [OF st ho assms(3,4) p assms(5,6)]
      volume_store_new [OF assms(1-3) p e assms(8)] by blast
qed

lemma insert_entry_other:
  assumes "j < length es" and "\<not> is_deleted (es ! j)"
  shows "insert_entry e es ! j = es ! j" and "j < length (insert_entry e es)"
proof -
  have "slot_index 0 es \<noteq> j" using slot_index_deleted [of 0 es] assms by auto
  then show "insert_entry e es ! j = es ! j" "j < length (insert_entry e es)"
    using assms(1) by (auto simp: insert_entry_def nth_append)
qed

lemma length_insert_entry: "length es \<le> length (insert_entry e es)"
  by (simp add: insert_entry_def)

section \<open>The tree after a rename\<close>

definition renamed_entry :: "fat12_dir_entry \<Rightarrow> bytes \<Rightarrow> bytes \<Rightarrow> fat12_dir_entry" where
  "renamed_entry e nm ex = make_entry nm ex (de_attr e) (start_cluster e) (de_file_size e)"

definition store_entry :: "dir_tree \<Rightarrow> u32 \<Rightarrow> nat \<Rightarrow> fat12_dir_entry \<Rightarrow> dir_tree" where
  "store_entry T dc j e = T(dc \<mapsto> (the (T dc))[j := e])"

definition add_entry :: "dir_tree \<Rightarrow> u32 \<Rightarrow> fat12_dir_entry \<Rightarrow> dir_tree" where
  "add_entry T dc e = T(dc \<mapsto> insert_entry e (the (T dc)))"

text \<open>The second entry of a moved directory leads to its new parent.\<close>

definition new_parent :: "dir_tree \<Rightarrow> fat12_dir_entry \<Rightarrow> u32 \<Rightarrow> dir_tree" where
  "new_parent T e dc =
     (if is_dir e \<and> 2 \<le> start_cluster e
      then store_entry T (start_cluster e) 1
             ((the (T (start_cluster e)) ! 1)\<lparr>de_first_cluster_low := ucast dc\<rparr>)
      else T)"

definition rename_tree :: "dir_tree \<Rightarrow> fat12_dir_entry \<Rightarrow> u32 \<Rightarrow> nat \<Rightarrow> u32 \<Rightarrow> bytes \<Rightarrow> bytes \<Rightarrow> dir_tree" where
  "rename_tree T e dc j dc' nm ex =
     store_entry (new_parent (add_entry T dc' (renamed_entry e nm ex)) e dc') dc j (mark_deleted e)"

lemma store_entry_dom: "T dc \<noteq> None \<Longrightarrow> store_entry T dc j e d = None \<longleftrightarrow> T d = None"
  by (auto simp: store_entry_def)

lemma new_parent_dom:
  "T (start_cluster e) \<noteq> None \<Longrightarrow> new_parent T e dc d = None \<longleftrightarrow> T d = None"
  by (auto simp: new_parent_def store_entry_def)

text \<open>The clusters that name a directory are below 65536.\<close>

lemma dir_cluster_less:
  assumes "volume s T" and "T dc \<noteq> None"
  shows "unat dc < 65536"
  using dir_storeD(2) [OF volumeD(2) [OF assms]] by (auto simp: dir_cluster_ok_def is_link_def)

lemma ucast_dir_cluster:
  assumes "unat (dc :: u32) < 65536"
  shows "ucast (ucast dc :: u16) = dc"
  using assms by (simp add: word_unat_eq_iff unsigned_ucast_eq unsigned_take_bit_eq take_bit_nat_eq_self)

lemma ucast_u16_back [simp]: "(ucast (ucast (w :: u16) :: u32) :: u16) = w"
  using unat_u16_less [of w] by (simp add: word_unat_eq_iff unsigned_ucast_eq unsigned_take_bit_eq take_bit_nat_eq_self)

lemma new_parent_step:
  assumes "volume s T" and "T dc \<noteq> None" and "is_dir e \<Longrightarrow> 2 \<le> start_cluster e \<Longrightarrow>
      T (start_cluster e) \<noteq> None \<and> 2 \<le> length (the (T (start_cluster e)))"
  shows "\<exists>t. (if de_attr e AND 0x10 \<noteq> 0 \<and> (ucast (de_first_cluster_low e) :: u32) \<ge> 2 then do {
        (r, s) \<leftarrow> fat12_read_dir_entry ideal_floppy (ucast (de_first_cluster_low e)) 1 s;
        (case r of
           None \<Rightarrow> Some s
         | Some dotdot \<Rightarrow> do {
             (_, s) \<leftarrow> fat12_write_dir_entry ideal_floppy (ucast (de_first_cluster_low e)) 1
                (dotdot\<lparr>de_first_cluster_low := ucast dc\<rparr>) s;
             Some s
           })
      } else Some s) = Some t
    \<and> volume t (new_parent T e dc) \<and> open_files t = open_files s
    \<and> fat_size t = fat_size s \<and> (\<forall>k. in_fat s k \<longrightarrow> fat_entry t k = fat_entry s k)"
proof (cases "is_dir e \<and> 2 \<le> start_cluster e")
  case False
  then show ?thesis using assms(1) by (auto simp: new_parent_def is_dir_def start_cluster_def)
next
  case True
  let ?c = "start_cluster e"
  obtain ds where ds: "T ?c = Some ds" "1 < length ds" using True assms(3) by auto
  let ?up = "(ds ! 1)\<lparr>de_first_cluster_low := ucast dc\<rparr>"
  have here: "dir_ready s ?c" "dir_lookup s ?c 1 = Some (ds ! 1)" "de_name (ds ! 1) ! 0 \<noteq> 0"
    using tree_holdsD(1) [OF volumeD(1) [OF assms(1)] ds(1)]
      dir_holds_nth [OF volumeD(4) [OF assms(1) ds(1)] ds(2)] by simp_all
  have "wf_dir_entry (ds ! 1)" by (rule volume_entry [OF assms(1) ds])
  then have up: "wf_dir_entry ?up" by (simp add: wf_dir_entry_def)
  have "start_cluster ?up = dc"
    using ucast_dir_cluster [OF dir_cluster_less [OF assms(1,2)]] by (simp add: start_cluster_def)
  then have "entry_closed T ?up" using assms(2) by (simp add: entry_closed_def)
  with up here(3) obtain t where "fat12_write_dir_entry ideal_floppy ?c (of_nat 1) ?up s = Some (True, t)"
    "volume t (T(?c \<mapsto> ds[1 := ?up]))" "open_files t = open_files s" "fat_size t = fat_size s"
    "\<forall>k. in_fat s k \<longrightarrow> fat_entry t k = fat_entry s k"
    using rewrite_entry [OF assms(1) ds, of ?up] by auto
  with True ds(1) here(1,2) show ?thesis
    by (simp add: fat12_read_dir_entry_ideal new_parent_def store_entry_def is_dir_def start_cluster_def)
qed

section \<open>The operation\<close>

lemma fat12_rename_ideal:
  assumes "volume s T" and "0 \<notin> set oldpath" and "0 \<notin> set newpath"
    and "lookup_path T (split_path oldpath) = Some (e, i, dc)"
    and "lookup_path T (split_path newpath) = None"
    and "parent_of_path T (split_path newpath) = Some (dc', nm, ex)"
    and "length (the (T dc')) < 2147483647" and "has_room s dc' (the (T dc'))"
    and "is_dir e \<Longrightarrow> 2 \<le> start_cluster e \<Longrightarrow> 2 \<le> length (the (T (start_cluster e)))"
  shows "\<exists>t. fat12_rename ideal_floppy oldpath newpath s = Some (0, t)
    \<and> volume t (rename_tree T e dc (unat i) dc' nm ex)
    \<and> open_files t = rename_open_files oldpath newpath (open_files s)
    \<and> (\<forall>k. in_fat s k \<longrightarrow> fat_entry t k = fat_entry s k)"
proof -
  obtain es j where es: "T dc = Some es" "j < length es" "e = es ! j" "i = of_nat j"
    and live: "\<not> is_deleted e" "de_attr e \<noteq> 0x0F"
    by (rule lookup_pathD [OF assms(1,4)])
  have j: "unat i = j" using es(2,4) volumeD(4) [OF assms(1) es(1)] by (simp add: dir_holds_def unat_of_nat_u32)
  note par = parent_of_pathD [OF assms(1,3,6)]
  obtain es' where es': "T dc' = Some es'" using par(1) by blast
  let ?e' = "renamed_entry e nm ex" and ?T1 = "add_entry T dc' (renamed_entry e nm ex)"
  have T1: "?T1 = T(dc' \<mapsto> insert_entry ?e' es')" by (simp add: add_entry_def es')
  have closed: "entry_closed T e"
    using tree_holds_closed [OF volumeD(1) [OF assms(1)] es(1)] es(2,3) by simp
  have "is_dir ?e' = is_dir e" "start_cluster ?e' = start_cluster e"
    by (simp_all add: renamed_entry_def is_dir_def start_cluster_def ucast_u16_back)
  then have "entry_closed T ?e'" using closed live by (simp add: entry_closed_def)
  note new = create_in_tree [OF assms(1) es' _ _ par(2,3) parent_name_first [OF assms(3,6)]
      this [unfolded renamed_entry_def], folded renamed_entry_def]
  obtain t1 where t1: "fat12_create_entry ideal_floppy dc' nm ex (de_attr e) (start_cluster e)
      (de_file_size e) s = Some ((int (slot_index 0 es'), Some ?e'), t1)"
    "volume t1 ?T1" "open_files t1 = open_files s" "fat_size t1 = fat_size s"
    and f1: "\<forall>k. in_fat s k \<longrightarrow> fat_entry t1 k = fat_entry s k"
    using new assms(7,8) unfolding T1 es' by auto
  have dirs: "T (start_cluster e) \<noteq> None" if "is_dir e" using closed live that by (simp add: entry_closed_def)
  have dir: "?T1 (start_cluster e) \<noteq> None \<and> 2 \<le> length (the (?T1 (start_cluster e)))"
    if "is_dir e" "2 \<le> start_cluster e"
    using dirs [OF that(1)] assms(9) [OF that] length_insert_entry [of es' ?e'] es'
    by (cases "start_cluster e = dc'") (auto simp: T1)
  have "?T1 dc' \<noteq> None" by (simp add: T1)
  from new_parent_step [OF t1(2) this dir] obtain t2 where t2: "volume t2 (new_parent ?T1 e dc')"
    "open_files t2 = open_files t1" "fat_size t2 = fat_size t1"
    and f2: "\<forall>k. in_fat t1 k \<longrightarrow> fat_entry t2 k = fat_entry t1 k"
    and run2: "(if de_attr e AND 0x10 \<noteq> 0 \<and> (ucast (de_first_cluster_low e) :: u32) \<ge> 2 then do {
        (r, s) \<leftarrow> fat12_read_dir_entry ideal_floppy (ucast (de_first_cluster_low e)) 1 t1;
        (case r of
           None \<Rightarrow> Some s
         | Some dotdot \<Rightarrow> do {
             (_, s) \<leftarrow> fat12_write_dir_entry ideal_floppy (ucast (de_first_cluster_low e)) 1
                (dotdot\<lparr>de_first_cluster_low := ucast dc'\<rparr>) s;
             Some s
           })
      } else Some t1) = Some t2" by blast
  let ?T2 = "new_parent ?T1 e dc'"
  have "?T2 dc \<noteq> None \<and> j < length (the (?T2 dc))"
    using es(1,2) length_insert_entry [of es' ?e'] es'
    by (auto simp: new_parent_def store_entry_def T1 dest: dirs)
  then obtain es2 where es2: "?T2 dc = Some es2" "j < length es2" by auto
  have wf: "wf_dir_entry e" using volume_entry [OF assms(1) es(1,2)] es(3) by blast
  obtain t3 where t3: "fat12_write_dir_entry ideal_floppy dc i (mark_deleted e) t2 = Some (True, t3)"
    "volume t3 (?T2(dc \<mapsto> es2[j := mark_deleted e]))" "open_files t3 = open_files t2"
    and f3: "\<forall>k. in_fat t2 k \<longrightarrow> fat_entry t3 k = fat_entry t2 k"
    using rewrite_entry [OF t2(1) es2, of "mark_deleted e"] wf es(4) by auto
  let ?t = "t3\<lparr>open_files := rename_open_files oldpath newpath (open_files t3)\<rparr>"
  have same: "same_disk t3 ?t" by (simp add: same_disk_def)
  have "?T2(dc \<mapsto> es2[j := mark_deleted e]) = rename_tree T e dc j dc' nm ex"
    using es2 by (simp add: rename_tree_def store_entry_def)
  then have "volume ?t (rename_tree T e dc j dc' nm ex)"
    using t3(2) volume_same_disk [OF same] by simp
  moreover have "fat12_rename ideal_floppy oldpath newpath s = Some (0, ?t)"
    unfolding fat12_rename_def
    using fat12_find_entry_tree [OF volumeD(1) [OF assms(1)] assms(2)]
      fat12_find_entry_tree [OF volumeD(1) [OF assms(1)] assms(3)]
      fat12_resolve_parent_tree [OF volumeD(1) [OF assms(1)] assms(3)]
      assms(4-6) t1(1) run2 t3(1)
    by (simp add: start_cluster_def Let_def)
  moreover have "fat_entry ?t = fat_entry t3" using same_diskD(4) [OF same] .
  ultimately show ?thesis
    using f1 f2 f3 t1(3,4) t2(2,3) t3(3) j by auto
qed

section \<open>The renamed file\<close>

text \<open>Deleting a file does not hide any other entry.\<close>

lemma find_live_delete:
  assumes "find_live nm ex 0 es = Some (x, i)" and "length es < 4294967296" and "j < length es"
    and "wf_dir_entry e" and "i \<noteq> of_nat j"
  shows "find_live nm ex 0 (es[j := mark_deleted e]) = Some (x, i)"
proof -
  obtain h where h: "h < length es" "x = es ! h" "i = of_nat h" "entry_matches nm ex x"
    "\<forall>g < h. \<not> entry_matches nm ex (es ! g)"
    using assms(1) by (auto simp: find_live_Some_iff)
  have "h \<noteq> j" using h(3) assms(5) by auto
  moreover have "\<not> entry_matches nm ex (mark_deleted e)"
    using assms(4) by (simp add: entry_matches_def mark_deleted_def wf_dir_entry_def)
  then have "\<not> entry_matches nm ex (es[j := mark_deleted e] ! g)" if "g < h" for g
    using that h(1,5) by (cases "g = j") auto
  ultimately show ?thesis
    using h(1-4) unfolding find_live_Some_iff by (intro exI [of _ h]) simp
qed

lemma lookup_name_delete:
  assumes "T dc = Some es" and "j < length es" and "length es < 4294967296" and "wf_dir_entry e"
    and "lookup_name T d c = Some (x, i)" and "d = dc \<Longrightarrow> i \<noteq> of_nat j"
  shows "lookup_name (store_entry T dc j (mark_deleted e)) d c = Some (x, i)"
proof (cases "d = dc")
  case True
  with assms show ?thesis
    by (auto simp: lookup_name_def store_entry_def find_live_delete split: prod.splits)
qed (use assms(5) in \<open>simp add: lookup_name_def store_entry_def\<close>)

lemma lookup_path_delete:
  assumes "T dc = Some es" and "j < length es" and "length es < 4294967296"
    and "wf_dir_entry (es ! j)" and "\<not> is_dir (es ! j)"
    and "lookup_path T cs = Some (x, i, d)" and "d = dc \<Longrightarrow> i \<noteq> of_nat j"
  shows "lookup_path (store_entry T dc j (mark_deleted (es ! j))) cs = Some (x, i, d)"
proof -
  let ?T = "store_entry T dc j (mark_deleted (es ! j))"
  note keep = lookup_name_delete [where T = T and dc = dc and es = es and j = j and e = "es ! j", OF assms(1-4)]
  have cs: "cs \<noteq> []" "descend T 0 (butlast cs) = Some d" "lookup_name T d (last cs) = Some (x, i)"
    using assms(6) by (auto simp: lookup_path_def split: if_splits option.splits)
  have "descend ?T d0 bs = Some d1" if "descend T d0 bs = Some d1" for d0 bs d1
    using that
  proof (induction bs arbitrary: d0)
    case (Cons b bs)
    then obtain y h where y: "lookup_name T d0 b = Some (y, h)" "is_dir y"
        "descend T (start_cluster y) bs = Some d1"
      by (auto split: option.splits if_splits)
    have "h \<noteq> of_nat j" if here: "d0 = dc"
    proof -
      obtain g where "g < length es" "y = es ! g" "h = of_nat g"
        using lookup_name_matches [OF _ y(1), of es] assms(1) here by auto
      then show ?thesis using y(2) assms(2,3,5) by (auto simp: of_nat_u32_inj)
    qed
    from keep [OF y(1) this] Cons.IH [OF y(3)] y(2) show ?case by simp
  qed simp
  from this [OF cs(2)] keep [OF cs(3) assms(7)] cs(1) show ?thesis by (simp add: lookup_path_def)
qed

text \<open>A renamed file is found under its new path.\<close>

lemma renamed_file_found:
  assumes "volume s T" and "0 \<notin> set newpath"
    and "lookup_path T (split_path oldpath) = Some (e, i, dc)" and "\<not> is_dir e"
    and "lookup_path T (split_path newpath) = None"
    and "parent_of_path T (split_path newpath) = Some (dc', nm, ex)"
    and "length (the (T dc')) < 2147483647" and "nm ! 0 \<noteq> 0xE5"
  shows "lookup_path (rename_tree T e dc (unat i) dc' nm ex) (split_path newpath) =
    Some (renamed_entry e nm ex, of_nat (slot_index 0 (the (T dc'))), dc')"
proof -
  obtain es j where es: "T dc = Some es" "j < length es" "e = es ! j" "i = of_nat j"
    and live: "\<not> is_deleted e" "de_attr e \<noteq> 0x0F"
    by (rule lookup_pathD [OF assms(1,3)])
  have len: "length es < 4294967295" using volumeD(4) [OF assms(1) es(1)] by (simp add: dir_holds_def)
  then have j: "unat i = j" using es(2,4) by (simp add: unat_of_nat_u32)
  obtain es' where es': "T dc' = Some es'" using parent_of_pathD(1) [OF assms(1,2,6)] by blast
  let ?e' = "renamed_entry e nm ex"
  let ?T1 = "T(dc' \<mapsto> insert_entry ?e' es')"
  have found: "lookup_path ?T1 (split_path newpath) = Some (?e', of_nat (slot_index 0 es'), dc')"
    unfolding renamed_entry_def by (rule lookup_path_insert [OF assms(2,5,6) es' assms(8) live(2)])
  note other = insert_entry_other [OF es(2) live(1) [unfolded es(3)], folded es(3)]
  obtain es1 where es1: "?T1 dc = Some es1" "j < length es1" "es1 ! j = e" "length es1 < 4294967296"
  proof (cases "dc = dc'")
    case True
    then have same: "es' = es" using es(1) es' by simp
    have small: "length (insert_entry ?e' es) < 4294967296" using len by (simp add: insert_entry_def)
    have "?T1 dc = Some (insert_entry ?e' es)" using True same by simp
    then show thesis by (rule that [OF _ other(2,1) small])
  next
    case False
    then have "?T1 dc = Some es" using es(1) by simp
    from that [OF this es(2) es(3) [symmetric]] len show thesis by simp
  qed
  have "wf_dir_entry e" using volume_entry [OF assms(1) es(1,2)] es(3) by blast
  moreover have "of_nat (slot_index 0 es') \<noteq> (of_nat j :: u32)" if "dc' = dc"
  proof -
    have "es' = es" using that es(1) es' by simp
    moreover have "slot_index 0 es \<noteq> j" using slot_index_deleted [of 0 es] live(1) es(2,3) by auto
    ultimately show ?thesis using slot_index_le [of es] es(2) len by (simp add: of_nat_u32_inj)
  qed
  ultimately have "lookup_path (store_entry ?T1 dc j (mark_deleted e)) (split_path newpath) =
      Some (?e', of_nat (slot_index 0 es'), dc')"
    using lookup_path_delete [where T = ?T1, OF es1(1,2,4), unfolded es1(3), OF _ assms(4) found] by blast
  then show ?thesis
    using assms(4) es' j by (simp add: rename_tree_def new_parent_def add_entry_def)
qed

end
