(* ===== verification/Fat12_Makedir.thy ===== *)
theory Fat12_Makedir
  imports Fat12_Rename Fat12_Append
begin

text \<open>
  The creation of a directory by \<open>fat12_makedir\<close> of \<open>kernel/fat12.c\<close>: a free cluster becomes a
  directory with its two dot entries, and the tree gets a new node and a new entry.
\<close>

section \<open>The slots of one cluster\<close>

lemma dir_slot_in_cluster:
  assumes "dir_slot s dc i = Some p" and "dc \<noteq> 0" and "fat_chain (fat_entry s) (unat dc) [k]"
    and "sectors_per_cluster (fat12_geom s) \<noteq> 0"
  shows "fst p \<in> set (file_sectors (fat12_geom s) [k])"
  using assms(1)
proof (cases rule: dir_slot_cases)
  case (sub k')
  let ?g = "fat12_geom s" and ?spc = "unat (sectors_per_cluster (fat12_geom s))"
  let ?o = "(i mod entries_per_cluster ?g) * 32 div 512"
  have "k' = k" using sub(2) assms(3) by (cases "unat (i div entries_per_cluster ?g)") auto
  then have p: "fst p = cluster_sector ?g (of_nat k) ?o"
    using sub(3) by (simp add: slot_in_def cluster_sector_add [of _ _ ?o])
  have pos: "0 < ?spc" using assms(4) by (simp add: unat_gt_0)
  have "unat (i mod entries_per_cluster ?g) < ?spc * 16"
    using pos by (simp add: unat_mod unat_entries_per_cluster)
  moreover from this have "unat ((i mod entries_per_cluster ?g) * 32) = unat (i mod entries_per_cluster ?g) * 32"
    using unat_u8_less [of "sectors_per_cluster ?g"] by (subst unat_mult_u32) simp_all
  ultimately have "unat ?o < ?spc" by (simp add: unat_div less_mult_imp_div_less)
  then show ?thesis using p by (auto simp: set_file_sectors intro!: exI [of _ "unat ?o"])
qed (use assms(2) in simp)

lemma dir_slot_first:
  assumes "fat_chain (fat_entry s) (unat dc) [k]" and "dc \<noteq> 0" and "i < 16"
    and "sectors_per_cluster (fat12_geom s) \<noteq> 0"
  shows "\<exists>p. dir_slot s dc (of_nat i) = Some p"
proof -
  let ?e = "entries_per_cluster (fat12_geom s)"
  have "0 < unat (sectors_per_cluster (fat12_geom s))" using assms(4) by (simp add: unat_gt_0)
  then have "unat (of_nat i :: u32) < unat ?e"
    using assms(3) by (simp add: unat_entries_per_cluster unat_of_nat_u32)
  then have "unat (of_nat i div ?e) = 0" by (simp add: unat_div)
  then have "unat (of_nat i div ?e) = 0" "chain_nth (fat_entry s) (unat dc) 0 = Some k"
    using assms(1) by simp_all
  then show ?thesis using assms(2,4) by (simp add: dir_slot_def Let_def)
qed

section \<open>A directory outside the tree\<close>

text \<open>The cluster \<open>k\<close> is a directory of one cluster that the tree does not know yet.\<close>

definition new_dir :: "image fat12_state \<Rightarrow> dir_tree \<Rightarrow> nat \<Rightarrow> bool" where
  "new_dir s T k \<longleftrightarrow>
     volume s T \<and> dirs_avoid s T {k} \<and> dir_store s (of_nat k) \<and> fat_chain (fat_entry s) k [k]"

lemma unat_link: "is_link k \<Longrightarrow> unat (of_nat k :: u32) = k"
  by (simp add: is_link_def unat_of_nat_u32)

lemma new_dirD:
  assumes "new_dir s T k"
  shows "volume s T" and "dirs_avoid s T {k}" and "dir_store s (of_nat k)" and "fat_chain (fat_entry s) k [k]"
    and "is_link k" and "unat (of_nat k :: u32) = k" and "(of_nat k :: u32) \<noteq> 0"
proof -
  show "volume s T" "dirs_avoid s T {k}" "dir_store s (of_nat k)" "fat_chain (fat_entry s) k [k]"
    using assms by (simp_all add: new_dir_def)
  then show k: "is_link k" by simp
  show "unat (of_nat k :: u32) = k" by (rule unat_link [OF k])
  then show "(of_nat k :: u32) \<noteq> 0" using k by (auto simp: is_link_def)
qed

lemma new_dir_slot:
  assumes "new_dir s T k" and "dir_slot s (of_nat k) i = Some p"
  shows "fst p \<in> set (file_sectors (fat12_geom s) [k])"
  using dir_slot_in_cluster [OF assms(2)] new_dirD(3,4,6,7) [OF assms(1)] tree_readyD(4) [OF dir_storeD(1)]
  by fastforce

lemma new_dir_put_slot:
  assumes "new_dir s T k" and "dir_slot s (of_nat k) i = Some p" and "wf_dir_entry e"
  shows "new_dir (put_slot s p e) T k"
    and "dir_slot (put_slot s p e) (of_nat k) j = dir_slot s (of_nat k) j"
    and "fat12_write_dir_entry ideal_floppy (of_nat k) i e s = Some (True, put_slot s p e)"
    and "in_fat s m \<Longrightarrow> fat_entry (put_slot s p e) m = fat_entry s m"
    and "T dc \<noteq> None \<Longrightarrow> dir_slot (put_slot s p e) dc j = dir_slot s dc j"
proof -
  note new = new_dirD [OF assms(1)]
  note st = dir_storeD [OF new(3)]
  note put = put_slot_store [OF new(3) assms(2,3)]
  note behind = dir_slot_behind_fat [OF st(1,2) assms(2)]
  show "dir_slot (put_slot s p e) (of_nat k) j = dir_slot s (of_nat k) j" by (rule put(2))
  show entry: "in_fat s m \<Longrightarrow> fat_entry (put_slot s p e) m = fat_entry s m" for m by (rule put(3))
  show "fat12_write_dir_entry ideal_floppy (of_nat k) i e s = Some (True, put_slot s p e)"
    by (rule fat12_write_dir_entry_ideal [OF st(4) assms(2)])
  show "dir_slot (put_slot s p e) dc j = dir_slot s dc j" if "T dc \<noteq> None"
    by (rule dir_slot_put_slot [OF st(1) dir_storeD(2) [OF volumeD(2) [OF new(1) that]] behind(1)])
  have none: "dirs_avoid s T {}" by (simp add: dirs_avoid_def)
  have same: "same_entries s (put_slot s p e) {}" using entry by (simp add: same_entries_def)
  have ready: "tree_ready (put_slot s p e)" by (rule tree_ready_put_slot [OF st(1) assms(3) behind(2,1)])
  have "volume (put_slot s p e) T"
  proof (rule volume_frame [OF new(1) ready _ _ none])
    show "dev (put_slot s p e) (fst q) = dev s (fst q)" if "T dc \<noteq> None" "dir_slot s dc j = Some q" for dc j q
      using dir_slot_avoids [OF new(1) that(1), of "[k]" j q] that(2) new(2,5) new_dir_slot [OF assms(1,2)]
      by (auto simp: put_slot_def)
  qed (use entry in simp_all)
  moreover have "dirs_avoid (put_slot s p e) T {k}" by (rule dirs_avoid_frame [OF new(1) same none new(2)])
  moreover have "in_fat s k" using st(2) new(6,7) by (simp add: dir_cluster_ok_def)
  ultimately show "new_dir (put_slot s p e) T k"
    using put(1) new(4) entry by (simp add: new_dir_def)
qed

text \<open>A directory with its entries on the disk can become a node of the tree.\<close>

lemma volume_new_dir:
  assumes "new_dir s T k" and "T (of_nat k) = None" and "dir_holds s (of_nat k) es"
    and "\<And>e. e \<in> set es \<Longrightarrow> entry_closed (T(of_nat k \<mapsto> es)) e"
  shows "volume s (T(of_nat k \<mapsto> es))"
proof -
  let ?T = "T(of_nat k \<mapsto> es)"
  note new = new_dirD [OF assms(1)]
  have apart: "dir_slot s (of_nat k) i \<noteq> dir_slot s dc j \<or> dir_slot s dc j = None" if "T dc \<noteq> None" for dc i j
    using dir_slot_avoids [OF new(1) that, of "[k]" j] new(2,5) new_dir_slot [OF assms(1), of i]
    by (cases "dir_slot s dc j") auto
  have "slots_apart s dc dc'" if d: "?T dc \<noteq> None" "?T dc' \<noteq> None" "dc \<noteq> dc'" for dc dc'
  proof -
    consider "T dc \<noteq> None" "T dc' \<noteq> None" | "dc = of_nat k" "T dc' \<noteq> None" | "dc' = of_nat k" "T dc \<noteq> None"
      using d by (cases "dc = of_nat k"; cases "dc' = of_nat k"; force)
    then show ?thesis
    proof cases
      case 1
      then show ?thesis by (rule volumeD(3) [OF new(1) _ _ d(3)])
    next
      case 2
      then show ?thesis using apart [OF 2(2)] unfolding slots_apart_def by (metis option.distinct(1))
    next
      case 3
      then show ?thesis using apart [OF 3(2)] unfolding slots_apart_def by (metis option.distinct(1))
    qed
  qed
  moreover have "dir_store s dc" if "?T dc \<noteq> None" for dc
    using that new(3) volumeD(2) [OF new(1), of dc] by (cases "dc = of_nat k") auto
  moreover have "tree_holds s ?T"
    unfolding tree_holds_def
  proof (intro conjI allI impI ballI)
    show "?T 0 \<noteq> None" using volumeD(1) [OF new(1)] by (simp add: tree_holds_def)
    fix dc ds assume dc: "?T dc = Some ds"
    show "dir_ready s dc"
      using dc dir_storeD(4) [OF new(3)] tree_holdsD(1) [OF volumeD(1) [OF new(1)], of dc] by (auto split: if_splits)
    show "dir_holds s dc ds"
      using dc assms(3) volumeD(4) [OF new(1), of dc] by (auto split: if_splits)
    fix e assume e: "e \<in> set ds" "\<not> is_deleted e" "de_attr e \<noteq> 0x0F" "is_dir e"
    show "?T (start_cluster e) \<noteq> None"
    proof (cases "dc = of_nat k")
      case True
      then show ?thesis using assms(4) [of e] dc e by (auto simp: entry_closed_def split: if_splits)
    next
      case False
      then have "entry_closed T e" using dc e(1) tree_holds_closed [OF volumeD(1) [OF new(1)], of dc ds] by simp
      then show ?thesis using e by (auto simp: entry_closed_def)
    qed
  qed
  ultimately show ?thesis unfolding volume_def by blast
qed

section \<open>The two dot entries\<close>

lemma wf_dot_entries [simp]:
  "wf_dir_entry (dot_entry c)" "wf_dir_entry (dotdot_entry c)"
  "de_name (dot_entry c) ! 0 \<noteq> 0" "de_name (dotdot_entry c) ! 0 \<noteq> 0"
  by (simp_all add: dot_entry_def dotdot_entry_def wf_dir_entry_def zero_entry_def make_entry_def)

lemma dot_entry_targets:
  assumes "unat c < 65536"
  shows "start_cluster (dot_entry c) = c" and "start_cluster (dotdot_entry c) = c"
  using ucast_dir_cluster [OF assms] by (simp_all add: start_cluster_def dot_entry_def dotdot_entry_def)

text \<open>A fresh cluster becomes a directory that holds the two dot entries.\<close>

lemma init_dir_cluster:
  assumes "new_dir s T k"
  obtains t where "fat12_init_dir_cluster ideal_floppy (of_nat k) dc s = Some t" and "new_dir t T k"
    and "dir_holds t (of_nat k) [dot_entry (of_nat k), dotdot_entry dc]" and "open_files t = open_files s"
    and "fat12_geom t = fat12_geom s" and "\<And>m. in_fat s m \<Longrightarrow> fat_entry t m = fat_entry s m"
    and "\<And>d j. T d \<noteq> None \<Longrightarrow> dir_slot t d j = dir_slot s d j"
proof -
  note new = new_dirD [OF assms]
  let ?c = "of_nat k :: u32"
  have spc: "sectors_per_cluster (fat12_geom s) \<noteq> 0" by (rule tree_readyD(4) [OF dir_storeD(1) [OF new(3)]])
  have ch: "fat_chain (fat_entry s) (unat ?c) [k]" using new(4) unfolding new(6) .
  obtain p0 p1 p2 where p: "dir_slot s ?c (of_nat 0) = Some p0" "dir_slot s ?c (of_nat 1) = Some p1"
    "dir_slot s ?c (of_nat 2) = Some p2"
    using dir_slot_first [OF ch new(7) _ spc, of 0] dir_slot_first [OF ch new(7) _ spc, of 1]
      dir_slot_first [OF ch new(7) _ spc, of 2] by auto
  note s0 = new_dir_put_slot [OF assms p(1) wf_dot_entries(1)]
  let ?s0 = "put_slot s p0 (dot_entry ?c)"
  have q1: "dir_slot ?s0 ?c (of_nat 1) = Some p1" using s0(2) p(2) by simp
  note s1 = new_dir_put_slot [OF s0(1) q1 wf_dot_entries(2)]
  let ?s1 = "put_slot ?s0 p1 (dotdot_entry dc)"
  have q2: "dir_slot ?s1 ?c (of_nat 2) = Some p2" using s0(2) s1(2) p(3) by simp
  note s2 = new_dir_put_slot [OF s1(1) q2 wf_zero_entry]
  let ?s2 = "put_slot ?s1 p2 zero_entry"
  note at0 = dir_lookup_put_at [OF new(3) p(1) wf_dot_entries(1)]
  note at1 = dir_lookup_put_at [OF new_dirD(3) [OF s0(1)] q1 wf_dot_entries(2)]
  note at2 = dir_lookup_put_at [OF new_dirD(3) [OF s1(1)] q2 wf_zero_entry]
  have l: "dir_lookup ?s2 ?c (of_nat 0) = Some (dot_entry ?c)" "dir_lookup ?s2 ?c (of_nat 1) = Some (dotdot_entry dc)"
    "dir_lookup ?s2 ?c (of_nat 2) = Some zero_entry"
    using at0 [of 0] at1 [of 0] at1 [of 1] at2 [of 0] at2 [of 1] at2 [of 2]
    by (simp_all del: of_nat_0 of_nat_1 of_nat_numeral)
  have holds: "dir_holds ?s2 ?c [dot_entry ?c, dotdot_entry dc]"
    using l by (auto simp: dir_holds_def less_Suc_eq numeral_2_eq_2)
  show thesis
  proof (rule that [of ?s2])
    show "fat12_init_dir_cluster ideal_floppy ?c dc s = Some ?s2"
      using s0(3) s1(3) s2(3) by (simp add: fat12_init_dir_cluster_def)
    show "new_dir ?s2 T k" by (rule s2(1))
    show "dir_holds ?s2 ?c [dot_entry ?c, dotdot_entry dc]" by (rule holds)
    show "fat_entry ?s2 m = fat_entry s m" if "in_fat s m" for m
      using that s0(4) s1(4) s2(4) by (simp add: fat_size_def)
    show "dir_slot ?s2 d j = dir_slot s d j" if "T d \<noteq> None" for d j
      using that s0(5) s1(5) s2(5) by simp
  qed simp_all
qed

section \<open>The operation\<close>

lemma dir_slot_frame:
  assumes "volume s T" and "same_entries s t K" and "dirs_avoid s T K" and "fat12_geom t = fat12_geom s"
    and "T dc \<noteq> None"
  shows "dir_slot t dc i = dir_slot s dc i"
  using dir_chain_frame(1) [OF assms(1-3,5)] assms(4) by (cases "dc = 0") (simp_all add: dir_slot_def Let_def)

text \<open>The allocated cluster is a directory of its own, whose slots are in the table's reach.\<close>

lemma allocated_new_dir:
  assumes "volume s T" and "dirs_marked s T" and "first_free s = Some k" and "k \<in> free_clusters s"
  defines "t \<equiv> take_cluster s 0 k"
  shows "fat12_allocate_cluster ideal_floppy 0 s = Some (int k, t)" and "new_dir t T k"
    and "dirs_marked t T" and "T (of_nat k) = None" and "open_files t = open_files s"
    and "in_fat s j \<Longrightarrow> fat_entry t j = (if j = k then 0x0FFF else fat_entry s j)"
    and "fat12_geom t = fat12_geom s" and "T dc \<noteq> None \<Longrightarrow> dir_slot t dc i = dir_slot s dc i"
proof -
  have own: "own_chain s T 0 []" by (simp add: own_chain_def file_chain_def dirs_avoid_def is_link_def)
  note ready = tree_readyD [OF volumeD(5) [OF assms(1)]]
  have t: "t = take_cluster s (last_cluster []) k" by (simp add: t_def last_cluster_def)
  show "fat12_allocate_cluster ideal_floppy 0 s = Some (int k, t)"
    using ready(1) assms(3) by (simp add: fat12_allocate_cluster_ideal t_def)
  note frame = take_cluster_frame [OF assms(1,2) own assms(4), folded t]
  note vol = take_cluster_volume [OF assms(1,2) own assms(4), folded t]
  note same = same_behindD [OF same_behind_take_cluster [OF assms(1) own frame(5)], folded t]
  note unat = unat_link [OF frame(4)]
  show entry: "in_fat s j \<Longrightarrow> fat_entry t j = (if j = k then 0x0FFF else fat_entry s j)" for j
    using take_cluster_entries [OF assms(1) own assms(4), of j] by (simp add: t)
  show geom: "fat12_geom t = fat12_geom s" by (rule same(1))
  show "open_files t = open_files s" by (rule same(2))
  show "dirs_marked t T" by (rule vol(2))
  have avoid: "dirs_avoid s T {k}" using frame(2) by simp
  have entries: "same_entries s t {k}" using frame(1) by simp
  show "dir_slot t dc i = dir_slot s dc i" if "T dc \<noteq> None"
    by (rule dir_slot_frame [OF assms(1) entries avoid geom that])
  show "T (of_nat k) = None"
  proof (rule ccontr)
    assume "T (of_nat k) \<noteq> None"
    moreover have "(of_nat k :: u32) \<noteq> 0" using unat frame(4) by (auto simp: is_link_def)
    ultimately show False
      using avoid unat unfolding dirs_avoid_def by (metis chain_nth.simps(1) insertI1)
  qed
  have "\<not> is_link (unat (fat_entry t k))" using entry [OF frame(5)] by (simp add: is_link_def)
  then have ch: "fat_chain (fat_entry t) k [k]" using frame(4) by simp
  have nz: "(of_nat k :: u32) \<noteq> 0" using unat frame(4) by (auto simp: is_link_def)
  have "dir_cluster_ok t (of_nat k)" using frame(4,5) unat same(3) by (simp add: dir_cluster_ok_def)
  then have "dir_store t (of_nat k)"
    using ch unat by (intro dir_store_chain [OF volumeD(5) [OF vol(1)] _ nz, of "[k]"]) simp_all
  moreover have "dirs_avoid t T {k}" by (rule dirs_avoid_frame [OF assms(1) entries avoid avoid])
  ultimately show "new_dir t T k" using vol(1) ch by (simp add: new_dir_def)
qed

text \<open>A directory that no entry leads to is not seen by the walks.\<close>

lemma descend_new_dir:
  assumes "tree_holds s T" and "T d = None"
  shows "T dc \<noteq> None \<Longrightarrow> descend (T(d \<mapsto> ds)) dc cs = descend T dc cs"
    and "T dc \<noteq> None \<Longrightarrow> descend T dc cs = Some dc' \<Longrightarrow> T dc' \<noteq> None"
proof -
  have name: "lookup_name (T(d \<mapsto> ds)) dc c = lookup_name T dc c" if "T dc \<noteq> None" for dc c
    using that assms(2) by (auto simp: lookup_name_def)
  show "T dc \<noteq> None \<Longrightarrow> descend (T(d \<mapsto> ds)) dc cs = descend T dc cs"
  proof (induction cs arbitrary: dc)
    case (Cons c cs)
    show ?case
    proof (cases "lookup_name T dc c")
      case (Some p)
      then obtain e i where e: "lookup_name T dc c = Some (e, i)" by (cases p) simp
      with Cons.IH [of "start_cluster e"] descend_closed [OF assms(1) Cons.prems e] name [OF Cons.prems]
      show ?thesis by (simp del: fun_upd_apply)
    qed (simp add: name [OF Cons.prems] del: fun_upd_apply)
  qed simp
  show "T dc \<noteq> None \<Longrightarrow> descend T dc cs = Some dc' \<Longrightarrow> T dc' \<noteq> None"
  proof (induction cs arbitrary: dc)
    case (Cons c cs)
    then obtain e i where "lookup_name T dc c = Some (e, i)" "is_dir e" "descend T (start_cluster e) cs = Some dc'"
      by (auto split: option.splits if_splits)
    with Cons.IH descend_closed [OF assms(1) Cons.prems(1)] show ?case by blast
  qed simp
qed

lemma lookup_new_dir:
  assumes "tree_holds s T" and "T d = None"
  shows "lookup_path (T(d \<mapsto> ds)) cs = lookup_path T cs"
    and "parent_of_path (T(d \<mapsto> ds)) cs = parent_of_path T cs"
proof -
  have "T 0 \<noteq> None" using assms(1) by (simp add: tree_holds_def)
  note down = descend_new_dir [OF assms this]
  have "lookup_name (T(d \<mapsto> ds)) dc c = lookup_name T dc c" if "T dc \<noteq> None" for dc c
    using that assms(2) by (auto simp: lookup_name_def)
  then show "lookup_path (T(d \<mapsto> ds)) cs = lookup_path T cs"
    using down by (auto simp: lookup_path_def simp del: fun_upd_apply split: option.split)
  show "parent_of_path (T(d \<mapsto> ds)) cs = parent_of_path T cs"
    using down by (simp add: parent_of_path_def del: fun_upd_apply)
qed

definition made_dir :: "dir_tree \<Rightarrow> u32 \<Rightarrow> u32 \<Rightarrow> bytes \<Rightarrow> bytes \<Rightarrow> dir_tree" where
  "made_dir T c dc nm ex =
     add_entry (T(c \<mapsto> [dot_entry c, dotdot_entry dc])) dc (make_entry nm ex 0x10 c 0)"

lemma fat12_makedir_ideal:
  assumes "volume s T" and "dirs_marked s T" and "0 \<notin> set path" and "lookup_path T (split_path path) = None"
    and "parent_of_path T (split_path path) = Some (dc, nm, ex)" and "T dc = Some es"
    and "length es < 2147483647" and "has_room s dc es" and "free_clusters s \<noteq> {}" and "nm ! 0 \<noteq> 0xE5"
  shows "\<exists>t k. k \<in> free_clusters s \<and> T (of_nat k) = None
    \<and> fat12_makedir ideal_floppy path s = Some (0, t)
    \<and> volume t (made_dir T (of_nat k) dc nm ex) \<and> dirs_marked t (made_dir T (of_nat k) dc nm ex)
    \<and> lookup_path (made_dir T (of_nat k) dc nm ex) (split_path path) =
        Some (make_entry nm ex 0x10 (of_nat k) 0, of_nat (slot_index 0 es), dc)
    \<and> open_files t = open_files s
    \<and> (\<forall>j. in_fat s j \<longrightarrow> fat_entry t j = (if j = k then 0x0FFF else fat_entry s j))"
proof -
  note par = parent_of_pathD [OF assms(1,3,5)]
  obtain k where k: "first_free s = Some k" "k \<in> free_clusters s" by (rule first_free_cluster [OF assms(9)])
  let ?c = "of_nat k :: u32" and ?t1 = "take_cluster s 0 k"
  note alloc = allocated_new_dir [OF assms(1,2) k]
  obtain t2 where init: "fat12_init_dir_cluster ideal_floppy ?c dc ?t1 = Some t2" "new_dir t2 T k"
    "dir_holds t2 ?c [dot_entry ?c, dotdot_entry dc]" "open_files t2 = open_files ?t1"
    "fat12_geom t2 = fat12_geom ?t1"
    and entry2: "\<And>m. in_fat ?t1 m \<Longrightarrow> fat_entry t2 m = fat_entry ?t1 m"
    and slot2: "\<And>d j. T d \<noteq> None \<Longrightarrow> dir_slot t2 d j = dir_slot ?t1 d j"
    by (rule init_dir_cluster [OF alloc(2), of dc]) blast
  have size: "fat_size t2 = fat_size s" using init(5) alloc(7) by (simp add: fat_size_def)
  have size1: "fat_size ?t1 = fat_size s" using alloc(7) by (simp add: fat_size_def)
  have entry: "fat_entry t2 j = (if j = k then 0x0FFF else fat_entry s j)" if "in_fat s j" for j
    using that entry2 [of j] alloc(6) [OF that] size1 by simp
  let ?ds = "[dot_entry ?c, dotdot_entry dc]"
  let ?T' = "T(?c \<mapsto> ?ds)" and ?e = "make_entry nm ex 0x10 ?c 0"
  have small: "unat dc < 65536" "unat ?c < 65536"
    using dir_cluster_less [OF assms(1) par(1)] new_dirD(5,6) [OF init(2)] by (simp_all add: is_link_def)
  have "entry_closed ?T' e" if "e \<in> set ?ds" for e
    using that dot_entry_targets [OF small(1)] dot_entry_targets [OF small(2)] par(1) by (auto simp: entry_closed_def)
  then have vol2: "volume t2 ?T'" by (intro volume_new_dir [OF init(2) alloc(4) init(3)])
  have dc: "?T' dc = Some es" using assms(6) alloc(4) by auto
  have "has_room t2 dc es"
    using assms(8) slot2 [OF par(1)] alloc(8) [OF par(1)] by (simp add: has_room_def)
  moreover have "start_cluster ?e = ?c" using ucast_dir_cluster [OF small(2)] by (simp add: start_cluster_def)
  then have "entry_closed ?T' ?e" by (simp add: entry_closed_def)
  ultimately obtain t where t: "fat12_create_entry ideal_floppy dc nm ex 0x10 ?c 0 t2 =
      Some ((int (slot_index 0 es), Some ?e), t)" "volume t (?T'(dc \<mapsto> insert_entry ?e es))"
      "open_files t = open_files t2" "fat_size t = fat_size t2"
    and entry3: "\<forall>k. in_fat t2 k \<longrightarrow> fat_entry t k = fat_entry t2 k"
    using create_in_tree [OF vol2 dc assms(7) _ par(2,3) parent_name_first [OF assms(3,5)]] by blast
  have T: "?T'(dc \<mapsto> insert_entry ?e es) = made_dir T ?c dc nm ex" using dc by (simp add: made_dir_def add_entry_def)
  have run: "fat12_makedir ideal_floppy path s = Some (0, t)"
    using fat12_resolve_parent_tree [OF volumeD(1) [OF assms(1)] assms(3)]
      fat12_find_entry_tree [OF volumeD(1) [OF assms(1)] assms(3)] assms(4,5) alloc(1) init(1) t(1)
    by (simp add: fat12_makedir_def)
  note same_tree = lookup_new_dir [OF volumeD(1) [OF assms(1)] alloc(4), of ?ds "split_path path"]
  have found: "lookup_path (made_dir T ?c dc nm ex) (split_path path) = Some (?e, of_nat (slot_index 0 es), dc)"
    unfolding T [symmetric]
    by (rule lookup_path_insert [where T = ?T', OF assms(3) _ _ dc assms(10)]) (use same_tree assms(4,5) in simp_all)
  have none: "dirs_avoid u X {}" for u X by (simp add: dirs_avoid_def)
  have "dirs_marked t2 T"
  proof (rule dirs_marked_frame [OF _ _ none alloc(3)])
    show "volume ?t1 T" by (rule new_dirD(1) [OF alloc(2)])
    show "same_entries ?t1 t2 {}" using entry2 by (simp add: same_entries_def)
  qed
  moreover have "in_fat s k" using k(2) by (simp add: free_clusters_def)
  then have "chain_nth (fat_entry t2) k n = Some j \<Longrightarrow> j = k \<and> fat_entry t2 j \<noteq> 0" for n j
    using entry by (cases n) (auto simp: is_link_def)
  ultimately have "dirs_marked t2 ?T'"
    using new_dirD(6) [OF init(2)] unfolding dirs_marked_def by (auto split: if_splits)
  moreover have "same_entries t2 t {}" using entry3 by (simp add: same_entries_def)
  ultimately have "dirs_marked t ?T'" using dirs_marked_frame [OF vol2 _ none] by blast
  moreover have "made_dir T ?c dc nm ex d = None \<longleftrightarrow> ?T' d = None" for d
    unfolding T [symmetric] using dc by auto
  ultimately have "dirs_marked t (made_dir T ?c dc nm ex)" using dirs_cong(2) [of "made_dir T ?c dc nm ex" ?T' t] by simp
  moreover have "fat_entry t j = (if j = k then 0x0FFF else fat_entry s j)" if "in_fat s j" for j
    using that entry3 entry [OF that] size by simp
  ultimately show ?thesis
    using k(2) alloc(4,5) run t(2,3) found init(4) unfolding T by auto
qed

end
