(* ===== verification/Demo_Dirs.thy ===== *)
theory Demo_Dirs
  imports Demo_Write Fat12_List Fat12_Remove Fat12_Makedir
begin

text \<open>The hypotheses of the properties of the directory operations, on the small volume.\<close>

lemma demo_parent_dir:
  "parent_of_path demo_tree (split_path (chars ''/E'')) = Some (0, chars ''E       '', chars ''   '')"
  "lookup_path demo_tree (split_path (chars ''/E'')) = None"
  by code_simp+

lemma demo_path_dir [simp]: "0 \<notin> set (chars ''/E'')" "0 \<notin> set (chars ''/'')"
  by (simp_all add: chars_def)

lemma demo_free: "free_clusters demo \<noteq> {}"
  using demo_free_card by auto

lemma demo_name_dir: "chars ''E       '' ! 0 \<noteq> 0xE5"
  by (simp add: chars_def)

section \<open>Listing\<close>

lemma demo_ring: "ring_ok demo"
  by (simp add: ring_ok_def demo_def)

lemma demo_listed: "listed_dir demo_tree (chars ''/'') = Some 0"
  by (simp add: listed_dir_def is_root_path_def chars_def)

lemma demo_both_visible [simp]: "visible_entry demo_a" "visible_entry demo_d"
  by (simp_all add: visible_entry_def hidden_entry_def demo_a_def demo_d_def chars_def make_entry_def)

lemma demo_short_names: "short_name demo_a = chars ''A.TXT''" "short_name demo_d = chars ''D''"
  by code_simp+

section \<open>A volume with an empty directory\<close>

definition demo_bare :: "image fat12_state" where
  "demo_bare = put_slot demo (5, 0) (mark_deleted demo_b)"

definition demo_bare_tree :: dir_tree where
  "demo_bare_tree = demo_tree(4 \<mapsto> [mark_deleted demo_b])"

lemma demo_bare_slot: "dir_slot demo 4 (of_nat 0) = Some (5, 0)"
  by code_simp

lemma demo_bare_volume: "volume demo_bare demo_bare_tree"
  using volume_put_slot [OF demo_volume demo_sub _ demo_bare_slot, of "mark_deleted demo_b"]
  by (simp add: demo_bare_def demo_bare_tree_def)

lemma demo_bare_entry: "in_fat demo k \<Longrightarrow> fat_entry demo_bare k = fat_entry demo k"
  unfolding demo_bare_def by (rule put_slot_store(3) [OF demo_store(2) demo_bare_slot]) simp_all

lemma demo_bare_find: "lookup_path demo_bare_tree (split_path (chars ''/D'')) = Some (demo_d, 1, 0)"
  by code_simp

lemma demo_bare_dirs: "demo_bare_tree 4 = Some [mark_deleted demo_b]" "demo_bare_tree 0 = Some [demo_a, demo_d]"
  by (simp_all add: demo_bare_tree_def demo_tree_def)

lemma demo_bare_hidden: "list_all hidden_entry [mark_deleted demo_b]"
  by (simp add: hidden_entry_def mark_deleted_def demo_b_def chars_def make_entry_def)

lemma demo_bare_chain: "fat_chain (fat_entry demo_bare) (unat (4 :: u32)) [4]"
  using demo_bare_entry [OF demo_in_fat, of 4] by (simp add: demo_table is_link_def)

lemma demo_bare_in_fat: "\<forall>k \<in> set [4]. in_fat demo_bare k"
  using demo_in_fat [of 4] by (simp add: demo_bare_def fat_size_def)

lemma demo_bare_avoid: "dirs_avoid demo_bare (demo_bare_tree(4 := None)) (set [4])"
  by (auto simp: dirs_avoid_def demo_bare_tree_def demo_tree_def split: if_splits)

lemma demo_bare_only: "only_entry demo_bare_tree 4 0 (unat (1 :: u32))"
  by (auto simp: only_entry_def demo_bare_tree_def demo_tree_def demo_is_dir less_Suc_eq nth_Cons'
      split: if_splits)

section \<open>A renamed file\<close>

lemma demo_renamed: "renamed_entry demo_a nm ex = make_entry nm ex 0 2 600"
proof -
  have "de_attr demo_a = 0" "de_file_size demo_a = 600" by (simp_all add: demo_a_def)
  then show ?thesis by (simp add: renamed_entry_def demo_start)
qed

end
