(* ===== verification/Fat12_Types.thy ===== *)
theory Fat12_Types
  imports Driver_Refinement Fat12_List Floppy
begin

text \<open>
  What the file system of \<open>kernel/fat12.c\<close> keeps on every disk, a damaged one included, and over
  every driver that keeps the length of a sector buffer: the sizes of its tables and strings, and
  that every buffer given to the driver is one sector. The rules follow the syntax of the operations.
\<close>

section \<open>Typed states and runs\<close>

definition typed :: "('d \<Rightarrow> bool) \<Rightarrow> drivesformat \<Rightarrow> fat12_geometry \<Rightarrow> 'd fat12_state \<Rightarrow> bool" where
  "typed J drv g s \<longleftrightarrow>
     J (dev s) \<and> drive s = drv \<and> fat12_geom s = g \<and> length (stack_buf s) = 512
     \<and> length (open_files s) = MAX_OPEN_FILES \<and> (\<forall>f \<in> set (open_files s). length (of_path f) < 256)
     \<and> ring_ok s"

lemma typedD:
  assumes "typed J drv g s"
  shows "J (dev s)" and "drive s = drv" and "fat12_geom s = g" and "length (stack_buf s) = 512"
    and "length (open_files s) = MAX_OPEN_FILES" and "\<forall>f \<in> set (open_files s). length (of_path f) < 256"
    and "ring_ok s"
  using assms by (simp_all add: typed_def)

text \<open>Every result of a run has the property \<open>Q\<close>, and its state the property \<open>W\<close>.\<close>

definition keep :: "('s \<Rightarrow> bool) \<Rightarrow> ('a \<Rightarrow> bool) \<Rightarrow> ('a \<times> 's) option \<Rightarrow> bool" where
  "keep W Q m \<longleftrightarrow> (\<forall>x s. m = Some (x, s) \<longrightarrow> W s \<and> Q x)"

definition keep_state :: "('s \<Rightarrow> bool) \<Rightarrow> 's option \<Rightarrow> bool" where
  "keep_state W m \<longleftrightarrow> (\<forall>s. m = Some s \<longrightarrow> W s)"

named_theorems keep_intros \<open>introduction rules for typed runs\<close>

lemma keepD: "keep W Q m \<Longrightarrow> m = Some (x, s) \<Longrightarrow> W s \<and> Q x"
  by (simp add: keep_def)

lemma keep_pairD: "keep W Q m \<Longrightarrow> m = Some x \<Longrightarrow> W (snd x) \<and> Q (fst x)"
  by (cases x) (simp add: keep_def)

lemma keep_stateD: "keep_state W m \<Longrightarrow> m = Some s \<Longrightarrow> W s"
  by (simp add: keep_state_def)

lemma keepI: "(\<And>x s. m = Some (x, s) \<Longrightarrow> W s \<and> Q x) \<Longrightarrow> keep W Q m"
  by (simp add: keep_def)

lemma keep_weaken: "keep W P m \<Longrightarrow> (\<And>x. P x \<Longrightarrow> Q x) \<Longrightarrow> keep W Q m"
  by (auto simp: keep_def)

lemma keep_bind:
  "keep W P m \<Longrightarrow> (\<And>x s. W s \<Longrightarrow> P x \<Longrightarrow> keep W Q (f (x, s))) \<Longrightarrow> keep W Q (Option.bind m f)"
  by (auto simp: keep_def bind_eq_Some_conv)

lemma keep_state_bind_value:
  "keep W P m \<Longrightarrow> (\<And>x s. W s \<Longrightarrow> P x \<Longrightarrow> keep_state W (f (x, s))) \<Longrightarrow> keep_state W (Option.bind m f)"
  by (auto simp: keep_def keep_state_def bind_eq_Some_conv)

lemma keep_bind_state:
  "keep_state W m \<Longrightarrow> (\<And>s. W s \<Longrightarrow> keep W Q (f s)) \<Longrightarrow> keep W Q (Option.bind m f)"
  "keep_state W m \<Longrightarrow> (\<And>s. W s \<Longrightarrow> keep_state W (f' s)) \<Longrightarrow> keep_state W (Option.bind m f')"
  by (auto simp: keep_def keep_state_def bind_eq_Some_conv)

lemma keep_return [keep_intros]:
  "W s \<Longrightarrow> Q x \<Longrightarrow> keep W Q (Some (x, s))"
  "W s \<Longrightarrow> keep_state W (Some s)"
  "keep W Q None"
  by (auto simp: keep_def keep_state_def)

lemma keep_if [keep_intros]:
  "(b \<Longrightarrow> keep W Q m) \<Longrightarrow> (\<not> b \<Longrightarrow> keep W Q n) \<Longrightarrow> keep W Q (if b then m else n)"
  "(b \<Longrightarrow> keep_state W m') \<Longrightarrow> (\<not> b \<Longrightarrow> keep_state W n') \<Longrightarrow> keep_state W (if b then m' else n')"
  by simp_all

lemma keep_option [keep_intros]:
  "(x = None \<Longrightarrow> keep W Q m) \<Longrightarrow> (\<And>a. x = Some a \<Longrightarrow> keep W Q (f a)) \<Longrightarrow>
     keep W Q (case x of None \<Rightarrow> m | Some a \<Rightarrow> f a)"
  "(x = None \<Longrightarrow> keep_state W m') \<Longrightarrow> (\<And>a. x = Some a \<Longrightarrow> keep_state W (f' a)) \<Longrightarrow>
     keep_state W (case x of None \<Rightarrow> m' | Some a \<Rightarrow> f' a)"
  by (cases x; simp)+

lemma keep_bind_option [keep_intros]:
  "(x = None \<Longrightarrow> keep W Q (Option.bind m k)) \<Longrightarrow> (\<And>a. x = Some a \<Longrightarrow> keep W Q (Option.bind (f a) k)) \<Longrightarrow>
     keep W Q (Option.bind (case x of None \<Rightarrow> m | Some a \<Rightarrow> f a) k)"
  by (cases x) simp_all

lemma keep_pair [keep_intros]:
  "(\<And>a b. p = (a, b) \<Longrightarrow> keep W Q (h a b)) \<Longrightarrow> keep W Q (case p of (a, b) \<Rightarrow> h a b)"
  "(\<And>a b. p = (a, b) \<Longrightarrow> keep_state W (h' a b)) \<Longrightarrow> keep_state W (case p of (a, b) \<Rightarrow> h' a b)"
  "(\<And>a b. p = (a, b) \<Longrightarrow> keep W Q (k a b s)) \<Longrightarrow> keep W Q ((case p of (a, b) \<Rightarrow> k a b) s)"
  by (cases p; simp)+

lemma keep_bind_pure [keep_intros]:
  "(\<And>x. cint i = Some x \<Longrightarrow> keep W Q (f x)) \<Longrightarrow> keep W Q (Option.bind (cint i) f)"
  "(\<And>x. file_index n s = Some x \<Longrightarrow> keep W Q (h x)) \<Longrightarrow> keep W Q (Option.bind (file_index n s) h)"
  "(\<And>x. put_content cs j c = Some x \<Longrightarrow> keep W Q (k x)) \<Longrightarrow> keep W Q (Option.bind (put_content cs j c) k)"
  "(\<And>x. terminate_list m count cs = Some x \<Longrightarrow> keep W Q (l x)) \<Longrightarrow>
     keep W Q (Option.bind (terminate_list m count cs) l)"
  by (auto simp: keep_def bind_eq_Some_conv)

section \<open>Names\<close>

lemma length_fat_name_loop [simp]: "length (snd (fat_name_loop src i dest)) = length dest"
  by (induction src i dest rule: fat_name_loop.induct) (subst fat_name_loop.simps, simp)

lemma length_fat_ext_loop [simp]: "length (fat_ext_loop src i j dest) = length dest"
  by (induction src i j dest rule: fat_ext_loop.induct) (subst fat_ext_loop.simps, simp)

lemma length_fat12_name:
  "to_fat12_name c = (nm, ex) \<Longrightarrow> length nm = 8 \<and> length ex = 3"
  using length_fat_name_loop [of c 0 "replicate 8 0x20"]
  by (cases "fat_name_loop c 0 (replicate 8 0x20)") (auto simp: to_fat12_name_def Let_def split: if_splits)

lemma wf_make_entry_any: "length nm = 8 \<Longrightarrow> length ex = 3 \<Longrightarrow> wf_dir_entry (make_entry nm ex a c z)"
  by simp

lemma slot_place: "unat ((i :: u32) * 32 mod 512) + 32 \<le> 512"
proof -
  have "unat (i * 32 mod 512) = 32 * (unat i mod 16)"
    using slot_offset [of 0 i] by (simp add: slot_in_def)
  then show ?thesis by (simp add: less_Suc_eq_le [symmetric])
qed

lemma wf_slot_entry [simp]:
  "length b = 512 \<Longrightarrow> wf_dir_entry (dir_entry_of_bytes (sub_bytes b (unat ((i :: u32) * 32 mod 512)) 32))"
  using slot_place [of i] by simp

section \<open>Changes of the open files and of the names\<close>

lemma typed_open_files:
  assumes "typed J drv g s" and "length fs = MAX_OPEN_FILES" and "\<forall>f \<in> set fs. length (of_path f) < 256"
  shows "typed J drv g (s\<lparr>open_files := fs\<rparr>)"
  using assms by (simp add: typed_def ring_ok_def)

lemma typed_file_update:
  assumes "typed J drv g s" and "\<And>f. f \<in> set (open_files s) \<Longrightarrow> length (of_path (h f)) < 256"
  shows "typed J drv g (s\<lparr>open_files := (open_files s)[i := h (open_files s ! i)]\<rparr>)"
proof (rule typed_open_files [OF assms(1)])
  note fs = typedD(5,6) [OF assms(1)]
  show "length ((open_files s)[i := h (open_files s ! i)]) = MAX_OPEN_FILES" using fs by simp
  show "\<forall>f \<in> set ((open_files s)[i := h (open_files s ! i)]). length (of_path f) < 256"
  proof (cases "i < length (open_files s)")
    case True
    then show ?thesis using fs(2) assms(2) set_update_subset_insert by fastforce
  qed (use fs(2) in \<open>simp add: not_less list_update_beyond\<close>)
qed

lemma typed_updates [keep_intros]:
  assumes "typed J drv g s"
  shows "typed J drv g (install_file k fn e dc ix s)"
    and "typed J drv g (upd_file i (\<lambda>f. f\<lparr>of_cursor := c f\<rparr>) s)"
    and "typed J drv g (upd_file i (\<lambda>f. f\<lparr>of_file_size := z f\<rparr>) s)"
    and "typed J drv g (upd_file i (\<lambda>f. f\<lparr>of_first_cluster := u f\<rparr>) s)"
    and "typed J drv g (s\<lparr>open_files := (open_files s)[i := (open_files s ! i)\<lparr>of_used := b\<rparr>]\<rparr>)"
    and "typed J drv g (s\<lparr>open_files := rename_open_files p q (open_files s)\<rparr>)"
    and "typed J drv g (snd (store_filename e s))"
proof -
  note fs = typedD(5,6) [OF assms]
  have path: "length (strlcpy_str p 256) < 256" for p by (simp add: length_strlcpy_str)
  show "typed J drv g (install_file k fn e dc ix s)"
    unfolding install_file_def by (rule typed_file_update [OF assms, where h = "\<lambda>_. _"]) (simp add: path)
  show "typed J drv g (upd_file i (\<lambda>f. f\<lparr>of_cursor := c f\<rparr>) s)"
    "typed J drv g (upd_file i (\<lambda>f. f\<lparr>of_file_size := z f\<rparr>) s)"
    "typed J drv g (upd_file i (\<lambda>f. f\<lparr>of_first_cluster := u f\<rparr>) s)"
    unfolding upd_file_def using fs(2) by (auto intro!: typed_file_update [OF assms])
  show "typed J drv g (s\<lparr>open_files := (open_files s)[i := (open_files s ! i)\<lparr>of_used := b\<rparr>]\<rparr>)"
    using fs(2) by (intro typed_file_update [OF assms, where h = "\<lambda>f. f\<lparr>of_used := b\<rparr>"]) simp
  show "typed J drv g (s\<lparr>open_files := rename_open_files p q (open_files s)\<rparr>)"
    using fs path by (intro typed_open_files [OF assms]) (auto simp: rename_open_files_def)
  show "typed J drv g (snd (store_filename e s))"
    using assms ring_ok_store_filename [OF typedD(7) [OF assms], of e]
    by (simp add: typed_def store_filename_eq)
qed

lemma typed_store_filename: "store_filename e s = (b, t) \<Longrightarrow> typed J drv g s \<Longrightarrow> typed J drv g t"
  using typed_updates(7) [of J drv g s e] by simp

lemma length_put_content: "put_content cs i c = Some cs' \<Longrightarrow> length cs' = length cs"
  by (auto simp: put_content_def split: if_splits)

lemma length_terminate_list: "terminate_list n count cs = Some cs' \<Longrightarrow> length cs' = length cs"
  by (auto simp: terminate_list_def split: if_splits)

section \<open>Results of calls\<close>

text \<open>The result of a call has the shape that its caller expects.\<close>

fun result_ok :: "fs_call \<Rightarrow> fs_result \<Rightarrow> bool" where
  "result_ok (Read_file n buf count) r = (case r of Bytes_read _ b \<Rightarrow> length b = length buf | _ \<Rightarrow> False)"
| "result_ok (List_dir p cs count) r = (case r of Listing _ cs' \<Rightarrow> length cs' = length cs | _ \<Rightarrow> False)"
| "result_ok c r = (case r of Status _ \<Rightarrow> True | _ \<Rightarrow> False)"

lemma keep_giving: "keep W P m \<Longrightarrow> (\<And>x. P x \<Longrightarrow> Q (f x)) \<Longrightarrow> keep W Q (giving f m)"
  by (auto simp: keep_def giving_def bind_eq_Some_conv)

section \<open>The contract\<close>

locale typed_driver =
  fixes F :: "'d floppy_ops" and J :: "'d \<Rightarrow> bool"
  assumes read_type: "J d \<Longrightarrow> length buf = 512 \<Longrightarrow> floppy_read_sector F lba buf d = Some ((r, b), d') \<Longrightarrow>
      length b = 512 \<and> J d'"
    and write_type: "J d \<Longrightarrow> length buf = 512 \<Longrightarrow> floppy_write_sector F lba buf d = Some (r, d') \<Longrightarrow> J d'"
begin

lemma read_sector_keeps:
  "typed J drv g s \<Longrightarrow> keep (typed J drv g) (\<lambda>(r, b). length b = 512) (read_sector_on F v lba s)"
  by (auto simp: keep_def read_sector_on_def read_drive_sector_def bind_eq_Some_conv typed_def ring_ok_def
      split: drivesformat.splits dest: read_type)

lemma write_sector_keeps:
  "typed J drv g s \<Longrightarrow> length buf = 512 \<Longrightarrow> keep (typed J drv g) (\<lambda>_. True) (write_sector F lba buf s)"
  by (auto simp: keep_def write_sector_def write_drive_sector_def bind_eq_Some_conv typed_def ring_ok_def
      split: drivesformat.splits dest: write_type)

lemmas sector_rules [keep_intros] =
  read_sector_keeps [THEN keep_weaken] read_sector_keeps [THEN keep_bind]
  read_sector_keeps [THEN keep_state_bind_value]
  write_sector_keeps [THEN keep_weaken] write_sector_keeps [THEN keep_bind]
  write_sector_keeps [THEN keep_state_bind_value]

section \<open>The table\<close>

lemma read_fat_bytes_keeps:
  "typed J drv g s \<Longrightarrow> keep (typed J drv g) (\<lambda>bs. length bs = n) (read_fat12_fat_bytes F off n s)"
proof (induction n arbitrary: off s)
  case (Suc n)
  note [keep_intros] = Suc.IH [THEN keep_bind]
  show ?case using Suc.prems by (auto intro!: keep_intros simp: Let_def)
qed (auto intro: keep_intros)

lemmas read_fat_bytes_rules [keep_intros] =
  read_fat_bytes_keeps [THEN keep_bind] read_fat_bytes_keeps [THEN keep_state_bind_value]

lemma write_fat_copies_keeps:
  "typed J drv g s \<Longrightarrow> length buf = 512 \<Longrightarrow> keep_state (typed J drv g) (write_fat_copies F sec buf fs s)"
  by (induction fs arbitrary: s) (auto intro!: keep_intros simp: Let_def)

lemmas write_fat_copies_rules [keep_intros] =
  write_fat_copies_keeps write_fat_copies_keeps [THEN keep_bind_state(1)] write_fat_copies_keeps [THEN keep_bind_state(2)]

lemma write_fat_bytes_keeps:
  "typed J drv g s \<Longrightarrow> keep_state (typed J drv g) (write_fat12_fat_bytes F off bs s)"
  by (induction bs arbitrary: off s) (auto intro!: keep_intros simp: Let_def)

lemmas write_fat_bytes_rules [keep_intros] = write_fat_bytes_keeps

lemma read_fat_entry_keeps:
  "typed J drv g s \<Longrightarrow> keep (typed J drv g) (\<lambda>_. True) (fat12_read_fat_entry F c s)"
  unfolding fat12_read_fat_entry_def by (auto intro!: keep_intros simp: Let_def)

lemmas read_fat_entry_rules [keep_intros] =
  read_fat_entry_keeps [THEN keep_bind] read_fat_entry_keeps [THEN keep_state_bind_value]

lemma write_fat_entry_keeps:
  "typed J drv g s \<Longrightarrow> keep_state (typed J drv g) (fat12_write_fat_entry F c v s)"
  unfolding fat12_write_fat_entry_def by (auto intro!: keep_intros simp: Let_def)

lemmas write_fat_entry_rules [keep_intros] =
  write_fat_entry_keeps write_fat_entry_keeps [THEN keep_bind_state(1)] write_fat_entry_keeps [THEN keep_bind_state(2)]

lemma allocate_from_keeps:
  "typed J drv g s \<Longrightarrow> keep (typed J drv g) (\<lambda>_. True) (allocate_from F cur c s)"
proof (induction "4080 - unat c" arbitrary: c s rule: less_induct)
  case less
  have "4080 - unat (c + 1) < 4080 - unat c" if "c < 4080"
    using that by (simp add: word_less_nat_alt unat_word_ariths)
  note IH = less.hyps [OF this]
  have link: "keep_state (typed J drv g) (if 2 \<le> cur then fat12_write_fat_entry F cur (ucast c) t else Some t)"
    if "typed J drv g t" for t using that by (auto intro!: keep_intros)
  note [keep_intros] = link [THEN keep_bind_state(1)]
  show ?case
    using less.prems by (subst allocate_from.simps) (auto intro!: keep_intros IH)
qed

lemma allocate_keeps:
  "typed J drv g s \<Longrightarrow> keep (typed J drv g) (\<lambda>_. True) (fat12_allocate_cluster F cur s)"
  unfolding fat12_allocate_cluster_def by (rule allocate_from_keeps)

lemmas allocate_rules [keep_intros] =
  allocate_keeps [THEN keep_bind] allocate_keeps [THEN keep_state_bind_value]

lemma free_chain_keeps:
  assumes "typed J drv g s"
  shows "keep_state (typed J drv g) (fat12_free_cluster_chain F c s)"
  unfolding keep_state_def
proof (intro allI impI)
  fix x assume run: "fat12_free_cluster_chain F c s = Some x"
  obtain G where G: "G = F" by simp
  have "fat12_free_cluster_chain G c s = Some x" using run G by simp
  then show "typed J drv g x"
    using G assms
  proof (induction G c s x rule: fat12_free_cluster_chain.raw_induct [rotated, consumes 1, case_names step])
    case (step loop G c s x)
    then have IH: "typed J drv g s \<Longrightarrow> keep_state (typed J drv g) (loop F c s)" for c s by (auto simp: keep_state_def)
    show ?case
      by (rule keep_stateD [OF _ step(2) [unfolded step(3)]]) (auto intro!: keep_intros IH simp: step)
  qed
qed

lemmas free_chain_rules [keep_intros] =
  free_chain_keeps free_chain_keeps [THEN keep_bind_state(1)] free_chain_keeps [THEN keep_bind_state(2)]

section \<open>Directories\<close>

abbreviation wf_entry_option :: "fat12_dir_entry option \<Rightarrow> bool" where
  "wf_entry_option \<equiv> pred_option wf_dir_entry"

lemma dir_walk_keeps:
  "typed J drv g s \<Longrightarrow> keep (typed J drv g) (\<lambda>_. True) (dir_walk F c n s)"
  by (induction n arbitrary: c s) (auto intro!: keep_intros simp: Let_def)

lemmas dir_walk_rules [keep_intros] = dir_walk_keeps [THEN keep_bind]

lemma read_dir_entry_keeps:
  "typed J drv g s \<Longrightarrow> keep (typed J drv g) wf_entry_option (fat12_read_dir_entry F dc i s)"
  unfolding fat12_read_dir_entry_def Let_def
  by (auto intro!: keep_intros)

lemmas read_dir_entry_rules [keep_intros] =
  read_dir_entry_keeps [THEN keep_bind] read_dir_entry_keeps [THEN keep_state_bind_value]

lemma zero_sectors_keeps:
  "typed J drv g s \<Longrightarrow> keep_state (typed J drv g) (zero_sectors F c is s)"
  by (induction "is" arbitrary: s) (auto intro!: keep_intros)

lemmas zero_sectors_rules [keep_intros] = zero_sectors_keeps [THEN keep_bind_state(1)]

lemma dir_walk_extend_keeps:
  "typed J drv g s \<Longrightarrow> keep (typed J drv g) (\<lambda>_. True) (dir_walk_extend F c n s)"
  by (induction n arbitrary: c s) (auto intro!: keep_intros simp: Let_def)

lemmas dir_walk_extend_rules [keep_intros] = dir_walk_extend_keeps [THEN keep_bind]

lemma put_dir_entry_keeps:
  "typed J drv g s \<Longrightarrow> unat off + 32 \<le> 512 \<Longrightarrow> wf_dir_entry e \<Longrightarrow>
     keep (typed J drv g) (\<lambda>_. True) (put_dir_entry_in F sec off e s)"
  unfolding put_dir_entry_in_def by (auto intro!: keep_intros simp: Let_def)

lemma write_dir_entry_keeps:
  "typed J drv g s \<Longrightarrow> wf_dir_entry e \<Longrightarrow>
     keep (typed J drv g) (\<lambda>_. True) (fat12_write_dir_entry F dc i e s)"
  unfolding fat12_write_dir_entry_def Let_def
  by (auto intro!: keep_intros put_dir_entry_keeps slot_place)

lemmas write_dir_entry_rules [keep_intros] =
  write_dir_entry_keeps [THEN keep_bind] write_dir_entry_keeps [THEN keep_state_bind_value]

abbreviation wf_found :: "(fat12_dir_entry \<times> 'b) option \<Rightarrow> bool" where
  "wf_found \<equiv> pred_option (\<lambda>(e, _). wf_dir_entry e)"

lemma find_in_dir_keeps:
  assumes "typed J drv g s"
  shows "keep (typed J drv g) wf_found (find_in_dir F nm ex dc i s)"
proof (rule keepI)
  fix r t assume run: "find_in_dir F nm ex dc i s = Some (r, t)"
  obtain G where G: "G = F" by simp
  have "find_in_dir G nm ex dc i s = Some (r, t)" using run G by simp
  then have "typed J drv g (snd (r, t)) \<and> wf_found (fst (r, t))"
    using G assms
  proof (induction G nm ex dc i s "(r, t)" arbitrary: r t rule: find_in_dir.raw_induct [rotated, consumes 1, case_names step])
    case (step loop G nm ex dc i s x)
    then have IH: "typed J drv g s \<Longrightarrow> keep (typed J drv g) wf_found (loop F nm ex dc i s)" for nm ex dc i s
      by (auto simp: keep_def)
    show ?case
      by (rule keep_pairD [OF _ step(2) [unfolded step(3)]]) (auto intro!: keep_intros IH simp: step Let_def)
  qed
  then show "typed J drv g t \<and> wf_found r" by simp
qed

lemmas find_in_dir_rules [keep_intros] = find_in_dir_keeps [THEN keep_bind]

lemma find_slot_keeps:
  assumes "typed J drv g s"
  shows "keep (typed J drv g) (\<lambda>_. True) (find_slot F dc i s)"
proof (rule keepI)
  fix r t assume run: "find_slot F dc i s = Some (r, t)"
  obtain G where G: "G = F" by simp
  have "find_slot G dc i s = Some (r, t)" using run G by simp
  then have "typed J drv g (snd (r, t)) \<and> (\<lambda>_. True) (fst (r, t))"
    using G assms
  proof (induction G dc i s "(r, t)" arbitrary: r t rule: find_slot.raw_induct [rotated, consumes 1, case_names step])
    case (step loop G dc i s x)
    then have IH: "typed J drv g s \<Longrightarrow> keep (typed J drv g) (\<lambda>_. True) (loop F dc i s)" for dc i s
      by (auto simp: keep_def)
    show ?case
      by (rule keep_pairD [OF _ step(2) [unfolded step(3)]]) (auto intro!: keep_intros IH simp: step Let_def)
  qed
  then show "typed J drv g t \<and> (\<lambda>_. True) r" by simp
qed

lemmas find_slot_rules [keep_intros] = find_slot_keeps [THEN keep_bind]

lemma create_entry_keeps:
  assumes "typed J drv g s" and "length nm = 8" and "length ex = 3"
  shows "keep (typed J drv g) (\<lambda>_. True) (fat12_create_entry F dc nm ex a c z s)"
proof -
  have end_mark: "keep_state (typed J drv g) (if b then do {
      (_, s) \<leftarrow> fat12_write_dir_entry F dc i zero_entry s;
      Some s
    } else Some s)" if "typed J drv g s" for b i s
    using that by (auto intro!: keep_intros)
  note [keep_intros] = end_mark [THEN keep_bind_state(1)]
  show ?thesis
    using assms unfolding fat12_create_entry_def by (auto intro!: keep_intros simp: Let_def)
qed

lemmas create_entry_rules [keep_intros] = create_entry_keeps [THEN keep_bind]

section \<open>Paths\<close>

lemma find_entry_loop_keeps:
  assumes "typed J drv g s"
  shows "keep (typed J drv g) (wf_found) (find_entry_loop F path cm off dc s)"
proof (rule keepI)
  fix r t assume run: "find_entry_loop F path cm off dc s = Some (r, t)"
  obtain G where G: "G = F" by simp
  have "find_entry_loop G path cm off dc s = Some (r, t)" using run G by simp
  then have "typed J drv g (snd (r, t)) \<and> (wf_found) (fst (r, t))"
    using G assms
  proof (induction G path cm off dc s "(r, t)" arbitrary: r t rule: find_entry_loop.raw_induct [rotated, consumes 1, case_names step])
    case (step loop G path cm off dc s x)
    then have IH: "typed J drv g s \<Longrightarrow> keep (typed J drv g) (wf_found) (loop F path cm off dc s)" for path cm off dc s
      by (auto simp: keep_def)
    show ?case
      by (rule keep_pairD [OF _ step(2) [unfolded step(3)]]) (auto intro!: keep_intros IH simp: step Let_def)
  qed
  then show "typed J drv g t \<and> (wf_found) r" by simp
qed

lemma find_entry_keeps:
  "typed J drv g s \<Longrightarrow> keep (typed J drv g) wf_found (fat12_find_entry F path s)"
  unfolding fat12_find_entry_def by (auto intro!: keep_intros find_entry_loop_keeps)

lemmas find_entry_rules [keep_intros] = find_entry_keeps [THEN keep_bind]

abbreviation wf_parent :: "(u32 \<times> bytes \<times> bytes) option \<Rightarrow> bool" where
  "wf_parent \<equiv> pred_option (\<lambda>(_, nm, ex). length nm = 8 \<and> length ex = 3)"

lemma resolve_parent_loop_keeps:
  assumes "typed J drv g s"
  shows "keep (typed J drv g) (wf_parent) (resolve_parent_loop F path cm off dc s)"
proof (rule keepI)
  fix r t assume run: "resolve_parent_loop F path cm off dc s = Some (r, t)"
  obtain G where G: "G = F" by simp
  have "resolve_parent_loop G path cm off dc s = Some (r, t)" using run G by simp
  then have "typed J drv g (snd (r, t)) \<and> (wf_parent) (fst (r, t))"
    using G assms
  proof (induction G path cm off dc s "(r, t)" arbitrary: r t rule: resolve_parent_loop.raw_induct [rotated, consumes 1, case_names step])
    case (step loop G path cm off dc s x)
    then have IH: "typed J drv g s \<Longrightarrow> keep (typed J drv g) (wf_parent) (loop F path cm off dc s)" for path cm off dc s
      by (auto simp: keep_def)
    show ?case
      by (rule keep_pairD [OF _ step(2) [unfolded step(3)]]) (auto intro!: keep_intros IH simp: step Let_def length_fat12_name)
  qed
  then show "typed J drv g t \<and> (wf_parent) r" by simp
qed

lemma resolve_parent_keeps:
  "typed J drv g s \<Longrightarrow> keep (typed J drv g) wf_parent (fat12_resolve_parent F path s)"
  unfolding fat12_resolve_parent_def by (auto intro!: keep_intros resolve_parent_loop_keeps)

lemmas resolve_parent_rules [keep_intros] = resolve_parent_keeps [THEN keep_bind]

section \<open>Open files\<close>

lemma open_keeps:
  "typed J drv g s \<Longrightarrow> keep (typed J drv g) (\<lambda>_. True) (fat12_open F fn s)"
  unfolding fat12_open_def by (auto intro!: keep_intros simp: Let_def)

lemma close_keeps:
  "typed J drv g s \<Longrightarrow> keep (typed J drv g) (\<lambda>_. True) (fat12_close n s)"
  unfolding fat12_close_def by (auto intro!: keep_intros)

lemma read_loop_keeps:
  assumes "typed J drv g s" and "length dest = m"
  shows "keep (typed J drv g) (\<lambda>(r, b). length b = m) (fat12_read_loop F i count dest n s)"
proof (rule keepI)
  fix r t assume run: "fat12_read_loop F i count dest n s = Some (r, t)"
  obtain G where G: "G = F" by simp
  have "fat12_read_loop G i count dest n s = Some (r, t)" using run G by simp
  then have "typed J drv g (snd (r, t)) \<and> (\<lambda>(r, b). length b = m) (fst (r, t))"
    using G assms
  proof (induction G i count dest n s "(r, t)" arbitrary: r t
      rule: fat12_read_loop.raw_induct [rotated, consumes 1, case_names step])
    case (step loop G i count dest n s x)
    then have IH: "typed J drv g s \<Longrightarrow> length dest = m \<Longrightarrow>
        keep (typed J drv g) (\<lambda>(r, b). length b = m) (loop F i count dest n s)" for i count dest n s
      by (auto simp: keep_def)
    show ?case
      by (rule keep_pairD [OF _ step(2) [unfolded step(3)]]) (auto intro!: keep_intros IH simp: step Let_def)
  qed
  then show "typed J drv g t \<and> (\<lambda>(r, b). length b = m) r" by simp
qed

lemma read_keeps:
  "typed J drv g s \<Longrightarrow> keep (typed J drv g) (\<lambda>(r, b). length b = length buf) (fat12_read F n buf count s)"
  unfolding fat12_read_def by (auto intro!: keep_intros read_loop_keeps)

lemma update_dir_entry_keeps:
  "typed J drv g s \<Longrightarrow> (\<And>e. wf_dir_entry e \<Longrightarrow> wf_dir_entry (upd e)) \<Longrightarrow>
     keep_state (typed J drv g) (update_dir_entry F i upd s)"
  unfolding update_dir_entry_def by (auto intro!: keep_intros simp: Let_def)

lemma wf_entry_updates [simp]:
  "wf_dir_entry (e\<lparr>de_first_cluster_low := c\<rparr>) = wf_dir_entry e"
  "wf_dir_entry (e\<lparr>de_file_size := z\<rparr>) = wf_dir_entry e"
  by (simp_all add: wf_dir_entry_def)

lemmas update_dir_entry_rules [keep_intros] =
  update_dir_entry_keeps update_dir_entry_keeps [THEN keep_bind_state(1)]

lemma ensure_first_cluster_keeps:
  "typed J drv g s \<Longrightarrow> keep (typed J drv g) (\<lambda>_. True) (ensure_first_cluster F i s)"
  unfolding ensure_first_cluster_def by (auto intro!: keep_intros simp: Let_def)

lemma write_walk_keeps:
  "typed J drv g s \<Longrightarrow> keep (typed J drv g) (\<lambda>_. True) (write_walk F c n s)"
  by (induction n arbitrary: c s) (auto intro!: keep_intros simp: Let_def)

lemma advance_cursor_keeps:
  "typed J drv g s \<Longrightarrow> keep_state (typed J drv g) (advance_cursor F i n s)"
  unfolding advance_cursor_def by (auto intro!: keep_intros simp: Let_def)

lemmas write_rules [keep_intros] = ensure_first_cluster_keeps [THEN keep_bind]
  write_walk_keeps [THEN keep_bind] advance_cursor_keeps [THEN keep_bind_state(1)]

lemma chunk_fits:
  "unat ((o' :: u32) mod 512) + length (sub_bytes src k (unat (min a (512 - o' mod 512)))) \<le> 512"
proof -
  have o: "unat (o' mod 512) < 512" by (simp add: unat_mod)
  then have "unat (512 - o' mod 512) = 512 - unat (o' mod 512)"
    by (subst unat_sub) (simp_all add: word_le_nat_alt)
  moreover have "unat (min a (512 - o' mod 512)) \<le> unat (512 - o' mod 512)"
    by (simp add: min_def word_le_nat_alt)
  ultimately show ?thesis using o by simp
qed

lemma write_loop_keeps:
  assumes "typed J drv g s"
  shows "keep (typed J drv g) (\<lambda>_. True) (fat12_write_loop F i src n m s)"
proof (rule keepI)
  fix r t assume run: "fat12_write_loop F i src n m s = Some (r, t)"
  obtain G where G: "G = F" by simp
  have "fat12_write_loop G i src n m s = Some (r, t)" using run G by simp
  then have "typed J drv g (snd (r, t)) \<and> True"
    using G assms
  proof (induction G i src n m s "(r, t)" arbitrary: r t
      rule: fat12_write_loop.raw_induct [rotated, consumes 1, case_names step])
    case (step loop G i src n m s x)
    then have IH: "typed J drv g s \<Longrightarrow> keep (typed J drv g) (\<lambda>_. True) (loop F i src n m s)" for i src n m s
      by (auto simp: keep_def)
    have buf: "length b = 512 \<Longrightarrow> length (put_bytes b (unat (o' mod 512))
        (sub_bytes src k (unat (min a (512 - o' mod 512))))) = 512" for b and o' :: u32 and k a
      using chunk_fits [of o' src k a] by (simp add: length_put_bytes)
    show ?case
      by (rule keep_pairD [OF _ step(2) [unfolded step(3)]])
        (auto intro!: keep_intros IH buf simp: step Let_def simp del: length_sub_bytes length_put_bytes)
  qed
  then show "typed J drv g t \<and> True" by simp
qed

lemma write_keeps:
  "typed J drv g s \<Longrightarrow> keep (typed J drv g) (\<lambda>_. True) (fat12_write F n buf count s)"
  unfolding fat12_write_def by (auto intro!: keep_intros write_loop_keeps)

section \<open>The tree\<close>

lemma wf_tree_entries [simp]:
  "wf_dir_entry (dot_entry c)" "wf_dir_entry (dotdot_entry c)"
  by (simp_all add: dot_entry_def dotdot_entry_def wf_dir_entry_def zero_entry_def make_entry_def)

lemma rename_keeps:
  "typed J drv g s \<Longrightarrow> keep (typed J drv g) (\<lambda>_. True) (fat12_rename F p q s)"
  unfolding fat12_rename_def
  by (auto intro!: keep_intros simp: Let_def)

lemma init_dir_cluster_keeps:
  "typed J drv g s \<Longrightarrow> keep_state (typed J drv g) (fat12_init_dir_cluster F c dc s)"
  unfolding fat12_init_dir_cluster_def by (auto intro!: keep_intros)

lemma makedir_keeps:
  "typed J drv g s \<Longrightarrow> keep (typed J drv g) (\<lambda>_. True) (fat12_makedir F p s)"
  unfolding fat12_makedir_def
  by (auto intro!: keep_intros init_dir_cluster_keeps [THEN keep_bind_state(1)])

lemma dir_empty_loop_keeps:
  assumes "typed J drv g s"
  shows "keep (typed J drv g) (\<lambda>_. True) (dir_empty_loop F dc i s)"
proof (rule keepI)
  fix r t assume run: "dir_empty_loop F dc i s = Some (r, t)"
  obtain G where G: "G = F" by simp
  have "dir_empty_loop G dc i s = Some (r, t)" using run G by simp
  then have "typed J drv g (snd (r, t)) \<and> (\<lambda>_. True) (fst (r, t))"
    using G assms
  proof (induction G dc i s "(r, t)" arbitrary: r t rule: dir_empty_loop.raw_induct [rotated, consumes 1, case_names step])
    case (step loop G dc i s x)
    then have IH: "typed J drv g s \<Longrightarrow> keep (typed J drv g) (\<lambda>_. True) (loop F dc i s)" for dc i s
      by (auto simp: keep_def)
    show ?case
      by (rule keep_pairD [OF _ step(2) [unfolded step(3)]]) (auto intro!: keep_intros IH simp: step Let_def)
  qed
  then show "typed J drv g t \<and> (\<lambda>_. True) r" by simp
qed

lemma is_dir_empty_keeps:
  "typed J drv g s \<Longrightarrow> keep (typed J drv g) (\<lambda>_. True) (fat12_is_dir_empty F dc s)"
  unfolding fat12_is_dir_empty_def by (rule dir_empty_loop_keeps)

lemma wf_mark_deleted [simp]: "wf_dir_entry (mark_deleted e) = wf_dir_entry e"
  by (simp add: mark_deleted_def wf_dir_entry_def)

lemma remove_entry_keeps:
  assumes "typed J drv g s" and "wf_dir_entry e"
  shows "keep (typed J drv g) (\<lambda>_. True) (remove_entry F e i dc s)"
proof -
  have free: "keep_state (typed J drv g) (if b then fat12_free_cluster_chain F c s else Some s)" for b c
    using assms(1) by (auto intro!: keep_intros)
  show ?thesis
    unfolding remove_entry_def
    using assms by (auto intro!: keep_intros free [THEN keep_bind_state(1)])
qed

lemmas remove_rules [keep_intros] = is_dir_empty_keeps [THEN keep_bind] remove_entry_keeps

lemma removedir_keeps:
  "typed J drv g s \<Longrightarrow> keep (typed J drv g) (\<lambda>_. True) (fat12_removedir F p s)"
  unfolding fat12_removedir_def by (auto intro!: keep_intros)

lemma removefile_keeps:
  "typed J drv g s \<Longrightarrow> keep (typed J drv g) (\<lambda>_. True) (fat12_removefile F p s)"
  unfolding fat12_removefile_def by (auto intro!: keep_intros)

lemma list_dir_loop_keeps:
  assumes "typed J drv g s" and "length cs = m"
  shows "keep (typed J drv g) (\<lambda>(n, cs). length cs = m) (list_dir_loop F dc count i n cs s)"
proof (rule keepI)
  fix r t assume run: "list_dir_loop F dc count i n cs s = Some (r, t)"
  obtain G where G: "G = F" by simp
  have "list_dir_loop G dc count i n cs s = Some (r, t)" using run G by simp
  then have "typed J drv g (snd (r, t)) \<and> (\<lambda>(n, cs). length cs = m) (fst (r, t))"
    using G assms
  proof (induction G dc count i n cs s "(r, t)" arbitrary: r t
      rule: list_dir_loop.raw_induct [rotated, consumes 1, case_names step])
    case (step loop G dc count i n cs s x)
    then have IH: "typed J drv g s \<Longrightarrow> length cs = m \<Longrightarrow>
        keep (typed J drv g) (\<lambda>(n, cs). length cs = m) (loop F dc count i n cs s)" for dc count i n cs s
      by (auto simp: keep_def)
    show ?case
      by (rule keep_pairD [OF _ step(2) [unfolded step(3)]])
        (auto intro!: keep_intros IH simp: step Let_def dest!: typed_store_filename length_put_content)
  qed
  then show "typed J drv g t \<and> (\<lambda>(n, cs). length cs = m) r" by simp
qed

lemmas list_dir_loop_rules [keep_intros] = list_dir_loop_keeps [THEN keep_bind]

lemma listcontent_keeps:
  "typed J drv g s \<Longrightarrow> keep (typed J drv g) (\<lambda>(n, cs'). length cs' = length cs) (fat12_listcontent F p cs count s)"
  unfolding fat12_listcontent_def
  by (auto intro!: keep_intros simp: Let_def
      dest!: typed_store_filename length_put_content length_terminate_list)

section \<open>Sessions\<close>

lemma run_call_keeps: "typed J drv g s \<Longrightarrow> keep (typed J drv g) (result_ok c) (run_call F c s)"
proof (cases c)
  case (Read_file n buf count)
  then show "typed J drv g s \<Longrightarrow> ?thesis"
    using read_keeps [THEN keep_giving, of drv g s buf "result_ok c" "\<lambda>(r, b). Bytes_read r b" n count] by auto
next
  case (List_dir p cs count)
  then show "typed J drv g s \<Longrightarrow> ?thesis"
    using listcontent_keeps [THEN keep_giving, of drv g s cs "result_ok c" "\<lambda>(r, cs'). Listing r cs'" p count] by auto
qed (auto intro!: keep_giving [where P = "\<lambda>_. True"] open_keeps close_keeps write_keeps rename_keeps
    makedir_keeps removedir_keeps removefile_keeps)

lemma run_calls_keeps: "typed J drv g s \<Longrightarrow> keep (typed J drv g) (list_all2 result_ok cs) (run_calls F cs s)"
proof (induction cs arbitrary: s)
  case (Cons c cs)
  note [keep_intros] = run_call_keeps [THEN keep_bind] Cons.IH [THEN keep_bind]
  show ?case using Cons.prems by (auto intro!: keep_intros)
qed (auto intro: keep_intros)

end

section \<open>The drivers\<close>

interpretation image_type: typed_driver ideal_floppy wf_image
  by unfold_locales (auto simp: ideal_floppy_def)

text \<open>The floppy driver keeps the length of the buffer on every machine, whatever the controller does.\<close>

lemma read_attempts_length:
  "length buf = 512 \<Longrightarrow> read_attempts M syms cyl head sec n buf d = Some ((r, b), d') \<Longrightarrow> length b = 512"
  by (induction n arbitrary: d) (auto simp: bind_eq_Some_conv split: if_splits)

interpretation floppy_type: typed_driver "floppy_driver M syms" "\<lambda>_. True" for M syms
  by unfold_locales
    (auto simp: floppy_driver_def fdc_read_sector_def split: prod.splits dest: read_attempts_length)

end
