(* ===== verification/Syscalls.thy ===== *)
theory Syscalls
  imports Kernel Fat12_Types
begin

text \<open>
  The dispatch of the system calls: the numbers of \<open>syscall_ids.h\<close>, the table of \<open>kernel/syscall.c\<close> and
  the entry \<open>i386/syscall.s\<close>, which bounds the number and calls the function at that place of the table.
  The registers hold words, or pointers, which stand for the objects that they point to. The
  kernel then is a transition system: a turn of the loop of \<open>kernel_main\<close>, or a system call.
\<close>

section \<open>The table\<close>

datatype syscall_function =
    Sys_print2 | Sys_termcolor | Sys_termscolor | Sys_termclear | Sys_termcursor | Sys_close | Sys_open
  | Sys_rename | Sys_makedir | Sys_removedir | Sys_write | Sys_remove | Sys_read | Sys_list | Sys_size
  | Sys_alloc | Sys_free

fun syscall_id :: "syscall_function \<Rightarrow> nat" where
  "syscall_id Sys_print2 = 0"
| "syscall_id Sys_termcolor = 1"
| "syscall_id Sys_termscolor = 2"
| "syscall_id Sys_termclear = 3"
| "syscall_id Sys_termcursor = 4"
| "syscall_id Sys_close = 5"
| "syscall_id Sys_open = 6"
| "syscall_id Sys_rename = 7"
| "syscall_id Sys_makedir = 8"
| "syscall_id Sys_removedir = 9"
| "syscall_id Sys_write = 10"
| "syscall_id Sys_remove = 11"
| "syscall_id Sys_read = 12"
| "syscall_id Sys_list = 13"
| "syscall_id Sys_size = 14"
| "syscall_id Sys_alloc = 15"
| "syscall_id Sys_free = 16"

definition MAX_SYSCALL :: u32 where
  "MAX_SYSCALL = 17"

text \<open>An array with designated initialisers: each function at its number, \<open>None\<close> in a gap.\<close>

definition syscall_table :: "syscall_function option list" where
  "syscall_table = fold (\<lambda>f table. table[syscall_id f := Some f])
     [Sys_print2, Sys_termcolor, Sys_termscolor, Sys_termclear, Sys_termcursor, Sys_close, Sys_open,
      Sys_rename, Sys_makedir, Sys_removedir, Sys_write, Sys_remove, Sys_read, Sys_list, Sys_size,
      Sys_alloc, Sys_free] (replicate 17 None)"

lemma syscall_table_eq:
  "syscall_table = map Some
     [Sys_print2, Sys_termcolor, Sys_termscolor, Sys_termclear, Sys_termcursor, Sys_close, Sys_open,
      Sys_rename, Sys_makedir, Sys_removedir, Sys_write, Sys_remove, Sys_read, Sys_list, Sys_size,
      Sys_alloc, Sys_free]"
  by code_simp

lemma syscall_table_id [simp]: "syscall_table ! syscall_id f = Some f"
  by (cases f) (simp_all add: syscall_table_eq)

lemma syscall_id_bound [simp]: "syscall_id f < 17"
  by (cases f) simp_all

section \<open>Calls\<close>

datatype register = Word u32 | Bytes bytes | Contents "contents list"

fun word_in :: "register list \<Rightarrow> nat \<Rightarrow> u32 option" where
  "word_in rs i = (if i < length rs then (case rs ! i of Word w \<Rightarrow> Some w | _ \<Rightarrow> None) else None)"

fun bytes_in :: "register list \<Rightarrow> nat \<Rightarrow> bytes option" where
  "bytes_in rs i = (if i < length rs then (case rs ! i of Bytes b \<Rightarrow> Some b | _ \<Rightarrow> None) else None)"

fun contents_in :: "register list \<Rightarrow> nat \<Rightarrow> contents list option" where
  "contents_in rs i = (if i < length rs then (case rs ! i of Contents cs \<Rightarrow> Some cs | _ \<Rightarrow> None) else None)"

text \<open>A string needs its terminator.\<close>

definition string_in :: "register list \<Rightarrow> nat \<Rightarrow> bytes option" where
  "string_in rs i = do { b \<leftarrow> bytes_in rs i; (if 0 \<in> set b then Some (cstr b) else None) }"

text \<open>The call of a function with the registers as its arguments.\<close>

datatype syscall =
    Print2 bytes
  | Termcolor u32 u32
  | Termscolor
  | Termclear
  | Termcursor int int
  | File_call fs_call
  | Size int
  | Alloc u32
  | Free u32

fun decode :: "syscall_function \<Rightarrow> register list \<Rightarrow> syscall option" where
  "decode Sys_print2 rs = do { s \<leftarrow> bytes_in rs 0; Some (Print2 s) }"
| "decode Sys_termcolor rs = do { fg \<leftarrow> word_in rs 0; bg \<leftarrow> word_in rs 1; Some (Termcolor fg bg) }"
| "decode Sys_termscolor rs = Some Termscolor"
| "decode Sys_termclear rs = Some Termclear"
| "decode Sys_termcursor rs = do { x \<leftarrow> word_in rs 0; y \<leftarrow> word_in rs 1; Some (Termcursor (sint x) (sint y)) }"
| "decode Sys_close rs = do { n \<leftarrow> word_in rs 0; Some (File_call (Close_file (sint n))) }"
| "decode Sys_open rs = do { p \<leftarrow> string_in rs 0; Some (File_call (Open_file p)) }"
| "decode Sys_rename rs = do { p \<leftarrow> string_in rs 0; q \<leftarrow> string_in rs 1; Some (File_call (Rename_path p q)) }"
| "decode Sys_makedir rs = do { p \<leftarrow> string_in rs 0; Some (File_call (Make_dir p)) }"
| "decode Sys_removedir rs = do { p \<leftarrow> string_in rs 0; Some (File_call (Remove_dir p)) }"
| "decode Sys_write rs = do { n \<leftarrow> word_in rs 0; b \<leftarrow> bytes_in rs 1; c \<leftarrow> word_in rs 2;
     Some (File_call (Write_file (sint n) b c)) }"
| "decode Sys_remove rs = do { p \<leftarrow> string_in rs 0; Some (File_call (Remove_file p)) }"
| "decode Sys_read rs = do { n \<leftarrow> word_in rs 0; b \<leftarrow> bytes_in rs 1; c \<leftarrow> word_in rs 2;
     Some (File_call (Read_file (sint n) b c)) }"
| "decode Sys_list rs = do { p \<leftarrow> string_in rs 0; cs \<leftarrow> contents_in rs 1; n \<leftarrow> word_in rs 2;
     Some (File_call (List_dir p cs (unat n))) }"
| "decode Sys_size rs = do { n \<leftarrow> word_in rs 0; Some (Size (sint n)) }"
| "decode Sys_alloc rs = do { n \<leftarrow> word_in rs 0; Some (Alloc n) }"
| "decode Sys_free rs = do { p \<leftarrow> word_in rs 0; Some (Free p) }"

fun file_call ::
    "'h port_ops \<Rightarrow> 'd floppy_ops \<Rightarrow> fs_call \<Rightarrow> ('d, 'h) kernel \<Rightarrow> (fs_result \<times> ('d, 'h) kernel) option" where
  "file_call P F (Open_file p) k = giving Status (sys_open F p k)"
| "file_call P F (Close_file n) k = giving Status (sys_close n k)"
| "file_call P F (Read_file n b c) k = giving (\<lambda>(r, b). Bytes_read r b) (sys_read F n b c k)"
| "file_call P F (Write_file n b c) k = giving Status (sys_write P F n b c k)"
| "file_call P F (Rename_path p q) k = giving Status (sys_rename F p q k)"
| "file_call P F (Make_dir p) k = giving Status (sys_makedir F p k)"
| "file_call P F (Remove_dir p) k = giving Status (sys_removedir F p k)"
| "file_call P F (Remove_file p) k = giving Status (sys_remove F p k)"
| "file_call P F (List_dir p cs n) k = giving (\<lambda>(r, cs). Listing r cs) (sys_list F p cs n k)"

fun run_syscall ::
    "'h port_ops \<Rightarrow> 'd floppy_ops \<Rightarrow> syscall \<Rightarrow> ('d, 'h) kernel \<Rightarrow> (fs_result \<times> ('d, 'h) kernel) option" where
  "run_syscall P F (Print2 s) k = giving Status (sys_print2 P s k)"
| "run_syscall P F (Termcolor fg bg) k = giving Status (sys_termcolor P fg bg k)"
| "run_syscall P F Termscolor k = giving Status (sys_termscolor P k)"
| "run_syscall P F Termclear k = giving Status (sys_termclear P k)"
| "run_syscall P F (Termcursor x y) k = giving Status (sys_termcursor P x y k)"
| "run_syscall P F (File_call c) k = file_call P F c k"
| "run_syscall P F (Size n) k = giving Status (sys_size n k)"
| "run_syscall P F (Alloc n) k = giving Status (sys_alloc n k)"
| "run_syscall P F (Free p) k = giving Status (sys_free p k)"

definition syscall_handler ::
    "'h port_ops \<Rightarrow> 'd floppy_ops \<Rightarrow> u32 \<Rightarrow> register list \<Rightarrow> ('d, 'h) kernel
      \<Rightarrow> (fs_result \<times> ('d, 'h) kernel) option" where
  "syscall_handler P F eax rs k =
     (if MAX_SYSCALL \<le> eax then Some (Status (-255), k)
      else do {
        f \<leftarrow> syscall_table ! unat eax;
        c \<leftarrow> decode f rs;
        run_syscall P F c k
      })"

lemma syscall_handler_id:
  "syscall_handler P F (of_nat (syscall_id f)) rs k = Option.bind (decode f rs) (\<lambda>c. run_syscall P F c k)"
proof -
  have n: "unat (of_nat (syscall_id f) :: u32) = syscall_id f"
    using syscall_id_bound [of f] by (simp add: unsigned_of_nat take_bit_nat_eq_self_iff less_le_trans [OF syscall_id_bound])
  have "\<not> MAX_SYSCALL \<le> of_nat (syscall_id f)"
    using syscall_id_bound [of f] unfolding not_le [symmetric] by (simp add: MAX_SYSCALL_def word_le_nat_alt n del: syscall_id_bound)
  then show ?thesis by (simp add: syscall_handler_def n)
qed

section \<open>The kernel as a transition system\<close>

datatype event = Turn | Call u32 "register list" fs_result

inductive kernel_step ::
    "'h port_ops \<Rightarrow> 'd floppy_ops \<Rightarrow> bool \<times> ('d, 'h) kernel \<Rightarrow> event \<Rightarrow> bool \<times> ('d, 'h) kernel \<Rightarrow> bool"
  for P :: "'h port_ops" and F :: "'d floppy_ops"
where
  turn: "kernel_main_turn P sk = Some sk' \<Longrightarrow> kernel_step P F sk Turn sk'"
| call: "syscall_handler P F eax rs k = Some (r, k') \<Longrightarrow> kernel_step P F (sh, k) (Call eax rs r) (sh, k')"

inductive_cases turn_cases: "kernel_step P F sk Turn sk'"
inductive_cases call_cases: "kernel_step P F sk (Call eax rs r) sk'"

section \<open>What every step keeps\<close>

text \<open>
  A call that the kernel cannot check for itself: the cursor goes to a place on the screen, the
  size of an allocation does not wrap, and the address of a release is 0 or one that was given out.
\<close>

definition polite_call :: "('d, 'h) kernel \<Rightarrow> syscall \<Rightarrow> bool" where
  "polite_call k c =
     (case c of
        Termcursor x y \<Rightarrow> 0 \<le> x \<and> x < 80 \<and> 0 \<le> y \<and> y < 25
      | Alloc n \<Rightarrow> unat n + 31 < 4294967296
      | Free p \<Rightarrow> p = 0 \<or> (\<exists>bs fl. heap_inv (kheap k) bs fl \<and> p - 16 \<in> set bs)
      | _ \<Rightarrow> True)"

definition polite :: "('d, 'h) kernel \<Rightarrow> event \<Rightarrow> bool" where
  "polite k e =
     (case e of
        Turn \<Rightarrow> True
      | Call eax rs r \<Rightarrow> \<forall>f c. eax < MAX_SYSCALL \<longrightarrow> syscall_table ! unat eax = Some f \<longrightarrow>
          decode f rs = Some c \<longrightarrow> polite_call k c)"

definition heap_ok :: "heap \<Rightarrow> bool" where
  "heap_ok h \<longleftrightarrow> (\<exists>bs fl. heap_inv h bs fl)"

definition kernel_ok :: "('d \<Rightarrow> bool) \<Rightarrow> ('d, 'h) kernel \<Rightarrow> ('d, 'h) kernel \<Rightarrow> bool" where
  "kernel_ok J k0 k \<longleftrightarrow>
     typed J (drive (files k0)) (fat12_geom (files k0)) (files k) \<and> console_ok (terminal k)
     \<and> heap_ok (kheap k) \<and> cur_fs k = cur_fs k0
     \<and> has_working_drive k = has_working_drive k0 \<and> cmdline_str k = cmdline_str k0"

inductive kernel_reach ::
    "'h port_ops \<Rightarrow> 'd floppy_ops \<Rightarrow> bool \<times> ('d, 'h) kernel \<Rightarrow> bool \<times> ('d, 'h) kernel \<Rightarrow> bool"
  for P :: "'h port_ops" and F :: "'d floppy_ops" and sk0 :: "bool \<times> ('d, 'h) kernel"
where
  start: "kernel_reach P F sk0 sk0"
| further: "kernel_reach P F sk0 sk \<Longrightarrow> polite (snd sk) e \<Longrightarrow> kernel_step P F sk e sk' \<Longrightarrow> kernel_reach P F sk0 sk'"

text \<open>The terminal.\<close>

definition safe_output :: "('h terminal \<Rightarrow> 'h terminal option) \<Rightarrow> bool" where
  "safe_output m \<longleftrightarrow> (\<forall>t t'. console_ok t \<longrightarrow> m t = Some t' \<longrightarrow> console_ok t')"

lemma safe_outputD: "safe_output m \<Longrightarrow> m t = Some t' \<Longrightarrow> console_ok t \<Longrightarrow> console_ok t'"
  by (simp add: safe_output_def)

lemma emit_safe:
  assumes "\<And>c. safe_output (f c)"
  shows "safe_output (emit f cs)"
proof -
  have "emit f cs t = Some t' \<Longrightarrow> console_ok t \<Longrightarrow> console_ok t'" for t t'
    by (induction cs arbitrary: t) (auto simp: bind_eq_Some_conv dest: safe_outputD [OF assms])
  then show ?thesis by (simp add: safe_output_def)
qed

lemma safe_outputI:
  assumes "\<And>t. console_ok t \<Longrightarrow> \<exists>h. m t = Some ((u t)\<lparr>hw := h\<rparr>)" and "\<And>t. console_ok t \<Longrightarrow> console_ok (u t)"
  shows "safe_output m"
  using assms unfolding safe_output_def by fastforce

lemma serial_safe: "uart_ready P \<Longrightarrow> safe_output (term_serial P c)"
  by (rule safe_outputI [where u = "\<lambda>t. t"]) (simp_all add: term_serial_eq)

lemma write_for_char_safe: "uart_ready P \<Longrightarrow> safe_output (terminal_write_for_char P c)"
  by (rule safe_outputI [where u = "type_char c"]) (simp_all add: terminal_write_for_char_eq type_char_ok)

lemma screen_position: "0 \<le> z \<Longrightarrow> z < int n \<Longrightarrow> n < 4294967296 \<Longrightarrow> (word_of_int z :: u32) < of_nat n"
  by (cases z) (auto simp: word_less_nat_alt unsigned_of_nat take_bit_nat_eq_self)

lemma terminal_safe:
  assumes "uart_ready P"
  shows "safe_output (terminal_write P b n)" and "safe_output (terminal_writestring P b)"
    and "safe_output (terminal_cls P)" and "safe_output (terminal_setcolor P fg bg)"
    and "safe_output (terminal_resetcolor P)"
    and "0 \<le> x \<Longrightarrow> x < 80 \<Longrightarrow> 0 \<le> y \<Longrightarrow> y < 25 \<Longrightarrow> safe_output (terminal_update_cursor P x y)"
proof -
  note s = emit_safe [OF serial_safe [OF assms], unfolded safe_output_def, rule_format]
  note w = emit_safe [OF write_for_char_safe [OF assms], unfolded safe_output_def, rule_format]
  show "safe_output (terminal_write P b n)" "safe_output (terminal_writestring P b)"
    unfolding safe_output_def terminal_writestring_def terminal_write_def
    by (auto simp: bind_eq_Some_conv split: if_splits elim: w [rotated])
  have cls: "vga_terminal_cls t = Some t' \<Longrightarrow> console_ok t \<Longrightarrow> console_ok t'" for t t' :: "'a terminal"
    by (auto simp: vga_terminal_cls_eq console_ok_def)
  show "safe_output (terminal_cls P)"
    unfolding safe_output_def terminal_cls_def
    by (auto simp: bind_eq_Some_conv simp del: emit.simps dest: cls elim: s [rotated])
  have col: "console_ok t \<Longrightarrow> console_ok (vga_terminal_setcolor fg bg t)" for fg bg and t :: "'a terminal"
    by (simp add: vga_terminal_setcolor_def console_ok_def)
  show "safe_output (terminal_setcolor P fg bg)" "safe_output (terminal_resetcolor P)"
    unfolding safe_output_def terminal_setcolor_def terminal_resetcolor_def
    by (auto simp: bind_eq_Some_conv Let_def simp del: emit.simps
        split: if_splits elim!: s [rotated] intro: col)
  show "safe_output (terminal_update_cursor P x y)" if "0 \<le> x" "x < 80" "0 \<le> y" "y < 25"
  proof -
    have "(word_of_int y :: u32) < 25" "(word_of_int x :: u32) < 80"
      using that screen_position [of y 25] screen_position [of x 80] by simp_all
    moreover have "\<bar>x\<bar> < 1000000" "\<bar>y\<bar> < 1000000" using that by simp_all
    note terminal_update_cursor_eq [OF assms this]
    ultimately show ?thesis
      by (intro safe_outputI [where u = "\<lambda>t. t\<lparr>vga_terminal_row := word_of_int y, vga_terminal_column := word_of_int x\<rparr>"])
        (simp_all add: console_ok_def)
  qed
qed

text \<open>Rules for the state of the kernel, in the style of those for the file system.\<close>

lemma kernel_okD:
  assumes "kernel_ok J k0 k"
  shows "typed J (drive (files k0)) (fat12_geom (files k0)) (files k)" and "console_ok (terminal k)"
    and "heap_ok (kheap k)"
  using assms by (simp_all add: kernel_ok_def)

lemma keep_on_terminal:
  "kernel_ok J k0 k \<Longrightarrow> safe_output m \<Longrightarrow> keep_state (kernel_ok J k0) (on_terminal m k)"
  by (auto simp: keep_state_def on_terminal_def bind_eq_Some_conv kernel_ok_def dest: safe_outputD)

lemma keep_on_files:
  assumes "kernel_ok J k0 k"
    and "keep (typed J (drive (files k0)) (fat12_geom (files k0))) Q (m (files k))"
  shows "keep (kernel_ok J k0) Q (on_files m k)"
  using assms by (auto simp: keep_def on_files_def bind_eq_Some_conv kernel_ok_def)

lemma keep_returning: "keep_state W m \<Longrightarrow> Q (Status r) \<Longrightarrow> keep W Q (giving Status (returning r m))"
  by (auto simp: keep_def keep_state_def returning_def giving_def bind_eq_Some_conv)

lemma kernel_ok_heap:
  "kernel_ok J k0 k \<Longrightarrow> heap_ok h \<Longrightarrow> kernel_ok J k0 (k\<lparr>kheap := h\<rparr>)"
  by (simp add: kernel_ok_def)

lemma kmalloc_keeps:
  assumes "heap_ok h" and "unat n + 31 < 4294967296" and "kmalloc n h = Some (p, h')"
  shows "heap_ok h'"
proof -
  obtain bs fl where inv: "heap_inv h bs fl" using assms(1) by (auto simp: heap_ok_def)
  show ?thesis
  proof (cases "n = 0 \<or> (\<forall>b \<in> set fl. bh_size (headers h b) < ALIGN (n + 16))")
    case True
    then have "h' = h" using assms(3) kmalloc_none [OF inv] by (cases "n = 0") (auto simp: kmalloc_def)
    then show ?thesis using assms(1) by simp
  next
    case False
    then show ?thesis using kmalloc_some [OF inv _ assms(2)] assms(3) by (fastforce simp: heap_ok_def)
  qed
qed

lemma kfree_keeps:
  assumes "heap_inv h bs fl" and "p - 16 \<in> set bs"
  shows "heap_ok (kfree p h)"
proof (cases "p - 16 \<in> set fl")
  case True
  then have "kfree p h = h" using kfree_free [OF assms(1) True] by (cases "p = 0") simp_all
  then show ?thesis using assms(1) by (auto simp: heap_ok_def)
next
  case False
  then show ?thesis using kfree_inv [OF assms False] by (auto simp: heap_ok_def)
qed

text \<open>The shape of the result of a call.\<close>

fun syscall_result_ok :: "syscall \<Rightarrow> fs_result \<Rightarrow> bool" where
  "syscall_result_ok (File_call c) r = result_ok c r"
| "syscall_result_ok c r = (case r of Status _ \<Rightarrow> True | _ \<Rightarrow> False)"

context typed_driver begin

lemma file_call_keeps:
  assumes "kernel_ok J k0 k" and "uart_ready P"
  shows "keep (kernel_ok J k0) (result_ok c) (file_call P F c k)"
proof -
  note ty = kernel_okD(1) [OF assms(1)]
  note files = ty [THEN open_keeps] ty [THEN close_keeps] ty [THEN rename_keeps] ty [THEN makedir_keeps]
    ty [THEN removedir_keeps] ty [THEN removefile_keeps] ty [THEN write_keeps]
  note files_rules = keep_intros keep_on_files [OF assms(1)] files
  have ops: "keep (kernel_ok J k0) (\<lambda>_. True) (sys_open F p k)"
    "keep (kernel_ok J k0) (\<lambda>_. True) (sys_close n k)" "keep (kernel_ok J k0) (\<lambda>_. True) (sys_rename F p q k)"
    "keep (kernel_ok J k0) (\<lambda>_. True) (sys_makedir F p k)" "keep (kernel_ok J k0) (\<lambda>_. True) (sys_removedir F p k)"
    "keep (kernel_ok J k0) (\<lambda>_. True) (sys_remove F p k)" for p q n
    using assms(1) unfolding sys_open_def sys_close_def sys_rename_def sys_makedir_def sys_removedir_def
      sys_remove_def open_fileno_def close_fileno_def rename_filepath_def makedir_def removedir_def removefile_def
    by (auto intro!: files_rules split: filesystemformat.split)
  have st: "keep (kernel_ok J k0) (result_ok f) (giving Status m)"
    if "keep (kernel_ok J k0) (\<lambda>_. True) m" "result_ok f (Status 0)" for m f
    using that by (intro keep_giving [OF that(1)]) (cases f; simp)
  show ?thesis
  proof (cases c)
    case (Read_file n b count)
    have "keep (kernel_ok J k0) (\<lambda>(r, b'). length b' = length b) (sys_read F n b count k)"
      unfolding sys_read_def read_fileno_def
      using assms(1) by (auto intro!: keep_intros keep_on_files [OF assms(1)] read_keeps [OF ty] split: filesystemformat.split)
    from keep_giving [OF this, of "result_ok c" "\<lambda>(r, b). Bytes_read r b"] show ?thesis using Read_file by auto
  next
    case (List_dir p cs n)
    have "keep (kernel_ok J k0) (\<lambda>(r, cs'). length cs' = length cs) (sys_list F p cs n k)"
      unfolding sys_list_def list_contents_def
      using assms(1) by (auto intro!: keep_intros keep_on_files [OF assms(1)] listcontent_keeps [OF ty] split: filesystemformat.split)
    from keep_giving [OF this, of "result_ok c" "\<lambda>(r, cs). Listing r cs"] show ?thesis using List_dir by auto
  next
    case (Write_file n b count)
    have "keep (kernel_ok J k0) (\<lambda>_. True) (sys_write P F n b count k)"
      unfolding sys_write_def write_fileno_def
      using assms(1)
      by (auto intro!: keep_intros keep_on_files [OF assms(1)] files keep_on_terminal [THEN keep_bind_state(1)]
          terminal_safe [OF assms(2)] split: filesystemformat.split)
    then show ?thesis using st Write_file by auto
  qed (auto intro!: st ops)
qed

lemma run_syscall_keeps:
  assumes "kernel_ok J k0 k" and "uart_ready P" and "polite_call k c"
  shows "keep (kernel_ok J k0) (syscall_result_ok c) (run_syscall P F c k)"
proof -
  note out = keep_on_terminal [OF assms(1)] and safe = terminal_safe [OF assms(2)]
  show ?thesis
  proof (cases c)
    case (File_call f)
    then show ?thesis using file_call_keeps [OF assms(1,2), of f] by (auto elim: keep_weaken)
  next
    case (Alloc n)
    then show ?thesis
      using assms kernel_okD(3) [OF assms(1)]
      by (auto simp: keep_def giving_def sys_alloc_def bind_eq_Some_conv polite_call_def
          intro!: kernel_ok_heap dest: kmalloc_keeps)
  next
    case (Free p)
    have "heap_ok (kfree p (kheap k))"
      using assms(3) kernel_okD(3) [OF assms(1)] Free by (auto simp: polite_call_def dest: kfree_keeps)
    then show ?thesis
      using Free assms(1) by (auto simp: keep_def giving_def sys_free_def intro!: kernel_ok_heap)
  next
    case (Size n)
    then show ?thesis using assms(1) by (auto simp: keep_def giving_def sys_size_def bind_eq_Some_conv)
  qed (use assms(3) in \<open>auto intro!: keep_returning out safe simp: polite_call_def
      sys_print2_def sys_termcolor_def sys_termscolor_def sys_termclear_def sys_termcursor_def\<close>)
qed

lemma syscall_handler_keeps:
  assumes "kernel_ok J k0 k" and "uart_ready P" and "polite k (Call eax rs r)"
    and "syscall_handler P F eax rs k = Some (r, k')"
  shows "kernel_ok J k0 k'"
proof (cases "eax < MAX_SYSCALL")
  case True
  with assms(4) obtain f c where c: "syscall_table ! unat eax = Some f" "decode f rs = Some c"
    "run_syscall P F c k = Some (r, k')"
    by (auto simp: syscall_handler_def bind_eq_Some_conv split: if_splits)
  then have "polite_call k c" using assms(3) True by (simp add: polite_def)
  from keepD [OF run_syscall_keeps [OF assms(1,2) this] c(3)] show ?thesis by simp
next
  case False
  then show ?thesis using assms(1,4) by (simp add: syscall_handler_def not_less)
qed

lemma main_turn_keeps:
  assumes "kernel_ok J k0 k" and "uart_ready P" and "kernel_main_turn P (sh, k) = Some (sh', k')"
  shows "kernel_ok J k0 k'"
proof -
  obtain h c where "on_terminal (terminal_write_for_char P c) (k\<lparr>terminal := (terminal k)\<lparr>hw := h\<rparr>\<rparr>) = Some k'"
    using assms(3) by (auto simp: kernel_main_turn_def bind_eq_Some_conv Let_def split: prod.splits)
  moreover have "kernel_ok J k0 (k\<lparr>terminal := (terminal k)\<lparr>hw := h\<rparr>\<rparr>)"
    using assms(1) by (simp add: kernel_ok_def)
  ultimately show ?thesis
    using keep_stateD [OF keep_on_terminal [OF _ write_for_char_safe [OF assms(2)]]] by blast
qed

lemma reachable_kernel_ok:
  "kernel_reach P F (sh0, k0) sk \<Longrightarrow> uart_ready P \<Longrightarrow> kernel_ok J k0 k0 \<Longrightarrow> kernel_ok J k0 (snd sk)"
proof (induction rule: kernel_reach.induct)
  case (further sk e sk')
  note ok = further.IH [OF further.prems] and uart = further.prems(1)
  show ?case
  proof (cases e)
    case Turn
    with further.hyps(3) have "kernel_main_turn P (fst sk, snd sk) = Some (fst sk', snd sk')"
      by (auto elim: turn_cases)
    from main_turn_keeps [OF ok uart this] show ?thesis .
  next
    case (Call eax rs r)
    with further.hyps(2,3) ok show ?thesis by (auto elim!: call_cases intro: syscall_handler_keeps [OF _ uart])
  qed
qed simp

end

end
