(* ===== verification/Sessions.thy ===== *)
theory Sessions
  imports Syscalls Boot
begin

text \<open>
  Programs over the system calls: \<open>syscall3\<close> of \<open>include/LineKernel/syscall.h\<close> (the i386 branch) puts the
  number and three arguments into registers. A session of file requests on a mounted kernel is a
  session of the operations of \<open>kernel/fat12.c\<close>; on a kernel that has been started from the floppy disk it
  is one on the image of that disk.
\<close>

section \<open>Requests\<close>

definition syscall3 ::
    "'h port_ops \<Rightarrow> 'd floppy_ops \<Rightarrow> u32 \<Rightarrow> register \<Rightarrow> register \<Rightarrow> register \<Rightarrow> ('d, 'h) kernel
      \<Rightarrow> (fs_result \<times> ('d, 'h) kernel) option" where
  "syscall3 P F num arg1 arg2 arg3 k = syscall_handler P F num [arg1, arg2, arg3] k"

definition number_of :: "syscall_function \<Rightarrow> u32" where
  "number_of f = of_nat (syscall_id f)"

text \<open>How a program asks for an operation on files: strings with their terminators.\<close>

fun file_request ::
    "'h port_ops \<Rightarrow> 'd floppy_ops \<Rightarrow> fs_call \<Rightarrow> ('d, 'h) kernel \<Rightarrow> (fs_result \<times> ('d, 'h) kernel) option" where
  "file_request P F (Open_file p) = syscall3 P F (number_of Sys_open) (Bytes (p @ [0])) (Word 0) (Word 0)"
| "file_request P F (Close_file n) = syscall3 P F (number_of Sys_close) (Word (word_of_int n)) (Word 0) (Word 0)"
| "file_request P F (Read_file n b c) = syscall3 P F (number_of Sys_read) (Word (word_of_int n)) (Bytes b) (Word c)"
| "file_request P F (Write_file n b c) = syscall3 P F (number_of Sys_write) (Word (word_of_int n)) (Bytes b) (Word c)"
| "file_request P F (Rename_path p q) = syscall3 P F (number_of Sys_rename) (Bytes (p @ [0])) (Bytes (q @ [0])) (Word 0)"
| "file_request P F (Make_dir p) = syscall3 P F (number_of Sys_makedir) (Bytes (p @ [0])) (Word 0) (Word 0)"
| "file_request P F (Remove_dir p) = syscall3 P F (number_of Sys_removedir) (Bytes (p @ [0])) (Word 0) (Word 0)"
| "file_request P F (Remove_file p) = syscall3 P F (number_of Sys_remove) (Bytes (p @ [0])) (Word 0) (Word 0)"
| "file_request P F (List_dir p cs n) = syscall3 P F (number_of Sys_list) (Bytes (p @ [0])) (Contents cs) (Word (of_nat n))"

fun file_requests ::
    "'h port_ops \<Rightarrow> 'd floppy_ops \<Rightarrow> fs_call list \<Rightarrow> ('d, 'h) kernel \<Rightarrow> (fs_result list \<times> ('d, 'h) kernel) option" where
  "file_requests P F [] k = Some ([], k)"
| "file_requests P F (c # cs) k = do {
     (r, k) \<leftarrow> file_request P F c k;
     (rs, k) \<leftarrow> file_requests P F cs k;
     Some (r # rs, k)
   }"

text \<open>The arguments fit into their registers, and a write does not go to the terminal.\<close>

definition an_int :: "int \<Rightarrow> bool" where
  "an_int n \<longleftrightarrow> - 2147483648 \<le> n \<and> n < 2147483648"

fun to_files :: "fs_call \<Rightarrow> bool" where
  "to_files (Open_file p) \<longleftrightarrow> 0 \<notin> set p"
| "to_files (Close_file n) \<longleftrightarrow> an_int n"
| "to_files (Read_file n b c) \<longleftrightarrow> an_int n"
| "to_files (Write_file n b c) \<longleftrightarrow> an_int n \<and> n \<noteq> 2"
| "to_files (Rename_path p q) \<longleftrightarrow> 0 \<notin> set p \<and> 0 \<notin> set q"
| "to_files (Make_dir p) \<longleftrightarrow> 0 \<notin> set p"
| "to_files (Remove_dir p) \<longleftrightarrow> 0 \<notin> set p"
| "to_files (Remove_file p) \<longleftrightarrow> 0 \<notin> set p"
| "to_files (List_dir p cs n) \<longleftrightarrow> 0 \<notin> set p \<and> n < 4294967296"

lemma syscall3_number: "syscall3 P F (number_of f) a b c k = Option.bind (decode f [a, b, c]) (\<lambda>x. run_syscall P F x k)"
  unfolding syscall3_def number_of_def by (rule syscall_handler_id)

lemma string_in_terminated [simp]:
  "0 \<notin> set p \<Longrightarrow> string_in (Bytes (p @ [0]) # rs) 0 = Some p"
  "0 \<notin> set p \<Longrightarrow> string_in (r # Bytes (p @ [0]) # rs) (Suc 0) = Some p"
  by (simp_all add: string_in_def)

lemma sint_an_int: "an_int n \<Longrightarrow> sint (word_of_int n :: u32) = n"
  using signed_take_bit_int_eq_self [of 31 n] by (simp add: an_int_def signed_of_int)

lemma file_request_eq:
  assumes "to_files c"
  shows "file_request P F c k = file_call P F c k"
proof (cases c)
  case (List_dir p cs n)
  then have "unat (of_nat n :: u32) = n" using assms by (simp add: unsigned_of_nat take_bit_nat_eq_self)
  with List_dir assms show ?thesis by (simp add: syscall3_number)
qed (use assms in \<open>simp_all add: syscall3_number sint_an_int\<close>)

section \<open>Sessions\<close>

lemma giving_files:
  "giving f (Option.bind x (\<lambda>(r, s). Some (r, k\<lparr>files := s\<rparr>))) =
     Option.bind (giving f x) (\<lambda>(r, s). Some (r, k\<lparr>files := s\<rparr>))"
  by (cases x) (auto simp: giving_def)

lemma file_call_mounted:
  assumes "mounted k" and "to_files c"
  shows "file_call P F c k = on_files (run_call F c) k"
proof -
  note calls = sys_open_def sys_close_def sys_rename_def sys_makedir_def sys_removedir_def sys_remove_def
    sys_read_def sys_write_def sys_list_def mounted_operations [OF assms(1)] giving_files
  have bad: "close_fileno 2 k = on_files (fat12_close 2) k"
    "read_fileno F 2 b n k = on_files (fat12_read F 2 b n) k" for b n
    using assms(1) by (simp_all add: fat12_bad_fileno close_fileno_def read_fileno_def mounted_def on_files_def)
  show ?thesis
  proof (cases c)
    case (Close_file n)
    then show ?thesis by (cases "n = 2") (simp_all add: calls bad on_files_def)
  next
    case (Read_file n b count)
    then show ?thesis by (cases "n = 2") (simp_all add: calls bad on_files_def)
  qed (use assms(2) in \<open>simp_all add: calls on_files_def\<close>)
qed

lemma on_files_mounted: "on_files m k = Some (r, k') \<Longrightarrow> mounted k \<Longrightarrow> mounted k'"
  by (auto simp: on_files_def mounted_def bind_eq_Some_conv)

lemma file_requests_mounted:
  assumes "mounted k" and "list_all to_files cs"
  shows "file_requests P F cs k = on_files (run_calls F cs) k"
  using assms
proof (induction cs arbitrary: k)
  case (Cons c cs)
  show ?case
  proof (cases "run_call F c (files k)")
    case None
    then show ?thesis
      using Cons.prems by (simp add: file_request_eq file_call_mounted on_files_def)
  next
    case (Some x)
    obtain r s where x: "run_call F c (files k) = Some (r, s)" using Some by (cases x) auto
    then have "on_files (run_call F c) k = Some (r, k\<lparr>files := s\<rparr>)" by (simp add: on_files_def)
    with Cons x on_files_mounted [OF this Cons.prems(1)] show ?thesis
      by (auto simp: file_request_eq file_call_mounted on_files_def split: bind_split)
  qed
qed (simp add: on_files_def)

text \<open>Without a working drive every request fails and nothing changes.\<close>

fun no_drive_result :: "fs_call \<Rightarrow> fs_result" where
  "no_drive_result (Read_file n b c) = Bytes_read (- 32) b"
| "no_drive_result (List_dir p cs n) = Listing (- 32) cs"
| "no_drive_result c = Status (- 32)"

lemma file_requests_no_drive:
  assumes "has_working_drive k \<noteq> 1" and "list_all to_files cs"
  shows "file_requests P F cs k = Some (map no_drive_result cs, k)"
proof -
  have "file_call P F c k = Some (no_drive_result c, k)" if "to_files c" for c
    using that no_working_drive [OF assms(1)]
    by (cases c) (simp_all add: giving_def sys_open_def sys_close_def sys_rename_def sys_makedir_def
        sys_removedir_def sys_remove_def sys_read_def sys_write_def sys_list_def)
  then show ?thesis using assms(2) by (induction cs) (simp_all add: file_request_eq)
qed

section \<open>From the start to the files\<close>

text \<open>
  What the image of the kernel holds before the start: tables of their sizes, and a range of memory
  for the heap. After the start the kernel satisfies the invariant of the running kernel.
\<close>

definition fresh_kernel :: "('d, 'h) kernel \<Rightarrow> bool" where
  "fresh_kernel k \<longleftrightarrow>
     typed (\<lambda>_. True) (drive (files k)) (fat12_geom (files k)) (files k)
     \<and> 0 < unat (free_ram (kheap k)) \<and> 16 dvd unat (free_ram (kheap k)) \<and> 16 dvd unat (free_ram_end (kheap k))
     \<and> free_ram (kheap k) < free_ram_end (kheap k)"

lemma started_kernel_ok:
  assumes "fresh_kernel k" and "kept_files (files k) (files k')" and "kheap k' = heap_init (kheap k)"
    and "console_ok (terminal k')"
  shows "kernel_ok (\<lambda>_. True) k' k'"
proof -
  have "heap_ok (heap_init (kheap k))"
    using assms(1) heap_init_inv(1) [of "kheap k"] by (auto simp: fresh_kernel_def heap_ok_def)
  then show ?thesis
    using assms by (simp add: fresh_kernel_def kernel_ok_def typed_def kept_files_def ring_ok_def)
qed

lemma with_dev_twice: "with_dev d (with_dev im s) = s\<lparr>dev := d\<rparr>"
  by (simp add: with_dev_def)

lemma session_after_boot:
  assumes "bootable P syms latency k" and "drive (files k) = fdrive1" and "cur_fs k = fat12"
    and "board_does bd False" and "board_does bd True"
  defines "im \<equiv> disk_sectors (mach (dev (files k)))"
  assumes "has_fat12 im"
  shows "\<exists>k'. kernel_main_start P (floppy_machine bd (sym_dma_buffer syms) latency) syms k = Some k'
    \<and> mounted k' \<and> fat12_geom (files k') = geometry_of_bpb (bpb_of_bytes (im 0)) \<and> kept_files (files k) (files k')
    \<and> (\<forall>cs rs s. list_all to_files cs \<longrightarrow> run_calls (checked_floppy on_floppy) cs (with_dev im (files k')) \<noteq> None \<longrightarrow>
         run_calls ideal_floppy cs (with_dev im (files k')) = Some (rs, s) \<longrightarrow>
         (\<exists>d. file_requests P (emulated_floppy bd syms latency) cs k' = Some (rs, k'\<lparr>files := with_dev d s\<rparr>)
            \<and> floppy_serves bd syms latency d \<and> (\<forall>l. unat l < 2880 \<longrightarrow> floppy_sectors d l = dev s l)))"
proof -
  obtain k' where k': "kernel_main_start P (floppy_machine bd (sym_dma_buffer syms) latency) syms k = Some k'"
    "floppy_ready (dev (files k'))" "fc_disk (mach (dev (files k'))) = fc_disk (mach (dev (files k)))"
    "mounted k'" "fat12_geom (files k') = geometry_of_bpb (bpb_of_bytes (im 0))" "kept_files (files k) (files k')"
    using kernel_main_start_yields [OF assms(1,2), of bd] assms(3,4,7)
    by (auto simp: yields_def mounted_def im_def)
  have disk: "disk_sectors (mach (dev (files k'))) = im" using k'(3) by (simp add: im_def disk_sectors_def)
  have wf: "wf_image im" "dma_buffer_ok syms" "latency \<le> 2000" using assms(1) by (simp_all add: bootable_def im_def)
  have shows_it: "driver_shows (floppy_serves bd syms latency) floppy_sectors on_floppy (dev (files k'))
      (dev (with_dev im (files k')))"
    using k'(2) disk wf assms(4,5)
    by (simp add: driver_shows_def floppy_serves_def floppy_idle_def floppy_sectors_def with_dev_def)
  have "\<exists>d. file_requests P (emulated_floppy bd syms latency) cs k' = Some (rs, k'\<lparr>files := with_dev d s\<rparr>)
      \<and> floppy_serves bd syms latency d \<and> (\<forall>l. unat l < 2880 \<longrightarrow> floppy_sectors d l = dev s l)"
    if "list_all to_files cs" "run_calls (checked_floppy on_floppy) cs (with_dev im (files k')) \<noteq> None"
      "run_calls ideal_floppy cs (with_dev im (files k')) = Some (rs, s)" for cs rs s
    using floppy.session_on_driver [OF shows_it that(2,3)] file_requests_mounted [OF k'(4) that(1), of P]
    by (auto simp: with_dev_twice on_files_def driver_shows_def on_floppy_def)
  with k'(1,4-6) show ?thesis by blast
qed

text \<open>On a board that makes no transfer for a read command the started kernel has no drive.\<close>

lemma session_without_drive:
  assumes "bootable P syms latency k" and "drive (files k) = fdrive1" and "\<not> board_does bd False"
  shows "\<exists>k'. kernel_main_start P (floppy_machine bd (sym_dma_buffer syms) latency) syms k = Some k'
    \<and> disk_sectors (mach (dev (files k'))) = disk_sectors (mach (dev (files k)))
    \<and> (\<forall>cs. list_all to_files cs \<longrightarrow>
         file_requests P (emulated_floppy bd syms latency) cs k' = Some (map no_drive_result cs, k'))"
proof -
  obtain k' where k': "kernel_main_start P (floppy_machine bd (sym_dma_buffer syms) latency) syms k = Some k'"
    "fc_disk (mach (dev (files k'))) = fc_disk (mach (dev (files k)))" "has_working_drive k' \<noteq> 1"
    using kernel_main_start_yields [OF assms(1,2), of bd] assms(3) by (auto simp: yields_def)
  then have "disk_sectors (mach (dev (files k'))) = disk_sectors (mach (dev (files k)))"
    by (simp add: disk_sectors_def)
  with k'(1) file_requests_no_drive [OF k'(3)] show ?thesis by blast
qed

text \<open>Both together, with the condition on the board.\<close>

lemma started_sessions:
  assumes "bootable P syms latency k" and "drive (files k) = fdrive1" and "cur_fs k = fat12"
  defines "im \<equiv> disk_sectors (mach (dev (files k)))"
  shows "\<exists>k'. kernel_main_start P (floppy_machine bd (sym_dma_buffer syms) latency) syms k = Some k'
    \<and> (board_does bd False \<and> board_does bd True \<and> has_fat12 im \<longrightarrow>
        fat12_geom (files k') = geometry_of_bpb (bpb_of_bytes (im 0)) \<and> kept_files (files k) (files k')
        \<and> (\<forall>cs rs s. list_all to_files cs \<longrightarrow> run_calls (checked_floppy on_floppy) cs (with_dev im (files k')) \<noteq> None \<longrightarrow>
             run_calls ideal_floppy cs (with_dev im (files k')) = Some (rs, s) \<longrightarrow>
             (\<exists>d. file_requests P (emulated_floppy bd syms latency) cs k' = Some (rs, k'\<lparr>files := with_dev d s\<rparr>)
                \<and> floppy_serves bd syms latency d \<and> (\<forall>l. unat l < 2880 \<longrightarrow> floppy_sectors d l = dev s l))))
    \<and> (\<not> board_does bd False \<longrightarrow> disk_sectors (mach (dev (files k'))) = im
        \<and> (\<forall>cs. list_all to_files cs \<longrightarrow>
             file_requests P (emulated_floppy bd syms latency) cs k' = Some (map no_drive_result cs, k')))"
proof (cases "board_does bd False \<and> board_does bd True \<and> has_fat12 im")
  case True
  with session_after_boot [OF assms(1-3), of bd] show ?thesis unfolding im_def by blast
next
  case False
  show ?thesis
  proof (cases "board_does bd False")
    case True
    then obtain k' where "kernel_main_start P (floppy_machine bd (sym_dma_buffer syms) latency) syms k = Some k'"
      using kernel_main_start_yields [OF assms(1,2), of bd] by (auto simp: yields_def)
    with True False show ?thesis by blast
  next
    case no: False
    with session_without_drive [OF assms(1,2) no] show ?thesis unfolding im_def by blast
  qed
qed

end
