(* ===== verification/Config_Tools.thy ===== *)
theory Config_Tools
  imports Prelude
begin

text \<open>
  The two programs of \<open>tools/\<close> that the build runs on the file \<open>.config\<close>: \<open>config2header.c\<close> makes the
  C header \<open>kconfig.h\<close> and \<open>config2makefile.c\<close> the make file \<open>kconfig.mk\<close>. A program is a function
  from the bytes of the file, if it can be opened, to the bytes that it prints and its exit status.
  \<open>fgets\<close> and \<open>isspace\<close> are those of the C library in the C locale, \<open>BUFSIZ\<close> is that of glibc.
\<close>

section \<open>Reading lines\<close>

definition BUFSIZ :: nat where
  "BUFSIZ = 8192"

text \<open>At most \<open>size - 1\<close> bytes up to and with a newline; \<open>None\<close> at the end of the file.\<close>

definition fgets :: "nat \<Rightarrow> bytes \<Rightarrow> (bytes \<times> bytes) option" where
  "fgets bufsize input =
     (if input = [] then None
      else let line = takeWhile (\<lambda>c. c \<noteq> 0x0A) input;
               n = min (bufsize - 1) (if length line < length input then Suc (length line) else length line)
           in Some (take n input, drop n input))"

definition isspace :: "u8 \<Rightarrow> bool" where
  "isspace c \<longleftrightarrow> c = 0x20 \<or> (0x09 \<le> c \<and> c \<le> 0x0D)"

fun is_empty_or_whitespace :: "bytes \<Rightarrow> bool" where
  "is_empty_or_whitespace [] = True"
| "is_empty_or_whitespace (c # str) = (if \<not> isspace c then False else is_empty_or_whitespace str)"

text \<open>The string in \<open>line\<close> after the store at \<open>strcspn(line, "\r\n")\<close>.\<close>

definition cut_line :: "bytes \<Rightarrow> bytes" where
  "cut_line line = takeWhile (\<lambda>c. c \<noteq> 0x0D \<and> c \<noteq> 0x0A) (cstr line)"

text \<open>The string before the first \<open>=\<close> and the one behind it.\<close>

definition split_equals :: "bytes \<Rightarrow> (bytes \<times> bytes) option" where
  "split_equals line =
     (if 0x3D \<in> set line
      then Some (takeWhile (\<lambda>c. c \<noteq> 0x3D) line, tl (dropWhile (\<lambda>c. c \<noteq> 0x3D) line)) else None)"

section \<open>The programs\<close>

text \<open>What one round of each loop prints.\<close>

definition header_line :: "bytes \<Rightarrow> bytes" where
  "header_line line =
     (if is_empty_or_whitespace line then []
      else if hd line = 0x23 then
        if tl line \<noteq> [] then chars ''/*'' @ tl line @ chars '' */'' @ [0x0A] else []
      else case split_equals line of
        None \<Rightarrow> []
      | Some (name, option) \<Rightarrow> chars ''#define '' @ name @ chars '' '' @ option @ [0x0A])"

definition makefile_line :: "bytes \<Rightarrow> bytes" where
  "makefile_line line =
     (if is_empty_or_whitespace line then []
      else if hd line = 0x23 then
        if tl line \<noteq> [] then chars ''#'' @ tl line @ [0x0A] else []
      else case split_equals line of
        None \<Rightarrow> []
      | Some (name, option) \<Rightarrow> name @ chars '' = '' @ option @ [0x0A])"

lemma fgets_shorter: "fgets BUFSIZ input = Some (line, rest) \<Longrightarrow> length rest < length input"
  by (cases input) (auto simp: fgets_def BUFSIZ_def Let_def split: if_splits)

function config_loop :: "(bytes \<Rightarrow> bytes) \<Rightarrow> bytes \<Rightarrow> bytes" where
  "config_loop print input =
     (case fgets BUFSIZ input of
        None \<Rightarrow> []
      | Some (line, rest) \<Rightarrow> print (cut_line line) @ config_loop print rest)"
  by pat_completeness auto
termination by (relation "measure (\<lambda>(print, input). length input)") (auto dest: fgets_shorter)

declare config_loop.simps [simp del]

definition EXIT_FAILURE :: int where "EXIT_FAILURE = 1"

definition config2header :: "bytes option \<Rightarrow> bytes \<times> int" where
  "config2header file =
     (case file of None \<Rightarrow> ([], EXIT_FAILURE) | Some input \<Rightarrow> (config_loop header_line input, 0))"

definition config2makefile :: "bytes option \<Rightarrow> bytes \<times> int" where
  "config2makefile file =
     (case file of None \<Rightarrow> ([], EXIT_FAILURE) | Some input \<Rightarrow> (config_loop makefile_line input, 0))"

section \<open>Lines\<close>

text \<open>The lines of a xs, without their newlines.\<close>

abbreviation not_newline :: "u8 \<Rightarrow> bool" where
  "not_newline c \<equiv> c \<noteq> 0x0A"

function text_lines :: "bytes \<Rightarrow> bytes list" where
  "text_lines xs =
     (if xs = [] then [] else takeWhile not_newline xs # text_lines (tl (dropWhile not_newline xs)))"
  by pat_completeness auto
termination
proof (relation "measure length")
  fix xs :: bytes
  assume "xs \<noteq> []"
  then show "(tl (dropWhile not_newline xs), xs) \<in> measure length"
    using length_dropWhile_le [of not_newline xs] by (cases xs) auto
qed simp

declare text_lines.simps [simp del]

lemma text_lines_Nil [simp]: "text_lines [] = []"
  by (simp add: text_lines.simps)

lemma text_lines_step: "0x0A \<notin> set l \<Longrightarrow> text_lines (l @ 0x0A # rest) = l # text_lines rest"
proof -
  assume l: "0x0A \<notin> set l"
  have "takeWhile not_newline (l @ 0x0A # rest) = l" "dropWhile not_newline (l @ 0x0A # rest) = 0x0A # rest"
    using l by (auto simp: takeWhile_append dropWhile_append)
  then show ?thesis by (subst text_lines.simps) simp
qed

lemma text_lines_last: "0x0A \<notin> set l \<Longrightarrow> l \<noteq> [] \<Longrightarrow> text_lines l = [l]"
proof -
  assume l: "0x0A \<notin> set l" "l \<noteq> []"
  then have "takeWhile not_newline l = l" "dropWhile not_newline l = []"
    by (auto simp: takeWhile_eq_all_conv dropWhile_eq_Nil_conv)
  then show ?thesis using l unfolding text_lines.simps [of l] by (simp only: if_False list.sel text_lines_Nil)
qed

text \<open>A xs is empty, a last line, or a line with its newline before another xs.\<close>

lemma text_cases:
  fixes xs :: bytes
  obtains (Nil) "xs = []" | (last) "xs \<noteq> []" "0x0A \<notin> set xs"
  | (line) l rest where "xs = l @ 0x0A # rest" "0x0A \<notin> set l"
  using split_list_first [of "0x0A :: u8" xs] by blast

lemma fgets_line:
  assumes "0x0A \<notin> set l" and "Suc (length l) < BUFSIZ"
  shows "fgets BUFSIZ (l @ 0x0A # rest) = Some (l @ [0x0A], rest)"
    and "l \<noteq> [] \<Longrightarrow> fgets BUFSIZ l = Some (l, [])"
proof -
  have t: "takeWhile not_newline (l @ 0x0A # rest) = l" "takeWhile not_newline l = l"
    using assms(1) by (auto simp: takeWhile_append takeWhile_eq_all_conv)
  show "fgets BUFSIZ (l @ 0x0A # rest) = Some (l @ [0x0A], rest)"
    using assms(2) unfolding fgets_def t by (auto simp: Let_def min_def BUFSIZ_def take_Cons' drop_Cons')
  show "l \<noteq> [] \<Longrightarrow> fgets BUFSIZ l = Some (l, [])"
    using assms(2) unfolding fgets_def t by (simp add: Let_def min_def)
qed

lemma cut_line_newline [simp]: "cut_line (l @ [0x0A]) = cut_line l"
  by (induction l) (auto simp: cut_line_def cstr_def)

text \<open>Where no line fills the buffer, the loop sees the lines of the file.\<close>

lemma config_loop_lines:
  "\<forall>l \<in> set (text_lines input). Suc (length l) < BUFSIZ \<Longrightarrow>
     config_loop print input = concat (map (print \<circ> cut_line) (text_lines input))"
proof (induction "length input" arbitrary: input rule: less_induct)
  case less
  have none: "config_loop print [] = []" by (subst config_loop.simps) (simp add: fgets_def)
  show ?case
  proof (cases input rule: text_cases)
    case last
    then show ?thesis
      using less.prems fgets_line(2) [of input] none by (subst config_loop.simps) (simp add: text_lines_last)
  next
    case (line l rest)
    then show ?thesis
      using less.prems less.hyps [of rest] fgets_line(1) [of l rest]
      by (subst config_loop.simps) (simp add: text_lines_step)
  qed (simp add: none)
qed

section \<open>Both outputs carry the same settings\<close>

text \<open>The settings of a configuration: the lines with a \<open>=\<close> that are not comments.\<close>

definition setting :: "bytes \<Rightarrow> (bytes \<times> bytes) list" where
  "setting line =
     (if is_empty_or_whitespace line \<or> hd line = 0x23 then []
      else case split_equals line of None \<Rightarrow> [] | Some p \<Rightarrow> [p])"

definition settings :: "bytes \<Rightarrow> (bytes \<times> bytes) list" where
  "settings input = concat (map (setting \<circ> cut_line) (text_lines input))"

text \<open>The macros of a header, and the variables of a make file, line by line.\<close>

definition upto_space :: "bytes \<Rightarrow> bytes" where
  "upto_space l = takeWhile (\<lambda>c. c \<noteq> 0x20) l"

definition after_space :: "nat \<Rightarrow> bytes \<Rightarrow> bytes" where
  "after_space n l = drop n (dropWhile (\<lambda>c. c \<noteq> 0x20) l)"

definition read_define :: "bytes \<Rightarrow> (bytes \<times> bytes) list" where
  "read_define l =
     (if take 8 l = chars ''#define '' then [(upto_space (drop 8 l), after_space 1 (drop 8 l))] else [])"

definition read_assign :: "bytes \<Rightarrow> (bytes \<times> bytes) list" where
  "read_assign l = (if hd l = 0x23 then [] else [(upto_space l, after_space 3 l)])"

definition read_header :: "bytes \<Rightarrow> (bytes \<times> bytes) list" where
  "read_header xs = concat (map read_define (text_lines xs))"

definition read_makefile :: "bytes \<Rightarrow> (bytes \<times> bytes) list" where
  "read_makefile xs = concat (map read_assign (text_lines xs))"

text \<open>A tool whose rounds print nothing or one line.\<close>

lemma read_output:
  assumes "\<And>l. l \<in> set ls \<Longrightarrow> print l = [] \<and> g l = [] \<or> (\<exists>x. print l = x @ [0x0A] \<and> 0x0A \<notin> set x \<and> read x = g l)"
  shows "concat (map read (text_lines (concat (map print ls)))) = concat (map g ls)"
  using assms
proof (induction ls)
  case (Cons l ls)
  note IH = Cons.IH [OF Cons.prems]
  from Cons.prems [of l] show ?case using IH by (auto simp: text_lines_step)
qed simp

lemma cut_line_clean: "0x0A \<notin> set (cut_line l)"
  by (auto simp: cut_line_def dest: set_takeWhileD)

lemma split_equals_parts:
  assumes "split_equals l = Some (name, option)" and "0x0A \<notin> set l"
  shows "0x0A \<notin> set name" and "0x0A \<notin> set option" and "l = name @ 0x3D # option" and "0x3D \<notin> set name"
proof -
  have l: "0x3D \<in> set l" "name = takeWhile (\<lambda>c. c \<noteq> 0x3D) l" "option = tl (dropWhile (\<lambda>c. c \<noteq> 0x3D) l)"
    using assms(1) by (auto simp: split_equals_def split: if_splits)
  have "dropWhile (\<lambda>c. c \<noteq> 0x3D) l \<noteq> []" using l(1) by auto
  then obtain d ds where d: "dropWhile (\<lambda>c. c \<noteq> 0x3D) l = d # ds" by (cases "dropWhile (\<lambda>c. c \<noteq> 0x3D) l") auto
  then have "d = 0x3D" using hd_dropWhile [of "\<lambda>c. c \<noteq> 0x3D" l] by simp
  then show eq: "l = name @ 0x3D # option"
    using l(2,3) d takeWhile_dropWhile_id [of "\<lambda>c. c \<noteq> 0x3D" l] by simp
  show "0x0A \<notin> set name" "0x0A \<notin> set option" using assms(2) eq by auto
  show "0x3D \<notin> set name" using l(2) by (auto dest: set_takeWhileD)
qed

lemma space_parts:
  assumes "0x20 \<notin> set name"
  shows "upto_space (name @ 0x20 # x) = name" and "after_space n (name @ 0x20 # x) = drop n (0x20 # x)"
  using assms by (auto simp: upto_space_def after_space_def takeWhile_append dropWhile_append)

definition plain_names :: "bytes \<Rightarrow> bool" where
  "plain_names input \<longleftrightarrow> (\<forall>(name, option) \<in> set (settings input). 0x20 \<notin> set name)"

lemma setting_cases:
  assumes "\<forall>p \<in> set (setting c). 0x20 \<notin> set (fst p)" and "0x0A \<notin> set c"
  obtains (blank) "is_empty_or_whitespace c" "setting c = []"
  | (comment) "\<not> is_empty_or_whitespace c" "hd c = 0x23" "setting c = []" "0x0A \<notin> set (tl c)"
  | (other) "\<not> is_empty_or_whitespace c" "hd c \<noteq> 0x23" "split_equals c = None" "setting c = []"
  | (setting) name option where "\<not> is_empty_or_whitespace c" "hd c \<noteq> 0x23"
      "split_equals c = Some (name, option)" "setting c = [(name, option)]"
      "0x20 \<notin> set name" "0x0A \<notin> set name" "0x0A \<notin> set option" "hd (name @ [0x20]) \<noteq> 0x23"
proof (cases "is_empty_or_whitespace c \<or> hd c = 0x23")
  case True
  moreover have "0x0A \<notin> set (tl c)" using assms(2) by (cases c) auto
  ultimately show ?thesis using blank comment by (auto simp: setting_def)
next
  case False
  show ?thesis
  proof (cases "split_equals c")
    case None
    then show ?thesis using False other by (auto simp: setting_def)
  next
    case (Some p)
    then obtain name option where p: "split_equals c = Some (name, option)" by (cases p) auto
    then have s: "setting c = [(name, option)]" using False by (simp add: setting_def)
    note parts = split_equals_parts [OF p assms(2)]
    have "hd (name @ [0x20]) \<noteq> 0x23" using parts(3) False by (cases name) auto
    then show ?thesis
      using setting [of name option] False p s parts(1,2) assms(1) by auto
  qed
qed

lemma header_line_reads:
  assumes "\<forall>p \<in> set (setting c). 0x20 \<notin> set (fst p)" and "0x0A \<notin> set c"
  shows "header_line c = [] \<and> setting c = [] \<or>
    (\<exists>x. header_line c = x @ [0x0A] \<and> 0x0A \<notin> set x \<and> read_define x = setting c)"
proof (rule setting_cases [OF assms], goal_cases)
  case (4 name option)
  note setting = this
  define x where "x = chars ''#define '' @ name @ 0x20 # option"
  have "read_define x = [(name, option)]"
    using setting(5) by (simp add: x_def read_define_def space_parts)
  moreover have "header_line c = x @ [0x0A]" using setting(1-3) by (simp add: header_line_def x_def chars_def)
  moreover have "0x0A \<notin> set x" using setting(6,7) by (simp add: x_def chars_def)
  ultimately show ?thesis using setting(4) by auto
qed (auto simp: header_line_def read_define_def chars_def)

lemma makefile_line_reads:
  assumes "\<forall>p \<in> set (setting c). 0x20 \<notin> set (fst p)" and "0x0A \<notin> set c"
  shows "makefile_line c = [] \<and> setting c = [] \<or>
    (\<exists>x. makefile_line c = x @ [0x0A] \<and> 0x0A \<notin> set x \<and> read_assign x = setting c)"
proof (rule setting_cases [OF assms], goal_cases)
  case (4 name option)
  note setting = this
  define x where "x = name @ 0x20 # 0x3D # 0x20 # option"
  have "hd x \<noteq> 0x23" using setting(8) by (cases name) (auto simp: x_def)
  then have "read_assign x = [(name, option)]"
    using setting(5) by (simp add: x_def read_assign_def space_parts)
  moreover have "makefile_line c = x @ [0x0A]" using setting(1-3) by (simp add: makefile_line_def x_def chars_def)
  moreover have "0x0A \<notin> set x" using setting(6,7) by (simp add: x_def)
  ultimately show ?thesis using setting(4) by auto
qed (auto simp: makefile_line_def read_assign_def chars_def)

definition fitting_lines :: "bytes \<Rightarrow> bool" where
  "fitting_lines input \<longleftrightarrow> (\<forall>l \<in> set (text_lines input). Suc (length l) < BUFSIZ)"

lemma tools_read:
  assumes "fitting_lines input" and "plain_names input"
  shows "read_header (config_loop header_line input) = settings input"
    and "read_makefile (config_loop makefile_line input) = settings input"
proof -
  have plain: "\<forall>p \<in> set (setting (cut_line l)). 0x20 \<notin> set (fst p)" if "l \<in> set (text_lines input)" for l
    using assms(2) that by (fastforce simp: plain_names_def settings_def)
  show "read_header (config_loop header_line input) = settings input"
    unfolding read_header_def settings_def
      config_loop_lines [OF assms(1) [unfolded fitting_lines_def]]
    by (rule read_output) (simp add: header_line_reads [OF plain cut_line_clean])
  show "read_makefile (config_loop makefile_line input) = settings input"
    unfolding read_makefile_def settings_def
      config_loop_lines [OF assms(1) [unfolded fitting_lines_def]]
    by (rule read_output) (simp add: makefile_line_reads [OF plain cut_line_clean])
qed

end
