(* ===== verification/Riscv.thy ===== *)
theory Riscv
  imports Renderer
begin

text \<open>
  The port to RISC-V: the calls of the firmware (\<open>riscv64/sbi.c\<close>), the end of the machine
  (\<open>riscv64/power.c\<close>), and the terminal and the input of \<open>kernel/LineRenderer.c\<close>, \<open>LineColor.c\<close> and \<open>LineInput.c\<close> in the build
  for \<open>riscv64\<close>, where the firmware is the only console. The firmware is the argument \<open>ecall\<close>: it
  takes the registers \<open>a0\<close> to \<open>a7\<close> and the state of the machine, and gives \<open>a0\<close> and \<open>a1\<close>.
\<close>

section \<open>The firmware\<close>

type_synonym u64 = "64 word"

type_synonym 'm firmware = "u64 list \<Rightarrow> 'm \<Rightarrow> (u64 \<times> u64) \<times> 'm"

record sbiret =
  sbi_error :: u64
  sbi_value :: u64

definition sbi_call ::
    "'m firmware \<Rightarrow> u64 \<Rightarrow> u64 \<Rightarrow> u64 \<Rightarrow> u64 \<Rightarrow> u64 \<Rightarrow> u64 \<Rightarrow> u64 \<Rightarrow> u64 \<Rightarrow> 'm \<Rightarrow> sbiret \<times> 'm" where
  "sbi_call ecall arg0 arg1 arg2 arg3 arg4 arg5 fid eid m =
     (let ((a0, a1), m) = ecall [arg0, arg1, arg2, arg3, arg4, arg5, fid, eid] m
      in (\<lparr>sbi_error = a0, sbi_value = a1\<rparr>, m))"

text \<open>A \<open>char\<close> is unsigned on this machine.\<close>

definition sbi_putchar :: "'m firmware \<Rightarrow> u8 \<Rightarrow> 'm \<Rightarrow> 'm" where
  "sbi_putchar ecall ch m = snd (sbi_call ecall (ucast ch) 0 0 0 0 0 0 1 m)"

definition sbi_getchar :: "'m firmware \<Rightarrow> 'm \<Rightarrow> int \<times> 'm" where
  "sbi_getchar ecall m =
     (let (ret, m) = sbi_call ecall 0 0 0 0 0 0 0 2 m
      in (sint (ucast (sbi_error ret) :: u32), m))"

section \<open>The end of the machine\<close>

text \<open>
  A store of a 32-bit word to an address is the argument \<open>store\<close>. Both functions end in \<open>halt\<close>, which
  does not return; the result is the state in which it is entered.
\<close>

definition SYSCON_ADDR :: u64 where
  "SYSCON_ADDR = 0x100000"

definition riscv_poweroff :: "(u64 \<Rightarrow> u32 \<Rightarrow> 'm \<Rightarrow> 'm) \<Rightarrow> 'm \<Rightarrow> 'm" where
  "riscv_poweroff store m = store SYSCON_ADDR 0x5555 m"

definition riscv_reboot :: "(u64 \<Rightarrow> u32 \<Rightarrow> 'm \<Rightarrow> 'm) \<Rightarrow> 'm \<Rightarrow> 'm" where
  "riscv_reboot store m = store SYSCON_ADDR 0x7777 m"

section \<open>The terminal\<close>

definition sbi_putchars :: "'m firmware \<Rightarrow> bytes \<Rightarrow> 'm \<Rightarrow> 'm" where
  "sbi_putchars ecall cs m = fold (sbi_putchar ecall) cs m"

definition riscv_putchar :: "'m firmware \<Rightarrow> u8 \<Rightarrow> 'm \<Rightarrow> 'm" where
  "riscv_putchar ecall c m = sbi_putchar ecall c m"

definition riscv_newline :: "'m firmware \<Rightarrow> 'm \<Rightarrow> 'm" where
  "riscv_newline ecall m = sbi_putchars ecall [0x0D, 0x0A] m"

definition riscv_backspace :: "'m firmware \<Rightarrow> 'm \<Rightarrow> 'm" where
  "riscv_backspace ecall m = sbi_putchars ecall [0x08, 0x20, 0x08] m"

definition riscv_tab :: "'m firmware \<Rightarrow> 'm \<Rightarrow> 'm" where
  "riscv_tab ecall m = fold (riscv_putchar ecall) [0x20, 0x20, 0x20, 0x20] m"

definition riscv_cls :: "'m firmware \<Rightarrow> 'm \<Rightarrow> 'm" where
  "riscv_cls ecall m =
     sbi_putchars ecall [0x1B, 0x5B, 0x32, 0x4A, 0x1B, 0x5B, 0x31, 0x3B, 0x31, 0x48] m"

definition riscv_write_for_char :: "'m firmware \<Rightarrow> u8 \<Rightarrow> 'm \<Rightarrow> 'm" where
  "riscv_write_for_char ecall c m =
     (if c = 0x08 then riscv_backspace ecall m
      else if c = 0x0A then riscv_newline ecall m
      else if c = 0x09 then riscv_tab ecall m
      else if c \<noteq> 0 then riscv_putchar ecall c m
      else m)"

definition riscv_write :: "'m firmware \<Rightarrow> bytes \<Rightarrow> u64 \<Rightarrow> 'm \<Rightarrow> 'm option" where
  "riscv_write ecall data n m =
     (if length data < unat n then None
      else Some (fold (riscv_write_for_char ecall) (take (unat n) data) m))"

definition riscv_writestring :: "'m firmware \<Rightarrow> bytes \<Rightarrow> 'm \<Rightarrow> 'm option" where
  "riscv_writestring ecall data m = do {
     n \<leftarrow> strlen data;
     riscv_write ecall data (of_nat n) m
   }"

definition riscv_update_cursor :: "'m firmware \<Rightarrow> int \<Rightarrow> int \<Rightarrow> 'm \<Rightarrow> 'm option" where
  "riscv_update_cursor ecall x y m = do {
     let m = sbi_putchars ecall [0x1B, 0x5B] m;
     y1 \<leftarrow> cint (y + 1);
     m \<leftarrow> terminal_writeintcustom (\<lambda>c m. Some (sbi_putchar ecall c m)) y1 m;
     let m = sbi_putchar ecall 0x3B m;
     x1 \<leftarrow> cint (x + 1);
     m \<leftarrow> terminal_writeintcustom (\<lambda>c m. Some (sbi_putchar ecall c m)) x1 m;
     Some (sbi_putchar ecall 0x48 m)
   }"

definition riscv_setcolor :: "'m firmware \<Rightarrow> u32 \<Rightarrow> u32 \<Rightarrow> 'm \<Rightarrow> 'm option" where
  "riscv_setcolor ecall fg_color bg_color m = do {
     m \<leftarrow> (if unat fg_color < length ansi_fg_colors
           then Some (sbi_putchars ecall (ansi_fg_colors ! unat fg_color) m) else None);
     (if unat bg_color < length ansi_bg_colors
      then Some (sbi_putchars ecall (ansi_bg_colors ! unat bg_color) m) else None)
   }"

text \<open>There is no branch for this machine in \<open>terminal_resetcolor\<close>.\<close>

definition riscv_resetcolor :: "'m \<Rightarrow> 'm" where
  "riscv_resetcolor m = m"

section \<open>Input\<close>

text \<open>The loop polls the firmware until there is a character.\<close>

partial_function (option) riscv_get_char :: "'m firmware \<Rightarrow> 'm \<Rightarrow> (u8 \<times> 'm) option" where
  "riscv_get_char ecall m =
     (let (ready, m) = sbi_getchar ecall m
      in if ready = -1 then riscv_get_char ecall m
         else let c = word_of_int ready :: u8
              in Some (if c = 0x0D then 0x0A else c, m))"

definition riscv_main_turn :: "'m firmware \<Rightarrow> 'm \<Rightarrow> 'm option" where
  "riscv_main_turn ecall m = do {
     (c, m) \<leftarrow> riscv_get_char ecall m;
     Some (riscv_write_for_char ecall c m)
   }"

fun riscv_main_turns :: "'m firmware \<Rightarrow> nat \<Rightarrow> 'm \<Rightarrow> 'm option" where
  "riscv_main_turns ecall 0 m = Some m"
| "riscv_main_turns ecall (Suc n) m = Option.bind (riscv_main_turn ecall m) (riscv_main_turns ecall n)"

section \<open>What the port relies on\<close>

text \<open>
  The legacy console of the firmware: the extension 1 prints the character in \<open>a0\<close>, the extension 2 gives the next character,
  or -1 while there is none. \<open>sent\<close> is what was printed, \<open>polls\<close> is what the next calls of the second find.
\<close>

definition sbi_console :: "'m firmware \<Rightarrow> ('m \<Rightarrow> bytes) \<Rightarrow> ('m \<Rightarrow> u8 option list) \<Rightarrow> bool" where
  "sbi_console ecall sent polls \<longleftrightarrow>
     (\<forall>m ch. let m' = snd (ecall [ucast (ch :: u8), 0, 0, 0, 0, 0, 0, 1] m)
             in sent m' = sent m @ [ch] \<and> polls m' = polls m)
     \<and> (\<forall>m p ps. polls m = p # ps \<longrightarrow>
          (let ((a0, a1), m') = ecall [0, 0, 0, 0, 0, 0, 0, 2] m
           in a0 = (case p of None \<Rightarrow> - 1 | Some c \<Rightarrow> ucast c) \<and> polls m' = ps \<and> sent m' = sent m))"

text \<open>What a character looks like on the line, and what the loop of the kernel makes of one that was typed.\<close>

definition line_bytes :: "u8 \<Rightarrow> bytes" where
  "line_bytes c =
     (if c = 0x08 then [0x08, 0x20, 0x08] else if c = 0x0A then [0x0D, 0x0A]
      else if c = 0x09 then [0x20, 0x20, 0x20, 0x20] else if c = 0 then [] else [c])"

definition typed_char :: "u8 \<Rightarrow> u8" where
  "typed_char c = (if c = 0x0D then 0x0A else c)"

lemma sbi_putchar_sent:
  assumes "sbi_console ecall sent polls"
  shows "sent (sbi_putchar ecall c m) = sent m @ [c]" and "polls (sbi_putchar ecall c m) = polls m"
proof -
  have "sbi_putchar ecall c m = snd (ecall [ucast c, 0, 0, 0, 0, 0, 0, 1] m)"
    by (simp add: sbi_putchar_def sbi_call_def split: prod.split)
  then show "sent (sbi_putchar ecall c m) = sent m @ [c]" "polls (sbi_putchar ecall c m) = polls m"
    using assms by (simp_all add: sbi_console_def Let_def)
qed

lemma sbi_putchars_sent:
  assumes "sbi_console ecall sent polls"
  shows "sent (sbi_putchars ecall cs m) = sent m @ cs" and "polls (sbi_putchars ecall cs m) = polls m"
  unfolding sbi_putchars_def
  by (induction cs arbitrary: m) (simp_all add: sbi_putchar_sent [OF assms])

lemma write_for_char_sent:
  assumes "sbi_console ecall sent polls"
  shows "sent (riscv_write_for_char ecall c m) = sent m @ line_bytes c"
    and "polls (riscv_write_for_char ecall c m) = polls m"
  by (simp_all add: riscv_write_for_char_def riscv_backspace_def riscv_newline_def riscv_tab_def
      riscv_putchar_def line_bytes_def sbi_putchars_sent [OF assms] sbi_putchar_sent [OF assms])

lemma fold_write_sent:
  assumes "sbi_console ecall sent polls"
  shows "sent (fold (riscv_write_for_char ecall) cs m) = sent m @ concat (map line_bytes cs)"
    and "polls (fold (riscv_write_for_char ecall) cs m) = polls m"
  by (induction cs arbitrary: m) (simp_all add: write_for_char_sent [OF assms])

lemma emit_total: "emit (\<lambda>c m. Some (f c m)) cs m = Some (fold f cs m)"
  by (induction cs arbitrary: m) simp_all

lemma update_cursor_sent:
  assumes "sbi_console ecall sent polls" and "\<bar>x\<bar> < 1000000" and "\<bar>y\<bar> < 1000000"
  shows "\<exists>m'. riscv_update_cursor ecall x y m = Some m' \<and> polls m' = polls m
    \<and> sent m' = sent m @ [0x1B, 0x5B] @ decimal_int (y + 1) @ [0x3B] @ decimal_int (x + 1) @ [0x48]"
proof -
  have dec: "terminal_writeintcustom (\<lambda>c m. Some (sbi_putchar ecall c m)) (z + 1) m =
      Some (sbi_putchars ecall (decimal_int (z + 1)) m)" if "\<bar>z\<bar> < 1000000" for z m
  proof -
    have "- 2147483648 < z + 1" "z + 1 < 2147483648" using that by linarith+
    then show ?thesis by (simp only: terminal_writeintcustom_eq emit_total sbi_putchars_def)
  qed
  have "cint (y + 1) = Some (y + 1)" "cint (x + 1) = Some (x + 1)" using assms(2,3) by auto
  then show ?thesis
    using assms(2,3)
    by (simp add: riscv_update_cursor_def dec Let_def sbi_putchars_sent [OF assms(1)] sbi_putchar_sent [OF assms(1)]
        del: cint_Some_iff)
qed

section \<open>What is typed is echoed\<close>

lemma getchar_polls:
  assumes "sbi_console ecall sent polls" and "polls m = p # ps"
  shows "\<exists>m'. sbi_getchar ecall m = ((case p of None \<Rightarrow> -1 | Some c \<Rightarrow> uint c), m')
    \<and> polls m' = ps \<and> sent m' = sent m"
proof -
  obtain a0 a1 m' where e: "ecall [0, 0, 0, 0, 0, 0, 0, 2] m = ((a0, a1), m')" by (metis prod.exhaust)
  then have p: "a0 = (case p of None \<Rightarrow> - 1 | Some c \<Rightarrow> ucast c)" "polls m' = ps" "sent m' = sent m"
    using assms unfolding sbi_console_def by fastforce+
  have "(ucast (- 1 :: u64) :: u32) = - 1" by code_simp
  then have "sint (ucast (- 1 :: u64) :: u32) = -1" by simp
  moreover have "sint (ucast (ucast c :: u64) :: u32) = uint c" for c :: u8
  proof -
    have c: "uint c < 256" using uint_lt2p [of c] by simp
    have "uint (ucast (ucast c :: u64) :: u32) = uint c"
      using c by (simp add: uint_up_ucast is_up unsigned_ucast_eq [where ?'a = int] take_bit_int_eq_self)
    moreover have "signed_take_bit 31 (uint c) = uint c"
    proof (rule signed_take_bit_int_eq_self)
      have "0 \<le> uint c" "(2 :: int) ^ 31 = 2147483648" by simp_all
      with c show "- (2 ^ 31) \<le> uint c" "uint c < 2 ^ 31" by linarith+
    qed
    ultimately show ?thesis by (simp add: sint_uint)
  qed
  ultimately show ?thesis
    using e p by (cases p) (simp_all add: sbi_getchar_def sbi_call_def)
qed

lemma get_char_waits:
  assumes "sbi_console ecall sent polls"
  shows "polls m = replicate n None @ Some c # ps \<Longrightarrow>
    \<exists>m'. riscv_get_char ecall m = Some (typed_char c, m') \<and> polls m' = ps \<and> sent m' = sent m"
proof (induction n arbitrary: m)
  case 0
  then obtain m' where m': "sbi_getchar ecall m = (uint c, m')" "polls m' = ps" "sent m' = sent m"
    using getchar_polls [OF assms, of m "Some c" ps] by auto
  have "uint c \<noteq> -1" using uint_ge_0 [of c] by linarith
  then have "riscv_get_char ecall m = Some (typed_char c, m')"
    using m'(1) by (subst riscv_get_char.simps) (simp add: typed_char_def)
  with m' show ?case by blast
next
  case (Suc n)
  then obtain m1 where m1: "sbi_getchar ecall m = (-1, m1)" "polls m1 = replicate n None @ Some c # ps"
    "sent m1 = sent m"
    using getchar_polls [OF assms, of m None "replicate n None @ Some c # ps"] by auto
  then have "riscv_get_char ecall m = riscv_get_char ecall m1"
    by (subst riscv_get_char.simps) simp
  with Suc.IH [OF m1(2)] m1(3) show ?case by simp
qed

text \<open>A line of characters, each typed after some polls that found nothing.\<close>

definition typed_polls :: "(nat \<times> u8) list \<Rightarrow> u8 option list" where
  "typed_polls keys = concat (map (\<lambda>(n, c). replicate n None @ [Some c]) keys)"

lemma main_turns_echo:
  assumes "sbi_console ecall sent polls"
  shows "polls m = typed_polls keys @ ps \<Longrightarrow>
    \<exists>m'. riscv_main_turns ecall (length keys) m = Some m' \<and> polls m' = ps
      \<and> sent m' = sent m @ concat (map (line_bytes \<circ> typed_char \<circ> snd) keys)"
proof (induction keys arbitrary: m)
  case (Cons k keys)
  obtain n c where k: "k = (n, c)" by (cases k)
  have "polls m = replicate n None @ Some c # typed_polls keys @ ps"
    using Cons.prems by (simp add: k typed_polls_def)
  from get_char_waits [OF assms this] obtain m1 where m1: "riscv_get_char ecall m = Some (typed_char c, m1)"
    "polls m1 = typed_polls keys @ ps" "sent m1 = sent m" by blast
  then have "riscv_main_turn ecall m = Some (riscv_write_for_char ecall (typed_char c) m1)"
    by (simp add: riscv_main_turn_def)
  with Cons.IH [of "riscv_write_for_char ecall (typed_char c) m1"] m1(2,3) show ?case
    by (simp add: write_for_char_sent [OF assms] k)
qed (simp add: typed_polls_def)

end
