(* ===== verification/Colors.thy ===== *)
theory Colors
  imports Riscv
begin

text \<open>
  The colours, \<open>enum linecolor\<close> of \<open>include/LineKernel/linecolor_t.h\<close>, and what \<open>kernel/LineColor.c\<close> makes of
  them on each console: an attribute of the screen and two escape sequences on the line.
\<close>

datatype linecolor =
    COLOR_BLACK | COLOR_BLUE | COLOR_GREEN | COLOR_CYAN | COLOR_RED | COLOR_MAGENTA | COLOR_BROWN
  | COLOR_LIGHT_GREY | COLOR_DARK_GREY | COLOR_LIGHT_BLUE | COLOR_LIGHT_GREEN | COLOR_LIGHT_CYAN
  | COLOR_LIGHT_RED | COLOR_LIGHT_MAGENTA | COLOR_LIGHT_YELLOW | COLOR_WHITE

text \<open>The value of a constant is its place in the enumeration.\<close>

fun color_value :: "linecolor \<Rightarrow> nat" where
  "color_value COLOR_BLACK = 0"
| "color_value COLOR_BLUE = 1"
| "color_value COLOR_GREEN = 2"
| "color_value COLOR_CYAN = 3"
| "color_value COLOR_RED = 4"
| "color_value COLOR_MAGENTA = 5"
| "color_value COLOR_BROWN = 6"
| "color_value COLOR_LIGHT_GREY = 7"
| "color_value COLOR_DARK_GREY = 8"
| "color_value COLOR_LIGHT_BLUE = 9"
| "color_value COLOR_LIGHT_GREEN = 10"
| "color_value COLOR_LIGHT_CYAN = 11"
| "color_value COLOR_LIGHT_RED = 12"
| "color_value COLOR_LIGHT_MAGENTA = 13"
| "color_value COLOR_LIGHT_YELLOW = 14"
| "color_value COLOR_WHITE = 15"

definition color_code :: "linecolor \<Rightarrow> u32" where
  "color_code c = of_nat (color_value c)"

definition DEFAULT_FOREGROUND :: linecolor where "DEFAULT_FOREGROUND = COLOR_LIGHT_GREY"

definition DEFAULT_BACKGROUND :: linecolor where "DEFAULT_BACKGROUND = COLOR_BLACK"

lemma color_value_bound [simp]: "color_value c < 16"
  by (cases c) simp_all

lemma color_value_inj: "color_value c = color_value d \<longleftrightarrow> c = d"
  by (cases c; cases d) simp_all

lemma unat_color_code [simp]: "unat (color_code c) = color_value c"
  by (simp add: color_code_def unsigned_of_nat take_bit_nat_eq_self_iff less_le_trans [OF color_value_bound])

lemma ansi_colors_length [simp]: "length ansi_fg_colors = 16" "length ansi_bg_colors = 16"
  by (simp_all add: ansi_fg_colors_def ansi_bg_colors_def)

lemma ansi_colors_distinct: "distinct (ansi_fg_colors @ ansi_bg_colors)"
  by code_simp

text \<open>The colours of a character cell, as the hardware reads its attribute.\<close>

definition fg_of :: "u8 \<Rightarrow> nat" where
  "fg_of a = unat (a AND 0x0F)"

definition bg_of :: "u8 \<Rightarrow> nat" where
  "bg_of a = unat (drop_bit 4 a)"

lemma attribute_colors:
  "fg_of (vga_entry_color (color_code f) (color_code b)) = color_value f"
  "bg_of (vga_entry_color (color_code f) (color_code b)) = color_value b"
proof -
  let ?ok = "\<lambda>f b. fg_of (vga_entry_color (of_nat f) (of_nat b)) = f \<and> bg_of (vga_entry_color (of_nat f) (of_nat b)) = b"
  have "list_all (\<lambda>f. list_all (?ok f) [0..<16]) [0..<16]" by code_simp
  then have "?ok (color_value f) (color_value b)" by (simp only: list_all_iff set_upt atLeastLessThan_iff) simp
  then show "fg_of (vga_entry_color (color_code f) (color_code b)) = color_value f"
    "bg_of (vga_entry_color (color_code f) (color_code b)) = color_value b"
    by (simp_all add: color_code_def)
qed

text \<open>Every colour of the enumeration can be set: both consoles get it, and nothing else changes.\<close>

lemma terminal_setcolor_shows:
  assumes "uart_ready P"
  shows "\<exists>h a. terminal_setcolor P (color_code f) (color_code b) t = Some (t\<lparr>vga_terminal_color := a, hw := h\<rparr>)
    \<and> fg_of a = color_value f \<and> bg_of a = color_value b"
proof -
  let ?t = "vga_terminal_setcolor (color_code f) (color_code b) t"
  obtain h1 where h1: "emit (term_serial P) (ansi_fg_colors ! color_value f) ?t = Some (?t\<lparr>hw := h1\<rparr>)"
    using emit_serial_eq [OF assms] by blast
  obtain h2 where "emit (term_serial P) (ansi_bg_colors ! color_value b) (?t\<lparr>hw := h1\<rparr>) = Some (?t\<lparr>hw := h1\<rparr>\<lparr>hw := h2\<rparr>)"
    using emit_serial_eq [OF assms] by blast
  with h1 have "terminal_setcolor P (color_code f) (color_code b) t = Some (?t\<lparr>hw := h2\<rparr>)"
    by (simp add: terminal_setcolor_def)
  then show ?thesis
    using attribute_colors [of f b] by (auto simp: vga_terminal_setcolor_def)
qed

lemma riscv_setcolor_sends:
  assumes "sbi_console ecall sent polls"
  shows "\<exists>m'. riscv_setcolor ecall (color_code f) (color_code b) m = Some m' \<and> polls m' = polls m
    \<and> sent m' = sent m @ ansi_fg_colors ! color_value f @ ansi_bg_colors ! color_value b"
  by (simp add: riscv_setcolor_def sbi_putchars_sent [OF assms])

text \<open>The colours after a reset are the default ones.\<close>

lemma terminal_resetcolor_default:
  assumes "uart_ready P"
  shows "\<exists>h. terminal_resetcolor P t =
    Some (t\<lparr>vga_terminal_color := vga_entry_color (color_code DEFAULT_FOREGROUND) (color_code DEFAULT_BACKGROUND), hw := h\<rparr>)"
proof -
  have "(7 :: u32) = color_code DEFAULT_FOREGROUND" "(0 :: u32) = color_code DEFAULT_BACKGROUND"
    by (simp_all add: color_code_def DEFAULT_FOREGROUND_def DEFAULT_BACKGROUND_def)
  then show ?thesis
    using emit_serial_eq [OF assms, of "[0x1B, 0x5B, 0x30, 0x6D]" "vga_terminal_setcolor 7 0 t"]
    by (simp add: terminal_resetcolor_def vga_terminal_setcolor_def)
qed

end
