(* ===== verification/Pic.thy ===== *)
theory Pic
  imports Timer
begin

text \<open>
  The pair of 8259 interrupt controllers as their data sheet describes them, as far as \<open>i386/idt.c\<close>
  programs them, and the way of an interrupt: a device raises a line, the controller delivers
  the vector of the line, \<open>common_handler\<close> runs and ends the interrupt. The gates of the kernel close
  the processor to interrupts, so one handler runs after the other. Spurious interrupts are left out.
\<close>

section \<open>One controller\<close>

text \<open>
  \<open>pc_next\<close> is the initialisation word that the controller expects next, 0 when it is ready; the others are
  its first word, the vector base (second word), the cascade (third), automatic end of interrupt
  (fourth), the mask and the lines in service. Line 0 has the highest priority.
\<close>

record pic =
  pc_next :: nat
  pc_first :: u8
  pc_base :: u8
  pc_cascade :: u8
  pc_auto :: bool
  pc_mask :: u8
  pc_service :: u8

text \<open>
  The command port: bit 4 starts an initialisation, bit 3 marks a word that changes no interrupt
  state, 20 ends the line of highest priority in service and 60 a given line.
\<close>

definition pic_command :: "u8 \<Rightarrow> pic \<Rightarrow> pic" where
  "pic_command b c =
     (if bit b 4 then c\<lparr>pc_next := 2, pc_first := b, pc_auto := False, pc_mask := 0\<rparr>
      else if bit b 3 then c
      else if b AND 0xE0 = 0x20 then c\<lparr>pc_service := pc_service c AND (pc_service c - 1)\<rparr>
      else if b AND 0xE0 = 0x60 then c\<lparr>pc_service := unset_bit (unat (b AND 7)) (pc_service c)\<rparr>
      else c)"

text \<open>The data port: the words of the initialisation, then the mask.\<close>

definition pic_data :: "u8 \<Rightarrow> pic \<Rightarrow> pic" where
  "pic_data b c =
     (let last = (if bit (pc_first c) 0 then 4 else 0) in
      if pc_next c = 2 then c\<lparr>pc_base := b AND 0xF8, pc_next := if bit (pc_first c) 1 then last else 3\<rparr>
      else if pc_next c = 3 then c\<lparr>pc_cascade := b, pc_next := last\<rparr>
      else if pc_next c = 4 then c\<lparr>pc_auto := bit b 1, pc_next := 0\<rparr>
      else c\<lparr>pc_mask := b\<rparr>)"

text \<open>A request is granted when the line is not masked and nothing of its priority or above is in service.\<close>

definition pic_grants :: "nat \<Rightarrow> pic \<Rightarrow> bool" where
  "pic_grants n c \<longleftrightarrow>
     pc_next c = 0 \<and> \<not> bit (pc_mask c) n \<and> list_all (\<lambda>m. \<not> bit (pc_service c) m) [0..<Suc n]"

definition pic_take :: "nat \<Rightarrow> pic \<Rightarrow> pic" where
  "pic_take n c = (if pc_auto c then c else c\<lparr>pc_service := set_bit n (pc_service c)\<rparr>)"

section \<open>The pair\<close>

text \<open>The second controller is wired to line 2 of the first, and both have to be told so.\<close>

record pics =
  pi_first :: pic
  pi_second :: pic

definition pic_out :: "u16 \<Rightarrow> u8 \<Rightarrow> pics \<Rightarrow> pics" where
  "pic_out p b h =
     (if p = 0x20 then h\<lparr>pi_first := pic_command b (pi_first h)\<rparr>
      else if p = 0x21 then h\<lparr>pi_first := pic_data b (pi_first h)\<rparr>
      else if p = 0xA0 then h\<lparr>pi_second := pic_command b (pi_second h)\<rparr>
      else if p = 0xA1 then h\<lparr>pi_second := pic_data b (pi_second h)\<rparr>
      else h)"

text \<open>The vector that a raised line delivers, if the controllers let it through.\<close>

definition pic_deliver :: "nat \<Rightarrow> pics \<Rightarrow> (u8 \<times> pics) option" where
  "pic_deliver n h =
     (if n < 8 then
        if pic_grants n (pi_first h)
        then Some (pc_base (pi_first h) + of_nat n, h\<lparr>pi_first := pic_take n (pi_first h)\<rparr>) else None
      else
        if pic_grants (n - 8) (pi_second h) \<and> pic_grants 2 (pi_first h)
          \<and> bit (pc_cascade (pi_first h)) 2 \<and> pc_cascade (pi_second h) AND 7 = 2
        then Some (pc_base (pi_second h) + of_nat (n - 8),
          h\<lparr>pi_first := pic_take 2 (pi_first h), pi_second := pic_take (n - 8) (pi_second h)\<rparr>)
        else None)"

text \<open>A line is raised and its interrupt handled; \<open>None\<close> is a line that does not get through.\<close>

definition serve_irq :: "pics machine \<Rightarrow> nat \<Rightarrow> pics driver \<Rightarrow> (nat \<times> pics driver) option" where
  "serve_irq M n d = do {
     (v, h) \<leftarrow> pic_deliver n (mach d);
     d \<leftarrow> common_handler M (irq_regs (ucast v)) (d\<lparr>mach := h\<rparr>);
     Some (unat v, d)
   }"

fun serve_irqs :: "pics machine \<Rightarrow> nat list \<Rightarrow> pics driver \<Rightarrow> (nat list \<times> pics driver) option" where
  "serve_irqs M [] d = Some ([], d)"
| "serve_irqs M (n # ns) d = do {
     (v, d) \<leftarrow> serve_irq M n d;
     (vs, d) \<leftarrow> serve_irqs M ns d;
     Some (v # vs, d)
   }"

section \<open>After \<open>pic_remap\<close>\<close>

definition no_service :: "pics \<Rightarrow> bool" where
  "no_service h \<longleftrightarrow> pc_service (pi_first h) = 0 \<and> pc_service (pi_second h) = 0"

text \<open>Both controllers ready, vectors from 32 and from 40, no line masked and none in service.\<close>

definition remapped :: pics where
  "remapped = \<lparr>
     pi_first = \<lparr>pc_next = 0, pc_first = 0x11, pc_base = 0x20, pc_cascade = 0x04, pc_auto = False,
       pc_mask = 0, pc_service = 0\<rparr>,
     pi_second = \<lparr>pc_next = 0, pc_first = 0x11, pc_base = 0x28, pc_cascade = 0x02, pc_auto = False,
       pc_mask = 0, pc_service = 0\<rparr>\<rparr>"

lemma mach_pic_remap:
  assumes "p_outb (m_ports M) = pic_out" and "no_service (mach d)"
  shows "mach (pic_remap M d) = remapped"
proof -
  have "bit (0x11 :: u8) 4" "bit (0x11 :: u8) 0" "\<not> bit (0x11 :: u8) 1" "\<not> bit (1 :: u8) 1"
    by (simp_all add: bit_iff_odd)
  with assms show ?thesis
    by (simp add: pic_remap_def out_port_def port_delay_def io_wait_def pic_out_def pic_command_def
        pic_data_def no_service_def remapped_def)
qed

section \<open>One interrupt\<close>

lemma end_of_line: "n < 8 \<Longrightarrow> (set_bit n 0 :: u8) AND (set_bit n 0 - 1) = 0"
  by (auto simp: less_Suc_eq numeral_eq_Suc)

lemma vector_small:
  assumes "n < 16"
  shows "unat (of_nat (32 + n) :: u8) = 32 + n" and "unat (of_nat (32 + n) :: u32) = 32 + n"
  unfolding unsigned_of_nat using assms by (simp_all only: of_nat_id) (intro take_bit_nat_eq_self; simp)+

text \<open>A line is let through, and the end of the interrupt leaves both controllers as they were.\<close>

lemma deliver_and_end:
  assumes "p_outb (m_ports M) = pic_out" and "n < 16" and "n \<noteq> 2"
  obtains h where "pic_deliver n remapped = Some (of_nat (32 + n), h)" and "send_eoi M (of_nat (32 + n)) h = remapped"
proof (cases "n < 8")
  case True
  let ?h = "remapped\<lparr>pi_first := pic_take n (pi_first remapped)\<rparr>"
  have "(of_nat (32 + n) :: u8) = 0x20 + of_nat n" by simp
  then have "pic_deliver n remapped = Some (of_nat (32 + n), ?h)"
    using True by (simp add: pic_deliver_def pic_grants_def remapped_def list_all_iff)
  moreover note vector_small(2) [OF assms(2)]
  then have "(of_nat (32 + n) :: u32) < 40" using True by (simp only: word_less_nat_alt) simp
  then have "send_eoi M (of_nat (32 + n)) ?h = remapped"
    using True assms(1) end_of_line [of n]
    by (simp add: send_eoi_def pic_out_def pic_command_def pic_take_def remapped_def bit_iff_odd)
  ultimately show thesis by (rule that)
next
  case False
  let ?h = "remapped\<lparr>pi_first := pic_take 2 (pi_first remapped), pi_second := pic_take (n - 8) (pi_second remapped)\<rparr>"
  have "(of_nat (32 + n) :: u8) = of_nat (40 + (n - 8))" using False by simp
  then have vector: "(of_nat (32 + n) :: u8) = 0x28 + of_nat (n - 8)" by (simp only: of_nat_add) simp
  have "bit (4 :: u8) 2" by (simp add: bit_iff_odd)
  then have "pic_deliver n remapped = Some (of_nat (32 + n), ?h)"
    unfolding vector using False by (simp add: pic_deliver_def pic_grants_def remapped_def list_all_iff)
  moreover note vector_small(2) [OF assms(2)]
  then have "\<not> (of_nat (32 + n) :: u32) < 40" "(of_nat (32 + n) :: u32) < 48"
    using False assms(2) by (simp_all only: word_less_nat_alt) simp_all
  then have "send_eoi M (of_nat (32 + n)) ?h = remapped"
    using False assms(1,2) end_of_line [of 2] end_of_line [of "n - 8"]
    by (simp add: send_eoi_def pic_out_def pic_command_def pic_take_def remapped_def bit_iff_odd)
  ultimately show thesis by (rule that)
qed

lemma serve_irq_remapped:
  assumes "p_outb (m_ports M) = pic_out" and "n < 16" and "n \<noteq> 2" and "mach d = remapped"
  obtains d' where "serve_irq M n d = Some (32 + n, d')" and "mach d' = remapped" and "handlers d' = handlers d"
    and "idt d' = idt d"
    and "timer_ticks d' = timer_ticks d + (if handlers d ! (32 + n) = Some Timer_callback then 1 else 0)"
    and "fdc_irq_fired d' \<longleftrightarrow> fdc_irq_fired d \<or> handlers d ! (32 + n) = Some Fdc_irq_handler"
proof -
  obtain h where h: "pic_deliver n remapped = Some (of_nat (32 + n), h)" "send_eoi M (of_nat (32 + n)) h = remapped"
    by (rule deliver_and_end [OF assms(1-3)])
  note small = vector_small [OF assms(2)]
  have vector: "(ucast (of_nat (32 + n) :: u8) :: u32) = of_nat (32 + n)"
    using of_nat_unat [of "of_nat (32 + n) :: u8", where 'a = u32] unfolding small(1) by (rule sym)
  let ?r = "irq_regs (of_nat (32 + n))"
  have "32 \<le> int_no ?r" "int_no ?r < 48"
    using small(2) assms(2) by (simp_all only: int_no_irq_regs word_le_nat_alt word_less_nat_alt) simp_all
  moreover obtain d' where d': "common_handler M ?r (d\<lparr>mach := h\<rparr>) = Some d'"
    "after_interrupt ?r (d\<lparr>mach := h\<rparr>) d'" "mach d' = send_eoi M (of_nat (32 + n)) h"
    using common_handler_irq [of ?r M "d\<lparr>mach := h\<rparr>"] calculation(1) by auto
  moreover have "unat (int_no ?r) = 32 + n" unfolding int_no_irq_regs by (rule small(2))
  ultimately have "timer_ticks d' = timer_ticks d + (if handlers d ! (32 + n) = Some Timer_callback then 1 else 0)"
    "fdc_irq_fired d' \<longleftrightarrow> fdc_irq_fired d \<or> handlers d ! (32 + n) = Some Fdc_irq_handler"
    "handlers d' = handlers d" "idt d' = idt d"
    by (auto simp: after_interrupt_def split: if_splits)
  moreover have "serve_irq M n d = Some (32 + n, d')"
    unfolding serve_irq_def assms(4) h(1) Option.bind_lunit prod.case vector d'(1) small(1) ..
  moreover have "mach d' = remapped" using d'(3) h(2) by simp
  ultimately show thesis by (intro that)
qed

section \<open>Any sequence of interrupts\<close>

lemma serve_irqs_remapped:
  assumes "p_outb (m_ports M) = pic_out"
  shows "mach d = remapped \<Longrightarrow> list_all (\<lambda>n. n < 16 \<and> n \<noteq> 2) ns \<Longrightarrow>
    \<exists>d'. serve_irqs M ns d = Some (map ((+) 32) ns, d') \<and> mach d' = remapped
      \<and> handlers d' = handlers d \<and> idt d' = idt d
      \<and> timer_ticks d' = timer_ticks d + of_nat (length (filter (\<lambda>n. handlers d ! (32 + n) = Some Timer_callback) ns))
      \<and> (fdc_irq_fired d' \<longleftrightarrow> fdc_irq_fired d \<or> list_ex (\<lambda>n. handlers d ! (32 + n) = Some Fdc_irq_handler) ns)"
proof (induction ns arbitrary: d)
  case (Cons n ns)
  have n: "n < 16" "n \<noteq> 2" using Cons.prems(2) by simp_all
  obtain e where e: "serve_irq M n d = Some (32 + n, e)" "mach e = remapped" "handlers e = handlers d" "idt e = idt d"
    "timer_ticks e = timer_ticks d + (if handlers d ! (32 + n) = Some Timer_callback then 1 else 0)"
    "fdc_irq_fired e \<longleftrightarrow> fdc_irq_fired d \<or> handlers d ! (32 + n) = Some Fdc_irq_handler"
    by (rule serve_irq_remapped [OF assms n Cons.prems(1)])
  obtain d' where "serve_irqs M ns e = Some (map ((+) 32) ns, d')" "mach d' = remapped" "handlers d' = handlers e"
    "idt d' = idt e"
    "timer_ticks d' = timer_ticks e + of_nat (length (filter (\<lambda>n. handlers e ! (32 + n) = Some Timer_callback) ns))"
    "fdc_irq_fired d' \<longleftrightarrow> fdc_irq_fired e \<or> list_ex (\<lambda>n. handlers e ! (32 + n) = Some Fdc_irq_handler) ns"
    using Cons.IH [OF e(2)] Cons.prems(2) by auto
  with e show ?case by (auto simp: algebra_simps)
qed simp

text \<open>
  The start of the kernel as far as interrupts go: the tables and controllers, the handler of the clock
  and that of the floppy controller.
\<close>

definition install_interrupts :: "'h machine \<Rightarrow> symbols \<Rightarrow> 'h driver \<Rightarrow> 'h driver option" where
  "install_interrupts M syms d = do {
     d \<leftarrow> timer_init M 1000 (idt_init M syms d);
     irq_install_handler 6 Fdc_irq_handler d
   }"

lemma fold_keeps: "(\<And>x d. g (f x d) = g d) \<Longrightarrow> g (fold f xs d) = g d"
  by (induction xs arbitrary: d) simp_all

lemma idt_init_counters [simp]:
  "timer_ticks (idt_init M syms d) = timer_ticks d" "fdc_irq_fired (idt_init M syms d) = fdc_irq_fired d"
  by (simp_all add: idt_init_def Let_def idt_set_gate_def pic_remap_def out_port_def port_delay_def
      fold_keeps [where g = timer_ticks] fold_keeps [where g = fdc_irq_fired])

lemma install_interrupts_effect:
  assumes "p_outb (m_ports M) = pic_out" and "no_service (mach d)"
    and "length (idt d) = 256" and "length (handlers d) = 256"
  shows "\<exists>d'. install_interrupts M syms d = Some d' \<and> mach d' = remapped
    \<and> handlers d' = (replicate 256 None)[32 := Some Timer_callback, 38 := Some Fdc_irq_handler]
    \<and> idt d' = map (expected_gate syms) [0..<256]
    \<and> timer_ticks d' = timer_ticks d \<and> fdc_irq_fired d' = fdc_irq_fired d"
  using idt_init_effect [OF assms(3,4), of M syms] mach_pic_remap [OF assms(1,2)] assms(1)
  by (simp add: install_interrupts_def timer_init_def irq_install_handler_def out_port_def pic_out_def Let_def)

text \<open>Of the 16 lines only 0 has the clock and only 6 the floppy controller.\<close>

lemma started_handlers:
  assumes "n < 16"
  defines "hs \<equiv> (replicate 256 None)[32 := Some Timer_callback, 38 := Some Fdc_irq_handler]"
  shows "hs ! (32 + n) = Some Timer_callback \<longleftrightarrow> n = 0" and "hs ! (32 + n) = Some Fdc_irq_handler \<longleftrightarrow> n = 6"
  using assms(1) by (auto simp: hs_def nth_list_update)

lemma started_interrupts:
  assumes "p_outb (m_ports M) = pic_out" and "no_service (mach d)"
    and "length (idt d) = 256" and "length (handlers d) = 256" and "list_all (\<lambda>n. n < 16 \<and> n \<noteq> 2) ns"
  shows "\<exists>d1 d'. install_interrupts M syms d = Some d1 \<and> serve_irqs M ns d1 = Some (map ((+) 32) ns, d')
    \<and> map (\<lambda>v. gate_base (idt d' ! v)) (map ((+) 32) ns) = map (sym_irq syms) ns
    \<and> no_service (mach d') \<and> timer_ticks d' = timer_ticks d + of_nat (count_list ns 0)
    \<and> (fdc_irq_fired d' \<longleftrightarrow> fdc_irq_fired d \<or> 6 \<in> set ns)"
proof -
  obtain d1 where d1: "install_interrupts M syms d = Some d1" "mach d1 = remapped"
    "handlers d1 = (replicate 256 None)[32 := Some Timer_callback, 38 := Some Fdc_irq_handler]"
    "idt d1 = map (expected_gate syms) [0..<256]" "timer_ticks d1 = timer_ticks d" "fdc_irq_fired d1 = fdc_irq_fired d"
    using install_interrupts_effect [OF assms(1-4), of syms] by blast
  have lines: "\<forall>n \<in> set ns. n < 16 \<and> n \<noteq> 2" using assms(5) by (simp add: list_all_iff)
  have "filter (\<lambda>n. handlers d1 ! (32 + n) = Some Timer_callback) ns = filter (\<lambda>n. 0 = n) ns"
    using lines by (intro filter_cong) (simp_all add: d1(3) started_handlers)
  then have ticks: "length (filter (\<lambda>n. handlers d1 ! (32 + n) = Some Timer_callback) ns) = count_list ns 0"
    by (simp only: count_list_eq_length_filter)
  have flag: "list_ex (\<lambda>n. handlers d1 ! (32 + n) = Some Fdc_irq_handler) ns \<longleftrightarrow> 6 \<in> set ns"
    using lines by (auto simp: list_ex_iff d1(3) started_handlers)
  have gates: "map (\<lambda>v. gate_base (idt d1 ! v)) (map ((+) 32) ns) = map (sym_irq syms) ns"
    using lines by (auto simp: d1(4) expected_gate_def)
  show ?thesis
    using serve_irqs_remapped [OF assms(1) d1(2) assms(5)] d1(1,5,6) gates unfolding ticks flag
    by (auto simp: remapped_def no_service_def)
qed

end
