(* ===== verification/Demo_Calls.thy ===== *)
theory Demo_Calls
  imports Demo_Machine Demo_Dirs Sessions Config_Tools Colors Pic
begin

text \<open>
  Concrete runs for the witnesses: a kernel on the floppy driver, a configuration of the build, and
  a firmware whose state is what it printed and what its next polls find.
\<close>

section \<open>The kernel\<close>

definition demo_running :: "(controller driver, unit) kernel" where
  "demo_running = demo_cold_kernel\<lparr>kheap := demo_heap\<rparr>"

lemma demo_running_ok: "kernel_ok (\<lambda>_. True) demo_running demo_running"
proof -
  have "heap_ok demo_heap" using demo_heap_inv by (auto simp: heap_ok_def)
  then show ?thesis
    using demo_ring demo_console
    by (simp add: kernel_ok_def demo_running_def demo_cold_kernel_def typed_def with_dev_def ring_ok_def
        MAX_OPEN_FILES_def demo_def unused_file_def)
qed

lemma demo_fresh: "fresh_kernel demo_cold_kernel"
  using demo_running_ok
  by (simp add: fresh_kernel_def kernel_ok_def demo_running_def demo_cold_kernel_def demo_ram_def)

lemma demo_running_heap: "kheap demo_running = demo_heap"
  by (simp add: demo_running_def)

lemma demo_alloc:
  "\<exists>(p :: u32) h. syscall_handler demo_ports F 15 [Word 100] demo_running = Some (Status (sint p), demo_running\<lparr>kheap := h\<rparr>)
    \<and> p \<noteq> 0"
proof -
  have "ALIGN 116 = 128" by code_simp
  then obtain p h where p: "kmalloc 100 demo_heap = Some (p, h)" "p \<noteq> 0"
    using kmalloc_some [OF demo_heap_inv, of 100] demo_heap_size by auto
  have "syscall_handler demo_ports F 15 [Word 100] demo_running = run_syscall demo_ports F (Alloc 100) demo_running"
    using syscall_handler_id [of demo_ports F Sys_alloc "[Word 100]" demo_running] by simp
  also have "\<dots> = Some (Status (sint p), demo_running\<lparr>kheap := h\<rparr>)"
    using p(1) by (simp add: giving_def sys_alloc_def demo_running_heap)
  finally show ?thesis using p(2) by (intro exI conjI)
qed

section \<open>Interrupt controllers\<close>

definition demo_pic_machine :: "pics machine" where
  "demo_pic_machine = \<lparr>m_ports = \<lparr>p_inb = (\<lambda>p h. (0, h)), p_outb = pic_out\<rparr>, m_poll = (\<lambda>h. (None, h)),
     m_hlt = (\<lambda>h. None), m_load_dma = (\<lambda>h. []), m_store_dma = (\<lambda>b h. h)\<rparr>"

definition demo_pics :: pics where
  "demo_pics = \<lparr>
     pi_first = \<lparr>pc_next = 0, pc_first = 0, pc_base = 8, pc_cascade = 0, pc_auto = False, pc_mask = 0xB8, pc_service = 0\<rparr>,
     pi_second = \<lparr>pc_next = 0, pc_first = 0, pc_base = 0x70, pc_cascade = 0, pc_auto = False, pc_mask = 0x8F, pc_service = 0\<rparr>\<rparr>"

lemma demo_pic_out: "p_outb (m_ports demo_pic_machine) = pic_out"
  by (simp add: demo_pic_machine_def)

lemma demo_no_service: "no_service (mach (demo_driver_on demo_pics))"
  by (simp add: no_service_def demo_pics_def)

section \<open>A configuration\<close>

definition demo_config :: bytes where
  "demo_config = chars ''# Kernel'' @ [0x0A] @ chars ''A=y'' @ [0x0D, 0x0A, 0x20, 0x0A] @ chars ''B=C=D''"

lemma demo_config_settings:
  "settings demo_config = [(chars ''A'', chars ''y''), (chars ''B'', chars ''C=D'')]"
  by code_simp

lemma demo_config_ok: "fitting_lines demo_config" "plain_names demo_config"
  by code_simp+

section \<open>A firmware\<close>

definition demo_firmware :: "(bytes \<times> u8 option list) firmware" where
  "demo_firmware regs m =
     (case m of (printed, pending) \<Rightarrow>
        if regs ! 7 = 1 then ((0, 0), (printed @ [ucast (regs ! 0)], pending))
        else if regs ! 7 = 2 then
          (case pending of
             [] \<Rightarrow> ((- 1, 0), m)
           | p # ps \<Rightarrow> ((case p of None \<Rightarrow> - 1 | Some c \<Rightarrow> ucast c, 0), (printed, ps)))
        else ((- 2, 0), m))"

lemma demo_firmware_console: "sbi_console demo_firmware fst snd"
  by (auto simp: sbi_console_def demo_firmware_def ucast_up_ucast_id is_up split: prod.split)

end
