(* ===== verification/Printf.thy ===== *)
theory Printf
  imports Renderer
begin

text \<open>
  The formatted output of \<open>third-party/printf.c\<close>, as the \<open>Makefile\<close> builds it for i386: without
  floating point and without \<open>long long\<close>. A format is given by the bytes of its object, and reading
  behind them has no result. An argument is a word of the stack or a pointer to a string. The
  output function is a parameter \<open>out\<close> as in the code, on an abstract state.
\<close>

section \<open>Flags, arguments and output functions\<close>

text \<open>The flags are bits of an \<open>unsigned int\<close>; each constant is the number of its bit.\<close>

definition FLAGS_ZEROPAD :: nat where "FLAGS_ZEROPAD = 0"
definition FLAGS_LEFT :: nat where "FLAGS_LEFT = 1"
definition FLAGS_PLUS :: nat where "FLAGS_PLUS = 2"
definition FLAGS_SPACE :: nat where "FLAGS_SPACE = 3"
definition FLAGS_HASH :: nat where "FLAGS_HASH = 4"
definition FLAGS_UPPERCASE :: nat where "FLAGS_UPPERCASE = 5"
definition FLAGS_CHAR :: nat where "FLAGS_CHAR = 6"
definition FLAGS_SHORT :: nat where "FLAGS_SHORT = 7"
definition FLAGS_LONG :: nat where "FLAGS_LONG = 8"
definition FLAGS_LONG_LONG :: nat where "FLAGS_LONG_LONG = 9"
definition FLAGS_PRECISION :: nat where "FLAGS_PRECISION = 10"

lemmas flag_defs = FLAGS_ZEROPAD_def FLAGS_LEFT_def FLAGS_PLUS_def FLAGS_SPACE_def FLAGS_HASH_def
  FLAGS_UPPERCASE_def FLAGS_CHAR_def FLAGS_SHORT_def FLAGS_LONG_def FLAGS_LONG_LONG_def FLAGS_PRECISION_def

definition PRINTF_NTOA_BUFFER_SIZE :: nat where
  "PRINTF_NTOA_BUFFER_SIZE = 32"

datatype va_arg = Va_word u32 | Va_string bytes

fun va_word :: "va_arg list \<Rightarrow> (u32 \<times> va_arg list) option" where
  "va_word (Va_word w # va) = Some (w, va)"
| "va_word _ = None"

fun va_string :: "va_arg list \<Rightarrow> (bytes \<times> va_arg list) option" where
  "va_string (Va_string p # va) = Some (p, va)"
| "va_string _ = None"

type_synonym 's out_fct = "u8 \<Rightarrow> u32 \<Rightarrow> u32 \<Rightarrow> 's \<Rightarrow> 's option"

definition out_buffer :: "bytes out_fct" where
  "out_buffer character idx maxlen buffer =
     (if idx < maxlen
      then if unat idx < length buffer then Some (buffer[unat idx := character]) else None
      else Some buffer)"

definition out_null :: "'s out_fct" where
  "out_null character idx maxlen s = Some s"

definition out_char :: "(u8 \<Rightarrow> 's \<Rightarrow> 's option) \<Rightarrow> 's out_fct" where
  "out_char putchar character idx maxlen s = (if character \<noteq> 0 then putchar character s else Some s)"

definition out_fct_wrap :: "(u8 \<Rightarrow> 's \<Rightarrow> 's option) \<Rightarrow> 's out_fct" where
  "out_fct_wrap fct character idx maxlen s = (if character \<noteq> 0 then fct character s else Some s)"

text \<open>Several characters at consecutive places, \<open>out(c, buffer, idx++, maxlen)\<close> in a loop.\<close>

fun out_bytes :: "'s out_fct \<Rightarrow> u32 \<Rightarrow> bytes \<Rightarrow> u32 \<Rightarrow> 's \<Rightarrow> (u32 \<times> 's) option" where
  "out_bytes out maxlen [] idx s = Some (idx, s)"
| "out_bytes out maxlen (c # cs) idx s = do {
     s \<leftarrow> out c idx maxlen s;
     out_bytes out maxlen cs (idx + 1) s
   }"

definition spaces :: "nat \<Rightarrow> bytes" where
  "spaces n = replicate n 0x20"

section \<open>Reading strings and numbers\<close>

text \<open>The loop reads a character before it looks at \<open>maxsize\<close>.\<close>

fun strnlen_s :: "bytes \<Rightarrow> u32 \<Rightarrow> nat option" where
  "strnlen_s [] maxsize = None"
| "strnlen_s (c # s) maxsize =
     (if c = 0 \<or> maxsize = 0 then Some 0 else map_option Suc (strnlen_s s (maxsize - 1)))"

definition is_digit_char :: "u8 \<Rightarrow> bool" where
  "is_digit_char ch \<longleftrightarrow> 0x30 \<le> ch \<and> ch \<le> 0x39"

fun printf_atoi :: "bytes \<Rightarrow> u32 \<Rightarrow> (u32 \<times> bytes) option" where
  "printf_atoi [] i = None"
| "printf_atoi (c # str) i =
     (if is_digit_char c then printf_atoi str (i * 10 + ucast (c - 0x30)) else Some (i, c # str))"

section \<open>Integers\<close>

text \<open>
  The conversion buffer \<open>buf\<close> with its length \<open>len\<close> is the list of its first \<open>len\<close> characters, the
  last digit first; every store is at \<open>len\<close>, and \<open>len--\<close> drops the last character.
\<close>

text \<open>The padding loops count from the number of characters there to \<open>width\<close>.\<close>

definition out_rev ::
    "'s out_fct \<Rightarrow> u32 \<Rightarrow> bytes \<Rightarrow> u32 \<Rightarrow> u32 \<Rightarrow> u32 \<Rightarrow> 's \<Rightarrow> (u32 \<times> 's) option" where
  "out_rev out maxlen buf width flags start_idx s = do {
     (idx, s) \<leftarrow> (if \<not> bit flags FLAGS_LEFT \<and> \<not> bit flags FLAGS_ZEROPAD
       then out_bytes out maxlen (spaces (unat width - length buf)) start_idx s else Some (start_idx, s));
     (idx, s) \<leftarrow> out_bytes out maxlen (rev buf) idx s;
     (if bit flags FLAGS_LEFT
      then out_bytes out maxlen (spaces (unat width - unat (idx - start_idx))) idx s else Some (idx, s))
   }"

text \<open>The loops that append \<open>'0'\<close> up to a length.\<close>

function push_zeros :: "nat \<Rightarrow> bytes \<Rightarrow> bytes" where
  "push_zeros n buf =
     (if length buf < n \<and> length buf < PRINTF_NTOA_BUFFER_SIZE then push_zeros n (buf @ [0x30]) else buf)"
  by pat_completeness auto
termination
  by (relation "measure (\<lambda>(n, buf). PRINTF_NTOA_BUFFER_SIZE - length buf)") (auto simp: PRINTF_NTOA_BUFFER_SIZE_def)

declare push_zeros.simps [simp del]

text \<open>A store \<open>buf[len++] = c\<close> behind the test of \<open>len\<close>.\<close>

definition push_char :: "u8 \<Rightarrow> bytes \<Rightarrow> bytes" where
  "push_char c buf = (if length buf < PRINTF_NTOA_BUFFER_SIZE then buf @ [c] else buf)"

definition hash_prefix :: "bytes \<Rightarrow> u32 \<Rightarrow> u32 \<Rightarrow> u32 \<Rightarrow> u32 \<Rightarrow> bytes" where
  "hash_prefix buf base prec width flags =
     (let buf = (if \<not> bit flags FLAGS_PRECISION \<and> buf \<noteq> [] \<and> (length buf = unat prec \<or> length buf = unat width)
                 then let buf = butlast buf in if buf \<noteq> [] \<and> base = 16 then butlast buf else buf
                 else buf);
          buf = (if base = 16 \<and> \<not> bit flags FLAGS_UPPERCASE \<and> length buf < PRINTF_NTOA_BUFFER_SIZE
                 then push_char 0x78 buf
                 else if base = 16 \<and> bit flags FLAGS_UPPERCASE \<and> length buf < PRINTF_NTOA_BUFFER_SIZE
                 then push_char 0x58 buf
                 else if base = 2 then push_char 0x62 buf
                 else buf)
      in push_char 0x30 buf)"

definition push_sign :: "bool \<Rightarrow> u32 \<Rightarrow> bytes \<Rightarrow> bytes" where
  "push_sign negative flags buf =
     (if negative then push_char 0x2D buf
      else if bit flags FLAGS_PLUS then push_char 0x2B buf
      else if bit flags FLAGS_SPACE then push_char 0x20 buf
      else buf)"

definition ntoa_format ::
    "'s out_fct \<Rightarrow> u32 \<Rightarrow> bytes \<Rightarrow> bool \<Rightarrow> u32 \<Rightarrow> u32 \<Rightarrow> u32 \<Rightarrow> u32 \<Rightarrow> u32 \<Rightarrow> 's \<Rightarrow> (u32 \<times> 's) option" where
  "ntoa_format out maxlen buf negative base prec width flags idx s =
     (let width = (if \<not> bit flags FLAGS_LEFT \<and> width \<noteq> 0 \<and> bit flags FLAGS_ZEROPAD
                      \<and> (negative \<or> bit flags FLAGS_PLUS \<or> bit flags FLAGS_SPACE) then width - 1 else width);
          buf = (if \<not> bit flags FLAGS_LEFT then push_zeros (unat prec) buf else buf);
          buf = (if \<not> bit flags FLAGS_LEFT \<and> bit flags FLAGS_ZEROPAD then push_zeros (unat width) buf else buf);
          buf = (if bit flags FLAGS_HASH then hash_prefix buf base prec width flags else buf);
          buf = push_sign negative flags buf
      in out_rev out maxlen buf width flags idx s)"

definition digit_char :: "u32 \<Rightarrow> u32 \<Rightarrow> u8" where
  "digit_char flags digit =
     (if digit < 10 then 0x30 + ucast digit
      else (if bit flags FLAGS_UPPERCASE then 0x41 else 0x61) + ucast digit - 10)"

text \<open>The loop \<open>do ... while\<close> over the digits; the length is less than 32 at its start.\<close>

function push_digits :: "u32 \<Rightarrow> u32 \<Rightarrow> u32 \<Rightarrow> bytes \<Rightarrow> bytes" where
  "push_digits flags base value buf =
     (let buf = buf @ [digit_char flags (value mod base)];
          value = value div base
      in if value \<noteq> 0 \<and> length buf < PRINTF_NTOA_BUFFER_SIZE then push_digits flags base value buf else buf)"
  by pat_completeness auto
termination
  by (relation "measure (\<lambda>(flags, base, value, buf). PRINTF_NTOA_BUFFER_SIZE - length buf)")
    (auto simp: PRINTF_NTOA_BUFFER_SIZE_def)

declare push_digits.simps [simp del]

definition ntoa_long ::
    "'s out_fct \<Rightarrow> u32 \<Rightarrow> u32 \<Rightarrow> bool \<Rightarrow> u32 \<Rightarrow> u32 \<Rightarrow> u32 \<Rightarrow> u32 \<Rightarrow> u32 \<Rightarrow> 's \<Rightarrow> (u32 \<times> 's) option" where
  "ntoa_long out maxlen value negative base prec width flags idx s =
     (let flags = (if value = 0 then unset_bit FLAGS_HASH flags else flags);
          buf = (if \<not> bit flags FLAGS_PRECISION \<or> value \<noteq> 0 then push_digits flags base value [] else [])
      in ntoa_format out maxlen buf negative base prec width flags idx s)"

section \<open>The directives\<close>

fun parse_flags :: "bytes \<Rightarrow> u32 \<Rightarrow> (u32 \<times> bytes) option" where
  "parse_flags [] flags = None"
| "parse_flags (c # format) flags =
     (if c = 0x30 then parse_flags format (set_bit FLAGS_ZEROPAD flags)
      else if c = 0x2D then parse_flags format (set_bit FLAGS_LEFT flags)
      else if c = 0x2B then parse_flags format (set_bit FLAGS_PLUS flags)
      else if c = 0x20 then parse_flags format (set_bit FLAGS_SPACE flags)
      else if c = 0x23 then parse_flags format (set_bit FLAGS_HASH flags)
      else Some (flags, c # format))"

text \<open>An \<open>int\<close> argument that gives the width: \<open>-w\<close> overflows for the least one.\<close>

definition parse_width ::
    "bytes \<Rightarrow> va_arg list \<Rightarrow> u32 \<Rightarrow> (u32 \<times> u32 \<times> bytes \<times> va_arg list) option" where
  "parse_width format va flags =
     (case format of
        [] \<Rightarrow> None
      | c # cs \<Rightarrow>
          if is_digit_char c then do {
            (width, format) \<leftarrow> printf_atoi format 0;
            Some (width, flags, format, va)
          } else if c = 0x2A then do {
            (a, va) \<leftarrow> va_word va;
            let w = sint a;
            (if w < 0 then do {
               w \<leftarrow> cint (- w);
               Some (word_of_int w, set_bit FLAGS_LEFT flags, cs, va)
             } else Some (word_of_int w, flags, cs, va))
          } else Some (0, flags, format, va))"

definition parse_precision ::
    "bytes \<Rightarrow> va_arg list \<Rightarrow> u32 \<Rightarrow> (u32 \<times> u32 \<times> bytes \<times> va_arg list) option" where
  "parse_precision format va flags =
     (case format of
        [] \<Rightarrow> None
      | c # cs \<Rightarrow>
          if c = 0x2E then
            let flags = set_bit FLAGS_PRECISION flags in
            (case cs of
               [] \<Rightarrow> None
             | c' # cs' \<Rightarrow>
                 if is_digit_char c' then do {
                   (precision, format) \<leftarrow> printf_atoi cs 0;
                   Some (precision, flags, format, va)
                 } else if c' = 0x2A then do {
                   (a, va) \<leftarrow> va_word va;
                   Some (if sint a > 0 then a else 0, flags, cs', va)
                 } else Some (0, flags, cs, va))
          else Some (0, flags, format, va))"

text \<open>\<open>ptrdiff_t\<close> and \<open>size_t\<close> have the size of a \<open>long\<close>, \<open>intmax_t\<close> has not.\<close>

definition parse_length :: "bytes \<Rightarrow> u32 \<Rightarrow> (u32 \<times> bytes) option" where
  "parse_length format flags =
     (case format of
        [] \<Rightarrow> None
      | c # cs \<Rightarrow>
          if c = 0x6C then
            let flags = set_bit FLAGS_LONG flags in
            (case cs of [] \<Rightarrow> None
             | c' # cs' \<Rightarrow> if c' = 0x6C then Some (set_bit FLAGS_LONG_LONG flags, cs') else Some (flags, cs))
          else if c = 0x68 then
            let flags = set_bit FLAGS_SHORT flags in
            (case cs of [] \<Rightarrow> None
             | c' # cs' \<Rightarrow> if c' = 0x68 then Some (set_bit FLAGS_CHAR flags, cs') else Some (flags, cs))
          else if c = 0x74 then Some (set_bit FLAGS_LONG flags, cs)
          else if c = 0x6A then Some (set_bit FLAGS_LONG_LONG flags, cs)
          else if c = 0x7A then Some (set_bit FLAGS_LONG flags, cs)
          else Some (flags, format))"

section \<open>The conversions\<close>

text \<open>The value of a signed argument after the conversion to its type.\<close>

definition signed_value :: "u32 \<Rightarrow> u32 \<Rightarrow> int" where
  "signed_value flags a =
     (if bit flags FLAGS_LONG then sint a
      else if bit flags FLAGS_CHAR then sint (ucast a :: u8)
      else if bit flags FLAGS_SHORT then sint (ucast a :: u16)
      else sint a)"

definition unsigned_value :: "u32 \<Rightarrow> u32 \<Rightarrow> u32" where
  "unsigned_value flags a =
     (if bit flags FLAGS_LONG then a
      else if bit flags FLAGS_CHAR then ucast (ucast a :: u8)
      else if bit flags FLAGS_SHORT then ucast (ucast a :: u16)
      else a)"

definition format_base :: "u8 \<Rightarrow> u32" where
  "format_base c = (if c = 0x78 \<or> c = 0x58 then 16 else if c = 0x6F then 8 else if c = 0x62 then 2 else 10)"

definition integer_flags :: "u8 \<Rightarrow> u32 \<Rightarrow> u32" where
  "integer_flags c flags =
     (let flags = (if format_base c = 10 then unset_bit FLAGS_HASH flags else flags);
          flags = (if c = 0x58 then set_bit FLAGS_UPPERCASE flags else flags);
          flags = (if c \<noteq> 0x69 \<and> c \<noteq> 0x64 then unset_bit FLAGS_PLUS (unset_bit FLAGS_SPACE flags) else flags)
      in if bit flags FLAGS_PRECISION then unset_bit FLAGS_ZEROPAD flags else flags)"

text \<open>Without \<open>long long\<close> a directive for it takes no argument and writes nothing.\<close>

definition convert_integer ::
    "'s out_fct \<Rightarrow> u32 \<Rightarrow> u8 \<Rightarrow> va_arg list \<Rightarrow> u32 \<Rightarrow> u32 \<Rightarrow> u32 \<Rightarrow> u32 \<Rightarrow> 's
      \<Rightarrow> (va_arg list \<times> u32 \<times> 's) option" where
  "convert_integer out maxlen c va precision width flags idx s =
     (let base = format_base c; flags = integer_flags c flags in
      if bit flags FLAGS_LONG_LONG then Some (va, idx, s)
      else if c = 0x69 \<or> c = 0x64 then do {
        (a, va) \<leftarrow> va_word va;
        let value = signed_value flags a;
        abs \<leftarrow> (if value > 0 then Some value else cint (0 - value));
        (idx, s) \<leftarrow> ntoa_long out maxlen (word_of_int abs) (value < 0) base precision width flags idx s;
        Some (va, idx, s)
      } else do {
        (a, va) \<leftarrow> va_word va;
        (idx, s) \<leftarrow> ntoa_long out maxlen (unsigned_value flags a) False base precision width flags idx s;
        Some (va, idx, s)
      })"

definition convert_char ::
    "'s out_fct \<Rightarrow> u32 \<Rightarrow> va_arg list \<Rightarrow> u32 \<Rightarrow> u32 \<Rightarrow> u32 \<Rightarrow> 's \<Rightarrow> (va_arg list \<times> u32 \<times> 's) option" where
  "convert_char out maxlen va width flags idx s = do {
     (idx, s) \<leftarrow> (if \<not> bit flags FLAGS_LEFT then out_bytes out maxlen (spaces (unat width - 1)) idx s
       else Some (idx, s));
     (a, va) \<leftarrow> va_word va;
     (idx, s) \<leftarrow> out_bytes out maxlen [ucast a] idx s;
     (idx, s) \<leftarrow> (if bit flags FLAGS_LEFT then out_bytes out maxlen (spaces (unat width - 1)) idx s
       else Some (idx, s));
     Some (va, idx, s)
   }"

text \<open>The characters a string is copied to: up to its end or up to the precision.\<close>

fun string_chars :: "bytes \<Rightarrow> nat option \<Rightarrow> bytes option" where
  "string_chars [] precision = None"
| "string_chars (c # p) precision =
     (if c = 0 \<or> precision = Some 0 then Some []
      else map_option ((#) c) (string_chars p (map_option (\<lambda>n. n - 1) precision)))"

definition convert_string ::
    "'s out_fct \<Rightarrow> u32 \<Rightarrow> va_arg list \<Rightarrow> u32 \<Rightarrow> u32 \<Rightarrow> u32 \<Rightarrow> u32 \<Rightarrow> 's
      \<Rightarrow> (va_arg list \<times> u32 \<times> 's) option" where
  "convert_string out maxlen va precision width flags idx s = do {
     (p, va) \<leftarrow> va_string va;
     n \<leftarrow> strnlen_s p (if precision \<noteq> 0 then precision else - 1);
     let l = unat (of_nat n :: u32);
     let l = (if bit flags FLAGS_PRECISION then (if l < unat precision then l else unat precision) else l);
     (idx, s) \<leftarrow> (if \<not> bit flags FLAGS_LEFT then out_bytes out maxlen (spaces (unat width - l)) idx s
       else Some (idx, s));
     chars \<leftarrow> string_chars p (if bit flags FLAGS_PRECISION then Some (unat precision) else None);
     (idx, s) \<leftarrow> out_bytes out maxlen chars idx s;
     (idx, s) \<leftarrow> (if bit flags FLAGS_LEFT then out_bytes out maxlen (spaces (unat width - l)) idx s
       else Some (idx, s));
     Some (va, idx, s)
   }"

text \<open>A pointer is printed as a word; the address of a string is not known.\<close>

definition convert_pointer ::
    "'s out_fct \<Rightarrow> u32 \<Rightarrow> va_arg list \<Rightarrow> u32 \<Rightarrow> u32 \<Rightarrow> u32 \<Rightarrow> 's \<Rightarrow> (va_arg list \<times> u32 \<times> 's) option" where
  "convert_pointer out maxlen va precision flags idx s = do {
     let flags = set_bit FLAGS_ZEROPAD (set_bit FLAGS_UPPERCASE flags);
     (a, va) \<leftarrow> va_word va;
     (idx, s) \<leftarrow> ntoa_long out maxlen a False 16 precision 8 flags idx s;
     Some (va, idx, s)
   }"

text \<open>One directive, behind its \<open>%\<close>.\<close>

definition directive ::
    "'s out_fct \<Rightarrow> u32 \<Rightarrow> bytes \<Rightarrow> va_arg list \<Rightarrow> u32 \<Rightarrow> 's \<Rightarrow> (bytes \<times> va_arg list \<times> u32 \<times> 's) option" where
  "directive out maxlen format va idx s = do {
     (flags, format) \<leftarrow> parse_flags format 0;
     (width, flags, format, va) \<leftarrow> parse_width format va flags;
     (precision, flags, format, va) \<leftarrow> parse_precision format va flags;
     (flags, format) \<leftarrow> parse_length format flags;
     (case format of
        [] \<Rightarrow> None
      | c # format \<Rightarrow> do {
          (va, idx, s) \<leftarrow>
            (if c \<in> {0x64, 0x69, 0x75, 0x78, 0x58, 0x6F, 0x62}
             then convert_integer out maxlen c va precision width flags idx s
             else if c = 0x63 then convert_char out maxlen va width flags idx s
             else if c = 0x73 then convert_string out maxlen va precision width flags idx s
             else if c = 0x70 then convert_pointer out maxlen va precision flags idx s
             else do {
               (idx, s) \<leftarrow> out_bytes out maxlen [c] idx s;
               Some (va, idx, s)
             });
          Some (format, va, idx, s)
        })
   }"

text \<open>A directive takes at least one character of the format.\<close>

lemma printf_atoi_shorter: "printf_atoi format i = Some (n, format') \<Longrightarrow> length format' \<le> length format"
  by (induction format i rule: printf_atoi.induct) (auto split: if_splits intro: le_SucI)

lemma parse_flags_shorter: "parse_flags format flags = Some (flags', format') \<Longrightarrow> length format' \<le> length format"
  by (induction format flags rule: parse_flags.induct) (auto split: if_splits intro: le_SucI)

lemma parse_width_shorter:
  assumes "parse_width format va flags = Some (width, flags', format', va')"
  shows "length format' \<le> length format"
  using assms printf_atoi_shorter [of format 0]
  by (auto simp: parse_width_def bind_eq_Some_conv Let_def
      simp del: printf_atoi.simps split: list.splits if_splits)

lemma parse_precision_shorter:
  assumes "parse_precision format va flags = Some (precision, flags', format', va')"
  shows "length format' \<le> length format"
  using assms printf_atoi_shorter [of "tl format" 0]
  by (auto simp: parse_precision_def bind_eq_Some_conv Let_def
      simp del: printf_atoi.simps split: list.splits if_splits)

lemma parse_length_shorter: "parse_length format flags = Some (flags', format') \<Longrightarrow> length format' \<le> length format"
  by (auto simp: parse_length_def Let_def split: list.splits if_splits)

lemma directive_shorter:
  assumes "directive out maxlen format va idx s = Some (format', va', idx', s')"
  shows "length format' < length format"
proof -
  obtain flags f1 where 1: "parse_flags format 0 = Some (flags, f1)"
    using assms by (auto simp: directive_def bind_eq_Some_conv)
  obtain width flags1 f2 va1 where 2: "parse_width f1 va flags = Some (width, flags1, f2, va1)"
    using assms by (auto simp: directive_def bind_eq_Some_conv 1)
  obtain precision flags2 f3 va2 where 3: "parse_precision f2 va1 flags1 = Some (precision, flags2, f3, va2)"
    using assms by (auto simp: directive_def bind_eq_Some_conv 1 2)
  obtain flags3 f4 where 4: "parse_length f3 flags2 = Some (flags3, f4)"
    using assms by (auto simp: directive_def bind_eq_Some_conv 1 2 3)
  have "\<exists>c. f4 = c # format'"
    using assms by (auto simp: directive_def bind_eq_Some_conv 1 2 3 4 split: list.splits)
  then show ?thesis
    using parse_flags_shorter [OF 1] parse_width_shorter [OF 2] parse_precision_shorter [OF 3]
      parse_length_shorter [OF 4] by auto
qed

text \<open>The loop over the format and the terminating character; the result is \<open>idx\<close>.\<close>

function vsnprintf_loop ::
    "'s out_fct \<Rightarrow> u32 \<Rightarrow> bytes \<Rightarrow> va_arg list \<Rightarrow> u32 \<Rightarrow> 's \<Rightarrow> (u32 \<times> 's) option" where
  "vsnprintf_loop out maxlen [] va idx s = None"
| "vsnprintf_loop out maxlen (c # format) va idx s =
     (if c = 0 then do {
        s \<leftarrow> out 0 (if idx < maxlen then idx else maxlen - 1) maxlen s;
        Some (idx, s)
      } else if c \<noteq> 0x25 then do {
        s \<leftarrow> out c idx maxlen s;
        vsnprintf_loop out maxlen format va (idx + 1) s
      } else
        case directive out maxlen format va idx s of
          None \<Rightarrow> None
        | Some (format', va', idx', s') \<Rightarrow> vsnprintf_loop out maxlen format' va' idx' s')"
  by pat_completeness auto
termination
  by (relation "measure (\<lambda>(out, maxlen, format, va, idx, s). length format)")
    (auto dest: directive_shorter)

text \<open>With a null pointer for the buffer nothing is written.\<close>

definition vsnprintf :: "'s out_fct \<Rightarrow> bool \<Rightarrow> u32 \<Rightarrow> bytes \<Rightarrow> va_arg list \<Rightarrow> 's \<Rightarrow> (int \<times> 's) option" where
  "vsnprintf out null maxlen format va s = do {
     (idx, s) \<leftarrow> vsnprintf_loop (if null then out_null else out) maxlen format va 0 s;
     Some (sint idx, s)
   }"

section \<open>The entry points\<close>

text \<open>\<open>printf_\<close> and \<open>vprintf_\<close>; \<open>putchar\<close> stands for \<open>_putchar\<close>.\<close>

definition printf :: "(u8 \<Rightarrow> 's \<Rightarrow> 's option) \<Rightarrow> bytes \<Rightarrow> va_arg list \<Rightarrow> 's \<Rightarrow> (int \<times> 's) option" where
  "printf putchar format va s = vsnprintf (out_char putchar) False (- 1) format va s"

definition sprintf :: "bytes \<Rightarrow> bytes \<Rightarrow> va_arg list \<Rightarrow> (int \<times> bytes) option" where
  "sprintf buffer format va = vsnprintf out_buffer False (- 1) format va buffer"

text \<open>\<open>snprintf_\<close> and \<open>vsnprintf_\<close>; \<open>None\<close> is the null pointer.\<close>

definition snprintf :: "bytes option \<Rightarrow> u32 \<Rightarrow> bytes \<Rightarrow> va_arg list \<Rightarrow> (int \<times> bytes option) option" where
  "snprintf buffer count format va =
     (case buffer of
        None \<Rightarrow> map_option (\<lambda>(n, _). (n, None)) (vsnprintf out_buffer True count format va [])
      | Some b \<Rightarrow> map_option (\<lambda>(n, b). (n, Some b)) (vsnprintf out_buffer False count format va b))"

definition fctprintf ::
    "(u8 \<Rightarrow> 's \<Rightarrow> 's option) \<Rightarrow> bytes \<Rightarrow> va_arg list \<Rightarrow> 's \<Rightarrow> (int \<times> 's) option" where
  "fctprintf out format va s = vsnprintf (out_fct_wrap out) False (- 1) format va s"

end
