(* ===== verification/Printf_Text.thy ===== *)
theory Printf_Text
  imports Printf
begin

text \<open>
  What \<open>third-party/printf.c\<close> writes, apart from where it writes it: a format and its arguments denote
  a text, and every output function gets the characters of this text at consecutive places, and then
  the terminator. For the buffer of \<open>snprintf_\<close> this is the contract of the function.
\<close>

section \<open>Output in sequence\<close>

lemma out_bytes_append:
  "out_bytes out maxlen (cs @ ds) idx s =
     Option.bind (out_bytes out maxlen cs idx s) (\<lambda>(idx, s). out_bytes out maxlen ds idx s)"
  by (induction cs arbitrary: idx s) (simp_all split: bind_split)

lemma out_bytes_index: "out_bytes out maxlen cs idx s = Some (idx', s') \<Longrightarrow> idx' = idx + of_nat (length cs)"
  by (induction cs arbitrary: idx s) (fastforce simp: bind_eq_Some_conv)+

text \<open>\<open>writes\<close>: the characters of a text are written, if there is one, and the rest of the result kept.\<close>

definition writes ::
    "'s out_fct \<Rightarrow> u32 \<Rightarrow> ('a \<times> bytes) option \<Rightarrow> u32 \<Rightarrow> 's \<Rightarrow> ('a \<times> u32 \<times> 's) option" where
  "writes out maxlen t idx s = do {
     (r, cs) \<leftarrow> t;
     (idx, s) \<leftarrow> out_bytes out maxlen cs idx s;
     Some (r, idx, s)
   }"

section \<open>The texts of the conversions\<close>

definition field :: "bytes \<Rightarrow> nat \<Rightarrow> nat \<Rightarrow> bool \<Rightarrow> bytes" where
  "field body n width left = (if left then body @ spaces (width - n) else spaces (width - n) @ body)"

definition rev_text :: "bytes \<Rightarrow> u32 \<Rightarrow> u32 \<Rightarrow> bytes" where
  "rev_text buf width flags =
     (if \<not> bit flags FLAGS_LEFT \<and> bit flags FLAGS_ZEROPAD then rev buf
      else field (rev buf) (length buf) (unat width) (bit flags FLAGS_LEFT))"

definition ntoa_width :: "bool \<Rightarrow> u32 \<Rightarrow> u32 \<Rightarrow> u32" where
  "ntoa_width negative width flags =
     (if \<not> bit flags FLAGS_LEFT \<and> width \<noteq> 0 \<and> bit flags FLAGS_ZEROPAD
         \<and> (negative \<or> bit flags FLAGS_PLUS \<or> bit flags FLAGS_SPACE) then width - 1 else width)"

definition ntoa_buf :: "bytes \<Rightarrow> bool \<Rightarrow> u32 \<Rightarrow> u32 \<Rightarrow> u32 \<Rightarrow> u32 \<Rightarrow> bytes" where
  "ntoa_buf buf negative base prec width flags =
     (let buf = (if \<not> bit flags FLAGS_LEFT then push_zeros (unat prec) buf else buf);
          buf = (if \<not> bit flags FLAGS_LEFT \<and> bit flags FLAGS_ZEROPAD then push_zeros (unat width) buf else buf);
          buf = (if bit flags FLAGS_HASH then hash_prefix buf base prec width flags else buf)
      in push_sign negative flags buf)"

definition ntoa_text :: "u32 \<Rightarrow> bool \<Rightarrow> u32 \<Rightarrow> u32 \<Rightarrow> u32 \<Rightarrow> u32 \<Rightarrow> bytes" where
  "ntoa_text value negative base prec width flags =
     (let flags = (if value = 0 then unset_bit FLAGS_HASH flags else flags);
          buf = (if \<not> bit flags FLAGS_PRECISION \<or> value \<noteq> 0 then push_digits flags base value [] else []);
          width = ntoa_width negative width flags
      in rev_text (ntoa_buf buf negative base prec width flags) width flags)"

text \<open>The conversion buffer is never overrun.\<close>

lemma push_zeros_eq: "push_zeros n buf = buf @ replicate (min n PRINTF_NTOA_BUFFER_SIZE - length buf) 0x30"
proof (induction n buf rule: push_zeros.induct)
  case (1 n buf)
  show ?case
  proof (cases "length buf < n \<and> length buf < PRINTF_NTOA_BUFFER_SIZE")
    case True
    then have "min n PRINTF_NTOA_BUFFER_SIZE - length buf = Suc (min n PRINTF_NTOA_BUFFER_SIZE - length (buf @ [0x30]))"
      by auto
    moreover have "push_zeros n buf = push_zeros n (buf @ [0x30])"
      using True by (simp add: push_zeros.simps [of n buf])
    ultimately show ?thesis using 1 [OF True] by simp
  next
    case False
    then show ?thesis by (auto simp: push_zeros.simps [of n buf] min_def)
  qed
qed

lemma push_digits_limit: "length buf < PRINTF_NTOA_BUFFER_SIZE \<Longrightarrow>
  length (push_digits flags base n buf) \<le> PRINTF_NTOA_BUFFER_SIZE"
proof (induction flags base n buf rule: push_digits.induct)
  case (1 flags base n buf)
  then show ?case by (subst push_digits.simps) (auto simp: Let_def)
qed

lemma push_char_limit [simp]:
  "length buf \<le> PRINTF_NTOA_BUFFER_SIZE \<Longrightarrow> length (push_char c buf) \<le> PRINTF_NTOA_BUFFER_SIZE"
  by (simp add: push_char_def)

lemma push_zeros_limit [simp]:
  "length buf \<le> PRINTF_NTOA_BUFFER_SIZE \<Longrightarrow> length (push_zeros n buf) \<le> PRINTF_NTOA_BUFFER_SIZE"
  by (simp add: push_zeros_eq)

lemma hash_prefix_limit [simp]:
  "length buf \<le> PRINTF_NTOA_BUFFER_SIZE \<Longrightarrow> length (hash_prefix buf base prec width flags) \<le> PRINTF_NTOA_BUFFER_SIZE"
  unfolding hash_prefix_def Let_def by (intro push_char_limit) auto

lemma ntoa_buf_limit:
  "length buf \<le> PRINTF_NTOA_BUFFER_SIZE \<Longrightarrow>
     length (ntoa_buf buf negative base prec width flags) \<le> PRINTF_NTOA_BUFFER_SIZE"
  by (simp add: ntoa_buf_def Let_def push_sign_def)

lemma out_rev_text:
  assumes "length buf \<le> PRINTF_NTOA_BUFFER_SIZE"
  shows "out_rev out maxlen buf width flags idx s = out_bytes out maxlen (rev_text buf width flags) idx s"
proof -
  have "unat (of_nat (length buf) :: u32) = length buf"
    using assms by (intro unat_of_nat_u32) (simp add: PRINTF_NTOA_BUFFER_SIZE_def)
  then have d: "unat (idx' - idx) = length buf" if "out_bytes out maxlen (rev buf) idx s = Some (idx', s')" for idx' s'
    using out_bytes_index [OF that] by simp
  then show ?thesis
    by (auto simp: out_rev_def rev_text_def field_def out_bytes_append spaces_def split: bind_split)
qed

lemma ntoa_long_text:
  "ntoa_long out maxlen value negative base prec width flags idx s =
     out_bytes out maxlen (ntoa_text value negative base prec width flags) idx s"
proof -
  have [simp]: "length (push_digits flags base value []) \<le> PRINTF_NTOA_BUFFER_SIZE" for flags
    by (rule push_digits_limit) (simp add: PRINTF_NTOA_BUFFER_SIZE_def)
  have "ntoa_format out maxlen buf negative base prec width flags idx s =
      out_rev out maxlen (ntoa_buf buf negative base prec (ntoa_width negative width flags) flags)
        (ntoa_width negative width flags) flags idx s" for buf flags
    by (simp add: ntoa_format_def ntoa_width_def ntoa_buf_def Let_def)
  then show ?thesis
    by (auto simp: ntoa_long_def ntoa_text_def Let_def out_rev_text ntoa_buf_limit)
qed

definition integer_text ::
    "u8 \<Rightarrow> va_arg list \<Rightarrow> u32 \<Rightarrow> u32 \<Rightarrow> u32 \<Rightarrow> (va_arg list \<times> bytes) option" where
  "integer_text c va precision width flags =
     (let flags = integer_flags c flags in
      if bit flags FLAGS_LONG_LONG then Some (va, [])
      else do {
        (a, va) \<leftarrow> va_word va;
        (if c = 0x69 \<or> c = 0x64 then do {
           let v = signed_value flags a;
           m \<leftarrow> cint \<bar>v\<bar>;
           Some (va, ntoa_text (word_of_int m) (v < 0) (format_base c) precision width flags)
         } else Some (va, ntoa_text (unsigned_value flags a) False (format_base c) precision width flags))
      })"

definition char_text :: "va_arg list \<Rightarrow> u32 \<Rightarrow> u32 \<Rightarrow> (va_arg list \<times> bytes) option" where
  "char_text va width flags = do {
     (a, va) \<leftarrow> va_word va;
     Some (va, field [ucast a] 1 (unat width) (bit flags FLAGS_LEFT))
   }"

text \<open>A string is padded by the length that \<open>strnlen_s\<close> gives, cut to the precision.\<close>

definition string_text :: "va_arg list \<Rightarrow> u32 \<Rightarrow> u32 \<Rightarrow> u32 \<Rightarrow> (va_arg list \<times> bytes) option" where
  "string_text va precision width flags = do {
     (p, va) \<leftarrow> va_string va;
     n \<leftarrow> strnlen_s p (if precision \<noteq> 0 then precision else - 1);
     chars \<leftarrow> string_chars p (if bit flags FLAGS_PRECISION then Some (unat precision) else None);
     let l = unat (of_nat n :: u32);
     let l = (if bit flags FLAGS_PRECISION then min l (unat precision) else l);
     Some (va, field chars l (unat width) (bit flags FLAGS_LEFT))
   }"

definition pointer_text :: "va_arg list \<Rightarrow> u32 \<Rightarrow> u32 \<Rightarrow> (va_arg list \<times> bytes) option" where
  "pointer_text va precision flags = do {
     (a, va) \<leftarrow> va_word va;
     Some (va, ntoa_text a False 16 precision 8 (set_bit FLAGS_ZEROPAD (set_bit FLAGS_UPPERCASE flags)))
   }"

definition directive_text :: "bytes \<Rightarrow> va_arg list \<Rightarrow> ((bytes \<times> va_arg list) \<times> bytes) option" where
  "directive_text format va = do {
     (flags, format) \<leftarrow> parse_flags format 0;
     (width, flags, format, va) \<leftarrow> parse_width format va flags;
     (precision, flags, format, va) \<leftarrow> parse_precision format va flags;
     (flags, format) \<leftarrow> parse_length format flags;
     (case format of
        [] \<Rightarrow> None
      | c # format \<Rightarrow> do {
          (va, cs) \<leftarrow>
            (if c \<in> {0x64, 0x69, 0x75, 0x78, 0x58, 0x6F, 0x62} then integer_text c va precision width flags
             else if c = 0x63 then char_text va width flags
             else if c = 0x73 then string_text va precision width flags
             else if c = 0x70 then pointer_text va precision flags
             else Some (va, [c]));
          Some ((format, va), cs)
        })
   }"

lemma convert_integer_text:
  "convert_integer out maxlen c va precision width flags idx s =
     writes out maxlen (integer_text c va precision width flags) idx s"
proof -
  have "(if 0 < v then Some v else cint (0 - v)) = cint \<bar>v\<bar>" if "v = signed_value flags a" for v flags a
  proof -
    have "- 2147483648 \<le> v \<and> v < 2147483648"
      unfolding that signed_value_def
      using sint_lt [of a] sint_ge [of a] sint_lt [of "ucast a :: u8"] sint_ge [of "ucast a :: u8"]
        sint_lt [of "ucast a :: u16"] sint_ge [of "ucast a :: u16"]
      by (auto split: if_splits)
    then show ?thesis by (auto simp: cint_def)
  qed
  then show ?thesis
    by (auto simp: convert_integer_def integer_text_def writes_def ntoa_long_text Let_def split: bind_split)
qed

lemma convert_char_text:
  "convert_char out maxlen va width flags idx s = writes out maxlen (char_text va width flags) idx s"
  by (auto simp: convert_char_def char_text_def writes_def field_def out_bytes_append split: bind_split)

lemma convert_string_text:
  "convert_string out maxlen va precision width flags idx s =
     writes out maxlen (string_text va precision width flags) idx s"
proof (cases "va_string va")
  case None
  then show ?thesis by (simp add: convert_string_def string_text_def writes_def)
next
  case (Some p_va)
  obtain p va' where p: "va_string va = Some (p, va')" using Some by (cases p_va) auto
  show ?thesis
  proof (cases "strnlen_s p (if precision \<noteq> 0 then precision else - 1)")
    case None
    with p show ?thesis by (simp add: convert_string_def string_text_def writes_def)
  next
    case (Some n)
    note n = this
    show ?thesis
    proof (cases "string_chars p (if bit flags FLAGS_PRECISION then Some (unat precision) else None)")
      case None
      with p n show ?thesis
        by (simp add: convert_string_def string_text_def writes_def Let_def split_def cong: if_cong)
    next
      case (Some chars)
      show ?thesis
        using p n Some unfolding convert_string_def string_text_def writes_def field_def Let_def
        by (simp add: out_bytes_append min_def split_def Option.bind_assoc cong: if_cong)
    qed
  qed
qed

lemma convert_pointer_text:
  "convert_pointer out maxlen va precision flags idx s =
     writes out maxlen (pointer_text va precision flags) idx s"
  by (auto simp: convert_pointer_def pointer_text_def writes_def ntoa_long_text Let_def split: bind_split)

lemmas conversion_texts = convert_integer_text convert_char_text convert_string_text convert_pointer_text

section \<open>The text of a format\<close>

lemma writes_Some [simp]: "writes out maxlen (Some (va, cs)) idx s =
    Option.bind (out_bytes out maxlen cs idx s) (\<lambda>(idx, s). Some (va, idx, s))"
  by (simp add: writes_def)

lemma writes_map:
  "Option.bind (writes out maxlen t idx s) (\<lambda>(r, idx, s). Some (f r, idx, s)) =
     writes out maxlen (Option.bind t (\<lambda>(r, cs). Some (f r, cs))) idx s"
  by (cases t) (auto simp: writes_def split: bind_split)

lemma directive_writes:
  "directive out maxlen format va idx s =
     Option.bind (writes out maxlen (directive_text format va) idx s) (\<lambda>((format, va), idx, s). Some (format, va, idx, s))"
proof -
  have conversion: "(if c \<in> {0x64, 0x69, 0x75, 0x78, 0x58, 0x6F, 0x62}
        then convert_integer out maxlen c va precision width flags idx s
        else if c = 0x63 then convert_char out maxlen va width flags idx s
        else if c = 0x73 then convert_string out maxlen va precision width flags idx s
        else if c = 0x70 then convert_pointer out maxlen va precision flags idx s
        else Option.bind (out_bytes out maxlen [c] idx s) (\<lambda>(idx, s). Some (va, idx, s))) =
      writes out maxlen
        (if c \<in> {0x64, 0x69, 0x75, 0x78, 0x58, 0x6F, 0x62} then integer_text c va precision width flags
         else if c = 0x63 then char_text va width flags
         else if c = 0x73 then string_text va precision width flags
         else if c = 0x70 then pointer_text va precision flags
         else Some (va, [c])) idx s" for c va precision width flags
    by (simp only: conversion_texts writes_Some split: if_split) blast
  show ?thesis
    unfolding directive_def directive_text_def conversion
    by (auto simp: writes_def split: bind_split list.splits)
qed

lemma out_bytes_null: "out_bytes out_null maxlen cs idx s = Some (idx + of_nat (length cs), s)"
  by (induction cs arbitrary: idx) (simp_all add: out_null_def algebra_simps)

lemma directive_text_shorter:
  assumes "directive_text format va = Some ((format', va'), cs)"
  shows "length format' < length format"
  using directive_shorter [of out_null 0 format va 0 "()"] assms
  by (simp add: directive_writes writes_def out_bytes_null)

function format_text :: "bytes \<Rightarrow> va_arg list \<Rightarrow> bytes option" where
  "format_text [] va = None"
| "format_text (c # format) va =
     (if c = 0 then Some []
      else if c \<noteq> 0x25 then map_option ((#) c) (format_text format va)
      else case directive_text format va of
        None \<Rightarrow> None
      | Some ((format', va'), cs) \<Rightarrow> map_option ((@) cs) (format_text format' va'))"
  by pat_completeness auto
termination
  by (relation "measure (\<lambda>(format, va). length format)") (auto dest: directive_text_shorter)

text \<open>Every output function gets the text and a terminator.\<close>

theorem vsnprintf_loop_text:
  "vsnprintf_loop out maxlen format va idx s = do {
     cs \<leftarrow> format_text format va;
     (idx, s) \<leftarrow> out_bytes out maxlen cs idx s;
     s \<leftarrow> out 0 (if idx < maxlen then idx else maxlen - 1) maxlen s;
     Some (idx, s)
   }"
proof (induction out maxlen format va idx s rule: vsnprintf_loop.induct)
  case (1 out maxlen va idx s)
  show ?case by simp
next
  case (2 out maxlen c format va idx s)
  show ?case
  proof (cases "c = 0 \<or> c \<noteq> 0x25")
    case True
    then show ?thesis using "2.IH"(1) by (auto split: bind_split)
  next
    case False
    then have c: "c = 0x25" "c \<noteq> 0" by auto
    show ?thesis
    proof (cases "directive_text format va")
      case None
      then show ?thesis using c by (simp add: directive_writes writes_def)
    next
      case (Some r)
      obtain format' va' cs where r: "directive_text format va = Some ((format', va'), cs)"
        using Some by (cases r) auto
      show ?thesis
      proof (cases "out_bytes out maxlen cs idx s")
        case None
        with c r show ?thesis
          by (auto simp: directive_writes writes_def out_bytes_append split: bind_split)
      next
        case (Some x)
        obtain idx' s' where x: "out_bytes out maxlen cs idx s = Some (idx', s')"
          using Some by (cases x) auto
        have d: "directive out maxlen format va idx s = Some (format', va', idx', s')"
          using r x by (simp add: directive_writes writes_def)
        show ?thesis
          using "2.IH"(2) [of "(format', va', idx', s')" format' "(va', idx', s')" va' "(idx', s')" idx' s']
          using c r x d by (simp add: out_bytes_append split: bind_split)
      qed
    qed
  qed
qed

section \<open>Into a buffer\<close>

lemma out_bytes_buffer:
  assumes "unat maxlen \<le> length buf" and "unat idx + length cs < 2 ^ 32"
  shows "out_bytes out_buffer maxlen cs idx buf =
    Some (idx + of_nat (length cs), put_bytes buf (unat idx) (take (unat maxlen - unat idx) cs))"
  using assms
proof (induction cs arbitrary: idx buf)
  case Nil
  show ?case by simp
next
  case (Cons c cs)
  then have next_idx: "unat (idx + 1) = Suc (unat idx)" by (simp add: unat_word_ariths)
  have tail: "unat (idx + 1) + length cs < 2 ^ 32" using Cons.prems(2) next_idx by simp
  show ?case
  proof (cases "idx < maxlen")
    case True
    then have lt: "unat idx < unat maxlen" by (simp add: word_less_nat_alt)
    then have t: "take (unat maxlen - unat idx) (c # cs) = c # take (unat maxlen - Suc (unat idx)) cs"
      using Suc_diff_Suc [OF lt, symmetric] by simp
    have "out_buffer c idx maxlen buf = Some (buf[unat idx := c])"
      using True lt Cons.prems(1) by (simp add: out_buffer_def)
    with Cons.IH [of "buf[unat idx := c]", OF _ tail] Cons.prems(1) lt show ?thesis
      by (simp add: next_idx t put_bytes_Cons add.assoc)
  next
    case False
    then have "unat maxlen - unat idx = 0" "unat maxlen - Suc (unat idx) = 0"
      by (simp_all add: word_less_nat_alt)
    with False Cons.IH [OF Cons.prems(1) tail] show ?thesis
      by (simp add: out_buffer_def next_idx add.assoc)
  qed
qed

theorem snprintf_text:
  assumes "format_text format va = Some cs" and "length cs < 2 ^ 31" and "unat count \<le> length b"
  shows "snprintf (Some b) count format va =
    Some (int (length cs), Some (if count = 0 then b else put_bytes b 0 (take (unat count - 1) cs @ [0])))"
proof -
  have n: "unat (of_nat (length cs) :: u32) = length cs" "sint (of_nat (length cs) :: u32) = int (length cs)"
    using assms(2) by (simp_all add: unat_of_nat_u32 sint_small)
  have run: "out_bytes out_buffer count cs 0 b = Some (of_nat (length cs), put_bytes b 0 (take (unat count) cs))"
    using out_bytes_buffer [OF assms(3), of 0 cs] assms(2) by simp
  define b' where "b' = put_bytes b 0 (take (unat count) cs)"
  have "\<exists>b''. out_buffer 0 (if of_nat (length cs) < count then of_nat (length cs) else count - 1) count b' = Some b''
    \<and> b'' = (if count = 0 then b else put_bytes b 0 (take (unat count - 1) cs @ [0]))"
  proof (cases "count = 0")
    case True
    then show ?thesis by (simp add: out_buffer_def b'_def)
  next
    case False
    then have pos: "0 < unat count" by (simp add: unat_gt_0)
    have len: "length b' = length b" using assms(3) by (simp add: b'_def)
    show ?thesis
    proof (cases "of_nat (length cs) < count")
      case True
      then have "length cs < unat count" by (simp add: word_less_nat_alt n)
      then show ?thesis
        using True False len assms(3) n by (simp add: out_buffer_def b'_def put_bytes_snoc [where i = 0, simplified])
    next
      case ge: False
      then have "unat count \<le> length cs" by (simp add: word_less_nat_alt n)
      moreover have m: "unat (count - 1) = unat count - 1" using pos by (simp add: unat_minus_one False)
      moreover have "count - 1 < count" using pos m by (simp add: word_less_nat_alt)
      moreover have "take (unat count) cs = take (unat count - 1) cs @ [cs ! (unat count - 1)]"
        using calculation(1) pos take_Suc_conv_app_nth [of "unat count - 1" cs] by simp
      ultimately show ?thesis
        using ge False len assms(3) pos
        by (simp add: out_buffer_def b'_def put_bytes_def list_update_append)
    qed
  qed
  then show ?thesis
    using assms(1) run n by (auto simp: snprintf_def vsnprintf_def vsnprintf_loop_text b'_def)
qed

lemma snprintf_null:
  assumes "format_text format va = Some cs" and "length cs < 2 ^ 31"
  shows "snprintf None count format va = Some (int (length cs), None)"
  using assms
  by (simp add: snprintf_def vsnprintf_def vsnprintf_loop_text out_bytes_null out_null_def unat_of_nat_u32 sint_small)

end
