(* ===== verification/Printf_Integers.thy ===== *)
theory Printf_Integers
  imports Printf_Text
begin

text \<open>
  The integer conversions of \<open>third-party/printf.c\<close> against the C standard: digits in the base, the
  precision, the sign, and the field. The code deviates where its buffer of 32 characters is too small,
  and for a precision together with the flag \<open>-\<close>, where it forgets the zeros.
\<close>

section \<open>Digits\<close>

text \<open>The digits of a natural number, most significant first.\<close>

fun digits_in :: "u32 \<Rightarrow> nat \<Rightarrow> nat \<Rightarrow> bytes" where
  "digits_in flags b n =
     (if b \<le> 1 \<or> n < b then [digit_char flags (of_nat n)]
      else digits_in flags b (n div b) @ [digit_char flags (of_nat (n mod b))])"

declare digits_in.simps [simp del]

lemma digits_in_length: "2 \<le> b \<Longrightarrow> n < 2 ^ Suc k \<Longrightarrow> length (digits_in flags b n) \<le> Suc k"
proof (induction k arbitrary: n)
  case 0
  then show ?case by (simp add: digits_in.simps [of flags b n])
next
  case (Suc k)
  show ?case
  proof (cases "n < b")
    case True
    then show ?thesis by (simp add: digits_in.simps [of flags b n])
  next
    case False
    have "n div b \<le> n div 2" using Suc.prems(1) by (rule div_le_mono2 [rotated]) simp
    also have "\<dots> < 2 ^ Suc k" using Suc.prems(2) by auto
    finally show ?thesis
      using Suc.IH [of "n div b"] Suc.prems(1) by (subst digits_in.simps) simp
  qed
qed

lemma digits_in_decimal: "digits_in flags 10 n = decimal n"
proof (induction n rule: decimal.induct)
  case (1 n)
  have d: "digit_char flags (of_nat k) = of_nat (k + 48)" if "k < 10" for k
  proof -
    have "(of_nat k :: u32) < 10" using that by (simp add: word_less_nat_alt unat_of_nat_u32)
    moreover have "(ucast (of_nat k :: u32) :: u8) = of_nat k"
      using that by (simp add: unsigned_of_nat take_bit_nat_eq_self)
    ultimately show ?thesis by (simp add: digit_char_def)
  qed
  show ?case
    using 1 d [of n] d [of "n mod 10"]
    by (simp add: digits_in.simps [of flags 10 n] decimal.simps [of n] del: of_nat_add)
qed

lemma push_digits_eq:
  assumes "2 \<le> unat base" and "length buf + length (digits_in flags (unat base) (unat n)) \<le> PRINTF_NTOA_BUFFER_SIZE"
  shows "push_digits flags base n buf = buf @ rev (digits_in flags (unat base) (unat n))"
  using assms(2)
proof (induction "unat n" arbitrary: n buf rule: less_induct)
  case less
  have m: "unat (n mod base) = unat n mod unat base" and q: "unat (n div base) = unat n div unat base"
    by (simp_all add: unat_mod unat_div)
  have again: "of_nat (unat n mod unat base) = n mod base" by (simp add: word_arith_nat_mod)
  show ?case
  proof (cases "unat n < unat base")
    case True
    then have "n div base = 0" "n mod base = n" using q m by (simp_all add: word_unat_eq_iff)
    then show ?thesis
      using True by (simp add: push_digits.simps [of flags base n] digits_in.simps [of flags "unat base" "unat n"])
  next
    case False
    have d: "digits_in flags (unat base) (unat n) =
        digits_in flags (unat base) (unat n div unat base) @ [digit_char flags (n mod base)]"
      using False assms(1) again by (simp add: digits_in.simps [of flags "unat base" "unat n"])
    have "0 < unat (n div base)" using False assms(1) by (simp add: q div_greater_zero_iff)
    then have nz: "n div base \<noteq> 0" by (simp add: unat_gt_0)
    have smaller: "unat (n div base) < unat n" using False assms(1) q by simp
    have "0 < length (digits_in flags (unat base) (unat n div unat base))"
      by (subst digits_in.simps) simp
    moreover have "length (buf @ [digit_char flags (n mod base)])
        + length (digits_in flags (unat base) (unat n div unat base)) \<le> PRINTF_NTOA_BUFFER_SIZE"
      using less.prems d by simp
    ultimately have "length (buf @ [digit_char flags (n mod base)]) < PRINTF_NTOA_BUFFER_SIZE" by linarith
    then show ?thesis
      using smaller less.hyps [of "n div base" "buf @ [digit_char flags (n mod base)]"] less.prems nz d q
      by (subst push_digits.simps) (simp add: Let_def)
  qed
qed

section \<open>Fields\<close>

text \<open>An integer as the standard prints it: \<open>ds\<close> are its digits.\<close>

definition standard_integer :: "u32 \<Rightarrow> nat \<Rightarrow> nat \<Rightarrow> bytes \<Rightarrow> bytes \<Rightarrow> bytes" where
  "standard_integer flags width prec sign ds =
     (let body = replicate (prec - length ds) 0x30 @ ds; n = length sign + length body in
      if bit flags FLAGS_LEFT then sign @ body @ spaces (width - n)
      else if bit flags FLAGS_ZEROPAD then sign @ replicate (width - n) 0x30 @ body
      else spaces (width - n) @ sign @ body)"

definition sign_of :: "bool \<Rightarrow> u32 \<Rightarrow> bytes" where
  "sign_of negative flags =
     (if negative then [0x2D] else if bit flags FLAGS_PLUS then [0x2B]
      else if bit flags FLAGS_SPACE then [0x20] else [])"

definition digits_of :: "u32 \<Rightarrow> u32 \<Rightarrow> u32 \<Rightarrow> bytes" where
  "digits_of flags base n =
     (if bit flags FLAGS_PRECISION \<and> n = 0 then [] else digits_in flags (unat base) (unat n))"

lemma digits_of_length: "2 \<le> unat base \<Longrightarrow> length (digits_of flags base n) \<le> 32"
  using digits_in_length [of "unat base" "unat n" 31 flags] unat_u32_less [of n] by (simp add: digits_of_def)

text \<open>The conversion follows the standard where its buffer is large enough.\<close>

definition fits_buffer :: "u32 \<Rightarrow> nat \<Rightarrow> nat \<Rightarrow> bytes \<Rightarrow> bytes \<Rightarrow> bool" where
  "fits_buffer flags width prec sign ds \<longleftrightarrow>
     length sign + max prec (length ds) \<le> PRINTF_NTOA_BUFFER_SIZE
     \<and> (if bit flags FLAGS_LEFT then prec \<le> length ds
        else bit flags FLAGS_ZEROPAD \<longrightarrow> width \<le> PRINTF_NTOA_BUFFER_SIZE)"

lemma push_sign_eq:
  "length buf + length (sign_of negative flags) \<le> PRINTF_NTOA_BUFFER_SIZE \<Longrightarrow>
     push_sign negative flags buf = buf @ sign_of negative flags"
  by (auto simp: push_sign_def sign_of_def push_char_def split: if_splits)

lemma ntoa_standard:
  assumes "\<not> bit flags FLAGS_HASH" and "2 \<le> unat base"
    and "fits_buffer flags (unat width) (unat prec) (sign_of negative flags) (digits_of flags base n)"
  shows "ntoa_text n negative base prec width flags =
    standard_integer flags (unat width) (unat prec) (sign_of negative flags) (digits_of flags base n)"
proof -
  let ?sign = "sign_of negative flags" and ?ds = "digits_of flags base n"
  have hash: "(if n = 0 then unset_bit FLAGS_HASH flags else flags) = flags"
    using assms(1) by (auto intro!: bit_word_eqI simp: bit_simps)
  have digits: "(if \<not> bit flags FLAGS_PRECISION \<or> n \<noteq> 0 then push_digits flags base n [] else []) = rev ?ds"
    using push_digits_eq [OF assms(2), of "[]" flags n] digits_of_length [OF assms(2), of flags n]
    by (auto simp: digits_of_def PRINTF_NTOA_BUFFER_SIZE_def)
  let ?w = "ntoa_width negative width flags"
  let ?b = "rev ?ds @ replicate (unat prec - length ?ds) 0x30"
  have whole: "length ?b + length ?sign \<le> PRINTF_NTOA_BUFFER_SIZE"
    using assms(3) by (simp add: fits_buffer_def max_def split: if_splits)
  have sign: "rev ?sign = ?sign" by (simp add: sign_of_def)
  have fit: "unat prec \<le> PRINTF_NTOA_BUFFER_SIZE" "length ?ds + length ?sign \<le> PRINTF_NTOA_BUFFER_SIZE"
    using assms(3) max.cobounded1 [of "unat prec" "length ?ds"] max.cobounded2 [of "length ?ds" "unat prec"]
    unfolding fits_buffer_def by linarith+
  have shape: "ntoa_text n negative base prec width flags =
      rev_text (ntoa_buf (rev ?ds) negative base prec ?w flags) ?w flags"
    unfolding ntoa_text_def Let_def hash digits ..
  show ?thesis
  proof (cases "bit flags FLAGS_LEFT")
    case True
    then have "unat prec \<le> length ?ds" using assms(3) by (simp add: fits_buffer_def)
    with True fit assms(1) show ?thesis
      by (simp add: shape ntoa_buf_def ntoa_width_def push_sign_eq rev_text_def field_def standard_integer_def
          Let_def sign ac_simps)
  next
    case False
    have prec: "push_zeros (unat prec) (rev ?ds) = ?b"
      using fit(1) by (simp add: push_zeros_eq min_def)
    show ?thesis
    proof (cases "bit flags FLAGS_ZEROPAD")
      case True
      have w: "unat ?w = unat width - length ?sign"
        using True False by (auto simp: ntoa_width_def sign_of_def unat_minus_one)
      have wide: "unat width \<le> PRINTF_NTOA_BUFFER_SIZE"
        using assms(3) True False by (simp add: fits_buffer_def)
      then have "min (unat ?w) PRINTF_NTOA_BUFFER_SIZE = unat ?w" using w by simp
      then have "push_zeros (unat ?w) ?b = ?b @ replicate (unat ?w - length ?b) 0x30"
        by (simp only: push_zeros_eq)
      moreover have "length (?b @ replicate (unat ?w - length ?b) 0x30) + length ?sign \<le> PRINTF_NTOA_BUFFER_SIZE"
        using whole wide unfolding length_append [of ?b] length_replicate w by linarith
      ultimately show ?thesis
        using True False assms(1) prec w
        by (simp add: shape ntoa_buf_def push_sign_eq rev_text_def standard_integer_def Let_def sign ac_simps)
    next
      case nozero: False
      show ?thesis
        using whole nozero False assms(1) prec
        by (simp add: shape ntoa_buf_def ntoa_width_def push_sign_eq rev_text_def field_def standard_integer_def
            Let_def sign ac_simps)
    qed
  qed
qed

section \<open>The conversions of a directive\<close>

definition is_signed :: "u8 \<Rightarrow> bool" where
  "is_signed c \<longleftrightarrow> c = 0x69 \<or> c = 0x64"

text \<open>The number an argument stands for.\<close>

definition argument_value :: "u8 \<Rightarrow> u32 \<Rightarrow> u32 \<Rightarrow> int" where
  "argument_value c flags a =
     (if is_signed c then signed_value (integer_flags c flags) a
      else uint (unsigned_value (integer_flags c flags) a))"

definition standard_directive :: "u8 \<Rightarrow> u32 \<Rightarrow> nat \<Rightarrow> nat \<Rightarrow> int \<Rightarrow> bytes" where
  "standard_directive c flags width prec v =
     (let f = integer_flags c flags in
      standard_integer f width prec (sign_of (v < 0) f) (digits_of f (format_base c) (word_of_int \<bar>v\<bar>)))"

lemma format_base_ge: "2 \<le> unat (format_base c)"
  by (simp add: format_base_def)

lemma convert_integer_standard:
  assumes "\<not> bit (integer_flags c flags) FLAGS_LONG_LONG" and "\<not> bit (integer_flags c flags) FLAGS_HASH"
    and "v = argument_value c flags a" and "v \<noteq> - 2147483648"
    and "fits_buffer (integer_flags c flags) (unat width) (unat prec) (sign_of (v < 0) (integer_flags c flags))
      (digits_of (integer_flags c flags) (format_base c) (word_of_int \<bar>v\<bar>))"
  shows "convert_integer out maxlen c (Va_word a # va) prec width flags idx s =
    writes out maxlen (Some (va, standard_directive c flags (unat width) (unat prec) v)) idx s"
proof -
  note standard = ntoa_standard [OF assms(2) format_base_ge assms(5)]
  have "integer_text c (Va_word a # va) prec width flags =
      Some (va, standard_directive c flags (unat width) (unat prec) v)"
  proof (cases "is_signed c")
    case True
    have "- 2147483648 \<le> v \<and> v < 2147483648"
      using True unfolding assms(3) argument_value_def signed_value_def
      using sint_lt [of a] sint_ge [of a] sint_lt [of "ucast a :: u8"] sint_ge [of "ucast a :: u8"]
        sint_lt [of "ucast a :: u16"] sint_ge [of "ucast a :: u16"]
      by (auto split: if_splits)
    with assms(4) have range: "\<bar>v\<bar> < 2147483648" "- 2147483648 \<le> \<bar>v\<bar>" by auto
    with True assms(1,3) standard show ?thesis
      by (simp add: integer_text_def argument_value_def is_signed_def standard_directive_def Let_def cint_def)
  next
    case False
    then have "\<not> v < 0" "(word_of_int \<bar>v\<bar> :: u32) = unsigned_value (integer_flags c flags) a"
      by (simp_all add: assms(3) argument_value_def)
    with False assms(1) standard show ?thesis
      by (simp add: integer_text_def is_signed_def standard_directive_def Let_def)
  qed
  then show ?thesis by (simp add: convert_integer_text)
qed

text \<open>The flag \<open>-\<close> loses the zeros of a precision: the standard asks for \<open>007\<close> here.\<close>

lemma left_forgets_precision: "format_text [0x25, 0x2D, 0x35, 0x2E, 0x33, 0x64, 0] [Va_word 7] = Some [0x37, 0x20, 0x20, 0x20, 0x20]"
  by code_simp

text \<open>A lone percent sign at the end of a format is read past.\<close>

lemma lone_percent: "format_text [0x25, 0] va = None"
  by code_simp

end
