(* ===== verification/Panic.thy ===== *)
theory Panic
  imports Printf_Integers Interrupts Kernel LineRandom
begin

text \<open>
  The end of the kernel: \<open>kernel/panic.c\<close>, \<open>kernel/stack_chk.c\<close> and \<open>x86/power.c\<close>. A function that does
  not return ends in \<open>halt\<close>, which disables the interrupts and halts for ever; its result here is the
  state in which \<open>halt\<close> is entered. \<open>printf\<close> writes to the terminal through \<open>_putchar\<close>.
\<close>

section \<open>Formatted output on the terminal\<close>

definition putchar :: "'h port_ops \<Rightarrow> u8 \<Rightarrow> 'h terminal \<Rightarrow> 'h terminal option" where
  "putchar P character t = terminal_write_for_char P character t"

definition terminal_printf ::
    "'h port_ops \<Rightarrow> bytes \<Rightarrow> va_arg list \<Rightarrow> 'h terminal \<Rightarrow> (int \<times> 'h terminal) option" where
  "terminal_printf P format va t = printf (putchar P) format va t"

text \<open>It shows the text of the format, character by character.\<close>

lemma out_bytes_terminal:
  "out_bytes (out_char (putchar P)) maxlen cs idx t =
     map_option (\<lambda>t. (idx + of_nat (length cs), t)) (emit (terminal_write_for_char P) cs t)"
proof (induction cs arbitrary: idx t)
  case (Cons c cs)
  have "out_char (putchar P) c idx maxlen t = terminal_write_for_char P c t"
    by (simp add: out_char_def putchar_def terminal_write_for_char_def)
  with Cons show ?case by (simp add: add.assoc split: bind_split)
qed simp

lemma terminal_printf_text:
  "terminal_printf P format va t = do {
     cs \<leftarrow> format_text format va;
     t \<leftarrow> emit (terminal_write_for_char P) cs t;
     Some (sint (of_nat (length cs) :: u32), t)
   }"
  by (auto simp: terminal_printf_def printf_def vsnprintf_def vsnprintf_loop_text out_bytes_terminal
      out_char_def split: bind_split)

section \<open>Panic\<close>

definition error_art :: "bytes list" where
  "error_art = [literal (''L^LLLLLLLLLLLLLLLLLLL \<newline>'' @
     ''LLL_____OOOOOOOOOLLLLL\<newline>'' @
     ''LLL_____OOOOO__OOLLLLL\<newline>'' @
     ''LLL_____OOOOO__OOLLLLL\<newline>'' @
     ''LLL_____OOOOOOOOOLLLLL\<newline>'' @
     ''LLLLLLLLLLLLLLLLLLLLLL\<newline>'' @
     ''LLL----------------LLL\<newline>'' @
     ''LLL---Riversoft----LLL\<newline>'' @
     ''LLL----------------LLL\<newline>'' @
     ''LLL---LineCoreOS---LLL\<newline>'' @
     ''LLL--installation--LLL\<newline>'' @
     ''LLL---disk #1/3----LLL\<newline>'' @
     ''LAL----------------L L\<newline>'')]"

text \<open>\<open>ERROR_ART\<close> is the number of pictures; \<open>nxt\<close> is the state of the generator.\<close>

definition random_error_message :: "u32 \<Rightarrow> bytes \<times> u32" where
  "random_error_message nxt =
     (let (fake_rand, nxt) = rand nxt
      in (if fake_rand \<noteq> 0 then error_art ! (unat (word_of_int fake_rand :: u32) mod length error_art)
          else literal ''\<newline>'', nxt))"

text \<open>\<open>linestr\<close> has 30 characters, which \<open>itoa\<close> overwrites.\<close>

definition panic ::
    "'h port_ops \<Rightarrow> string \<Rightarrow> int \<Rightarrow> bytes \<Rightarrow> va_arg list \<Rightarrow> u32 \<times> 'h terminal \<Rightarrow> (u32 \<times> 'h terminal) option" where
  "panic P file line format va s = do {
     let (nxt, t) = s;
     let (art, nxt) = random_error_message nxt;
     t \<leftarrow> terminal_writestring P art t;
     t \<leftarrow> terminal_writestring P (literal ''KERNEL PANIC!\<newline>'') t;
     t \<leftarrow> terminal_writestring P (literal ''Where? '') t;
     t \<leftarrow> terminal_writestring P (literal file) t;
     t \<leftarrow> terminal_writestring P (literal '':'') t;
     linestr \<leftarrow> itoa line (replicate 30 0);
     t \<leftarrow> terminal_writestring P linestr t;
     t \<leftarrow> terminal_writestring P (literal ''\<newline>'') t;
     t \<leftarrow> terminal_writestring P (literal ''Reason:\<newline>'') t;
     (_, t) \<leftarrow> terminal_printf P format va t;
     Some (nxt, t)
   }"

section \<open>Power\<close>

text \<open>\<open>reboot\<close> waits for the keyboard controller and resets the processor through it.\<close>

partial_function (option) reboot_wait :: "'h port_ops \<Rightarrow> 'h \<Rightarrow> 'h option" where
  "reboot_wait P h =
     (let (good, h) = p_inb P 0x64 h
      in if good AND 0x02 \<noteq> 0 then reboot_wait P h else Some h)"

definition reboot :: "'h port_ops \<Rightarrow> 'h \<Rightarrow> 'h option" where
  "reboot P h = do {
     h \<leftarrow> reboot_wait P h;
     Some (p_outb P 0x64 0xFE h)
   }"

definition poweroff :: "'h port_ops \<Rightarrow> 'h terminal \<Rightarrow> 'h terminal option" where
  "poweroff P t = do {
     t \<leftarrow> terminal_cls P t;
     terminal_writestring P (literal ''It is now safe to power off your computer.'') t
   }"

section \<open>What panics\<close>

definition stack_chk_guard :: u32 where
  "stack_chk_guard = 0xc3859a69"

text \<open>\<open>__FILE__\<close> and \<open>__LINE__\<close> are given by the compiler.\<close>

definition stack_chk_fail :: "'h port_ops \<Rightarrow> string \<Rightarrow> int \<Rightarrow> u32 \<times> 'h terminal \<Rightarrow> (u32 \<times> 'h terminal) option" where
  "stack_chk_fail P file line s = panic P file line (literal ''Stack smashing detected'') [] s"

definition exception_messages :: "string list" where
  "exception_messages =
     [''Division By Zero'', ''Debug'', ''Non Maskable Interrupt'', ''Breakpoint'',
      ''Into Detected Overflow'', ''Out of Bounds'', ''Invalid Opcode'', ''No Coprocessor'',
      ''Double Fault'', ''Coprocessor Segment Overrun'', ''Bad TSS'', ''Segment Not Present'',
      ''Stack Fault'', ''General Protection Fault'', ''Page Fault'', ''Unknown Interrupt'',
      ''Coprocessor Fault'', ''Alignment Check'', ''Machine Check''] @ replicate 13 ''Reserved''"

text \<open>The branch of \<open>common_handler\<close> for an exception.\<close>

definition exception_panic ::
    "'h port_ops \<Rightarrow> string \<Rightarrow> int \<Rightarrow> regs \<Rightarrow> u32 \<times> 'h terminal \<Rightarrow> (u32 \<times> 'h terminal) option" where
  "exception_panic P file line r s =
     panic P file line (literal ''Exception: %s (err code: %d) at EIP: 0x%08X'')
       [Va_string (literal (exception_messages ! unat (int_no r))), Va_word (err_code r), Va_word (eip r)] s"

section \<open>The report\<close>

lemma literal_chars: "literal str = chars str @ [0]"
  by (simp add: literal_def chars_def)

lemma writestring_chars:
  assumes "0 \<notin> set cs" and "length cs < 2 ^ 32"
  shows "terminal_writestring P (cs @ 0 # rest) t = emit (terminal_write_for_char P) cs t"
proof -
  have "unat (of_nat (length cs) :: u32) = length cs" using assms(2) by (simp add: unat_of_nat_u32)
  with assms(1) show ?thesis by (simp add: terminal_writestring_def strlen_eq terminal_write_def)
qed

text \<open>A part of a format without a directive is copied.\<close>

lemma format_text_plain:
  "0 \<notin> set cs \<Longrightarrow> 0x25 \<notin> set cs \<Longrightarrow> format_text (cs @ format) va = map_option ((@) cs) (format_text format va)"
proof (induction cs)
  case (Cons c cs)
  then show ?case by (cases "format_text format va") auto
next
  case Nil
  then show ?case by (cases "format_text format va") simp_all
qed

lemma format_text_end: "format_text (0 # format) va = Some []"
  by simp

lemma strnlen_s_cstr: "0 \<in> set p \<Longrightarrow> length (cstr p) < unat n \<Longrightarrow> strnlen_s p n = Some (length (cstr p))"
proof (induction p n rule: strnlen_s.induct)
  case (2 c p n)
  then have "n \<noteq> 0" by auto
  then have "unat (n - 1) = unat n - 1" by (rule unat_minus_one)
  with 2 \<open>n \<noteq> 0\<close> show ?case by (auto simp: cstr_def)
qed simp

lemma string_chars_cstr: "0 \<in> set p \<Longrightarrow> string_chars p None = Some (cstr p)"
  by (induction p) (auto simp: cstr_def)

lemma directive_string:
  assumes "0 \<in> set p" and "length (cstr p) < 2 ^ 32 - 1"
  shows "directive_text (0x73 # format) (Va_string p # va) = Some ((format, va), cstr p)"
proof -
  have "length (cstr p) < unat (- 1 :: u32)" using assms(2) by (simp add: unsigned_minus_1_eq_mask mask_eq_exp_minus_1)
  with assms show ?thesis
    by (simp add: directive_text_def parse_width_def parse_precision_def parse_length_def string_text_def
        is_digit_char_def strnlen_s_cstr string_chars_cstr field_def spaces_def flag_defs)
qed

lemma directive_decimal:
  assumes "a \<noteq> 0x80000000"
  shows "directive_text (0x64 # format) (Va_word a # va) = Some ((format, va), decimal_int (sint a))"
proof -
  have "sint a \<noteq> sint (0x80000000 :: u32)" using assms signed_word_eqI [of a "0x80000000"] by blast
  then have range: "- 2147483648 < sint a" "sint a < 2147483648"
    using sint_ge [of a] sint_lt [of a] by simp_all
  define m where "m = (word_of_int \<bar>sint a\<bar> :: u32)"
  have m: "unat m = nat \<bar>sint a\<bar>"
    using range by (simp add: m_def unsigned_of_int take_bit_int_eq_self)
  have "length (digits_in 0 10 (unat m)) \<le> 31"
    using digits_in_length [of 10 "unat m" 30 0] range by (simp add: m)
  then have "fits_buffer 0 0 0 (sign_of (sint a < 0) 0) (digits_of 0 10 m)"
    by (simp add: fits_buffer_def digits_of_def sign_of_def PRINTF_NTOA_BUFFER_SIZE_def)
  with ntoa_standard [of 0 10 0 0 "sint a < 0" m]
  have "ntoa_text m (sint a < 0) 10 0 0 0 = decimal_int (sint a)"
    by (simp add: standard_integer_def sign_of_def digits_of_def digits_in_decimal decimal_int_def spaces_def m)
  moreover have "cint \<bar>sint a\<bar> = Some \<bar>sint a\<bar>" using range by auto
  ultimately have "integer_text 0x64 (Va_word a # va) 0 0 0 = Some (va, decimal_int (sint a))"
    by (simp add: integer_text_def integer_flags_def format_base_def flag_defs signed_value_def m_def
        Let_def cint_def)
  then show ?thesis
    by (simp add: directive_text_def parse_width_def parse_precision_def parse_length_def is_digit_char_def)
qed

text \<open>Eight hexadecimal digits, \<open>%08X\<close>.\<close>

definition hex8 :: "u32 \<Rightarrow> bytes" where
  "hex8 a = (let ds = digits_in (set_bit FLAGS_UPPERCASE 0) 16 (unat a) in replicate (8 - length ds) 0x30 @ ds)"

lemma digits_in_flags:
  "bit f FLAGS_UPPERCASE = bit g FLAGS_UPPERCASE \<Longrightarrow> digits_in f b n = digits_in g b n"
proof (induction n rule: less_induct)
  case (less n)
  then have "digit_char f d = digit_char g d" for d by (simp add: digit_char_def)
  with less show ?case
    by (simp add: digits_in.simps [of f b n] digits_in.simps [of g b n])
qed

lemma directive_hex8: "directive_text (0x30 # 0x38 # 0x58 # format) (Va_word a # va) = Some ((format, va), hex8 a)"
proof -
  define flags :: u32 where "flags = set_bit FLAGS_UPPERCASE (set_bit FLAGS_ZEROPAD 0)"
  have bits: "bit flags n \<longleftrightarrow> n = FLAGS_UPPERCASE \<or> n = FLAGS_ZEROPAD" for n
    by (auto simp: flags_def flag_defs bit_simps)
  have up: "digits_in flags 16 n = digits_in (set_bit FLAGS_UPPERCASE 0) 16 n" for n
    by (rule digits_in_flags) (simp add: flags_def flag_defs bit_simps)
  have "length (digits_in flags 16 (unat a)) \<le> 32"
    using digits_in_length [of 16 "unat a" 31 flags] unat_u32_less [of a] by simp
  then have "fits_buffer flags 8 0 (sign_of False flags) (digits_of flags 16 a)"
    using bits by (simp add: fits_buffer_def digits_of_def sign_of_def PRINTF_NTOA_BUFFER_SIZE_def flag_defs)
  with ntoa_standard [of flags 16 8 0 False a] bits
  have "ntoa_text a False 16 0 8 flags = hex8 a"
    by (simp add: standard_integer_def sign_of_def digits_of_def hex8_def up Let_def flag_defs)
  moreover have "integer_flags 0x58 (set_bit FLAGS_ZEROPAD 0) = flags"
    by (rule bit_word_eqI) (auto simp: integer_flags_def format_base_def flag_defs flags_def bit_simps)
  ultimately have "integer_text 0x58 (Va_word a # va) 0 8 (set_bit FLAGS_ZEROPAD 0) = Some (va, hex8 a)"
    using bits by (simp add: integer_text_def unsigned_value_def format_base_def flag_defs)
  then show ?thesis
    by (simp add: directive_text_def parse_width_def parse_precision_def parse_length_def is_digit_char_def)
qed

text \<open>Everything that a panic shows, up to the reason.\<close>

definition panic_head :: "u32 \<Rightarrow> string \<Rightarrow> int \<Rightarrow> bytes" where
  "panic_head nxt file line =
     cstr (fst (random_error_message nxt)) @ chars ''KERNEL PANIC!\<newline>Where? '' @ chars file @ chars '':''
     @ decimal_int line @ chars ''\<newline>Reason:\<newline>''"

lemma art_terminated: "0 \<in> set (fst (random_error_message nxt))" "length (fst (random_error_message nxt)) < 1000"
  by (simp_all add: random_error_message_def error_art_def Let_def split_def) (simp_all add: literal_def)

lemma cstr_split: "0 \<in> set p \<Longrightarrow> p = cstr p @ 0 # drop (Suc (length (cstr p))) p"
  by (metis Cons_nth_drop_Suc append_take_drop_id cstr_def length_cstr_less nth_length_cstr takeWhile_eq_take)

lemma decimal_int_nonzero: "0 \<notin> set (decimal_int N)"
proof -
  have "0 \<notin> set (decimal n)" for n
  proof (induction n rule: decimal.induct)
    case (1 n)
    have "(of_nat (k + 48) :: u8) \<noteq> 0" if "k < 10" for k
      using that by (simp add: word_of_nat_eq_0_iff del: of_nat_add) presburger
    then show ?case using 1 by (subst decimal.simps) (auto simp del: of_nat_add)
  qed
  then show ?thesis by (simp add: decimal_int_def)
qed

text \<open>A panic shows its head and the text of its format, on any console.\<close>

theorem panic_text:
  assumes "format_text format va = Some cs" and "0 \<notin> set (chars file)" and "length file < 2 ^ 31"
    and "- 2147483648 < line" and "line < 2147483648"
  shows "panic P file line format va (nxt, t) =
    map_option (\<lambda>t. (snd (random_error_message nxt), t))
      (emit (terminal_write_for_char P) (panic_head nxt file line @ cs) t)"
proof -
  have "nat \<bar>line\<bar> < 10 ^ 10" using assms(4,5) by simp
  then have "length (decimal (nat \<bar>line\<bar>)) \<le> 10" by (rule decimal_bounds) simp
  then have dec: "length (decimal_int line) \<le> 11" by (auto simp: decimal_int_def)
  have itoa: "itoa line (replicate 30 0) = Some (decimal_int line @ 0 # replicate (29 - length (decimal_int line)) 0)"
    using itoa_eq [OF assms(4,5), of "replicate 30 0"] dec by (simp add: put_bytes_def)
  have lit: "terminal_writestring P (literal str) = emit (terminal_write_for_char P) (chars str)"
    if "0 \<notin> set (chars str)" "length str < 2 ^ 31" for str
    unfolding literal_chars by (rule ext) (use that in \<open>simp add: writestring_chars\<close>)
  have num: "terminal_writestring P (decimal_int line @ 0 # r) = emit (terminal_write_for_char P) (decimal_int line)" for r
    by (rule ext) (use dec decimal_int_nonzero in \<open>simp add: writestring_chars\<close>)
  obtain art nxt' where art: "random_error_message nxt = (art, nxt')" by (cases "random_error_message nxt")
  have "terminal_writestring P (cstr art @ 0 # r) = emit (terminal_write_for_char P) (cstr art)" for r
    by (rule ext) (use art_terminated [of nxt] length_cstr_less [of art] cstr_nonzero art in \<open>force intro: writestring_chars\<close>)
  then have "terminal_writestring P art = emit (terminal_write_for_char P) (cstr art)"
    using art_terminated(1) [of nxt] art cstr_split [of art] by (metis fst_conv)
  note shown = this lit [OF assms(2,3)] num
  have fixed: "0 \<notin> set (chars ''KERNEL PANIC!\<newline>'')" "0 \<notin> set (chars ''Where? '')" "0 \<notin> set (chars '':'')"
    "0 \<notin> set (chars ''\<newline>'')" "0 \<notin> set (chars ''Reason:\<newline>'')"
    by (simp_all add: chars_def)
  have head: "panic_head nxt file line = cstr art @ chars ''KERNEL PANIC!\<newline>'' @ chars ''Where? '' @ chars file
      @ chars '':'' @ decimal_int line @ chars ''\<newline>'' @ chars ''Reason:\<newline>''"
    by (simp add: panic_head_def art chars_def)
  show ?thesis
    unfolding head
    by (simp add: panic_def art itoa shown lit fixed terminal_printf_text assms(1) emit_append map_conv_bind_option
        comp_def)
qed

text \<open>The reason of an exception.\<close>

definition exception_text :: "regs \<Rightarrow> bytes" where
  "exception_text r =
     chars ''Exception: '' @ chars (exception_messages ! unat (int_no r)) @ chars '' (err code: ''
     @ decimal_int (sint (err_code r)) @ chars '') at EIP: 0x'' @ hex8 (eip r)"

lemma exception_messages_ok:
  assumes "n < 32"
  shows "0 \<notin> set (chars (exception_messages ! n))" and "length (exception_messages ! n) < 100"
proof -
  have "\<forall>m \<in> set exception_messages. 0 \<notin> set (chars m) \<and> length m < 100"
    by (simp add: exception_messages_def chars_def)
  moreover have "exception_messages ! n \<in> set exception_messages"
    using assms by (intro nth_mem) (simp add: exception_messages_def)
  ultimately show "0 \<notin> set (chars (exception_messages ! n))" "length (exception_messages ! n) < 100" by blast+
qed

lemma exception_format:
  assumes "int_no r < 32" and "err_code r \<noteq> 0x80000000"
  shows "format_text (literal ''Exception: %s (err code: %d) at EIP: 0x%08X'')
      [Va_string (literal (exception_messages ! unat (int_no r))), Va_word (err_code r), Va_word (eip r)] =
    Some (exception_text r)"
proof -
  have n: "unat (int_no r) < 32" using assms(1) by (simp add: word_less_nat_alt)
  let ?m = "exception_messages ! unat (int_no r)"
  note m = exception_messages_ok [OF n]
  have msg: "cstr (literal ?m) = chars ?m" "length (cstr (literal ?m)) < 2 ^ 32 - 1"
    using m by (simp_all add: literal_chars)
  have format: "literal ''Exception: %s (err code: %d) at EIP: 0x%08X'' =
      chars ''Exception: '' @ 0x25 # 0x73 # chars '' (err code: '' @ 0x25 # 0x64 # chars '') at EIP: 0x''
        @ [0x25, 0x30, 0x38, 0x58, 0]"
    by (simp add: literal_def chars_def)
  have plain: "0 \<notin> set (chars ''Exception: '')" "0x25 \<notin> set (chars ''Exception: '')"
    "0 \<notin> set (chars '' (err code: '')" "0x25 \<notin> set (chars '' (err code: '')"
    "0 \<notin> set (chars '') at EIP: 0x'')" "0x25 \<notin> set (chars '') at EIP: 0x'')"
    by (simp_all add: chars_def)
  show ?thesis
    unfolding format exception_text_def
    by (simp add: format_text_plain plain directive_string [OF _ msg(2)] msg(1)
        directive_decimal [OF assms(2)] directive_hex8)
qed

theorem exception_panic_shows:
  assumes "int_no r < 32" and "err_code r \<noteq> 0x80000000" and "console_ok t" and "uart_ready P"
    and "0 \<notin> set (chars file)" and "length file < 2 ^ 31" and "- 2147483648 < line" and "line < 2147483648"
  shows "\<exists>h. exception_panic P file line r (nxt, t) = Some (snd (random_error_message nxt),
    (fold type_char (panic_head nxt file line @ exception_text r) t)\<lparr>hw := h\<rparr>)"
  unfolding exception_panic_def panic_text [OF exception_format [OF assms(1,2)] assms(5-8)]
  using emit_write_eq [OF assms(4,3), of "panic_head nxt file line @ exception_text r"] by auto

end
