(* ===== verification/Spec2Isabelle.thy ===== *)
theory Spec2Isabelle
  imports Demo_Calls Panic
begin

text \<open>
  LineKernel: a verification library.

  \<^bold>\<open>The program.\<close> LineKernel is a small kernel in C. On i386 the boot loader enters
  \<open>multiboot_pre_main\<close> (\<open>x86/prekernel.c\<close>), which copies and parses the command line (\<open>drive=\<close>,
  \<open>fs=\<close>) and calls \<open>kernel_main\<close> (\<open>kernel/LineKernel.c\<close>). That initialises the terminal (a VGA text
  screen and a serial line behind \<open>kernel/LineRenderer.c\<close>), the heap, the descriptor tables, the
  interrupt controllers and the timer, the keyboard, and the floppy drive, looks for a FAT12 file
  system, and then echoes characters for ever. Programs reach it through 17 system calls
  (\<open>kernel/syscall.c\<close>): the terminal, the files, the heap. A file call passes the guard of
  \<open>kernel/LineFilesystem.c\<close>, is carried out by \<open>kernel/fat12.c\<close>, which reads and writes sectors through
  \<open>kernel/LineDrive.c\<close>, and this calls \<open>i386/floppy.c\<close>, which programs the DMA channel and the
  controller through ports and waits for its interrupt. On RISC-V the console is the firmware.

  \<^bold>\<open>How C is modelled.\<close> Integers keep their width: \<open>u8\<close>, \<open>u16\<close>, \<open>u32\<close> (theory \<open>Prelude\<close>) wrap, \<open>size_t\<close> and
  pointers are 32 bits. A signed \<open>int\<close> is an integer, and \<open>cint\<close> checks the result of arithmetic that could
  overflow. A function that can go wrong has a result of type \<open>'a option\<close>: \<open>None\<close> is undefined behaviour
  (an access outside an object, a signed overflow), a panic, or a loop that does not end. So a
  property with \<open>= Some \<dots>\<close> says that the code returns. The globals are fields of records: \<open>fat12_state\<close> (the
  statics of \<open>fat12.c\<close>, the global \<open>drive\<close>, the state of the drive below as the field \<open>dev\<close>), \<open>terminal\<close>, \<open>heap\<close>,
  \<open>driver\<close> (tables, tick counter, interrupt flag and the machine), and \<open>kernel\<close>, which holds them. A pointer
  argument is the object it points to, and an output buffer is returned changed.
  Hardware is a parameter: \<open>port_ops\<close> for the console ports, \<open>machine\<close> for the ports, interrupts and DMA
  memory that the floppy driver sees (the two share no state), \<open>symbols\<close> for the addresses that the linker and the assembly provide,
  \<open>floppy_ops\<close> for what the drive layer calls, \<open>ecall\<close> for the firmware of RISC-V.

  \<^bold>\<open>Loops.\<close> Recursion over data is \<open>fun\<close>; a loop over a disk that may be damaged, or over hardware
  that may not answer, is \<open>partial_function (option)\<close>, and its end is proved where it is claimed.
  The polls of the floppy controller count down from the constant of the code, 100000. The waits for
  the clock end by the measure of \<open>steady_clock\<close>: between two ticks a machine answers finitely many times. Conversions of
  \<open>printf\<close> have the 32 characters of the code's buffer, and what does not fit is cut as it is there.

  \<^bold>\<open>Strings, heap, random numbers.\<close> \<open>Str\<close> and \<open>Str_Mem\<close> hold \<open>kernel/str.c\<close>, \<open>strlcpy\<close> and \<open>strcmp\<close>, each equal to its
  meaning on lists. \<open>Memory\<close> is \<open>kernel/LineMemory.c\<close>: block headers as a map from addresses, the invariant
  \<open>heap_inv\<close> says that the blocks tile the range, that the list of free blocks is doubly linked and
  that its members carry the mark; \<open>kmalloc\<close> and \<open>kfree\<close> keep it and change the set of allocated blocks by one.
  \<open>LineRandom\<close> is \<open>kernel/LineRandom.c\<close>.

  \<^bold>\<open>Terminal.\<close> \<open>Console\<close> has the port accesses, \<open>i386/vga_console.c\<close> and \<open>x86/serial.c\<close>; \<open>Renderer\<close> has \<open>LineRenderer.c\<close>,
  \<open>LineColor.c\<close>, \<open>LineInput.c\<close> and the keyboard. \<open>console_ok\<close> is the invariant of the screen and \<open>type_char\<close> what one
  character does to it; \<open>uart_ready\<close> says that the serial line becomes ready again. \<open>Riscv\<close> has the same files
  in the build for RISC-V with \<open>riscv64/sbi.c\<close> and \<open>power.c\<close>; \<open>sbi_console\<close> is the documented behaviour of the
  legacy console calls. \<open>Colors\<close> has the colours: each can be set, and both consoles show it. \<open>Printf\<close>, \<open>Printf_Text\<close> and \<open>Printf_Integers\<close> are \<open>third-party/printf.c\<close>: the output function is a
  parameter as in the code, every format denotes a text, and the integer conversions agree with the
  standard. \<open>Panic\<close> has \<open>kernel/panic.c\<close>, \<open>stack_chk.c\<close>, \<open>x86/power.c\<close> and the report of an exception.

  \<^bold>\<open>The file system.\<close> \<open>Drive\<close> is the drive layer and the ideal drive, a function from sector numbers to
  sectors. \<open>Cluster_Table\<close> holds two interfaces: a \<open>byte_store\<close> and, over it, a \<open>cluster_table\<close> of 12-bit entries;
  \<open>Fat12_Table\<close> interprets them on the table of \<open>fat12.c\<close>. \<open>Fat12_Layout\<close>, \<open>Fat12_Dir\<close>, \<open>Fat12_Path\<close>, \<open>Fat12_File\<close>, \<open>Fat12_Write\<close> and \<open>Fat12_Ops\<close>
  follow \<open>fat12.c\<close> from the boot sector to the system calls. The abstraction is a tree, a map from the first cluster of a
  directory to the list of its entries; \<open>volume s T\<close> says that the disk of \<open>s\<close> holds the tree \<open>T\<close>. \<open>Fat12_Scan\<close>,
  \<open>Fat12_Tree\<close> and \<open>Fat12_Volume\<close> show that the scans, the path walks and the stores are lookups and updates of the tree.
  \<open>Fat12_Data\<close> is reading; \<open>Fat12_Clusters\<close>, \<open>Fat12_Append\<close>, \<open>Fat12_Stores\<close>, \<open>Fat12_Write_Correct\<close> and \<open>Fat12_Write_Loop\<close> are writing, which grows
  the chain of a file; \<open>Fat12_Session\<close>, \<open>Fat12_Roundtrip\<close>, \<open>Fat12_List\<close>, \<open>Fat12_Remove\<close>, \<open>Fat12_Rename\<close> and \<open>Fat12_Makedir\<close> are
  the operations as they are used one after the other. These properties are over the ideal drive, and
  need a volume. \<open>Fat12_Types\<close> needs neither: the interface \<open>typed_driver\<close>, interpreted on the ideal
  drive and on the floppy driver, keeps the sizes of all tables, buffers and strings on any disk.

  \<^bold>\<open>Below the file system.\<close> \<open>Interrupts\<close> has \<open>i386/gdt.c\<close>, \<open>idt.c\<close>, the programming of the timer and the dispatch of interrupts, \<open>Timer\<close>
  the waits, \<open>Floppy\<close> has \<open>i386/dma.c\<close> and \<open>i386/floppy.c\<close>. \<open>Floppy_Live\<close> shows that the driver returns on every machine
  whose clock ticks. \<open>Floppy_Controller\<close> is a controller after its data sheet with its DMA channel; how a board is built is a parameter
  \<open>board\<close>: whether a command needs the motor, and which transfers the channel makes under a mode byte. On the
  \<open>documented_board\<close> the mode bits of the 8237 name the direction; on the \<open>obliging_board\<close> the channel follows the controller. \<open>Floppy_Refines\<close>
  shows when a sector is read or written, for every board. The driver programs the two modes the wrong way round
  (\<open>floppy.c\<close>, line 172), so on the documented board it moves nothing, the kernel starts without a drive and every file call
  returns -32; on a board that accepts these modes it is a disk of 2880 sectors.
  \<open>Driver_Refinement\<close> has the interfaces \<open>driver_refinement\<close> and \<open>sector_driver\<close>: whatever the file system does on the ideal drive it does on
  a driver that serves the same sectors; \<open>Floppy_Files\<close> interprets them, for a board that makes the transfers, so the properties of the file system
  carry over, and for one that refuses them, where the driver refines \<open>failing_floppy\<close>. \<open>Pic\<close> has the pair of 8259 interrupt controllers and shows that
  any sequence of interrupts is delivered, handled and ended.

  \<^bold>\<open>The kernel.\<close> \<open>Filesystem\<close> is \<open>LineFilesystem.c\<close>, \<open>Kernel\<close> the command line, the drive part of the start, the turn of the
  main loop and the functions of the system calls, \<open>Boot\<close> the whole start. \<open>Syscalls\<close> has the table and the dispatch by number
  and makes the kernel a transition system; the invariant of its reachable states joins those of the components.
  \<open>Sessions\<close> has the wrapper \<open>syscall3\<close> of programs: a session of file requests is one of the operations of \<open>fat12.c\<close>,
  and after the start from a floppy disk it is one on the image of that disk, down to the controller.
  \<open>Config_Tools\<close> has the two programs under \<open>tools/\<close> that the build runs.
  The theories \<open>Demo_\<dots>\<close> hold a small volume, heap, kernel, controller, firmware and configuration on which the
  hypotheses of the properties hold.

  \<^bold>\<open>What the properties show.\<close> The first ones are about files on a volume: what each call returns on every branch, what it does to the tree, the table and the
  contents, and that it ends. Then come paths, names and the cluster table; the start, the driver, the
  waits, what the floppy driver refines on which board, and the interrupts; heap, console, command line, system calls and the way from the start
  to the files; formatted output and panic; the invariant of the kernel, the RISC-V port and the
  tools. Where a property has hypotheses, a theorem of the same name with \<open>_witness\<close> applies it to a concrete case.

  \<^bold>\<open>Not modelled.\<close> The assembly entries (\<open>boot.s\<close>, \<open>interrupts.s\<close>, the saving of registers in \<open>syscall.s\<close>), so the sequence of
  interrupts during C code is seen only where the code waits for one; \<open>printf\<close> calls of the drivers and the file system write to
  the log \<open>klog\<close> and not to the terminal, while theory \<open>Panic\<close> has \<open>printf\<close> on the terminal; floating point and
  \<open>long long\<close> conversions, which the build leaves out; \<open>outw\<close> and \<open>insl\<close>, which are not called; the x86_64 port, which
  has only assembly of its own; the structures of \<open>multiboot.h\<close> other than the flags and the command line. Spurious interrupts and the nesting
  of interrupts, which the gates exclude. What a floppy controller does when the channel moves bytes the other way is
  not in its data sheet: the model ends the command with an overrun, and no byte moves.
\<close>
section \<open>The volume under the operations on files\<close>

text \<open>C1: Opening a path that does not exist creates the file. On a volume with the tree \<open>T\<close>,
  when the parent directory exists and has room, \<open>fat12_open\<close> returns the lowest free file number,
  leaves a volume whose tree has one new entry, of size 0 and without a cluster, at the first
  free slot of that directory, makes the path resolve to it, and opens it. The first byte of the
  name must not be E5, which marks a deleted entry.\<close>

theorem open_creates_file:
  assumes "volume s T" and "0 \<notin> set fn" and "lowest_free (open_files s) k"
    and "lookup_path T (split_path fn) = None"
    and "parent_of_path T (split_path fn) = Some (dc, nm, ex)" and "T dc = Some es"
    and "length es < 2147483647" and "has_room s dc es" and "nm ! 0 \<noteq> 0xE5"
  shows "\<exists>t. fat12_open ideal_floppy fn s = Some (int k + 3, t)
    \<and> volume t (T(dc \<mapsto> insert_entry (make_entry nm ex 0 0 0) es))
    \<and> lookup_path (T(dc \<mapsto> insert_entry (make_entry nm ex 0 0 0) es)) (split_path fn) =
        Some (make_entry nm ex 0 0 0, of_nat (slot_index 0 es), dc)
    \<and> open_files t = (open_files s)[k := \<lparr>of_used = True, of_path = strlcpy_str fn 256,
        of_first_cluster = 0, of_current_cluster = 0, of_cursor = 0, of_file_size = 0,
        of_parent_cluster = dc, of_entry_idx = of_nat (slot_index 0 es)\<rparr>]"
  by (rule open_creates [OF assms])

theorem open_creates_file_witness:
  "\<exists>t. fat12_open ideal_floppy (chars ''/NEW.C'') demo = Some (3, t)
    \<and> volume t (demo_tree(0 \<mapsto> [demo_a, demo_d, make_entry (chars ''NEW     '') (chars ''C  '') 0 0 0]))"
  using open_creates_file [OF demo_volume demo_path_ok(2) demo_lowest demo_new(1,2) demo_root _ demo_room demo_new(3)]
  by (auto simp: demo_insert)

text \<open>C2: A new file holds what is written to it. On a volume with enough free clusters, opening a path
  that does not exist, writing \<open>n\<close> bytes, closing the file, opening it again and reading \<open>n\<close> bytes
  all succeed, and the read delivers exactly
  the bytes that were written. The first byte of the name must not be E5, the mark of a deleted entry.\<close>

theorem new_file_round_trip:
  assumes "volume s T" and "dirs_marked s T" and "0 \<notin> set fn" and "length (open_files s) = 256"
    and "lowest_free (open_files s) k" and "lookup_path T (split_path fn) = None"
    and "parent_of_path T (split_path fn) = Some (dc, nm, ex)" and "T dc = Some es"
    and "length es < 2147483647" and "has_room s dc es" and "nm ! 0 \<noteq> 0xE5"
    and "unat nbyte < 2147483648" and "unat nbyte \<le> length buf" and "unat nbyte \<le> length dest"
    and "unat nbyte \<le> card (free_clusters s) * unat (cluster_bytes (fat12_geom s))"
  shows "\<exists>t u v w x. fat12_open ideal_floppy fn s = Some (int k + 3, t)
    \<and> fat12_write ideal_floppy (int k + 3) buf nbyte t = Some (int (unat nbyte), u)
    \<and> fat12_close (int k + 3) u = Some (0, v)
    \<and> fat12_open ideal_floppy fn v = Some (int k + 3, w)
    \<and> fat12_read ideal_floppy (int k + 3) dest nbyte w =
        Some ((int (unat nbyte), put_bytes dest 0 (take (unat nbyte) buf)), x)"
  by (rule create_write_read [OF assms])

theorem new_file_round_trip_witness:
  "\<exists>t u v w x. fat12_open ideal_floppy (chars ''/NEW.C'') demo = Some (int 0 + 3, t)
    \<and> fat12_write ideal_floppy (int 0 + 3) [7, 8, 9] 2 t = Some (2, u)
    \<and> fat12_close (int 0 + 3) u = Some (0, v)
    \<and> fat12_open ideal_floppy (chars ''/NEW.C'') v = Some (int 0 + 3, w)
    \<and> fat12_read ideal_floppy (int 0 + 3) [0, 0, 0] 2 w = Some ((2, [7, 8, 0]), x)"
  using new_file_round_trip [OF demo_volume demo_marked demo_path_ok(2) _ demo_lowest demo_new(1,2) demo_root
      _ demo_room demo_new(3), of 2 "[7, 8, 9]" "[0, 0, 0]"] demo_free_card demo_cluster_bytes
  by (simp add: put_bytes_def)

text \<open>C3: Writing to an open file. When the free clusters suffice, \<open>fat12_write\<close> returns the
  number of bytes, the bytes of the file are the old ones with the buffer stored at the cursor (the
  file grows where the cursor passes its end), the cursor is behind them, the directory entry holds
  the new size and first cluster, and every other file keeps its clusters and contents.\<close>

theorem write_stores_bytes:
  assumes "open_at s T i ks" and "unat nbyte < 2147483648" and "unat nbyte \<le> length buf"
    and "unat (of_cursor (open_files s ! i)) + unat nbyte < 4294967296"
    and "unat (of_cursor (open_files s ! i)) + unat nbyte \<le>
      (length ks + card (free_clusters s)) * unat (cluster_bytes (fat12_geom s))"
  shows "\<exists>t ks'. fat12_write ideal_floppy (int i + 3) buf nbyte s = Some (int (unat nbyte), t)
    \<and> file_bytes t i ks' =
        put_bytes (file_bytes s i ks) (unat (of_cursor (open_files s ! i))) (take (unat nbyte) buf)
    \<and> unat (of_cursor (open_files t ! i)) = unat (of_cursor (open_files s ! i)) + unat nbyte
    \<and> open_at t (sync_entry T (open_files t ! i)) i ks'
    \<and> (\<forall>c ls. own_chain s T c ls \<longrightarrow> set ls \<inter> set ks = {} \<longrightarrow>
         own_chain t T c ls \<and> file_content t ls = file_content s ls)"
  using fat12_write_ideal [OF assms] assms(3) unfolding written_def grown_def by fastforce

theorem write_stores_bytes_witness:
  "\<exists>t ks. fat12_write ideal_floppy 3 [1, 2, 3] 3 demo_open = Some (3, t)
    \<and> take 4 (file_bytes t 0 ks) = [1, 2, 3, 0x41] \<and> unat (of_cursor (open_files t ! 0)) = 3"
proof -
  have b: "file_bytes demo_open 0 [2, 3] = replicate 512 0x41 @ replicate 88 0x42"
    unfolding file_bytes_def demo_content demo_open_file by (simp add: take_append)
  have f: "fat12_geom demo_open = demo_geom" by (rule demo_open_ready(2))
  obtain t ks where t: "fat12_write ideal_floppy (int 0 + 3) [1, 2, 3] 3 demo_open = Some (int 3, t)"
    "file_bytes t 0 ks = put_bytes (file_bytes demo_open 0 [2, 3]) 0 [1, 2, 3]"
    "unat (of_cursor (open_files t ! 0)) = 0 + 3"
    using write_stores_bytes [OF demo_open_at, of 3 "[1, 2, 3]"] demo_cluster_bytes
    by (auto simp: demo_open_file f)
  have "take 4 (put_bytes (replicate 512 0x41 @ replicate 88 0x42) 0 [1, 2, 3]) = [1, 2, 3, 0x41 :: u8]"
    by (simp add: put_bytes_def eval_nat_numeral)
  then have "take 4 (file_bytes t 0 ks) = [1, 2, 3, 0x41]" unfolding t(2) b .
  then show ?thesis using t(1,3) by auto
qed

text \<open>C4: Removing a file. A path that is not there and a directory give -9, a file that is open gives
  -11, and nothing is written. Otherwise, when its chain lies inside the table and avoids the directories,
  the entry is marked deleted in the tree, every cluster of
  its chain becomes free and no other entry of the table changes; the rest of the tree and the open
  files stay.\<close>

theorem removefile_outcomes:
  assumes "volume s T" and "0 \<notin> set fn"
  shows "case lookup_path T (split_path fn) of
      None \<Rightarrow> fat12_removefile ideal_floppy fn s = Some (-9, s)
    | Some (e, idx, dc) \<Rightarrow>
        if is_dir e then fat12_removefile ideal_floppy fn s = Some (-9, s)
        else if list_ex (file_in_use fn e) (open_files s) then fat12_removefile ideal_floppy fn s = Some (-11, s)
        else (\<forall>ks. file_chain s (start_cluster e) ks \<longrightarrow> (\<forall>k \<in> set ks. in_fat s k) \<longrightarrow> dirs_avoid s T (set ks) \<longrightarrow>
          (\<exists>t es j. fat12_removefile ideal_floppy fn s = Some (0, t)
            \<and> T dc = Some es \<and> j < length es \<and> e = es ! j
            \<and> volume t (T(dc \<mapsto> es[j := mark_deleted e])) \<and> open_files t = open_files s
            \<and> (\<forall>k. in_fat s k \<longrightarrow> fat_entry t k = (if k \<in> set ks then 0 else fat_entry s k))))"
proof (cases "lookup_path T (split_path fn)")
  case None
  then show ?thesis using fat12_removefile_errors [OF assms] by simp
next
  case (Some r)
  then obtain e idx dc where r: "lookup_path T (split_path fn) = Some (e, idx, dc)" by (cases r) auto
  show ?thesis
    using fat12_removefile_errors [OF assms] fat12_removefile_ideal [OF assms r]
    by (auto simp: r list_ex_iff)
qed

theorem removefile_outcomes_witness:
  "fat12_removefile ideal_floppy (chars ''/X/Y'') demo = Some (-9, demo)
    \<and> fat12_removefile ideal_floppy (chars ''/D'') demo = Some (-9, demo)
    \<and> fat12_removefile ideal_floppy (chars ''/A.TXT'') demo_open = Some (-11, demo_open)
    \<and> (\<exists>t. fat12_removefile ideal_floppy (chars ''/A.TXT'') demo = Some (0, t) \<and> fat_entry t 2 = 0 \<and> fat_entry t 3 = 0)"
proof -
  have "\<not> list_ex (file_in_use (chars ''/A.TXT'') demo_a) (open_files demo)"
    using demo_unused by (simp add: list_ex_iff)
  then have "\<exists>t. fat12_removefile ideal_floppy (chars ''/A.TXT'') demo = Some (0, t)
      \<and> (\<forall>k. in_fat demo k \<longrightarrow> fat_entry t k = (if k \<in> set [2, 3] then 0 else fat_entry demo k))"
    using removefile_outcomes [OF demo_volume demo_path_ok(1)] demo_file_chain demo_file_in_fat demo_avoid
    by (auto simp: demo_find demo_is_dir)
  then have "\<exists>t. fat12_removefile ideal_floppy (chars ''/A.TXT'') demo = Some (0, t) \<and> fat_entry t 2 = 0 \<and> fat_entry t 3 = 0"
    using demo_in_fat [of 2] demo_in_fat [of 3] by auto
  then show ?thesis
    using removefile_outcomes [OF demo_volume demo_path_ok(4)] removefile_outcomes [OF demo_volume demo_path_ok(3)]
      removefile_outcomes [OF demo_open_volume demo_path_ok(1)]
    by (simp add: demo_find demo_is_dir demo_in_use)
qed

text \<open>C5: Reading an open file delivers the bytes of its contents at the cursor: as many as are
  asked for, as long as they are before the end of the file and in its clusters. They go to the
  start of the buffer, the rest of the buffer stays, the cursor advances by their number, and
  nothing else changes. The loop ends.\<close>

theorem read_delivers_content:
  assumes "fat_ready s" and "sectors_per_cluster (fat12_geom s) \<noteq> 0"
    and "length (open_files s) = 256" and "i < 256" and "of_used (open_files s ! i)"
    and "file_chain s (of_first_cluster (open_files s ! i)) ks"
    and "unat count < 2147483648" and "unat count \<le> length buf"
    and "n = read_length (unat count) (unat (of_cursor (open_files s ! i)))
               (unat (of_file_size (open_files s ! i))) (length (file_content s ks))"
  shows "fat12_read ideal_floppy (int i + 3) buf count s =
    Some ((int n, put_bytes buf 0 (sub_bytes (file_content s ks) (unat (of_cursor (open_files s ! i))) n)),
      upd_file i (\<lambda>f. f\<lparr>of_cursor := of_cursor f + of_nat n\<rparr>) s)"
  using fat12_read_ideal [OF assms(1-8)] assms(9) by (simp add: read_effect_def Let_def)

theorem read_delivers_content_witness:
  "fat12_read ideal_floppy (int 0 + 3) (replicate 4 0) 4 demo_open =
    Some ((int 4, put_bytes (replicate 4 0) 0 (replicate 4 0x41)),
      upd_file 0 (\<lambda>f. f\<lparr>of_cursor := of_cursor f + of_nat 4\<rparr>) demo_open)"
proof -
  have n: "4 = read_length (unat (4 :: u32)) (unat (of_cursor (open_files demo_open ! 0)))
      (unat (of_file_size (open_files demo_open ! 0))) (length (file_content demo_open [2, 3]))"
    unfolding demo_content demo_open_file by (simp add: read_length_def)
  have c: "sub_bytes (file_content demo_open [2, 3]) (unat (of_cursor (open_files demo_open ! 0))) 4 =
      replicate 4 0x41"
    unfolding demo_content demo_open_file by (simp add: sub_bytes_def take_append)
  have "sectors_per_cluster (fat12_geom demo_open) \<noteq> 0" by (simp add: demo_open_ready demo_geom_def)
  moreover have "of_used (open_files demo_open ! 0)" by (simp add: demo_open_file)
  ultimately have "fat12_read ideal_floppy (int 0 + 3) (replicate 4 0) 4 demo_open =
    Some ((int 4, put_bytes (replicate 4 0) 0
        (sub_bytes (file_content demo_open [2, 3]) (unat (of_cursor (open_files demo_open ! 0))) 4)),
      upd_file 0 (\<lambda>f. f\<lparr>of_cursor := of_cursor f + of_nat 4\<rparr>) demo_open)"
    by (intro read_delivers_content [OF demo_open_ready(1) _ demo_open_file(2) _ _ demo_open_chain _ _ n])
      simp_all
  then show ?thesis unfolding c .
qed

text \<open>C6: Opening a path, when nothing is created. With all file numbers in use the result is -1. Otherwise
  an existing file gets the lowest free number and its entry in the table of open files is filled
  from the directory, a directory gives -1, and a path whose parent is not there gives -9. The
  disk is not written.\<close>

theorem open_outcomes:
  assumes "volume s T" and "0 \<notin> set fn"
  shows "((\<forall>f \<in> set (open_files s). of_used f) \<longrightarrow> fat12_open ideal_floppy fn s = Some (-1, s))
    \<and> (lowest_free (open_files s) k \<longrightarrow>
        (case lookup_path T (split_path fn) of
           Some (e, idx, dc) \<Rightarrow> fat12_open ideal_floppy fn s =
             Some (if is_dir e then (-1, s) else (int k + 3, install_file k fn e dc idx s))
         | None \<Rightarrow> parent_of_path T (split_path fn) = None \<longrightarrow> fat12_open ideal_floppy fn s = Some (-9, s)))"
  using fat12_open_none_free [of s ideal_floppy fn] fat12_open_no_parent [OF assms]
    fat12_open_existing [OF assms] by (auto split: option.split)

theorem open_outcomes_witness:
  "fat12_open ideal_floppy (chars ''/A.TXT'') demo = Some (3, install_file 0 (chars ''/A.TXT'') demo_a 0 0 demo)
    \<and> fat12_open ideal_floppy (chars ''/D'') demo = Some (-1, demo)
    \<and> fat12_open ideal_floppy (chars ''/X/Y'') demo = Some (-9, demo)
    \<and> fat12_open ideal_floppy (chars ''/D'') demo_full = Some (-1, demo_full)"
  using open_outcomes [OF demo_volume demo_path_ok(1), of 0] open_outcomes [OF demo_volume demo_path_ok(3), of 0]
    open_outcomes [OF demo_volume demo_path_ok(4), of 0] open_outcomes [OF demo_full_volume demo_path_ok(3)]
    demo_lowest demo_find demo_is_dir demo_full_used by simp


section \<open>The volume under the operations on directories\<close>

text \<open>C7: Making a directory. When a cluster is free and the parent directory has room, the first free
  cluster becomes a directory with the entries \<open>.\<close> and \<open>..\<close>, the tree gets this node and an entry for
  it at the first free slot of the parent, the path resolves to it, and no other entry of the table
  changes. The volume is one again, with every directory in marked clusters. The first byte of the
  name must not be E5, the mark of a deleted entry.\<close>

theorem makedir_adds_directory:
  assumes "volume s T" and "dirs_marked s T" and "0 \<notin> set path" and "lookup_path T (split_path path) = None"
    and "parent_of_path T (split_path path) = Some (dc, nm, ex)" and "T dc = Some es"
    and "length es < 2147483647" and "has_room s dc es" and "free_clusters s \<noteq> {}" and "nm ! 0 \<noteq> 0xE5"
  shows "\<exists>t k. k \<in> free_clusters s \<and> T (of_nat k) = None
    \<and> fat12_makedir ideal_floppy path s = Some (0, t)
    \<and> volume t (made_dir T (of_nat k) dc nm ex) \<and> dirs_marked t (made_dir T (of_nat k) dc nm ex)
    \<and> lookup_path (made_dir T (of_nat k) dc nm ex) (split_path path) =
        Some (make_entry nm ex 0x10 (of_nat k) 0, of_nat (slot_index 0 es), dc)
    \<and> open_files t = open_files s
    \<and> (\<forall>j. in_fat s j \<longrightarrow> fat_entry t j = (if j = k then 0x0FFF else fat_entry s j))"
  by (rule fat12_makedir_ideal [OF assms])

theorem makedir_adds_directory_witness:
  "\<exists>t k. k \<in> free_clusters demo \<and> fat12_makedir ideal_floppy (chars ''/E'') demo = Some (0, t)
    \<and> fat_entry t k = 0x0FFF \<and> fat_entry t 2 = 3
    \<and> volume t (made_dir demo_tree (of_nat k) 0 (chars ''E       '') (chars ''   ''))"
proof -
  obtain t k where t: "k \<in> free_clusters demo" "fat12_makedir ideal_floppy (chars ''/E'') demo = Some (0, t)"
      "volume t (made_dir demo_tree (of_nat k) 0 (chars ''E       '') (chars ''   ''))"
    and f: "\<forall>j. in_fat demo j \<longrightarrow> fat_entry t j = (if j = k then 0x0FFF else fat_entry demo j)"
    using makedir_adds_directory [OF demo_volume demo_marked demo_path_dir(1) demo_parent_dir(2,1) demo_root _
        demo_room demo_free demo_name_dir] by auto
  have "k \<noteq> 2" using t(1) demo_table by (auto simp: free_clusters_def)
  moreover have "in_fat demo k" using t(1) by (simp add: free_clusters_def)
  ultimately have "fat_entry t k = 0x0FFF \<and> fat_entry t 2 = 3" using f demo_in_fat [of 2] demo_table by simp
  with t show ?thesis by blast
qed

text \<open>C8: Removing a directory. One with a visible entry besides its dot entries is kept: the result is
  -11 and nothing is written. An empty one is removed when its entry is the only one that leads to it
  and its clusters are its own: the result is 0, its clusters are free, its entry is deleted, and the
  rest of the tree, which no longer has it as a node, is a volume.\<close>

theorem removedir_only_empty:
  assumes "volume s T" and "0 \<notin> set path" and "lookup_path T (split_path path) = Some (e, idx, dc)"
    and "is_dir e" and "start_cluster e = d" and "T d = Some ds"
  shows "(\<not> list_all hidden_entry ds \<longrightarrow> fat12_removedir ideal_floppy path s = Some (-11, s))
    \<and> (list_all hidden_entry ds \<longrightarrow> d \<noteq> 0 \<longrightarrow> dc \<noteq> d \<longrightarrow> only_entry T d dc (unat idx) \<longrightarrow>
        fat_chain (fat_entry s) (unat d) ks \<longrightarrow> (\<forall>k \<in> set ks. in_fat s k) \<longrightarrow>
        dirs_avoid s (T(d := None)) (set ks) \<longrightarrow>
        (\<exists>t es j. fat12_removedir ideal_floppy path s = Some (0, t)
          \<and> T dc = Some es \<and> j < length es \<and> e = es ! j
          \<and> volume t (T(d := None, dc \<mapsto> es[j := mark_deleted e])) \<and> open_files t = open_files s
          \<and> (\<forall>k. in_fat s k \<longrightarrow> fat_entry t k = (if k \<in> set ks then 0 else fat_entry s k))))"
  using fat12_removedir_not_empty [OF assms(1-4)] assms(5,6) fat12_removedir_ideal [OF assms] by simp

theorem removedir_only_empty_witness:
  "fat12_removedir ideal_floppy (chars ''/D'') demo = Some (-11, demo)
    \<and> (\<exists>t. fat12_removedir ideal_floppy (chars ''/D'') demo_bare = Some (0, t) \<and> fat_entry t 4 = 0)"
proof
  show "fat12_removedir ideal_floppy (chars ''/D'') demo = Some (-11, demo)"
    using removedir_only_empty [OF demo_volume demo_path_ok(3) demo_find(2) demo_is_dir(2) demo_start(2) demo_sub]
      demo_visible by simp
  have "in_fat demo_bare 4" using demo_bare_in_fat by simp
  then show "\<exists>t. fat12_removedir ideal_floppy (chars ''/D'') demo_bare = Some (0, t) \<and> fat_entry t 4 = 0"
    using removedir_only_empty [OF demo_bare_volume demo_path_ok(3) demo_bare_find demo_is_dir(2) demo_start(2)
        demo_bare_dirs(1), of "[4]"] demo_bare_hidden demo_bare_only demo_bare_chain demo_bare_in_fat demo_bare_avoid
    by auto
qed

text \<open>C9: Renaming. The new path gets an entry with the attributes, the first cluster and the size of the
  old one, the second entry of a moved directory leads to the new parent, the old entry is deleted and
  no cluster moves, so the contents stay. A file is found under its new path, unless the first byte of the
  new name is E5, the mark of a deleted entry. The open files change
  only in their paths: one that was open before still names the slot of the deleted entry.\<close>

theorem rename_moves_entry:
  assumes "volume s T" and "0 \<notin> set oldpath" and "0 \<notin> set newpath"
    and "lookup_path T (split_path oldpath) = Some (e, i, dc)"
    and "lookup_path T (split_path newpath) = None"
    and "parent_of_path T (split_path newpath) = Some (dc', nm, ex)"
    and "length (the (T dc')) < 2147483647" and "has_room s dc' (the (T dc'))"
    and "is_dir e \<Longrightarrow> 2 \<le> start_cluster e \<Longrightarrow> 2 \<le> length (the (T (start_cluster e)))"
  shows "(\<exists>t. fat12_rename ideal_floppy oldpath newpath s = Some (0, t)
      \<and> volume t (rename_tree T e dc (unat i) dc' nm ex)
      \<and> open_files t = rename_open_files oldpath newpath (open_files s)
      \<and> (\<forall>k. in_fat s k \<longrightarrow> fat_entry t k = fat_entry s k))
    \<and> (\<not> is_dir e \<longrightarrow> nm ! 0 \<noteq> 0xE5 \<longrightarrow>
        lookup_path (rename_tree T e dc (unat i) dc' nm ex) (split_path newpath) =
          Some (renamed_entry e nm ex, of_nat (slot_index 0 (the (T dc'))), dc'))"
  using fat12_rename_ideal [OF assms] renamed_file_found [OF assms(1,3,4) _ assms(5-7)] by blast

theorem rename_moves_entry_witness:
  "\<exists>t. fat12_rename ideal_floppy (chars ''/A.TXT'') (chars ''/NEW.C'') demo_open = Some (0, t)
    \<and> of_path (open_files t ! 0) = chars ''/NEW.C'' \<and> of_entry_idx (open_files t ! 0) = 0
    \<and> lookup_path (rename_tree demo_tree demo_a 0 0 0 (chars ''NEW     '') (chars ''C  '')) (split_path (chars ''/NEW.C''))
        = Some (make_entry (chars ''NEW     '') (chars ''C  '') 0 2 600, 2, 0)"
proof -
  have room: "has_room demo_open 0 (the (demo_tree 0))"
    using demo_room demo_root same_diskD(7) [OF demo_same_disk] by (simp add: has_room_def)
  obtain t where t: "fat12_rename ideal_floppy (chars ''/A.TXT'') (chars ''/NEW.C'') demo_open = Some (0, t)"
      "open_files t = rename_open_files (chars ''/A.TXT'') (chars ''/NEW.C'') (open_files demo_open)"
    and l: "lookup_path (rename_tree demo_tree demo_a 0 0 0 (chars ''NEW     '') (chars ''C  '')) (split_path (chars ''/NEW.C''))
        = Some (renamed_entry demo_a (chars ''NEW     '') (chars ''C  ''), of_nat (slot_index 0 [demo_a, demo_d]), 0)"
    using rename_moves_entry [OF demo_open_volume demo_path_ok(1,2) demo_find(1) demo_new(1,2)] room demo_new(3)
      demo_is_dir(1) demo_root by auto
  have "slot_index 0 [demo_a, demo_d] = 2" by code_simp
  moreover have "cstr (chars ''/A.TXT'') = chars ''/A.TXT''" "strlcpy_str (chars ''/NEW.C'') 256 = chars ''/NEW.C''"
    by code_simp+
  then have "of_path (open_files t ! 0) = chars ''/NEW.C'' \<and> of_entry_idx (open_files t ! 0) = 0"
    unfolding t(2) rename_open_files_def by (simp add: demo_open_file)
  ultimately show ?thesis using t(1) l demo_renamed by auto
qed

text \<open>C10: Listing a directory. With room for at most 64 entries, the caller's array holds the visible
  entries in their order, each with its kind and with its name, ended by a zero, in a buffer of its
  own; a list that ends early is ended by a null name, the rest of the array stays, and neither the
  disk nor the open files change. The ring of name buffers keeps its shape.\<close>

theorem listing_shows_directory:
  assumes "volume s T" and "0 \<notin> set path" and "listed_dir T path = Some dc" and "T dc = Some es"
    and "count \<le> length cs" and "count \<le> 64" and "ring_ok s" and "vs = take count (filter visible_entry es)"
  shows "\<exists>cs' t. fat12_listcontent ideal_floppy path cs count s = Some ((0, cs'), t)
    \<and> same_disk s t \<and> open_files t = open_files s \<and> ring_ok t \<and> length cs' = length cs
    \<and> (\<forall>i < length vs. ct_type (cs' ! i) = (if is_dir (vs ! i) then DIRECTORY else FILE)
        \<and> (\<exists>b r. ct_filename (cs' ! i) = Some b \<and> contents_filenames t ! b = short_name (vs ! i) @ 0 # r))
    \<and> (length vs < count \<longrightarrow> ct_filename (cs' ! length vs) = None)
    \<and> (\<forall>i < length cs. length vs < i \<longrightarrow> cs' ! i = cs ! i)"
  using fat12_listcontent_ideal [OF assms(1-7)] unfolding assms(8) .

theorem listing_shows_directory_witness:
  "\<exists>cs t. fat12_listcontent ideal_floppy (chars ''/'') (replicate 3 \<lparr>ct_type = FILE, ct_filename = Some 9\<rparr>) 3 demo
      = Some ((0, cs), t)
    \<and> ct_type (cs ! 0) = FILE \<and> ct_type (cs ! 1) = DIRECTORY \<and> ct_filename (cs ! 2) = None
    \<and> (\<exists>b r. ct_filename (cs ! 0) = Some b \<and> contents_filenames t ! b = chars ''A.TXT'' @ 0 # r)"
proof -
  have vs: "[demo_a, demo_d] = take 3 (filter visible_entry [demo_a, demo_d])" by simp
  show ?thesis
    using listing_shows_directory [OF demo_volume demo_path_dir(2) demo_listed demo_root _ _ demo_ring vs,
        of "replicate 3 \<lparr>ct_type = FILE, ct_filename = Some 9\<rparr>"]
    by (auto simp: demo_is_dir demo_short_names less_Suc_eq all_conj_distrib numeral_2_eq_2)
qed


text \<open>C11: An opened file reports the size of its directory entry; closing it frees its number and no
  other, after which the number is invalid; the volume stays through both.\<close>

theorem open_then_close:
  assumes "volume s T" and "0 \<notin> set fn" and "length (open_files s) = 256"
    and "lowest_free (open_files s) k" and "lookup_path T (split_path fn) = Some (e, idx, dc)"
    and "\<not> is_dir e"
  shows "\<exists>t. fat12_open ideal_floppy fn s = Some (int k + 3, t) \<and> volume t T
    \<and> fat12_get_size (int k + 3) t = Some (de_file_size e)
    \<and> (\<exists>u. fat12_close (int k + 3) t = Some (0, u) \<and> volume u T
        \<and> map of_used (open_files u) = map of_used (open_files s)
        \<and> fat12_get_size (int k + 3) u = Some 0)"
  by (rule open_close [OF assms])

theorem open_then_close_witness:
  "\<exists>t. fat12_open ideal_floppy (chars ''/A.TXT'') demo = Some (int 0 + 3, t) \<and> volume t demo_tree
    \<and> fat12_get_size (int 0 + 3) t = Some (de_file_size demo_a)
    \<and> (\<exists>u. fat12_close (int 0 + 3) t = Some (0, u) \<and> volume u demo_tree
        \<and> map of_used (open_files u) = map of_used (open_files demo)
        \<and> fat12_get_size (int 0 + 3) u = Some 0)"
  by (rule open_then_close [OF demo_volume demo_path_ok(1) _ demo_lowest demo_find(1) demo_is_dir(1)]) simp

text \<open>C12: A file number that is out of range or not open gives -5, or the size 0, and changes nothing.
  This is so for every drive.\<close>

theorem bad_file_numbers:
  assumes "- 2147483645 \<le> fileno" and "fileno < 2147483648"
    and "fileno < 3 \<or> 259 \<le> fileno \<or> \<not> of_used (open_files s ! nat (fileno - 3))"
  shows "fat12_read F fileno buf count s = Some ((-5, buf), s)
    \<and> fat12_write F fileno buf count s = Some (-5, s)
    \<and> fat12_close fileno s = Some (-5, s) \<and> fat12_get_size fileno s = Some 0"
  using fat12_bad_fileno [OF assms] assms by (auto simp: fat12_write_def file_index_eq)

theorem bad_file_numbers_witness:
  "fat12_read ideal_floppy 3 [] 0 demo = Some ((-5, []), demo)
    \<and> fat12_write ideal_floppy 2 [] 0 demo = Some (-5, demo)
    \<and> fat12_close 259 demo = Some (-5, demo) \<and> fat12_get_size 300 demo = Some 0"
  using bad_file_numbers [of 3 demo ideal_floppy "[]" 0] bad_file_numbers [of 2 demo ideal_floppy "[]" 0]
    bad_file_numbers [of 259 demo] bad_file_numbers [of 300 demo]
  by (simp add: unused_file_def)

section \<open>Paths and names\<close>

text \<open>C13: Walking a path over the directories on the disk is looking it up in the abstract tree: the
  search of \<open>fat12_find_entry\<close> returns the entry, its index and its directory, or fails,
  as \<open>lookup_path\<close> does, and \<open>fat12_resolve_parent\<close> returns the parent directory and the name to
  store. Both only read, and both end.\<close>

theorem paths_refine_tree:
  assumes "tree_holds s T" and "0 \<notin> set path"
  shows "fat12_find_entry ideal_floppy path s = Some (lookup_path T (split_path path), s)
    \<and> fat12_resolve_parent ideal_floppy path s = Some (parent_of_path T (split_path path), s)"
  by (intro conjI fat12_find_entry_tree [OF assms] fat12_resolve_parent_tree [OF assms])

theorem paths_refine_tree_witness:
  "fat12_find_entry ideal_floppy (chars ''/D/B'') demo = Some (Some (demo_b, 0, 4), demo)
    \<and> fat12_resolve_parent ideal_floppy (chars ''/NEW.C'') demo =
        Some (Some (0, chars ''NEW     '', chars ''C  ''), demo)"
  using paths_refine_tree [OF volumeD(1) [OF demo_volume] demo_path_ok(5)]
    paths_refine_tree [OF volumeD(1) [OF demo_volume] demo_path_ok(2)]
  by (simp add: demo_find demo_new)

text \<open>C14: The name on the disk and the name shown to the user are inverse to each other: a stored
  name (upper case, no dot before the extension) survives being shown and stored again, and a
  name of the 8.3 form comes back in upper case.\<close>

theorem names_round_trip:
  assumes "stored_name nm ex" and "name_8_3 src"
  shows "to_fat12_name (from_fat12_name nm ex) = (nm, ex)
    \<and> from_fat12_name (fst (to_fat12_name src)) (snd (to_fat12_name src)) = map to_upper src"
  by (intro conjI to_fat12_name_from [OF assms(1)] from_fat12_name_to [OF assms(2)])

theorem names_round_trip_witness:
  "to_fat12_name (from_fat12_name (chars ''A       '') (chars ''TXT'')) = (chars ''A       '', chars ''TXT'')
    \<and> from_fat12_name (fst (to_fat12_name (chars ''read.me''))) (snd (to_fat12_name (chars ''read.me''))) =
        map to_upper (chars ''read.me'')"
  by (rule names_round_trip [OF demo_stored_name demo_name_8_3])

section \<open>The cluster table\<close>

text \<open>C15: The table behaves as an array of 12-bit entries, although two entries share a byte and all
  the copies are written: after a store the entry reads back as the low 12 bits, and every other
  entry is as before. Both operations end on every copy of the table.\<close>

theorem table_read_after_write:
  assumes "fat_ready s" and "in_fat s (unat c)" and "in_fat s (unat c')"
    and "unat c < 65536" and "unat c' < 65536"
  shows "\<exists>t. fat12_write_fat_entry ideal_floppy c v s = Some t
    \<and> fat12_read_fat_entry ideal_floppy c' t =
        Some (if c' = c then v AND 0x0FFF else fat_entry s (unat c'), t)"
proof -
  let ?t = "put_fat_entry s (unat c) v"
  have "fat_ready ?t" by (rule fat.ok_set12 [OF assms(1)])
  moreover have "fat_entry ?t (unat c') = (if c' = c then v AND 0x0FFF else fat_entry s (unat c'))"
    using fat.get12_set12_same [OF assms(1,2)] fat.get12_set12_other [OF assms(1-3)]
    by (auto simp: word_unat_eq_iff)
  ultimately show ?thesis using assms by (simp add: disk_simps)
qed

theorem table_read_after_write_witness:
  "\<exists>t. fat12_write_fat_entry ideal_floppy 2 0xF123 demo = Some t
    \<and> fat12_read_fat_entry ideal_floppy 3 t = Some (0x0FFF, t)"
  using table_read_after_write [OF demo_ready demo_in_fat demo_in_fat, of 2 3 "0xF123"]
  by (simp add: demo_table)

text \<open>C16: The allocator takes the lowest entry that is zero, among the clusters 2 to 4079: it becomes
  the end of a chain, the entry of the cluster before it points to it, and no other entry changes.
  Without a zero entry the result is -1. The search is not bounded by the table: when every cluster that
  has an entry in it is taken, the cluster that is returned has none, and the zero was read, and is
  overwritten, behind the table.\<close>

theorem allocate_takes_first_free:
  assumes "fat_ready s" and "unat cur < 65536" and "cur \<ge> 2 \<Longrightarrow> in_fat s (unat cur)"
  shows "(\<forall>k. 2 \<le> k \<and> k < 4080 \<longrightarrow> fat_entry s k \<noteq> 0)
        \<and> fat12_allocate_cluster ideal_floppy cur s = Some (-1, s)
    \<or> (\<exists>k t. 2 \<le> k \<and> k < 4080 \<and> (free_clusters s = {} \<longrightarrow> \<not> in_fat s k) \<and> fat_entry s k = 0 \<and> (\<forall>j. 2 \<le> j \<and> j < k \<longrightarrow> fat_entry s j \<noteq> 0)
        \<and> fat12_allocate_cluster ideal_floppy cur s = Some (int k, t)
        \<and> (in_fat s k \<longrightarrow> (\<forall>j. in_fat s j \<longrightarrow> fat_entry t j =
             (if cur \<ge> 2 \<and> j = unat cur then of_nat k else if j = k then 0x0FFF else fat_entry s j))))"
proof (cases "first_free s")
  case None
  then show ?thesis using fat12_allocate_cluster_ideal [OF assms(1,2)] first_free_None_iff [of s] by simp
next
  case (Some k)
  note k = first_free_SomeD [OF Some]
  have "fat12_allocate_cluster ideal_floppy cur s = Some (int k, take_cluster s cur k)"
    using fat12_allocate_cluster_ideal [OF assms(1,2)] Some by simp
  with k fat_entry_take_cluster [OF assms(1) _ assms(3), of k] show ?thesis
    by (intro disjI2 exI [of _ k] exI [of _ "take_cluster s cur k"]) (auto simp: free_clusters_def)
qed

theorem allocate_takes_first_free_witness:
  "(\<exists>t. fat12_allocate_cluster ideal_floppy 3 demo = Some (5, t) \<and> fat_entry t 3 = 5 \<and> fat_entry t 5 = 0x0FFF)
    \<and> (\<exists>k t. fat12_allocate_cluster ideal_floppy 0 demo_packed = Some (int k, t) \<and> \<not> in_fat demo_packed k)"
proof
  have free: "fat_entry demo 5 = 0" using demo_table_rest [of 5] demo_in_fat [of 5] by simp
  obtain k t where k: "2 \<le> k" "fat_entry demo k = 0" "\<forall>j. 2 \<le> j \<and> j < k \<longrightarrow> fat_entry demo j \<noteq> 0"
    "fat12_allocate_cluster ideal_floppy 3 demo = Some (int k, t)"
    "in_fat demo k \<longrightarrow> (\<forall>j. in_fat demo j \<longrightarrow> fat_entry t j =
       (if (3 :: u32) \<ge> 2 \<and> j = unat (3 :: u32) then of_nat k else if j = k then 0x0FFF else fat_entry demo j))"
    using allocate_takes_first_free [OF demo_ready, of 3] demo_in_fat [of 3] free by auto
  have "\<not> 5 < k" using k(3) free by auto
  moreover have "k \<noteq> 2" "k \<noteq> 3" "k \<noteq> 4" using k(2) demo_table by auto
  ultimately have "k = 5" using k(1) by linarith
  with k(4,5) demo_in_fat show "\<exists>t. fat12_allocate_cluster ideal_floppy 3 demo = Some (5, t)
      \<and> fat_entry t 3 = 5 \<and> fat_entry t 5 = 0x0FFF" by simp
  have none: "free_clusters demo_packed = {}" using demo_packed_entry by (auto simp: free_clusters_def)
  have "fat_entry demo_packed 390 = 0" using demo_packed_behind by simp
  with allocate_takes_first_free [OF demo_packed_ready, of 0] none
  show "\<exists>k t. fat12_allocate_cluster ideal_floppy 0 demo_packed = Some (int k, t) \<and> \<not> in_fat demo_packed k" by auto
qed

text \<open>C17: Freeing a chain ends on every table whose links stay inside it, cyclic ones included: it
  zeroes entries of linked clusters and changes nothing else. Along a proper chain it
  zeroes exactly the chain.\<close>

theorem free_chain_terminates:
  assumes "fat_ready s" and "unat c < 65536" and "fat.links_closed s"
    and "is_link (unat c) \<Longrightarrow> in_fat s (unat c)"
  shows "\<exists>t ks. fat12_free_cluster_chain ideal_floppy c s = Some t
    \<and> (\<forall>k. in_fat s k \<longrightarrow> fat_entry t k = (if k \<in> set ks then 0 else fat_entry s k))
    \<and> (\<forall>cs. fat_chain (fat_entry s) (unat c) cs \<longrightarrow> (\<forall>k \<in> set cs. in_fat s k) \<longrightarrow>
         t = free_entries put_fat_entry cs s)"
proof -
  obtain ks where ks: "fat12_free_cluster_chain ideal_floppy c s = Some (free_entries put_fat_entry ks s)"
    "\<forall>k \<in> set ks. is_link k \<and> in_fat s k"
    using free_cluster_chain_stops [OF assms] by blast
  have "fat_entry (free_entries put_fat_entry ks s) k = (if k \<in> set ks then 0 else fat_entry s k)"
    if "in_fat s k" for k
    by (rule fat.get_free_entries [OF assms(1)]) (use ks that in auto)
  then show ?thesis using ks free_cluster_chain_of_chain [OF assms(1,2)] by auto
qed

theorem free_chain_terminates_witness:
  "\<exists>t ks. fat12_free_cluster_chain ideal_floppy 2 demo = Some t
    \<and> (\<forall>k. in_fat demo k \<longrightarrow> fat_entry t k = (if k \<in> set ks then 0 else fat_entry demo k))
    \<and> (\<forall>cs. fat_chain (fat_entry demo) (unat (2 :: u32)) cs \<longrightarrow> (\<forall>k \<in> set cs. in_fat demo k) \<longrightarrow>
         t = free_entries put_fat_entry cs demo)"
  using free_chain_terminates [OF demo_ready _ demo_links, of 2] demo_in_fat [of 2] by simp

section \<open>Interrupts, timer and floppy disk\<close>

text \<open>C18: The kernel starts. On a machine whose console, keyboard controller and floppy controller
  answer, \<open>kernel_main\<close> reaches its loop: the interrupt table is set, the clock has its handler, the
  floppy controller is ready, the disk and the open files are unchanged and the heap is one free block. The drive works exactly when FAT12 was
  asked for, the first sector of the disk is a FAT12 boot sector, and the board makes the transfer: it takes a
  read command with the motor off, and its DMA channel moves bytes to memory under mode 4A. On the
  documented board the drive never works, because 4A is the other direction on the 8237. Where the image of the kernel
  has tables of their sizes, the started kernel satisfies the invariant of the running one.\<close>

theorem kernel_boots:
  fixes bd :: board
  assumes "bootable P syms latency k" and "drive (files k) = fdrive1"
  shows "\<exists>k'. kernel_main_start P (floppy_machine bd (sym_dma_buffer syms) latency) syms k = Some k'
    \<and> console_ok (terminal k') \<and> idt (dev (files k')) = map (expected_gate syms) [0..<256]
    \<and> handlers (dev (files k')) ! 32 = Some Timer_callback \<and> floppy_ready (dev (files k'))
    \<and> fc_disk (mach (dev (files k'))) = fc_disk (mach (dev (files k)))
    \<and> cur_fs k' = cur_fs k \<and> kept_files (files k) (files k') \<and> kheap k' = heap_init (kheap k)
    \<and> (has_working_drive k' = 1 \<longleftrightarrow>
        cur_fs k = fat12 \<and> \<not> needs_motor bd \<and> moves bd 0x4A To_memory
        \<and> has_fat12 (disk_sectors (mach (dev (files k)))))
    \<and> (bd = documented_board motor \<longrightarrow> has_working_drive k' \<noteq> 1)
    \<and> (has_working_drive k' = 1 \<longrightarrow>
        fat12_geom (files k') = geometry_of_bpb (bpb_of_bytes (disk_sectors (mach (dev (files k))) 0)))
    \<and> (fresh_kernel k \<longrightarrow> kernel_ok (\<lambda>_. True) k' k')"
  using kernel_main_start_yields [OF assms, of bd] started_kernel_ok [of k] board_does_documented [of motor False]
  by (auto simp: yields_def tables_ready_def board_does_def)

theorem kernel_boots_witness:
  "(\<exists>k'. kernel_main_start demo_ports demo_machine demo_syms demo_cold_kernel = Some k' \<and> has_working_drive k' = 1
      \<and> kernel_ok (\<lambda>_. True) k' k')
    \<and> (\<exists>k'. kernel_main_start demo_ports (floppy_machine (documented_board False) 0x112000 3) demo_syms demo_cold_kernel = Some k'
      \<and> has_working_drive k' \<noteq> 1)"
  using demo_fresh kernel_boots [OF demo_bootable demo_cold_fields(1), of obliging_board]
    kernel_boots [OF demo_bootable demo_cold_fields(1), of "documented_board False" False]
    demo_cold_fields(2,3) demo_boot_fat12 board_does_obliging [of False]
  by (auto simp: board_does_def)

text \<open>C19: The driver never hangs. While the clock ticks, initialisation, a read and a write of a sector
  return whatever the controller answers, with 0 or -1, and the clock goes on. A read that returns
  0 gives the bytes of the DMA buffer, one that returns -1 leaves the caller's buffer alone.\<close>

theorem floppy_driver_returns:
  assumes "clock_runs M d" and "dma_buffer_ok syms" and "length (handlers d) = 256" and "512 \<le> length buf"
  shows "(\<exists>r d'. floppy_init (floppy_driver M syms) d = Some (r, d') \<and> clock_runs M d' \<and> r \<in> {0, -1})
    \<and> (\<exists>r b d'. floppy_read_sector (floppy_driver M syms) lba buf d = Some ((r, b), d') \<and> clock_runs M d'
        \<and> (r = 0 \<and> b = put_bytes buf 0 (take 512 (m_load_dma M (mach d'))) \<or> r = -1 \<and> b = buf))
    \<and> (\<exists>r d'. floppy_write_sector (floppy_driver M syms) lba buf d = Some (r, d') \<and> clock_runs M d' \<and> r \<in> {0, -1})"
  using fdc_init_returns [OF assms(1,3)] fdc_read_sector_returns [OF assms(1,2,4), of lba]
    fdc_write_sector_returns [OF assms(1,2,4), of lba]
  by (auto simp: floppy_driver_def)

theorem floppy_driver_returns_witness:
  "\<exists>r d'. floppy_write_sector (floppy_driver demo_machine demo_syms) 7 (replicate 512 1) demo_driver = Some (r, d')"
  using floppy_driver_returns [OF demo_clock demo_dma, where buf = "replicate 512 1" and lba = 7]
  by (fastforce simp: demo_driver_def)

text \<open>C20: The waits are bounded. \<open>sleep_ms\<close> returns once \<open>ms\<close> ticks have passed and
  \<open>wait_for_fdc_irq\<close> returns 0 with the flag cleared, or -1 after more than the timeout, on every
  machine whose clock ticks and for every start value of the 32-bit tick counter.\<close>

theorem waits_end:
  assumes "clock_runs M d" and "unat ms < 4294967290"
  shows "(\<exists>d' start. sleep_ms M ms d = Some d' \<and> start \<in> {timer_ticks d, timer_ticks d + 1}
      \<and> ms \<le> timer_ticks d' - start)
    \<and> (\<exists>r d' start. wait_for_fdc_irq M ms d = Some (r, d') \<and> start \<in> {timer_ticks d, timer_ticks d + 1}
      \<and> (r = 0 \<and> \<not> fdc_irq_fired d' \<or> r = -1 \<and> ms < timer_ticks d' - start))"
proof -
  obtain \<mu> where clock: "steady_clock M \<mu>" "handlers d ! 32 = Some Timer_callback"
    using assms(1) by (auto simp: clock_runs_def)
  have "unat ms < 4294967294" using assms(2) by simp
  from sleep_ms_ends [OF clock this] wait_for_fdc_irq_ends [OF clock assms(2)] show ?thesis by fastforce
qed

theorem waits_end_witness:
  "\<exists>d'. sleep_ms demo_machine 300 demo_driver = Some d'"
  using waits_end [where M = demo_machine and d = demo_driver and ms = 300, OF demo_clock] by auto

text \<open>C21: What the driver does on a floppy controller and a DMA channel as in theory \<open>Floppy_Controller\<close>, for
  every board. A sector is read exactly when its number modulo 9216 is less than 2880, the board does
  not need the motor, which is off when the command is sent, and its channel moves bytes to memory
  under mode 4A; it is written exactly when the channel moves bytes from memory under mode 46. Any other
  access gives -1 after three attempts, with disk and buffer unchanged. The cylinder is kept in a byte, so
  sector 9216 is sector 0. On the documented board nothing is read or written: on the 8237 the two modes
  are the other way round.\<close>

theorem floppy_is_a_disk:
  fixes bd :: board and lba :: u32
  assumes "floppy_ready d" and "latency \<le> 2000" and "dma_buffer_ok syms" and "length buf = 512"
    and "wf_image (disk_sectors (mach d))"
  defines "F \<equiv> floppy_driver (floppy_machine bd (sym_dma_buffer syms) latency) syms"
    and "readable \<equiv> \<not> needs_motor bd \<and> moves bd 0x4A To_memory \<and> unat lba mod 9216 < 2880"
    and "writable \<equiv> \<not> needs_motor bd \<and> moves bd 0x46 From_memory \<and> unat lba mod 9216 < 2880"
    and "im \<equiv> disk_sectors (mach d)"
  shows "(\<exists>d'. floppy_read_sector F lba buf d = Some (if readable then (0, im lba) else (-1, buf), d')
        \<and> floppy_ready d' \<and> disk_sectors (mach d') = im)
    \<and> (\<exists>d'. floppy_write_sector F lba buf d = Some (if writable then 0 else -1, d') \<and> floppy_ready d'
        \<and> disk_sectors (mach d') =
            (\<lambda>l. if writable \<and> unat l mod 9216 = unat lba mod 9216 then buf else im l))
    \<and> (bd = documented_board motor \<longrightarrow> \<not> readable \<and> \<not> writable)"
proof -
  have served: "readable \<longleftrightarrow> disk_reachable bd False lba" "writable \<longleftrightarrow> disk_reachable bd True lba"
    by (simp_all add: readable_def writable_def disk_reachable_def board_does_def on_disk_chs)
  obtain d1 where r: "floppy_read_sector F lba buf d = Some (if readable then (0, im lba) else (-1, buf), d1)"
      "floppy_ready d1" "fc_disk (mach d1) = fc_disk (mach d)"
    using read_sector_floppy [OF assms(1-5), of bd lba] served
    by (auto simp: F_def im_def floppy_driver_def)
  obtain d2 where w: "floppy_write_sector F lba buf d = Some (if writable then 0 else -1, d2)"
      "floppy_ready d2"
      "fc_disk (mach d2) = (if writable then (fc_disk (mach d))(chs_of_lba lba := buf) else fc_disk (mach d))"
    using write_sector_floppy [OF assms(1-4), of bd lba] served
    by (auto simp: F_def floppy_driver_def)
  have "disk_sectors (mach d1) = im"
    using r(3) by (simp add: im_def disk_sectors_def)
  moreover have "disk_sectors (mach d2) =
      (\<lambda>l. if writable \<and> unat l mod 9216 = unat lba mod 9216 then buf else im l)"
    unfolding disk_sectors_def w(3) im_def by (rule ext) (simp add: chs_of_lba_eq_iff)
  moreover have "bd = documented_board motor \<longrightarrow> \<not> readable \<and> \<not> writable"
    unfolding served disk_reachable_def by simp
  ultimately show ?thesis using r(1,2) w(1,2) by blast
qed

theorem floppy_is_a_disk_witness:
  "(\<exists>d'. floppy_read_sector (floppy_driver demo_machine demo_syms) 3 (replicate 512 0) demo_driver
      = Some ((0, replicate 512 0x41), d'))
    \<and> (\<exists>d'. floppy_read_sector (floppy_driver (floppy_machine (documented_board False) 0x112000 3) demo_syms) 3
        (replicate 512 0) demo_driver = Some ((-1, replicate 512 0), d'))"
proof -
  have "disk_sectors demo_chip 3 = replicate 512 0x41"
    using demo_disk [of 3] by (simp add: floppy_sectors_def demo_image_def)
  then show ?thesis
    using floppy_is_a_disk [OF demo_driver_ready _ demo_dma _ demo_disk_wf, of 3 "replicate 512 0" obliging_board 3]
      floppy_is_a_disk [OF demo_driver_ready _ demo_dma _ demo_disk_wf, of 3 "replicate 512 0" "documented_board False" 3 False]
      board_does_obliging [of False] board_does_documented [of False False]
    by (auto simp: board_does_def)
qed

text \<open>C22: The file system over the floppy driver. On a board that makes the transfers under the modes the driver
  programs, a session of calls that stays on the 2880 sectors and starts with the files that the disk in the controller holds gives the same
  results as on the ideal drive, leaves the same state of the file system, and its files are on the disk. On the
  documented board it gives the results of a drive on which every access fails, and the disk stays as it is.\<close>

theorem session_on_floppy:
  fixes bd :: board
  assumes "floppy_idle syms latency d"
  shows "(\<not> needs_motor bd \<and> moves bd 0x4A To_memory \<and> moves bd 0x46 From_memory \<longrightarrow>
      (\<forall>l. unat l < 2880 \<longrightarrow> floppy_sectors d l = dev s l) \<longrightarrow>
      run_calls (checked_floppy on_floppy) cs s \<noteq> None \<longrightarrow> run_calls ideal_floppy cs s = Some (rs, s') \<longrightarrow>
      (\<exists>d'. run_calls (emulated_floppy bd syms latency) cs (with_dev d s) = Some (rs, with_dev d' s')
        \<and> floppy_idle syms latency d' \<and> (\<forall>l. unat l < 2880 \<longrightarrow> floppy_sectors d' l = dev s' l)))
    \<and> (bd = documented_board motor \<longrightarrow> floppy_sectors d = dev s \<longrightarrow>
      run_calls failing_floppy cs s = Some (rs, s') \<longrightarrow>
      (\<exists>d'. run_calls (emulated_floppy bd syms latency) cs (with_dev d s) = Some (rs, with_dev d' s')
        \<and> floppy_idle syms latency d' \<and> floppy_sectors d' = floppy_sectors d))"
proof (intro conjI impI)
  assume board: "\<not> needs_motor bd \<and> moves bd 0x4A To_memory \<and> moves bd 0x46 From_memory"
    and disk: "\<forall>l. unat l < 2880 \<longrightarrow> floppy_sectors d l = dev s l"
    and run: "run_calls (checked_floppy on_floppy) cs s \<noteq> None" "run_calls ideal_floppy cs s = Some (rs, s')"
  have "driver_shows (floppy_serves bd syms latency) floppy_sectors on_floppy d (dev s)"
    using assms board disk by (simp add: driver_shows_def on_floppy_def floppy_serves_def board_does_def)
  from floppy.session_on_driver [OF this run]
  show "\<exists>d'. run_calls (emulated_floppy bd syms latency) cs (with_dev d s) = Some (rs, with_dev d' s')
      \<and> floppy_idle syms latency d' \<and> (\<forall>l. unat l < 2880 \<longrightarrow> floppy_sectors d' l = dev s' l)"
    by (auto simp: driver_shows_def on_floppy_def floppy_serves_def)
next
  assume "bd = documented_board motor" and "floppy_sectors d = dev s" "run_calls failing_floppy cs s = Some (rs, s')"
  then show "\<exists>d'. run_calls (emulated_floppy bd syms latency) cs (with_dev d s) = Some (rs, with_dev d' s')
      \<and> floppy_idle syms latency d' \<and> floppy_sectors d' = floppy_sectors d"
    using session_refused [OF assms, of s cs rs s' bd] by simp
qed

theorem session_on_floppy_witness:
  "(\<exists>d'. run_calls (emulated_floppy obliging_board demo_syms 3) demo_calls (with_dev demo_driver demo) =
      Some ([Status 3, Bytes_read 4 (replicate 4 0x41)], with_dev d' (demo_after_read demo)))
    \<and> (\<exists>d'. run_calls (emulated_floppy (documented_board False) demo_syms 3) [Remove_file (chars ''/A.TXT'')]
        (with_dev demo_driver demo) = Some ([Status (-9)], with_dev d' demo))"
proof
  show "\<exists>d'. run_calls (emulated_floppy obliging_board demo_syms 3) demo_calls (with_dev demo_driver demo) =
      Some ([Status 3, Bytes_read 4 (replicate 4 0x41)], with_dev d' (demo_after_read demo))"
    using session_on_floppy [OF demo_idle, of obliging_board demo demo_calls _ "demo_after_read demo"]
      demo_checked_session [OF demo_like_demo] demo_ideal_session [OF demo_like_demo] demo_disk
      board_does_obliging [of False] board_does_obliging [of True]
    by (simp add: board_does_def del: run_calls.simps) blast
  let ?s = "with_dev (floppy_sectors demo_driver) demo"
  have same: "with_dev c ?s = with_dev c demo" "dev ?s = floppy_sectors demo_driver" for c :: "controller driver"
    by (simp_all add: with_dev_def)
  have "demo_like ?s" using demo_like_demo demo_disk by (simp add: demo_like_def with_dev_def)
  from demo_failing_session [OF this]
  have "run_calls failing_floppy [Remove_file (chars ''/A.TXT'')] ?s = Some ([Status (-9)], ?s)" by simp
  then show "\<exists>d'. run_calls (emulated_floppy (documented_board False) demo_syms 3) [Remove_file (chars ''/A.TXT'')]
      (with_dev demo_driver demo) = Some ([Status (-9)], with_dev d' demo)"
    using session_on_floppy [OF demo_idle, of "documented_board False" ?s "[Remove_file (chars ''/A.TXT'')]" "[Status (-9)]" ?s False,
        THEN conjunct2, rule_format, unfolded same, OF refl refl]
    by blast
qed

text \<open>C23: Types. On every disk, a damaged one included, a session of calls on the ideal drive keeps the
  sizes of the tables and the strings: 256 open files with paths of at most 255 characters, 64 name buffers of
  32 bytes, sectors of 512 bytes, and its results have the shape that their callers expect, a read
  the length of its buffer. The geometry and the drive stay. On the floppy driver it is so for every machine.\<close>

theorem session_keeps_types:
  "(typed wf_image drv g s \<longrightarrow> run_calls ideal_floppy cs s = Some (rs, s') \<longrightarrow>
      typed wf_image drv g s' \<and> list_all2 result_ok cs rs)
    \<and> (typed (\<lambda>_. True) drv g t \<longrightarrow> run_calls (floppy_driver M syms) cs t = Some (rs, t') \<longrightarrow>
      typed (\<lambda>_. True) drv g t' \<and> list_all2 result_ok cs rs)"
  using keepD [OF image_type.run_calls_keeps] keepD [OF floppy_type.run_calls_keeps] by blast

theorem session_keeps_types_witness:
  "typed wf_image fdrive1 demo_geom demo_open \<and> list_all2 result_ok [Open_file (chars ''/A.TXT'')] [Status 3]"
proof -
  have "typed wf_image fdrive1 demo_geom demo"
    using demo_ring demo_ready by (simp add: typed_def MAX_OPEN_FILES_def unused_file_def fat_ready_def on_ideal_def demo_def)
  moreover have "run_calls ideal_floppy [Open_file (chars ''/A.TXT'')] demo = Some ([Status 3], demo_open)"
    using fat12_open_existing [OF demo_volume demo_path_ok(1) demo_lowest demo_find(1)] demo_is_dir
    by (simp add: giving_def demo_open_def)
  ultimately show ?thesis using session_keeps_types by blast
qed

text \<open>C24: Every interrupt arrives, is handled and ends. The kernel programs a pair of 8259 controllers, whatever
  vectors and masks they had, and installs its handlers; then devices raise any sequence of lines other
  than 2, which joins the controllers. Each line gets through, so the one before it has been ended at
  every controller it passed, with the vector whose gate leads to the entry of that line. At the
  end no line is in service, the clock has advanced by the number of interrupts on line 0, and the
  flag of the floppy controller is set when line 6 was among them.\<close>

theorem interrupts_served:
  assumes "p_outb (m_ports M) = pic_out" and "no_service (mach d)"
    and "length (idt d) = 256" and "length (handlers d) = 256" and "list_all (\<lambda>n. n < 16 \<and> n \<noteq> 2) ns"
  shows "\<exists>d1 d'. install_interrupts M syms d = Some d1 \<and> serve_irqs M ns d1 = Some (map ((+) 32) ns, d')
    \<and> map (\<lambda>v. gate_base (idt d' ! v)) (map ((+) 32) ns) = map (sym_irq syms) ns
    \<and> no_service (mach d') \<and> timer_ticks d' = timer_ticks d + of_nat (count_list ns 0)
    \<and> (fdc_irq_fired d' \<longleftrightarrow> fdc_irq_fired d \<or> 6 \<in> set ns)"
  by (rule started_interrupts [OF assms])

theorem interrupts_served_witness:
  "\<exists>d1 d'. install_interrupts demo_pic_machine demo_syms (demo_driver_on demo_pics) = Some d1
    \<and> serve_irqs demo_pic_machine [0, 8, 8, 6, 0, 15] d1 = Some ([32, 40, 40, 38, 32, 47], d')
    \<and> timer_ticks d' = 2 \<and> fdc_irq_fired d'"
proof -
  have "length (idt (demo_driver_on demo_pics)) = 256" "length (handlers (demo_driver_on demo_pics)) = 256"
    "timer_ticks (demo_driver_on demo_pics) = 0"
    by (simp_all add: demo_driver_on_def)
  with interrupts_served [OF demo_pic_out demo_no_service, of "[0, 8, 8, 6, 0, 15]" demo_syms] show ?thesis
    by (fastforce simp del: serve_irqs.simps)
qed




section \<open>The heap\<close>

text \<open>C26: An allocation. When the heap is well formed and the size does not wrap, \<open>kmalloc\<close> either
  leaves the heap as it is and returns 0, which it does exactly when no free block is large
  enough, or it returns an aligned address in a well-formed heap whose allocated blocks are the
  old ones and a fresh one that holds the request. The search of the free list ends.\<close>

theorem kmalloc_allocates:
  assumes "heap_inv h bs fl" and "n \<noteq> 0" and "unat n + 31 < 4294967296"
  shows "if \<forall>b \<in> set fl. bh_size (headers h b) < ALIGN (n + 16) then kmalloc n h = Some (0, h)
    else \<exists>p h' bs' fl' sz. kmalloc n h = Some (p, h') \<and> heap_inv h' bs' fl'
      \<and> p \<noteq> 0 \<and> 16 dvd unat p \<and> unat n + 16 \<le> sz
      \<and> (\<forall>sz'. (p - 16, sz') \<notin> allocated h bs fl)
      \<and> allocated h' bs' fl' = insert (p - 16, sz) (allocated h bs fl)"
proof (cases "\<forall>b \<in> set fl. bh_size (headers h b) < ALIGN (n + 16)")
  case True
  then show ?thesis using kmalloc_none [OF assms(1,2)] by simp
next
  case False
  then show ?thesis unfolding if_not_P [OF False] by (rule kmalloc_some [OF assms])
qed

theorem kmalloc_allocates_witness:
  "kmalloc 5000 demo_heap = Some (0, demo_heap) \<and> (\<exists>p h'. kmalloc 100 demo_heap = Some (p, h') \<and> p \<noteq> 0)"
proof -
  have a: "ALIGN 5016 = 5024" "ALIGN 116 = 128" by code_simp+
  show ?thesis
    using kmalloc_allocates [OF demo_heap_inv, of 5000] kmalloc_allocates [OF demo_heap_inv, of 100]
    by (auto simp: a demo_heap_size)
qed

text \<open>C27: A release. Freeing an allocated block keeps the heap well formed and takes exactly that
  block out of the allocated ones, whether or not it merges with the block behind it; freeing 0
  or a block that is already free does nothing.\<close>

theorem kfree_releases:
  assumes "heap_inv h bs fl" and "b \<in> set bs"
  shows "(if b \<in> set fl then b + 16 \<noteq> 0 \<longrightarrow> kfree (b + 16) h = h
      else \<exists>bs' fl'. heap_inv (kfree (b + 16) h) bs' fl'
        \<and> allocated (kfree (b + 16) h) bs' fl' = allocated h bs fl - {(b, block_size h b)})
    \<and> kfree 0 h = h"
  using kfree_inv [OF assms] kfree_free [OF assms(1)] by simp

theorem kfree_releases_witness:
  "(\<exists>bs fl. heap_inv (kfree (0x1000 + 16) demo_heap1) bs fl
     \<and> allocated (kfree (0x1000 + 16) demo_heap1) bs fl = {})
   \<and> kfree (0x1000 + 16) demo_heap = demo_heap"
  using kfree_releases [OF demo_heap1_inv, of "0x1000"] kfree_releases [OF demo_heap_inv, of "0x1000"]
  by (simp add: demo_heap1_allocated)

text \<open>C28: A size whose block size wraps is served although it cannot be: \<open>kmalloc(0xFFFFFFF0)\<close> returns
  an address in the first free block, and that block stays first in the free list.\<close>

theorem kmalloc_overflow:
  assumes "heap_inv h bs fl" and "fl = b # fl'" and "32 \<le> bh_size (headers h b)"
  shows "\<exists>h'. kmalloc 0xFFFFFFF0 h = Some (b + 16, h') \<and> free_list_head h' = b
    \<and> is_free (headers h' b) = 1"
  by (rule kmalloc_wraps [OF assms])

theorem kmalloc_overflow_witness:
  "\<exists>h'. kmalloc 0xFFFFFFF0 demo_heap = Some (0x1000 + 16, h') \<and> free_list_head h' = 0x1000
    \<and> is_free (headers h' 0x1000) = 1"
  by (rule kmalloc_overflow [OF demo_heap_inv refl]) (simp add: demo_heap_size)

section \<open>The console\<close>

text \<open>C29: Writing. To \<open>LINEOUT_FILENO\<close> it shows the bytes on the screen one after the other, with the
  control characters acting, and changes nothing else in the kernel; it returns whenever the serial line
  becomes ready. The result is the number of bytes up to \<open>2 ^ 31 - 1\<close>, and the number less \<open>2 ^ 32\<close>,
  which is negative, for more. It needs no drive, although the note at the top of the file says that a function fails
  with -32 without one; to every other file number the write then returns -32 and changes nothing.\<close>

theorem write_to_terminal:
  assumes "console_ok (terminal k)" and "uart_ready P" and "unat nbyte \<le> length buf"
  shows "(\<exists>h. write_fileno P F 2 buf nbyte k =
      Some (if unat nbyte < 2 ^ 31 then int (unat nbyte) else int (unat nbyte) - 2 ^ 32,
        k\<lparr>terminal := (fold type_char (take (unat nbyte) buf) (terminal k))\<lparr>hw := h\<rparr>\<rparr>))
    \<and> console_ok (fold type_char (take (unat nbyte) buf) (terminal k))
    \<and> (has_working_drive k \<noteq> 1 \<longrightarrow> n \<noteq> 2 \<longrightarrow> write_fileno P F n buf nbyte k = Some (-32, k))"
  using write_lineout [OF assms, of F] fold_type_char_ok [OF assms(1)] no_working_drive(9) [of k n P F buf nbyte]
  by (simp add: sint_of_size)

theorem write_to_terminal_witness:
  "(\<exists>h. write_fileno demo_ports ideal_floppy 2 [0x41, 0x0A] 2 demo_kernel = Some (2,
      demo_kernel\<lparr>terminal := (fold type_char [0x41, 0x0A] (terminal demo_kernel))\<lparr>hw := h\<rparr>\<rparr>))
    \<and> has_working_drive demo_kernel \<noteq> 1 \<and> write_fileno demo_ports ideal_floppy 3 [0x41, 0x0A] 2 demo_kernel = Some (-32, demo_kernel)"
  using write_to_terminal [OF demo_console demo_uart, of 2 "[0x41, 0x0A]" ideal_floppy 3]
  by (simp add: demo_kernel_def)

text \<open>C30: Integers are printed in decimal, with a sign and without leading zeros, for every \<open>int\<close> but
  the least, on which \<open>itoa\<close> overflows.\<close>

theorem print_integer:
  assumes "- 2147483648 < N" and "N < 2147483648" and "length (decimal_int N) < length str"
  shows "terminal_writeintcustom func N s = emit func (decimal_int N) s
    \<and> itoa N str = Some (put_bytes str 0 (decimal_int N @ [0]))
    \<and> itoa (- 2147483648) str = None"
  by (intro conjI terminal_writeintcustom_eq [OF assms(1,2)] itoa_eq [OF assms] itoa_least)

theorem print_integer_witness:
  "terminal_writeintcustom (\<lambda>c s. Some (s @ [c])) (-305) [] = emit (\<lambda>c s. Some (s @ [c])) (decimal_int (-305)) []
    \<and> itoa (-305) (replicate 10 0xFF) = Some (put_bytes (replicate 10 0xFF) 0 (decimal_int (-305) @ [0]))"
proof -
  have "length (decimal_int (-305)) < 10" by code_simp
  then show ?thesis
    using print_integer [of "-305" "replicate 10 0xFF" "\<lambda>c s. Some (s @ [c])" "[]"] by simp
qed

section \<open>The start of the kernel\<close>

text \<open>C31: The command line is cut at the spaces, and the arguments take effect in their order:
  \<open>multiboot_pre_main\<close> copies a line of up to 99 characters and applies each of its words. A longer
  line overruns the buffer \<open>cmdline_str\<close>: the size passed to \<open>strlcpy\<close> is that of the source.\<close>

theorem cmdline_applied:
  assumes "0 \<in> set (mbi_cmdline mbi)" and "length (cmdline_str k) = 100" and "mbi_flags mbi AND 4 \<noteq> 0"
  shows "multiboot_pre_main 0x2BADB002 mbi k =
    (if length (cstr (mbi_cmdline mbi)) < 100
     then Some (True, fold apply_argument (words_of (cstr (mbi_cmdline mbi)))
       (k\<lparr>cmdline_str := put_bytes (cmdline_str k) 0 (cstr (mbi_cmdline mbi) @ [0])\<rparr>))
     else None)"
  using multiboot_fits [OF assms] multiboot_overflow [OF assms] by simp

theorem cmdline_applied_witness:
  "\<exists>k. multiboot_pre_main 0x2BADB002 \<lparr>mbi_flags = 4, mbi_cmdline = literal ''drive=fdrive1 fs=fat12''\<rparr> demo_kernel
      = Some (True, k) \<and> cur_fs k = fat12 \<and> drive (files k) = fdrive1
    \<and> multiboot_pre_main 0x2BADB002 \<lparr>mbi_flags = 4, mbi_cmdline = replicate 100 0x41 @ [0]\<rparr> demo_kernel = None"
proof -
  let ?m = "\<lparr>mbi_flags = 4, mbi_cmdline = literal ''drive=fdrive1 fs=fat12''\<rparr>"
  have w: "words_of (cstr (literal ''drive=fdrive1 fs=fat12'')) = [name_arg ''drive=fdrive1'', name_arg ''fs=fat12'']"
    by code_simp
  have "length (cstr (literal ''drive=fdrive1 fs=fat12'')) < 100" by code_simp
  moreover have "length (cmdline_str demo_kernel) = 100" by (simp add: demo_kernel_def)
  ultimately have "multiboot_pre_main 0x2BADB002 ?m demo_kernel = Some (True,
      fold apply_argument (words_of (cstr (mbi_cmdline ?m)))
        (demo_kernel\<lparr>cmdline_str := put_bytes (cmdline_str demo_kernel) 0 (cstr (mbi_cmdline ?m) @ [0])\<rparr>))"
    using cmdline_applied [of ?m demo_kernel] by simp
  moreover have "multiboot_pre_main 0x2BADB002 \<lparr>mbi_flags = 4, mbi_cmdline = replicate 100 0x41 @ [0]\<rparr> demo_kernel = None"
    using cmdline_applied [of "\<lparr>mbi_flags = 4, mbi_cmdline = replicate 100 0x41 @ [0]\<rparr>" demo_kernel]
    by (simp add: demo_kernel_def)
  ultimately show ?thesis
    using demo_names by (simp add: w apply_argument_def set_drive_def)
qed

text \<open>C32: Programs and files. \<open>syscall3\<close> with the number and the arguments of a file call: without a working drive every
  call returns -32 and changes nothing, and with a mounted one a session of calls is the session of
  the operations of \<open>fat12.c\<close>, over every drive. Only \<open>get_size\<close> does not look at the drive, and where there
  is no file system its size is the largest \<open>size_t\<close>.\<close>

theorem drive_guard:
  assumes "list_all to_files cs"
  shows "(has_working_drive k \<noteq> 1 \<longrightarrow> file_requests P F cs k = Some (map no_drive_result cs, k))
    \<and> (mounted k \<longrightarrow> file_requests P F cs k = on_files (run_calls F cs) k)
    \<and> get_size n k = (if cur_fs k = fat12 then fat12_get_size n (files k) else Some 0xFFFFFFFF)"
  using file_requests_no_drive [OF _ assms] file_requests_mounted [OF _ assms] get_size_unguarded by blast

theorem drive_guard_witness:
  "file_requests demo_ports ideal_floppy demo_calls demo_kernel =
      Some ([Status (-32), Bytes_read (-32) (replicate 4 0)], demo_kernel)
    \<and> file_requests demo_ports ideal_floppy demo_calls (demo_kernel\<lparr>has_working_drive := 1\<rparr>) =
      Some ([Status 3, Bytes_read 4 (replicate 4 0x41)], demo_kernel\<lparr>has_working_drive := 1, files := demo_after_read demo\<rparr>)"
proof -
  have ok: "list_all to_files demo_calls" by (simp add: an_int_def)
  have "has_working_drive demo_kernel \<noteq> 1" "mounted (demo_kernel\<lparr>has_working_drive := 1\<rparr>)" "files demo_kernel = demo"
    by (simp_all add: demo_kernel_def mounted_def)
  with drive_guard [OF ok, of demo_kernel demo_ports ideal_floppy]
    drive_guard [OF ok, of "demo_kernel\<lparr>has_working_drive := 1\<rparr>" demo_ports ideal_floppy]
    demo_ideal_session [OF demo_like_demo]
  show ?thesis by (simp add: on_files_def del: run_calls.simps file_requests.simps)
qed

text \<open>C33: From the start to the files, for every board. When the disk holds a FAT12 boot sector and the board makes
  the transfers under the modes the driver programs, with the motor off, a program's session of file calls on the started kernel gives the results
  that the operations of \<open>fat12.c\<close> give on the image of that disk, and leaves the disk as they
  leave the image, as long as the session stays on the 2880 sectors. On the documented board the kernel starts
  too, but without a drive: every call of every session returns -32, and nothing changes.\<close>

theorem calls_after_boot:
  fixes bd :: board
  assumes "bootable P syms latency k" and "drive (files k) = fdrive1" and "cur_fs k = fat12"
  defines "im \<equiv> disk_sectors (mach (dev (files k)))"
  shows "\<exists>k'. kernel_main_start P (floppy_machine bd (sym_dma_buffer syms) latency) syms k = Some k'
    \<and> (\<not> needs_motor bd \<and> moves bd 0x4A To_memory \<and> moves bd 0x46 From_memory \<and> has_fat12 im \<longrightarrow>
        fat12_geom (files k') = geometry_of_bpb (bpb_of_bytes (im 0)) \<and> kept_files (files k) (files k')
        \<and> (\<forall>cs rs s. list_all to_files cs \<longrightarrow> run_calls (checked_floppy on_floppy) cs (with_dev im (files k')) \<noteq> None \<longrightarrow>
             run_calls ideal_floppy cs (with_dev im (files k')) = Some (rs, s) \<longrightarrow>
             (\<exists>d. file_requests P (emulated_floppy bd syms latency) cs k' = Some (rs, k'\<lparr>files := with_dev d s\<rparr>)
                \<and> floppy_idle syms latency d \<and> (\<forall>l. unat l < 2880 \<longrightarrow> floppy_sectors d l = dev s l))))
    \<and> (bd = documented_board motor \<longrightarrow> disk_sectors (mach (dev (files k'))) = im
        \<and> (\<forall>cs. list_all to_files cs \<longrightarrow>
             file_requests P (emulated_floppy bd syms latency) cs k' = Some (map no_drive_result cs, k')))"
proof -
  have "\<not> board_does bd False" if "bd = documented_board motor" using that by simp
  with started_sessions [OF assms(1-3), of bd] show ?thesis
    unfolding im_def by (simp only: board_does_def floppy_serves_def if_True if_False) blast
qed

theorem calls_after_boot_witness:
  "(\<exists>k' k''. kernel_main_start demo_ports demo_machine demo_syms demo_cold_kernel = Some k'
      \<and> file_requests demo_ports (emulated_floppy obliging_board demo_syms 3) demo_calls k' =
          Some ([Status 3, Bytes_read 4 (replicate 4 0x41)], k''))
    \<and> (\<exists>k'. kernel_main_start demo_ports (floppy_machine (documented_board False) 0x112000 3) demo_syms demo_cold_kernel = Some k'
      \<and> file_requests demo_ports (emulated_floppy (documented_board False) demo_syms 3) demo_calls k' =
          Some ([Status (-32), Bytes_read (-32) (replicate 4 0)], k'))"
proof
  note boot = calls_after_boot [OF demo_bootable demo_cold_fields(1,2), unfolded demo_cold_fields(3)]
  have ok: "list_all to_files demo_calls" by (simp add: an_int_def)
  have board: "\<not> needs_motor obliging_board \<and> moves obliging_board 0x4A To_memory
      \<and> moves obliging_board 0x46 From_memory \<and> has_fat12 (disk_sectors demo_cold_chip)"
    using board_does_obliging [of False] board_does_obliging [of True] demo_boot_fat12 by (simp add: board_does_def)
  from boot [of obliging_board] board obtain k' where
    k': "kernel_main_start demo_ports demo_machine demo_syms demo_cold_kernel = Some k'"
    "fat12_geom (files k') = demo_geom" "kept_files (files demo_cold_kernel) (files k')"
    "\<forall>cs rs s. list_all to_files cs \<longrightarrow>
       run_calls on_disk_floppy cs (with_dev (disk_sectors demo_cold_chip) (files k')) \<noteq> None \<longrightarrow>
       run_calls ideal_floppy cs (with_dev (disk_sectors demo_cold_chip) (files k')) = Some (rs, s) \<longrightarrow>
       (\<exists>d. file_requests demo_ports (emulated_floppy obliging_board demo_syms 3) cs k' = Some (rs, k'\<lparr>files := with_dev d s\<rparr>)
          \<and> floppy_idle demo_syms 3 d \<and> (\<forall>l. unat l < 2880 \<longrightarrow> floppy_sectors d l = dev s l))"
    unfolding demo_buffer demo_boot_geometry by blast
  note like = demo_booted [OF k'(2,3)]
  have "run_calls on_disk_floppy demo_calls (with_dev (disk_sectors demo_cold_chip) (files k')) \<noteq> None"
    unfolding demo_checked_session [OF like] by simp
  then show "\<exists>k' k''. kernel_main_start demo_ports demo_machine demo_syms demo_cold_kernel = Some k'
      \<and> file_requests demo_ports (emulated_floppy obliging_board demo_syms 3) demo_calls k' =
          Some ([Status 3, Bytes_read 4 (replicate 4 0x41)], k'')"
    using ok k'(1,4) demo_ideal_session [OF like] by blast
  show "\<exists>k'. kernel_main_start demo_ports (floppy_machine (documented_board False) 0x112000 3) demo_syms demo_cold_kernel = Some k'
      \<and> file_requests demo_ports (emulated_floppy (documented_board False) demo_syms 3) demo_calls k' =
          Some ([Status (-32), Bytes_read (-32) (replicate 4 0)], k')"
    using boot [of "documented_board False" False] ok by (fastforce simp del: file_requests.simps)
qed

section \<open>Formatted output and panic\<close>

text \<open>C34: What \<open>printf\<close> writes does not depend on where it writes. A format and its arguments denote a
  text, or nothing where the code has no defined result, and every output function gets exactly the
  characters of this text at consecutive places and then one terminator.\<close>

theorem formats_denote_texts:
  "vsnprintf out False maxlen format va s = do {
     cs \<leftarrow> format_text format va;
     (idx, s) \<leftarrow> out_bytes out maxlen cs 0 s;
     s \<leftarrow> out 0 (if idx < maxlen then idx else maxlen - 1) maxlen s;
     Some (sint idx, s)
   }"
  by (auto simp: vsnprintf_def vsnprintf_loop_text split: bind_split)

text \<open>C35: \<open>snprintf\<close> into a buffer of at least \<open>count\<close> bytes. A text of fewer than \<open>2 ^ 31\<close> characters is
  stored, cut to \<open>count - 1\<close> characters, with a terminator; nothing else changes, with a \<open>count\<close> of 0
  nothing at all, and the result is the length of the whole text. A null pointer stores nothing.\<close>

theorem snprintf_contract:
  assumes "format_text format va = Some cs" and "length cs < 2 ^ 31" and "unat count \<le> length b"
  shows "snprintf (Some b) count format va = Some (int (length cs),
      Some (if count = 0 then b else put_bytes b 0 (take (unat count - 1) cs @ [0])))
    \<and> snprintf None count format va = Some (int (length cs), None)"
  by (intro conjI snprintf_text [OF assms] snprintf_null [OF assms(1,2)])

theorem snprintf_contract_witness:
  "snprintf (Some [1, 1, 1, 1, 1]) 3 [0x61, 0x25, 0x75, 0] [Va_word 42] = Some (3, Some [0x61, 0x34, 0, 1, 1])"
proof -
  have "format_text [0x61, 0x25, 0x75, 0] [Va_word 42] = Some [0x61, 0x34, 0x32]" by code_simp
  from snprintf_contract [OF this, of 3 "[1, 1, 1, 1, 1]"] show ?thesis by (simp add: put_bytes_def)
qed

text \<open>C36: The integer conversions print what the standard asks for: the digits of the value in the base,
  with the zeros of the precision, the sign and the field, for every flag but \<open>#\<close>. It is so wherever
  the 32 characters of the conversion buffer suffice and the flag \<open>-\<close> does not meet a longer
  precision; the least \<open>int\<close> is excluded, as its negation overflows.\<close>

theorem integers_as_the_standard:
  assumes "\<not> bit f FLAGS_LONG_LONG" and "\<not> bit f FLAGS_HASH" and "v \<noteq> - 2147483648"
    and "fits_buffer f (unat width) (unat prec) (sign_of (v < 0) f) (digits_of f (format_base c) (word_of_int \<bar>v\<bar>))"
    and "f = integer_flags c flags" and "v = argument_value c flags a"
  shows "convert_integer out maxlen c (Va_word a # va) prec width flags idx s =
    writes out maxlen (Some (va, standard_directive c flags (unat width) (unat prec) v)) idx s"
  using convert_integer_standard [of c flags v a width prec] assms by simp

theorem integers_as_the_standard_witness:
  "convert_integer (\<lambda>c idx maxlen s. Some (s @ [c])) 99 0x64 [Va_word (- 42)] 0 6 (set_bit FLAGS_ZEROPAD 0) 0 [] =
     Some ([], 6, [0x2D, 0x30, 0x30, 0x30, 0x34, 0x32])"
proof -
  let ?flags = "set_bit FLAGS_ZEROPAD 0 :: u32" and ?out = "\<lambda>c idx maxlen s. Some (s @ [c])"
  have v: "- 42 = argument_value 0x64 ?flags (- 42)" by code_simp
  have fits: "fits_buffer (integer_flags 0x64 ?flags) (unat (6 :: u32)) (unat (0 :: u32))
      (sign_of ((- 42 :: int) < 0) (integer_flags 0x64 ?flags))
      (digits_of (integer_flags 0x64 ?flags) (format_base 0x64) (word_of_int \<bar>- 42 :: int\<bar>))"
    by code_simp
  have bits: "\<not> bit (integer_flags 0x64 ?flags) FLAGS_LONG_LONG" "\<not> bit (integer_flags 0x64 ?flags) FLAGS_HASH"
    by code_simp+
  have "convert_integer ?out 99 0x64 [Va_word (- 42)] 0 6 ?flags 0 [] =
      writes ?out 99 (Some ([], standard_directive 0x64 ?flags (unat (6 :: u32)) (unat (0 :: u32)) (- 42))) 0 []"
    by (rule integers_as_the_standard [OF bits _ fits refl v]) simp
  also have "\<dots> = Some ([], 6, [0x2D, 0x30, 0x30, 0x30, 0x34, 0x32])" by code_simp
  finally show ?thesis .
qed

text \<open>C37: An exception ends the kernel with a report. \<open>common_handler\<close> does not return, and on a consistent
  screen the panic reaches \<open>halt\<close> with the picture, the place, the name of the exception, the error
  code in decimal and the instruction pointer in eight hexadecimal digits on the terminal.\<close>

theorem exception_report:
  assumes "int_no r < 32" and "err_code r \<noteq> 0x80000000" and "console_ok t" and "uart_ready P"
    and "0 \<notin> set (chars file)" and "length file < 2 ^ 31" and "- 2147483648 < line" and "line < 2147483648"
  shows "common_handler M r d = None
    \<and> (\<exists>h. exception_panic P file line r (nxt, t) = Some (snd (random_error_message nxt),
        (fold type_char (panic_head nxt file line @ exception_text r) t)\<lparr>hw := h\<rparr>))"
  using exception_panic_shows [OF assms] assms(1) by (simp add: common_handler_def)

theorem exception_report_witness:
  "\<exists>h. exception_panic demo_ports ''i386/idt.c'' 223 (irq_regs 14) (0, terminal demo_kernel) =
      Some (snd (random_error_message 0), (fold type_char (panic_head 0 ''i386/idt.c'' 223 @ chars ''Exception: ''
        @ chars ''Page Fault'' @ chars '' (err code: 0) at EIP: 0x00000000'') (terminal demo_kernel))\<lparr>hw := h\<rparr>)"
proof -
  have "exception_text (irq_regs 14) =
      chars ''Exception: '' @ chars ''Page Fault'' @ chars '' (err code: 0) at EIP: 0x00000000''"
    by code_simp
  moreover have "0 \<notin> set (chars ''i386/idt.c'')" by (simp add: chars_def)
  moreover have "err_code (irq_regs 14) \<noteq> 0x80000000" by (simp add: irq_regs_def)
  ultimately show ?thesis
    using exception_report [of "irq_regs 14" "terminal demo_kernel" demo_ports "''i386/idt.c''" 223
      demo_machine demo_driver 0] demo_console demo_uart by simp
qed

section \<open>The system calls\<close>

text \<open>C38: The kernel stays well formed. From a state whose tables have their sizes, whose screen is
  consistent and whose heap is well formed, every sequence of turns of the main loop and of system
  calls, with any numbers and arguments and on any disk and floppy controller, leads to such a state, with the same drive,
  geometry and file system, as long as the cursor is sent to places on the screen, sizes of
  allocations do not wrap and only blocks of the heap are released. A call for which the code has no
  defined result, as a colour number above 15, is no step.\<close>

theorem kernel_stays_ok:
  assumes "kernel_ok (\<lambda>_. True) k0 k0" and "uart_ready P"
    and "kernel_reach P (floppy_driver M syms) (shift0, k0) (shift, k)"
  shows "kernel_ok (\<lambda>_. True) k0 k"
  using floppy_type.reachable_kernel_ok [OF assms(3,2,1)] by simp

theorem kernel_stays_ok_witness:
  "\<exists>(p :: u32) h. syscall_handler demo_ports (floppy_driver demo_machine demo_syms) 15 [Word 100] demo_running =
      Some (Status (sint p), demo_running\<lparr>kheap := h\<rparr>)
    \<and> kernel_ok (\<lambda>_. True) demo_running (demo_running\<lparr>kheap := h\<rparr>)"
proof -
  let ?F = "floppy_driver demo_machine demo_syms"
  obtain p :: u32 and h where call: "syscall_handler demo_ports ?F 15 [Word 100] demo_running =
      Some (Status (sint p), demo_running\<lparr>kheap := h\<rparr>)"
    using demo_alloc by blast
  have "polite demo_running (Call 15 [Word 100] (Status (sint p)))"
    by (simp add: polite_def polite_call_def syscall_table_eq)
  with call have "kernel_reach demo_ports ?F (False, demo_running) (False, demo_running\<lparr>kheap := h\<rparr>)"
    by (auto intro: kernel_reach.start kernel_reach.further kernel_step.call)
  from kernel_stays_ok [OF demo_running_ok demo_uart this] call show ?thesis by blast
qed

section \<open>The RISC-V port and the build\<close>

text \<open>C39: The kernel on RISC-V echoes what is typed. However often the firmware has to be polled for each
  character, the main loop takes every one of them and prints it, a carriage return as a line feed and with the
  control characters acting on the line, and \<open>terminal_write\<close> sends a buffer in the same way.\<close>

theorem riscv_echoes:
  assumes "sbi_console ecall sent polls"
  shows "(polls m = typed_polls keys @ ps \<longrightarrow>
      (\<exists>m'. riscv_main_turns ecall (length keys) m = Some m' \<and> polls m' = ps
        \<and> sent m' = sent m @ concat (map (line_bytes \<circ> typed_char \<circ> snd) keys)))
    \<and> (unat n \<le> length data \<longrightarrow>
      (\<exists>m'. riscv_write ecall data n m = Some m' \<and> polls m' = polls m
        \<and> sent m' = sent m @ concat (map line_bytes (take (unat n) data))))"
  using main_turns_echo [OF assms] fold_write_sent [OF assms] by (auto simp: riscv_write_def)

theorem riscv_echoes_witness:
  "(\<exists>m. riscv_main_turns demo_firmware 2 ([], [None, Some 0x41, None, None, Some 0x0D]) = Some m
      \<and> fst m = [0x41, 0x0D, 0x0A])
    \<and> (\<exists>m. riscv_write demo_firmware [0x09, 0x42] 1 ([], []) = Some m \<and> fst m = [0x20, 0x20, 0x20, 0x20])"
proof -
  let ?keys = "[(1, 0x41), (2, 0x0D)] :: (nat \<times> u8) list"
  let ?m = "([], [None, Some 0x41, None, None, Some 0x0D]) :: bytes \<times> u8 option list"
  have polls: "snd ?m = typed_polls ?keys @ []" by (simp add: typed_polls_def numeral_2_eq_2)
  have line: "concat (map (line_bytes \<circ> typed_char \<circ> snd) ?keys) = [0x41, 0x0D, 0x0A]"
    "concat (map line_bytes [0x09]) = [0x20, 0x20, 0x20, 0x20]" by code_simp+
  have "length ?keys = 2" by simp
  then have "\<exists>m. riscv_main_turns demo_firmware 2 ?m = Some m \<and> fst m = [0x41, 0x0D, 0x0A]"
    using riscv_echoes [OF demo_firmware_console, of ?m ?keys "[]" 0 "[]"] polls line(1) by (metis append_Nil fst_conv)
  then show ?thesis
    using riscv_echoes [OF demo_firmware_console, of "([], [])" "[]" "[]" 1 "[0x09, 0x42]"] line(2) by auto
qed

text \<open>C40: The header and the make file that the build makes of a configuration carry the same settings, those
  of the configuration, in its order, when both are read line by line, so that a comment which ends early in the
  header is not seen. The lines have to fit into the buffer of the tools, and the
  names must not hold a space.\<close>

theorem tools_agree:
  assumes "fitting_lines input" and "plain_names input"
  shows "\<exists>h m. config2header (Some input) = (h, 0) \<and> config2makefile (Some input) = (m, 0)
    \<and> read_header h = settings input \<and> read_makefile m = settings input"
  using tools_read [OF assms] by (simp add: config2header_def config2makefile_def)

theorem tools_agree_witness:
  "\<exists>h m. config2header (Some demo_config) = (h, 0) \<and> config2makefile (Some demo_config) = (m, 0)
    \<and> read_header h = [(chars ''A'', chars ''y''), (chars ''B'', chars ''C=D'')] \<and> read_makefile m = read_header h"
  using tools_agree [OF demo_config_ok] demo_config_settings by auto

end
